(* ===== verification/Prelude.thy ===== *)
theory Prelude
  imports Main "HOL-Library.Sublist"
begin

text \<open>
  The shared layer of the development: the types every component uses (text and byte
  buffers, results), the parts of Rust's standard library the components call (decimal
  printing and parsing, trimming, splitting, UTF-8 validity, bounded integers) and the
  generic lemmas about them. A Rust \<^verbatim>\<open>String\<close>, \<^verbatim>\<open>&str\<close> or \<^verbatim>\<open>Vec<u8>\<close> is a \<^typ>\<open>string\<close>,
  the list of its bytes: \<^verbatim>\<open>as_bytes\<close> is the identity and lengths are byte lengths.
\<close>

type_synonym bytes = string

text \<open>The collections the component proofs pull in with \<^theory_text>\<open>simp add:\<close>.\<close>

named_theorems text_simps \<open>facts about decimal text, trimming and splitting\<close>
named_theorems int_defs \<open>definitions of the bounded integer operations\<close>

section \<open>Bounded integers\<close>

definition i64_min :: int where "i64_min = - (2 ^ 63)"
definition i64_max :: int where "i64_max = 2 ^ 63 - 1"
definition u64_max :: nat where "u64_max = 2 ^ 64 - 1"
definition u32_max :: nat where "u32_max = 2 ^ 32 - 1"

definition in_i64 :: "int \<Rightarrow> bool" where
  "in_i64 n \<longleftrightarrow> i64_min \<le> n \<and> n \<le> i64_max"

text \<open>\<^verbatim>\<open>i64::saturating_add\<close>, \<^verbatim>\<open>as u32\<close> and \<^verbatim>\<open>as u64\<close> on a non-negative value.\<close>

definition i64_saturating_add :: "int \<Rightarrow> int \<Rightarrow> int" where
  "i64_saturating_add a b = max i64_min (min i64_max (a + b))"

definition as_u32 :: "nat \<Rightarrow> nat" where "as_u32 n = n mod 2 ^ 32"
definition as_u64 :: "nat \<Rightarrow> nat" where "as_u64 n = n mod 2 ^ 64"

lemmas [int_defs] = i64_min_def i64_max_def u64_max_def u32_max_def in_i64_def
  i64_saturating_add_def as_u32_def as_u64_def

lemma in_i64_saturating_add [simp, intro]: "in_i64 (i64_saturating_add a b)"
  by (simp add: int_defs)

lemma i64_saturating_add_exact: "in_i64 (a + b) \<Longrightarrow> i64_saturating_add a b = a + b"
  by (simp add: int_defs)

lemma in_i64_small: "- 1000000 \<le> n \<Longrightarrow> n \<le> 1000000 \<Longrightarrow> in_i64 n"
  by (simp add: int_defs)

section \<open>Characters\<close>

definition is_digit :: "char \<Rightarrow> bool" where
  "is_digit c \<longleftrightarrow> 48 \<le> (of_char c :: nat) \<and> (of_char c :: nat) \<le> 57"

definition digit_val :: "char \<Rightarrow> nat" where
  "digit_val c = of_char c - 48"

definition digit_char :: "nat \<Rightarrow> char" where
  "digit_char d = char_of (48 + d)"

lemma of_char_digit_char [simp]: "d < 10 \<Longrightarrow> (of_char (digit_char d) :: nat) = 48 + d"
  by (simp add: digit_char_def take_bit_eq_mod)

lemma is_digit_digit_char [simp]: "d < 10 \<Longrightarrow> is_digit (digit_char d)"
  by (simp add: is_digit_def)

lemma digit_val_digit_char [simp]: "d < 10 \<Longrightarrow> digit_val (digit_char d) = d"
  by (simp add: digit_val_def)

lemma digit_val_less: "is_digit c \<Longrightarrow> digit_val c < 10"
  by (auto simp: is_digit_def digit_val_def)

lemma of_char_less_256 [simp]: "(of_char c :: nat) < 256"
  by (metis mod_less_divisor of_char_mod_256 zero_less_numeral)

definition ascii_lower_char :: "char \<Rightarrow> char" where
  "ascii_lower_char c =
     (let n = (of_char c :: nat) in if 65 \<le> n \<and> n \<le> 90 then char_of (n + 32) else c)"

definition ascii_upper_char :: "char \<Rightarrow> char" where
  "ascii_upper_char c =
     (let n = (of_char c :: nat) in if 97 \<le> n \<and> n \<le> 122 then char_of (n - 32) else c)"

definition to_ascii_lowercase :: "string \<Rightarrow> string" where
  "to_ascii_lowercase = map ascii_lower_char"

definition to_ascii_uppercase :: "string \<Rightarrow> string" where
  "to_ascii_uppercase = map ascii_upper_char"

definition eq_ignore_ascii_case :: "string \<Rightarrow> string \<Rightarrow> bool" where
  "eq_ignore_ascii_case a b \<longleftrightarrow> to_ascii_lowercase a = to_ascii_lowercase b"

text \<open>One digit of \<^verbatim>\<open>{:x}\<close> and of \<^verbatim>\<open>{:X}\<close>.\<close>

definition hex_digit :: "nat \<Rightarrow> char" where
  "hex_digit d = (if d < 10 then char_of (48 + d) else char_of (87 + d))"

definition hex_upper :: "nat \<Rightarrow> char" where
  "hex_upper d = (if d < 10 then char_of (48 + d) else char_of (55 + d))"

lemma of_char_hex_digit:
  "d < 16 \<Longrightarrow> (of_char (hex_digit d) :: nat) = (if d < 10 then 48 + d else 87 + d)"
  by (auto simp: hex_digit_def of_char_of)

lemma hex_digit_inject:
  assumes "a < 16" "b < 16" "hex_digit a = hex_digit b"
  shows "a = b"
proof -
  have "(if a < 10 then 48 + a else 87 + a) = (if b < 10 then 48 + b else 87 + b)"
    using of_char_hex_digit assms by metis
  then show ?thesis by (simp split: if_splits)
qed

section \<open>Decimal text\<close>

text \<open>\<^verbatim>\<open>to_string\<close> of an unsigned and of a signed integer.\<close>

fun nat_dec :: "nat \<Rightarrow> string" where
  "nat_dec n = (if n < 10 then [digit_char n] else nat_dec (n div 10) @ [digit_char (n mod 10)])"

declare nat_dec.simps [simp del]

definition int_dec :: "int \<Rightarrow> string" where
  "int_dec n = (if n < 0 then CHR ''-'' # nat_dec (nat (- n)) else nat_dec (nat n))"

text \<open>The value of a run of digits, most significant first.\<close>

definition digits_value :: "string \<Rightarrow> nat" where
  "digits_value s = foldl (\<lambda>n c. 10 * n + digit_val c) 0 s"

definition all_digits :: "string \<Rightarrow> bool" where
  "all_digits s \<longleftrightarrow> s \<noteq> [] \<and> list_all is_digit s"

text \<open>
  \<^verbatim>\<open>str::parse\<close> for an unsigned type with the given maximum and for \<^verbatim>\<open>i64\<close>: one optional
  sign, at least one digit, nothing else, and an error when the value does not fit. A
  minus sign is an error for an unsigned type.
\<close>

definition strip_plus :: "string \<Rightarrow> string" where
  "strip_plus s = (case s of [] \<Rightarrow> [] | c # r \<Rightarrow> if c = CHR ''+'' then r else s)"

definition parse_uint :: "nat \<Rightarrow> string \<Rightarrow> nat option" where
  "parse_uint mx s =
     (let t = strip_plus s
      in if all_digits t \<and> digits_value t \<le> mx then Some (digits_value t) else None)"

definition parse_i64 :: "string \<Rightarrow> int option" where
  "parse_i64 s =
     (if s \<noteq> [] \<and> hd s = CHR ''-''
      then (let n = - int (digits_value (tl s))
            in if all_digits (tl s) \<and> in_i64 n then Some n else None)
      else (let t = strip_plus s; n = int (digits_value t)
            in if all_digits t \<and> in_i64 n then Some n else None))"

lemma nat_dec_nonempty [simp]: "nat_dec n \<noteq> []"
  by (subst nat_dec.simps) simp

lemma nat_dec_digits [simp]: "list_all is_digit (nat_dec n)"
proof (induction n rule: nat_dec.induct)
  case (1 n)
  then show ?case by (subst nat_dec.simps) auto
qed

lemma nat_dec_digit: "c \<in> set (nat_dec n) \<Longrightarrow> is_digit c"
  using nat_dec_digits [of n] by (simp add: list_all_iff)

lemma all_digits_nat_dec [text_simps, simp]: "all_digits (nat_dec n)"
  by (simp add: all_digits_def)

lemma digits_value_append [simp]: "digits_value (s @ [c]) = 10 * digits_value s + digit_val c"
  by (simp add: digits_value_def)

lemma digits_value_nat_dec [text_simps, simp]: "digits_value (nat_dec n) = n"
proof (induction n rule: nat_dec.induct)
  case (1 n)
  show ?case
  proof (cases "n < 10")
    case True
    then show ?thesis by (subst nat_dec.simps) (simp add: digits_value_def)
  next
    case False
    with 1 show ?thesis by (subst nat_dec.simps) simp
  qed
qed

lemma nat_dec_inject [simp]: "nat_dec m = nat_dec n \<longleftrightarrow> m = n"
  by (metis digits_value_nat_dec)

lemma is_digit_not_sign: "is_digit c \<Longrightarrow> c \<noteq> CHR ''+'' \<and> c \<noteq> CHR ''-''"
  by (auto simp: is_digit_def)

lemma hd_nat_dec [simp]: "is_digit (hd (nat_dec n))"
  by (rule nat_dec_digit [of _ n]) simp

lemma hd_nat_dec_no_sign [simp]:
  "hd (nat_dec n) \<noteq> CHR ''+''" "hd (nat_dec n) \<noteq> CHR ''-''"
  using hd_nat_dec [of n] is_digit_not_sign by blast+

lemma strip_plus_nat_dec [text_simps, simp]: "strip_plus (nat_dec n) = nat_dec n"
  using hd_nat_dec_no_sign(1) [of n] by (cases "nat_dec n") (simp_all add: strip_plus_def)

lemma parse_uint_nat_dec [text_simps, simp]:
  "n \<le> mx \<Longrightarrow> parse_uint mx (nat_dec n) = Some n"
  by (simp add: parse_uint_def)

lemma parse_uint_bound: "parse_uint mx s = Some n \<Longrightarrow> n \<le> mx"
  by (auto simp: parse_uint_def Let_def split: if_splits)

lemma parse_i64_in: "parse_i64 s = Some n \<Longrightarrow> in_i64 n"
  by (auto simp: parse_i64_def Let_def split: if_splits)

lemma parse_i64_int_dec [text_simps, simp]: "in_i64 n \<Longrightarrow> parse_i64 (int_dec n) = Some n"
  by (simp add: parse_i64_def int_dec_def)

section \<open>Trimming\<close>

text \<open>
  \<^verbatim>\<open>str::trim\<close> removes Unicode \<^verbatim>\<open>White_Space\<close> at both ends. The encodings of those code
  points in UTF-8 are listed; a valid UTF-8 text starts (ends) with such a character exactly
  when it starts (ends) with one of these byte sequences.
\<close>

definition ws_seqs :: "string list" where
  "ws_seqs = [[CHR 0x09], [CHR 0x0A], [CHR 0x0B], [CHR 0x0C], [CHR 0x0D], [CHR 0x20],
     [CHR 0xC2, CHR 0x85], [CHR 0xC2, CHR 0xA0], [CHR 0xE1, CHR 0x9A, CHR 0x80],
     [CHR 0xE2, CHR 0x80, CHR 0x80], [CHR 0xE2, CHR 0x80, CHR 0x81],
     [CHR 0xE2, CHR 0x80, CHR 0x82], [CHR 0xE2, CHR 0x80, CHR 0x83],
     [CHR 0xE2, CHR 0x80, CHR 0x84], [CHR 0xE2, CHR 0x80, CHR 0x85],
     [CHR 0xE2, CHR 0x80, CHR 0x86], [CHR 0xE2, CHR 0x80, CHR 0x87],
     [CHR 0xE2, CHR 0x80, CHR 0x88], [CHR 0xE2, CHR 0x80, CHR 0x89],
     [CHR 0xE2, CHR 0x80, CHR 0x8A], [CHR 0xE2, CHR 0x80, CHR 0xA8],
     [CHR 0xE2, CHR 0x80, CHR 0xA9], [CHR 0xE2, CHR 0x80, CHR 0xAF],
     [CHR 0xE2, CHR 0x81, CHR 0x9F], [CHR 0xE3, CHR 0x80, CHR 0x80]]"

definition seq_len :: "string list \<Rightarrow> string \<Rightarrow> nat" where
  "seq_len ws s = (case find (\<lambda>w. w \<noteq> [] \<and> prefix w s) ws of None \<Rightarrow> 0 | Some w \<Rightarrow> length w)"

lemma seq_len_le: "seq_len ws s \<le> length s"
  by (auto simp: seq_len_def find_Some_iff prefix_length_le split: option.splits)

function strip_seqs :: "string list \<Rightarrow> string \<Rightarrow> string" where
  "strip_seqs ws s = (if seq_len ws s = 0 then s else strip_seqs ws (drop (seq_len ws s) s))"
  by pat_completeness auto
termination
proof (relation "measure (\<lambda>(ws, s). length s)", goal_cases)
  case (2 ws s)
  then show ?case using seq_len_le [of ws s] by auto
qed simp

declare strip_seqs.simps [simp del]

definition trim_start :: "string \<Rightarrow> string" where
  "trim_start s = strip_seqs ws_seqs s"

definition trim_end :: "string \<Rightarrow> string" where
  "trim_end s = rev (strip_seqs (map rev ws_seqs) (rev s))"

definition trim :: "string \<Rightarrow> string" where
  "trim s = trim_end (trim_start s)"

text \<open>\<^verbatim>\<open>trim_start_matches\<close>, \<^verbatim>\<open>trim_end_matches\<close> and \<^verbatim>\<open>trim_matches\<close> of a single character.\<close>

definition trim_start_char :: "char \<Rightarrow> string \<Rightarrow> string" where
  "trim_start_char c s = dropWhile (\<lambda>x. x = c) s"

definition trim_end_char :: "char \<Rightarrow> string \<Rightarrow> string" where
  "trim_end_char c s = rev (dropWhile (\<lambda>x. x = c) (rev s))"

definition trim_char :: "char \<Rightarrow> string \<Rightarrow> string" where
  "trim_char c s = trim_end_char c (trim_start_char c s)"

text \<open>\<^verbatim>\<open>strip_prefix\<close> and \<^verbatim>\<open>strip_suffix\<close> of a single character.\<close>

definition strip_prefix_char :: "char \<Rightarrow> string \<Rightarrow> string option" where
  "strip_prefix_char c s = (if s \<noteq> [] \<and> hd s = c then Some (tl s) else None)"

definition strip_suffix_char :: "char \<Rightarrow> string \<Rightarrow> string option" where
  "strip_suffix_char c s = (if s \<noteq> [] \<and> last s = c then Some (butlast s) else None)"

lemma seq_len_0: "(\<And>w. w \<in> set ws \<Longrightarrow> w \<noteq> [] \<Longrightarrow> hd w \<noteq> hd s) \<Longrightarrow> seq_len ws s = 0"
proof -
  assume hd: "\<And>w. w \<in> set ws \<Longrightarrow> w \<noteq> [] \<Longrightarrow> hd w \<noteq> hd s"
  have "\<not> prefix w s" if "w \<in> set ws" "w \<noteq> []" for w
    using hd [OF that] that(2) by (auto simp: prefix_def)
  then have "find (\<lambda>w. w \<noteq> [] \<and> prefix w s) ws = None"
    by (auto simp: find_None_iff)
  then show ?thesis by (simp add: seq_len_def)
qed

lemma strip_seqs_id: "(\<And>w. w \<in> set ws \<Longrightarrow> w \<noteq> [] \<Longrightarrow> hd w \<noteq> hd s) \<Longrightarrow> strip_seqs ws s = s"
  by (subst strip_seqs.simps) (simp add: seq_len_0)

text \<open>A text whose first and last bytes are printable ASCII is not changed.\<close>

definition graphic :: "char \<Rightarrow> bool" where
  "graphic c \<longleftrightarrow> 33 \<le> (of_char c :: nat) \<and> (of_char c :: nat) \<le> 126"

lemma ws_seqs_not_graphic:
  "list_all (\<lambda>w. \<not> graphic (hd w) \<and> \<not> graphic (last w)) ws_seqs"
  by (simp add: ws_seqs_def graphic_def)

lemma trim_id [text_simps]:
  assumes "graphic (hd s)" "graphic (last s)"
  shows "trim s = s"
proof -
  have w: "hd w \<noteq> hd s \<and> last w \<noteq> last s" if "w \<in> set ws_seqs" for w
    using that ws_seqs_not_graphic assms by (auto simp: list_all_iff)
  have "trim_start s = s" unfolding trim_start_def
    using w by (intro strip_seqs_id) blast
  moreover have "strip_seqs (map rev ws_seqs) (rev s) = rev s"
    using w by (intro strip_seqs_id) (auto simp: hd_rev)
  ultimately show ?thesis by (simp add: trim_def trim_end_def)
qed

lemma trim_Nil [text_simps, simp]: "trim [] = []"
  using strip_seqs.simps [of ws_seqs "[]"] strip_seqs.simps [of "map rev ws_seqs" "[]"] seq_len_le [of _ "[]"]
  by (simp add: trim_def trim_start_def trim_end_def)

lemma seq_len_space: "seq_len ws_seqs (CHR '' '' # s) = 1"
  by (simp add: seq_len_def ws_seqs_def)

lemma trim_space [text_simps]: "trim (CHR '' '' # s) = trim s"
  by (simp add: trim_def trim_start_def strip_seqs.simps [of ws_seqs "CHR '' '' # s"] seq_len_space)

lemma trim_graphic [text_simps]: "\<forall>c \<in> set s. graphic c \<Longrightarrow> trim s = s"
  by (cases "s = []") (simp_all add: trim_id)

lemma is_digit_graphic [simp]: "is_digit c \<Longrightarrow> graphic c"
  by (auto simp: is_digit_def graphic_def)

lemma last_nat_dec [simp]: "is_digit (last (nat_dec n))"
  by (rule nat_dec_digit [of _ n]) simp

lemma trim_nat_dec [text_simps, simp]: "trim (nat_dec n) = nat_dec n"
  by (simp add: trim_id)

lemma trim_int_dec [text_simps, simp]: "trim (int_dec n) = int_dec n"
  by (rule trim_id) (auto simp: int_dec_def graphic_def [of "CHR ''-''"])

section \<open>Splitting and joining\<close>

text \<open>\<^verbatim>\<open>str::split(c)\<close>: every occurrence of the separator splits; the result is never empty.\<close>

fun split_on :: "char \<Rightarrow> string \<Rightarrow> string list" where
  "split_on c [] = [[]]"
| "split_on c (x # xs) =
     (if x = c then [] # split_on c xs
      else (case split_on c xs of [] \<Rightarrow> [[x]] | y # ys \<Rightarrow> (x # y) # ys))"

text \<open>\<^verbatim>\<open>split_once(c)\<close>: at the first occurrence, or \<^const>\<open>None\<close>.\<close>

fun split_once :: "char \<Rightarrow> string \<Rightarrow> (string \<times> string) option" where
  "split_once c [] = None"
| "split_once c (x # xs) =
     (if x = c then Some ([], xs)
      else map_option (\<lambda>(a, b). (x # a, b)) (split_once c xs))"

text \<open>\<^verbatim>\<open>[..].join(sep)\<close>.\<close>

fun join :: "string \<Rightarrow> string list \<Rightarrow> string" where
  "join sep [] = []"
| "join sep [x] = x"
| "join sep (x # y # xs) = x @ sep @ join sep (y # xs)"

lemma split_on_nonempty [simp]: "split_on c s \<noteq> []"
  by (induction s) (auto split: list.splits)

lemma join_split_on [text_simps, simp]: "join [c] (split_on c s) = s"
proof (induction s)
  case (Cons x xs)
  then show ?case
    by (cases "split_on c xs"; cases "tl (split_on c xs)") auto
qed simp

lemma split_on_no_sep: "w \<in> set (split_on c s) \<Longrightarrow> c \<notin> set w"
  by (induction s arbitrary: w) (auto split: list.splits if_splits)

lemma split_on_single [text_simps]: "c \<notin> set s \<Longrightarrow> split_on c s = [s]"
  by (induction s) auto

lemma split_on_append_sep [text_simps]:
  "c \<notin> set s \<Longrightarrow> split_on c (s @ c # t) = s # split_on c t"
  by (induction s) auto

lemma split_on_append_many:
  "split_on c (s @ c # t) = split_on c s @ split_on c t"
  by (induction s) (auto split: list.splits)

lemma split_on_join [text_simps]:
  "ws \<noteq> [] \<Longrightarrow> \<forall>w \<in> set ws. c \<notin> set w \<Longrightarrow> split_on c (join [c] ws) = ws"
  by (induction "[c]" ws rule: join.induct) (auto simp: text_simps)

lemma split_once_None: "split_once c s = None \<longleftrightarrow> c \<notin> set s"
  by (induction s) auto

lemma split_once_Some:
  "split_once c s = Some (a, b) \<Longrightarrow> s = a @ c # b \<and> c \<notin> set a"
  by (induction s arbitrary: a) (auto split: if_splits)

lemma split_once_append [text_simps]:
  "c \<notin> set a \<Longrightarrow> split_once c (a @ c # b) = Some (a, b)"
  by (induction a) auto

lemma split_once_skip: "c \<notin> set a \<Longrightarrow> split_once c a = None"
  by (simp add: split_once_None)

text \<open>\<^verbatim>\<open>iter().position(..)\<close> of an element.\<close>

fun position :: "'a list \<Rightarrow> 'a \<Rightarrow> nat option" where
  "position [] x = None"
| "position (y # ys) x = (if y = x then Some 0 else map_option Suc (position ys x))"

lemma position_nth [text_simps]: "distinct xs \<Longrightarrow> i < length xs \<Longrightarrow> position xs (xs ! i) = Some i"
  by (induction xs arbitrary: i) (auto simp: nth_Cons split: nat.splits)

section \<open>UTF-8\<close>

text \<open>
  \<^verbatim>\<open>str::from_utf8\<close> succeeds exactly on these byte sequences (the well-formed table of the
  Unicode standard, which the Rust reference adopts).
\<close>

definition cont_byte :: "char \<Rightarrow> bool" where
  "cont_byte c \<longleftrightarrow> 0x80 \<le> (of_char c :: nat) \<and> (of_char c :: nat) \<le> 0xBF"

definition byte_in :: "nat \<Rightarrow> nat \<Rightarrow> char \<Rightarrow> bool" where
  "byte_in lo hi c \<longleftrightarrow> lo \<le> (of_char c :: nat) \<and> (of_char c :: nat) \<le> hi"

definition utf8_second :: "char \<Rightarrow> char \<Rightarrow> bool" where
  "utf8_second c d =
     (let n = (of_char c :: nat) in
      if n = 0xE0 then byte_in 0xA0 0xBF d
      else if n = 0xED then byte_in 0x80 0x9F d
      else if n = 0xF0 then byte_in 0x90 0xBF d
      else if n = 0xF4 then byte_in 0x80 0x8F d
      else cont_byte d)"

text \<open>\<^verbatim>\<open>char::to_digit(16)\<close>.\<close>

definition hex_value :: "char \<Rightarrow> nat option" where
  "hex_value c = (let n = (of_char c :: nat) in
     if is_digit c then Some (n - 48) else if byte_in 65 70 c then Some (n - 55)
     else if byte_in 97 102 c then Some (n - 87) else None)"

fun utf8_valid :: "string \<Rightarrow> bool" where
  "utf8_valid [] = True"
| "utf8_valid (c # s) =
     (if (of_char c :: nat) < 0x80 then utf8_valid s
      else if byte_in 0xC2 0xDF c then
        (case s of d # r \<Rightarrow> cont_byte d \<and> utf8_valid r | [] \<Rightarrow> False)
      else if byte_in 0xE0 0xEF c then
        (case s of d # e # r \<Rightarrow> utf8_second c d \<and> cont_byte e \<and> utf8_valid r | _ \<Rightarrow> False)
      else if byte_in 0xF0 0xF4 c then
        (case s of d # e # f # r \<Rightarrow>
           utf8_second c d \<and> cont_byte e \<and> cont_byte f \<and> utf8_valid r | _ \<Rightarrow> False)
      else False)"

lemma utf8_valid_ascii [text_simps]:
  "\<forall>c \<in> set s. (of_char c :: nat) < 0x80 \<Longrightarrow> utf8_valid s"
  by (induction s) auto

lemma graphic_ascii: "graphic c \<Longrightarrow> (of_char c :: nat) < 0x80"
  by (auto simp: graphic_def)

lemma utf8_valid_graphic [text_simps]: "\<forall>c \<in> set s. graphic c \<Longrightarrow> utf8_valid s"
  by (simp add: utf8_valid_ascii graphic_ascii)

lemma int_dec_graphic: "c \<in> set (int_dec n) \<Longrightarrow> graphic c"
  by (auto simp: int_dec_def graphic_def [of "CHR ''-''"] dest: nat_dec_digit split: if_splits)

lemma utf8_valid_int_dec [simp]: "utf8_valid (int_dec n)"
  by (simp add: utf8_valid_graphic int_dec_graphic)

lemma utf8_valid_nat_dec [simp]: "utf8_valid (nat_dec n)"
  by (simp add: utf8_valid_graphic nat_dec_digit)

text \<open>
  \<^verbatim>\<open>str::chars\<close>: the characters of a valid text, each as its UTF-8 bytes. The lead byte gives
  the length.
\<close>

definition utf8_len :: "char \<Rightarrow> nat" where
  "utf8_len c =
     (let n = (of_char c :: nat)
      in if n < 0xC0 then 1 else if n < 0xE0 then 2 else if n < 0xF0 then 3 else 4)"

fun chars :: "string \<Rightarrow> string list" where
  "chars [] = []"
| "chars (c # s) = take (utf8_len c) (c # s) # chars (drop (utf8_len c - 1) s)"

definition is_whitespace :: "string \<Rightarrow> bool" where
  "is_whitespace ch \<longleftrightarrow> ch \<in> set ws_seqs"

text \<open>\<^verbatim>\<open>str::split_whitespace\<close>: the maximal runs of other characters.\<close>

fun words_of :: "string list \<Rightarrow> string \<Rightarrow> string list" where
  "words_of [] cur = (if cur = [] then [] else [cur])"
| "words_of (ch # cs) cur =
     (if is_whitespace ch then (if cur = [] then words_of cs [] else cur # words_of cs [])
      else words_of cs (cur @ ch))"

definition split_whitespace :: "string \<Rightarrow> string list" where
  "split_whitespace s = words_of (chars s) []"

lemma chars_ascii [text_simps]:
  "\<forall>c \<in> set s. (of_char c :: nat) < 0x80 \<Longrightarrow> chars s = map (\<lambda>c. [c]) s"
  by (induction s) (simp_all add: utf8_len_def Let_def)

lemma concat_chars [simp]: "concat (chars s) = s"
proof (induction s rule: chars.induct)
  case (2 c s)
  have "utf8_len c = Suc (utf8_len c - 1)" by (simp add: utf8_len_def Let_def)
  then have "take (utf8_len c) (c # s) = c # take (utf8_len c - 1) s"
    by (metis take_Suc_Cons)
  then show ?case using 2 by simp
qed simp

lemma graphic_not_whitespace [simp]: "graphic c \<Longrightarrow> \<not> is_whitespace [c]"
  using ws_seqs_not_graphic by (auto simp: is_whitespace_def list_all_iff)

text \<open>
  \<^verbatim>\<open>String::from_utf8_lossy\<close>: each longest prefix of a broken sequence becomes one replacement
  character.
\<close>

definition REPLACEMENT :: string where "REPLACEMENT = [CHR 0xEF, CHR 0xBF, CHR 0xBD]"

fun from_utf8_lossy :: "string \<Rightarrow> string" where
  "from_utf8_lossy [] = []"
| "from_utf8_lossy (c # s) =
     (if (of_char c :: nat) < 0x80 then c # from_utf8_lossy s
      else if byte_in 0xC2 0xDF c then
        (case s of
           d # r \<Rightarrow> if cont_byte d then c # d # from_utf8_lossy r
                    else REPLACEMENT @ from_utf8_lossy (d # r)
         | [] \<Rightarrow> REPLACEMENT)
      else if byte_in 0xE0 0xEF c then
        (case s of
           d # r \<Rightarrow>
             if \<not> utf8_second c d then REPLACEMENT @ from_utf8_lossy (d # r)
             else (case r of
                     e # r2 \<Rightarrow> if cont_byte e then c # d # e # from_utf8_lossy r2
                               else REPLACEMENT @ from_utf8_lossy (e # r2)
                   | [] \<Rightarrow> REPLACEMENT)
         | [] \<Rightarrow> REPLACEMENT)
      else if byte_in 0xF0 0xF4 c then
        (case s of
           d # r \<Rightarrow>
             if \<not> utf8_second c d then REPLACEMENT @ from_utf8_lossy (d # r)
             else (case r of
                     e # r2 \<Rightarrow>
                       if \<not> cont_byte e then REPLACEMENT @ from_utf8_lossy (e # r2)
                       else (case r2 of
                               g # r3 \<Rightarrow> if cont_byte g then c # d # e # g # from_utf8_lossy r3
                                         else REPLACEMENT @ from_utf8_lossy (g # r3)
                             | [] \<Rightarrow> REPLACEMENT)
                   | [] \<Rightarrow> REPLACEMENT)
         | [] \<Rightarrow> REPLACEMENT)
      else REPLACEMENT @ from_utf8_lossy s)"

lemma from_utf8_lossy_id [text_simps]: "utf8_valid s \<Longrightarrow> from_utf8_lossy s = s"
proof (induction s rule: utf8_valid.induct)
  case (2 c s)
  consider "(of_char c :: nat) < 0x80" | "\<not> (of_char c :: nat) < 0x80" "byte_in 0xC2 0xDF c"
    | "\<not> (of_char c :: nat) < 0x80" "\<not> byte_in 0xC2 0xDF c" "byte_in 0xE0 0xEF c"
    | "\<not> (of_char c :: nat) < 0x80" "\<not> byte_in 0xC2 0xDF c" "\<not> byte_in 0xE0 0xEF c"
    by blast
  then show ?case
  proof cases
    case 3
    with 2 show ?thesis by (cases s; cases "tl s") simp_all
  next
    case 4
    with "2.prems" have f: "byte_in 0xF0 0xF4 c" by (simp split: if_splits)
    with 2 4 show ?thesis by (cases s; cases "tl s"; cases "tl (tl s)") simp_all
  qed (use 2 in \<open>cases s; simp\<close>)+
qed simp

text \<open>The dash the error messages use.\<close>

definition EM_DASH :: string where "EM_DASH = [CHR 0xE2, CHR 0x80, CHR 0x94]"

text \<open>\<^verbatim>\<open>byte as char\<close>, as UTF-8.\<close>

definition latin1 :: "char \<Rightarrow> string" where
  "latin1 c = (let n = (of_char c :: nat)
     in if n < 0x80 then [c] else [char_of (0xC0 + n div 64), char_of (0x80 + n mod 64)])"

lemma is_whitespace_space [simp]: "is_whitespace '' ''"
  by (simp add: is_whitespace_def ws_seqs_def)

lemma words_of_graphic:
  "\<forall>c \<in> set w. graphic c \<Longrightarrow> words_of (map (\<lambda>c. [c]) w @ cs) cur = words_of cs (cur @ w)"
  by (induction w arbitrary: cur) auto

lemma words_of_join:
  assumes "ws \<noteq> []" "\<forall>w \<in> set ws. w \<noteq> [] \<and> (\<forall>c \<in> set w. graphic c)"
  shows "words_of (map (\<lambda>c. [c]) (join '' '' ws)) [] = ws"
  using assms
proof (induction "'' ''" ws rule: join.induct)
  case (2 x)
  then show ?case using words_of_graphic [of x "[]" "[]"] by simp
next
  case (3 x y xs)
  then show ?case by (simp add: words_of_graphic)
qed simp

lemma join_chars: "\<forall>w \<in> set ws. \<forall>c \<in> set w. P c \<Longrightarrow> \<forall>c \<in> set sep. P c \<Longrightarrow> \<forall>c \<in> set (join sep ws). P c"
  by (induction sep ws rule: join.induct) auto

lemma split_whitespace_join [text_simps]:
  assumes "ws \<noteq> []" "\<forall>w \<in> set ws. w \<noteq> [] \<and> (\<forall>c \<in> set w. graphic c)"
  shows "split_whitespace (join '' '' ws) = ws"
proof -
  have "\<forall>c \<in> set (join '' '' ws). (of_char c :: nat) < 0x80"
    using assms(2) by (intro join_chars) (auto simp: graphic_ascii)
  then show ?thesis by (simp add: split_whitespace_def chars_ascii words_of_join assms)
qed

section \<open>Numbers in a positional system\<close>

definition base_value :: "nat \<Rightarrow> nat list \<Rightarrow> nat" where
  "base_value b ds = foldl (\<lambda>n d. b * n + d) 0 ds"

lemma base_value_Nil [simp]: "base_value b [] = 0"
  by (simp add: base_value_def)

lemma base_value_snoc [simp]: "base_value b (ds @ [d]) = b * base_value b ds + d"
  by (simp add: base_value_def)

lemma base_value_inject:
  assumes "length xs = length ys" "\<forall>x \<in> set xs. x < b" "\<forall>y \<in> set ys. y < b"
    "base_value b xs = base_value b ys"
  shows "xs = ys"
  using assms
proof (induction xs arbitrary: ys rule: rev_induct)
  case (snoc x xs)
  then obtain y ys' where ys: "ys = ys' @ [y]"
    by (metis append_Nil2 append_eq_append_conv length_0_conv neq_Nil_conv rev_exhaust)
  have eq: "b * base_value b xs + x = b * base_value b ys' + y"
    and lt: "x < b" "y < b"
    using snoc.prems by (simp_all add: ys)
  have "x = y" using arg_cong [OF eq, of "\<lambda>n. n mod b"] lt by simp
  moreover have "base_value b xs = base_value b ys'"
    using arg_cong [OF eq, of "\<lambda>n. n div b"] lt by simp
  ultimately show ?case using snoc ys by simp
qed simp

end
