(* ===== verification/Support_Error.thy ===== *)
theory Support_Error
  imports Prelude
begin

text \<open>
  The framework error of \<^verbatim>\<open>rainier-support/src/error.rs\<close>: every component fails with it. A
  kind decides the HTTP status; \<^verbatim>\<open>details\<close> is a JSON value; the underlying cause is kept as
  its displayed text. The captured backtrace, which no code path reads to decide anything,
  is left out.
\<close>

datatype json =
    JNull
  | JBool bool
  | JNumber string
  | JString string
  | JArray "json list"
  | JObject "(string \<times> json) list"

datatype error_kind =
    BadRequest | Unauthenticated | Unauthorized | NotFound | MethodNotAllowed | Conflict
  | PayloadTooLarge | Validation | TooManyRequests | Internal | ServiceUnavailable
  | Status nat

fun kind_status :: "error_kind \<Rightarrow> nat" where
  "kind_status BadRequest = 400"
| "kind_status Unauthenticated = 401"
| "kind_status Unauthorized = 403"
| "kind_status NotFound = 404"
| "kind_status MethodNotAllowed = 405"
| "kind_status Conflict = 409"
| "kind_status PayloadTooLarge = 413"
| "kind_status Validation = 422"
| "kind_status TooManyRequests = 429"
| "kind_status Internal = 500"
| "kind_status ServiceUnavailable = 503"
| "kind_status (Status code) = code"

definition is_server_error :: "error_kind \<Rightarrow> bool" where
  "is_server_error k \<longleftrightarrow> kind_status k \<ge> 500"

record error =
  kind :: error_kind
  message :: string
  details :: "json option"
  err_source :: "string option"

type_synonym 'a result = "error + 'a"

text \<open>The \<^verbatim>\<open>?\<close> operator: go on with the value, or return the error.\<close>

definition and_then :: "'a result \<Rightarrow> ('a \<Rightarrow> 'b result) \<Rightarrow> 'b result" where
  "and_then r f = (case r of Inl e \<Rightarrow> Inl e | Inr a \<Rightarrow> f a)"

lemma and_then_simps [simp]:
  "and_then (Inl e) f = Inl e" "and_then (Inr a) f = f a"
  by (simp_all add: and_then_def)

lemma and_then_cong [fundef_cong]:
  "r = r' \<Longrightarrow> (\<And>a. r' = Inr a \<Longrightarrow> f a = g a) \<Longrightarrow> and_then r f = and_then r' g"
  by (cases r') auto

lemma and_then_Inr: "and_then r f = Inr b \<longleftrightarrow> (\<exists>a. r = Inr a \<and> f a = Inr b)"
  by (cases r) auto

lemma and_then_InrE:
  assumes "and_then r f = Inr b"
  obtains a where "r = Inr a" "f a = Inr b"
  using assms by (auto simp: and_then_Inr)

definition error_new :: "error_kind \<Rightarrow> string \<Rightarrow> error" where
  "error_new k m = \<lparr>kind = k, message = m, details = None, err_source = None\<rparr>"

definition err_internal :: "string \<Rightarrow> error" where "err_internal = error_new Internal"
definition err_bad_request :: "string \<Rightarrow> error" where "err_bad_request = error_new BadRequest"
definition err_unauthenticated :: "string \<Rightarrow> error" where
  "err_unauthenticated = error_new Unauthenticated"
definition err_unauthorized :: "string \<Rightarrow> error" where "err_unauthorized = error_new Unauthorized"
definition err_not_found :: "string \<Rightarrow> error" where "err_not_found = error_new NotFound"
definition err_conflict :: "string \<Rightarrow> error" where "err_conflict = error_new Conflict"
definition err_request_timeout :: "string \<Rightarrow> error" where
  "err_request_timeout = error_new (Status 408)"
definition err_too_many_requests :: "string \<Rightarrow> error" where
  "err_too_many_requests = error_new TooManyRequests"
definition err_service_unavailable :: "string \<Rightarrow> error" where
  "err_service_unavailable = error_new ServiceUnavailable"

definition with_details :: "json \<Rightarrow> error \<Rightarrow> error" where
  "with_details d e = e\<lparr>details := Some d\<rparr>"

definition with_source :: "string \<Rightarrow> error \<Rightarrow> error" where
  "with_source s e = e\<lparr>err_source := Some s\<rparr>"

definition with_kind :: "error_kind \<Rightarrow> error \<Rightarrow> error" where
  "with_kind k e = e\<lparr>kind := k\<rparr>"

definition err_validation :: "json \<Rightarrow> error" where
  "err_validation d = with_details d (error_new Validation ''The given data was invalid.'')"

definition error_status :: "error \<Rightarrow> nat" where
  "error_status e = kind_status (kind e)"

text \<open>\<^verbatim>\<open>Display\<close>: the message, and the cause after a colon.\<close>

definition error_display :: "error \<Rightarrow> string" where
  "error_display e =
     message e @ (case err_source e of None \<Rightarrow> [] | Some s \<Rightarrow> '': '' @ s)"

text \<open>The conversions from an \<^verbatim>\<open>io::Error\<close> (its kind and text) and from a JSON error.\<close>

datatype io_kind = IoNotFound | IoPermissionDenied | IoOther

definition error_from_io :: "io_kind \<Rightarrow> string \<Rightarrow> error" where
  "error_from_io k text =
     with_source text (error_new
       (case k of IoNotFound \<Rightarrow> NotFound | IoPermissionDenied \<Rightarrow> Unauthorized | IoOther \<Rightarrow> Internal)
       text)"

definition error_from_json :: "string \<Rightarrow> error" where
  "error_from_json text = with_source text (err_bad_request (''malformed JSON: '' @ text))"

definition error_from_anyhow :: "string \<Rightarrow> error" where
  "error_from_anyhow text = with_source text (err_internal text)"

text \<open>\<^verbatim>\<open>Context::context\<close> on a result and on an option.\<close>

definition result_context :: "string \<Rightarrow> 'a result \<Rightarrow> 'a result" where
  "result_context c r =
     (case r of Inl e \<Rightarrow> Inl (error_new (kind e) (c @ '': '' @ error_display e)) | Inr a \<Rightarrow> Inr a)"

definition option_context :: "string \<Rightarrow> 'a option \<Rightarrow> 'a result" where
  "option_context c r = (case r of None \<Rightarrow> Inl (err_internal c) | Some a \<Rightarrow> Inr a)"

lemmas error_defs = error_new_def err_internal_def err_bad_request_def err_unauthenticated_def
  err_unauthorized_def err_not_found_def err_conflict_def err_request_timeout_def
  err_too_many_requests_def err_service_unavailable_def with_details_def with_source_def
  with_kind_def err_validation_def error_status_def error_display_def

fun contexts :: "string list \<Rightarrow> 'a result \<Rightarrow> 'a result" where
  "contexts [] r = r"
| "contexts (c # cs) r = contexts cs (result_context c r)"

lemma contexts_Inr [simp]: "contexts cs (Inr a) = Inr a"
  by (induction cs) (simp_all add: result_context_def)

lemma contexts_Inl:
  "\<exists>e'. contexts cs (Inl e) = Inl e' \<and> kind e' = kind e \<and>
        error_display e' = foldl (\<lambda>m c. c @ '': '' @ m) (error_display e) cs"
proof (induction cs arbitrary: e)
  case (Cons c cs)
  from Cons [of "error_new (kind e) (c @ '': '' @ error_display e)"] show ?case
    by (simp add: result_context_def error_defs)
qed simp

text \<open>
  However many layers of \<^verbatim>\<open>.context(..)\<close> are added to a result, an error keeps its
  kind (so its status and whether it counts as a server fault), its display is the
  original one with each context prefixed, and a success is untouched.
\<close>

theorem context_keeps_kind:
  "(case contexts cs (r :: 'a result) of
      Inl e' \<Rightarrow> (\<exists>e. r = Inl e \<and> error_status e' = error_status e
                  \<and> is_server_error (kind e') = is_server_error (kind e)
                  \<and> error_display e' = foldl (\<lambda>m c. c @ '': '' @ m) (error_display e) cs)
    | Inr a \<Rightarrow> r = Inr a)"
proof (cases r)
  case (Inl e)
  obtain e' where "contexts cs (Inl e :: 'a result) = Inl e'" "kind e' = kind e"
    "error_display e' = foldl (\<lambda>m c. c @ '': '' @ m) (error_display e) cs"
    using contexts_Inl [of cs e] by blast
  then show ?thesis unfolding Inl by (simp add: error_status_def)
qed simp

end
