(* ===== verification/Hash_Map.thy ===== *)
theory Hash_Map
  imports Prelude "HOL-Library.AList"
begin

text \<open>
  The \<^verbatim>\<open>HashMap\<close>/\<^verbatim>\<open>BTreeMap\<close> of Rust's standard library as far as the components use it: an
  association list with distinct keys. Only \<^verbatim>\<open>get\<close>, \<^verbatim>\<open>insert\<close>, \<^verbatim>\<open>remove\<close>, \<^verbatim>\<open>retain\<close>, \<^verbatim>\<open>clear\<close>,
  \<^verbatim>\<open>len\<close> and \<^verbatim>\<open>contains_key\<close> occur, and no property depends on the order of the list.
\<close>

type_synonym ('k, 'v) hmap = "('k \<times> 'v) list"

definition hm_wf :: "('k, 'v) hmap \<Rightarrow> bool" where
  "hm_wf m \<longleftrightarrow> distinct (map fst m)"

definition hm_get :: "'k \<Rightarrow> ('k, 'v) hmap \<Rightarrow> 'v option" where
  "hm_get k m = map_of m k"

definition hm_insert :: "'k \<Rightarrow> 'v \<Rightarrow> ('k, 'v) hmap \<Rightarrow> ('k, 'v) hmap" where
  "hm_insert k v m = AList.update k v m"

definition hm_remove :: "'k \<Rightarrow> ('k, 'v) hmap \<Rightarrow> ('k, 'v) hmap" where
  "hm_remove k m = AList.delete k m"

definition hm_retain :: "('k \<Rightarrow> 'v \<Rightarrow> bool) \<Rightarrow> ('k, 'v) hmap \<Rightarrow> ('k, 'v) hmap" where
  "hm_retain P m = filter (\<lambda>(k, v). P k v) m"

definition hm_len :: "('k, 'v) hmap \<Rightarrow> nat" where
  "hm_len m = length m"

definition hm_contains :: "'k \<Rightarrow> ('k, 'v) hmap \<Rightarrow> bool" where
  "hm_contains k m \<longleftrightarrow> hm_get k m \<noteq> None"

named_theorems hm_simps \<open>look-ups and well-formedness after each map operation\<close>

lemma hm_get_Nil [hm_simps, simp]: "hm_get k [] = None"
  by (simp add: hm_get_def)

lemma hm_wf_Nil [hm_simps, simp]: "hm_wf []"
  by (simp add: hm_wf_def)

lemma hm_get_insert [hm_simps, simp]:
  "hm_get k' (hm_insert k v m) = (if k' = k then Some v else hm_get k' m)"
  by (simp add: hm_get_def hm_insert_def update_conv')

lemma hm_get_remove [hm_simps, simp]:
  "hm_get k' (hm_remove k m) = (if k' = k then None else hm_get k' m)"
  by (simp add: hm_get_def hm_remove_def delete_conv')

lemma hm_wf_insert [hm_simps, simp]: "hm_wf m \<Longrightarrow> hm_wf (hm_insert k v m)"
  by (simp add: hm_wf_def hm_insert_def distinct_update)

lemma hm_wf_remove [hm_simps, simp]: "hm_wf m \<Longrightarrow> hm_wf (hm_remove k m)"
  by (simp add: hm_wf_def hm_remove_def distinct_delete)

lemma hm_wf_retain [hm_simps, simp]: "hm_wf m \<Longrightarrow> hm_wf (hm_retain P m)"
  by (simp add: hm_wf_def hm_retain_def distinct_map_filter)

lemma hm_get_retain [hm_simps]:
  "hm_wf m \<Longrightarrow>
   hm_get k (hm_retain P m) =
     (case hm_get k m of Some v \<Rightarrow> if P k v then Some v else None | None \<Rightarrow> None)"
  by (induction m) (auto simp: hm_wf_def hm_get_def hm_retain_def map_of_eq_None_iff split: option.splits)

lemma hm_len_insert [hm_simps]:
  "hm_wf m \<Longrightarrow> hm_len (hm_insert k v m) = (if hm_contains k m then hm_len m else Suc (hm_len m))"
  by (induction m) (auto simp: hm_wf_def hm_len_def hm_insert_def hm_contains_def hm_get_def)

lemma hm_get_in_set: "hm_get k m = Some v \<Longrightarrow> (k, v) \<in> set m"
  by (simp add: hm_get_def map_of_SomeD)

lemma hm_get_eq: "hm_wf m \<Longrightarrow> hm_get k m = Some v \<longleftrightarrow> (k, v) \<in> set m"
  by (simp add: hm_get_def hm_wf_def)

lemma hm_len_retain [hm_simps]:
  "hm_len (hm_retain P m) + length (filter (\<lambda>(k, v). \<not> P k v) m) = hm_len m"
  by (induction m) (auto simp: hm_len_def hm_retain_def)

end
