(* ===== verification/Cache_Port.thy ===== *)
theory Cache_Port
  imports Support_Error Hash_Map
begin

text \<open>
  The cache port of \<^verbatim>\<open>rainier-cache/src/cache.rs\<close>. A \<^verbatim>\<open>dyn Cache\<close> is the record of its methods
  over a store of some type; a method takes the clock readings it makes (one argument per
  call of \<^verbatim>\<open>Utc::now()\<close>, in order), its arguments and the store, and gives the new store and
  its \<^verbatim>\<open>Result\<close>. The locale \<open>cache_port\<close> is the contract the documentation of the trait
  states: everything above the port (locks, rate limits) is proved from it.

  Instants are integers (nanoseconds since the epoch), durations natural numbers of
  nanoseconds.
\<close>

type_synonym time = int
type_synonym duration = nat

record 's cache =
  c_name :: string
  c_is_shared :: bool
  c_supports_atomic_add :: bool
  c_get :: "time \<Rightarrow> string \<Rightarrow> 's \<Rightarrow> 's \<times> bytes option result"
  c_put :: "time \<Rightarrow> string \<Rightarrow> bytes \<Rightarrow> duration option \<Rightarrow> 's \<Rightarrow> 's \<times> unit result"
  c_forget :: "string \<Rightarrow> 's \<Rightarrow> 's \<times> bool result"
  c_flush :: "'s \<Rightarrow> 's \<times> unit result"
  c_has :: "time \<Rightarrow> string \<Rightarrow> 's \<Rightarrow> 's \<times> bool result"
  c_increment :: "time \<Rightarrow> time \<Rightarrow> string \<Rightarrow> int \<Rightarrow> 's \<Rightarrow> 's \<times> int result"
  c_add :: "time \<Rightarrow> time \<Rightarrow> string \<Rightarrow> bytes \<Rightarrow> duration option \<Rightarrow> 's \<Rightarrow> 's \<times> bool result"
  c_forget_if :: "time \<Rightarrow> string \<Rightarrow> bytes \<Rightarrow> 's \<Rightarrow> 's \<times> bool result"

text \<open>The trait's default methods.\<close>

definition default_is_shared :: bool where "default_is_shared = True"

definition default_supports_atomic_add :: bool where "default_supports_atomic_add = True"

definition default_has ::
  "(time \<Rightarrow> string \<Rightarrow> 's \<Rightarrow> 's \<times> bytes option result) \<Rightarrow> time \<Rightarrow> string \<Rightarrow> 's \<Rightarrow> 's \<times> bool result"
where
  "default_has get t k s =
     (case get t k s of (s', Inl e) \<Rightarrow> (s', Inl e) | (s', Inr v) \<Rightarrow> (s', Inr (v \<noteq> None)))"

definition health :: "'s cache \<Rightarrow> time \<Rightarrow> 's \<Rightarrow> 's \<times> unit result" where
  "health c t s =
     (case c_get c t ''__readiness__'' s of
        (s', Inl e) \<Rightarrow> (s', Inl e) | (s', Inr _) \<Rightarrow> (s', Inr ()))"

section \<open>Counters\<close>

definition encode_counter :: "int \<Rightarrow> bytes" where
  "encode_counter v = int_dec v"

definition decode_counter :: "bytes \<Rightarrow> int result" where
  "decode_counter bs =
     (if bs = [] then Inr 0
      else (case (if utf8_valid bs then parse_i64 (trim bs) else None) of
              Some n \<Rightarrow> Inr n
            | None \<Rightarrow> Inl (err_internal ''the cached value is not a counter'')))"

lemma encode_counter_nonempty [simp]: "encode_counter n \<noteq> []"
  by (simp add: encode_counter_def int_dec_def)

lemma decode_encode_counter [simp]: "in_i64 n \<Longrightarrow> decode_counter (encode_counter n) = Inr n"
  by (simp add: decode_counter_def encode_counter_def) (simp add: int_dec_def)

lemma decode_counter_in: "decode_counter bs = Inr n \<Longrightarrow> in_i64 n"
  by (auto simp: decode_counter_def in_i64_small dest: parse_i64_in split: if_splits option.splits)

section \<open>The typed conveniences\<close>

text \<open>
  \<^verbatim>\<open>CacheExt\<close>: the JSON codec \<^verbatim>\<open>serde_json\<close> is a parameter, \<open>dec\<close> reading a value from bytes and
  \<open>enc\<close> writing one (or failing with the converted error). \<^verbatim>\<open>remember\<close> takes the outcome of
  the computation as a result that is only looked at on a miss.
\<close>

definition get_json ::
  "(bytes \<Rightarrow> 'v option) \<Rightarrow> 's cache \<Rightarrow> time \<Rightarrow> string \<Rightarrow> 's \<Rightarrow> 's \<times> 'v option result"
where
  "get_json dec c t k s =
     (case c_get c t k s of
        (s', Inl e) \<Rightarrow> (s', Inl e)
      | (s', Inr None) \<Rightarrow> (s', Inr None)
      | (s', Inr (Some bs)) \<Rightarrow> (s', Inr (dec bs)))"

definition put_json ::
  "('v \<Rightarrow> bytes result) \<Rightarrow> 's cache \<Rightarrow> time \<Rightarrow> string \<Rightarrow> 'v \<Rightarrow> duration option \<Rightarrow> 's
    \<Rightarrow> 's \<times> unit result"
where
  "put_json enc c t k v ttl s =
     (case enc v of Inl e \<Rightarrow> (s, Inl e) | Inr bs \<Rightarrow> c_put c t k bs ttl s)"

definition get_string :: "'s cache \<Rightarrow> time \<Rightarrow> string \<Rightarrow> 's \<Rightarrow> 's \<times> string option result" where
  "get_string c t k s =
     (case c_get c t k s of
        (s', Inl e) \<Rightarrow> (s', Inl e)
      | (s', Inr None) \<Rightarrow> (s', Inr None)
      | (s', Inr (Some bs)) \<Rightarrow> (s', Inr (if utf8_valid bs then Some bs else None)))"

definition put_string ::
  "'s cache \<Rightarrow> time \<Rightarrow> string \<Rightarrow> string \<Rightarrow> duration option \<Rightarrow> 's \<Rightarrow> 's \<times> unit result"
where
  "put_string c t k v ttl s = c_put c t k v ttl s"

definition add_string ::
  "'s cache \<Rightarrow> time \<Rightarrow> time \<Rightarrow> string \<Rightarrow> string \<Rightarrow> duration option \<Rightarrow> 's \<Rightarrow> 's \<times> bool result"
where
  "add_string c t0 t1 k v ttl s = c_add c t0 t1 k v ttl s"

definition decrement :: "'s cache \<Rightarrow> time \<Rightarrow> time \<Rightarrow> string \<Rightarrow> int \<Rightarrow> 's \<Rightarrow> 's \<times> int result" where
  "decrement c t0 t1 k by s = c_increment c t0 t1 k (- by) s"

definition remember ::
  "(bytes \<Rightarrow> 'v option) \<Rightarrow> ('v \<Rightarrow> bytes result) \<Rightarrow> 's cache \<Rightarrow> time \<Rightarrow> time \<Rightarrow> string
    \<Rightarrow> duration option \<Rightarrow> 'v result \<Rightarrow> 's \<Rightarrow> 's \<times> 'v result"
where
  "remember dec enc c t0 t1 k ttl compute s =
     (case get_json dec c t0 k s of
        (s', Inl e) \<Rightarrow> (s', Inl e)
      | (s', Inr (Some v)) \<Rightarrow> (s', Inr v)
      | (s', Inr None) \<Rightarrow>
          (case compute of
             Inl e \<Rightarrow> (s', Inl e)
           | Inr v \<Rightarrow> (fst (put_json enc c t1 k v ttl s'), Inr v)))"

definition remember_forever ::
  "(bytes \<Rightarrow> 'v option) \<Rightarrow> ('v \<Rightarrow> bytes result) \<Rightarrow> 's cache \<Rightarrow> time \<Rightarrow> time \<Rightarrow> string
    \<Rightarrow> 'v result \<Rightarrow> 's \<Rightarrow> 's \<times> 'v result"
where
  "remember_forever dec enc c t0 t1 k compute s = remember dec enc c t0 t1 k None compute s"

section \<open>The contract of the port\<close>

text \<open>
  \<open>vis s k t\<close> is what a reader sees at key \<open>k\<close> at instant \<open>t\<close>; \<open>exp t ttl\<close> is when an entry
  written at \<open>t\<close> with that TTL expires. A write never depends on keys other than its own,
  and reading at \<open>t\<close> changes nothing a reader at \<open>t\<close> or later could see.
\<close>

definition live_at :: "time option \<Rightarrow> time \<Rightarrow> bool" where
  "live_at e t = (case e of None \<Rightarrow> True | Some at \<Rightarrow> at > t)"

lemma live_at_mono: "live_at e t' \<Longrightarrow> t \<le> t' \<Longrightarrow> live_at e t"
  by (auto simp: live_at_def split: option.splits)

locale cache_port =
  fixes c :: "'s cache"
    and inv :: "'s \<Rightarrow> bool"
    and vis :: "'s \<Rightarrow> string \<Rightarrow> time \<Rightarrow> bytes option"
    and exp :: "time \<Rightarrow> duration option \<Rightarrow> time option"
  assumes vis_antimono: "inv s \<Longrightarrow> vis s k t' = Some v \<Longrightarrow> t \<le> t' \<Longrightarrow> vis s k t = Some v"
    and get_result: "inv s \<Longrightarrow> snd (c_get c t k s) = Inr (vis s k t)"
    and get_vis: "inv s \<Longrightarrow> t \<le> t' \<Longrightarrow> vis (fst (c_get c t k s)) k' t' = vis s k' t'"
    and put_result: "inv s \<Longrightarrow> snd (c_put c t k v ttl s) = Inr ()"
    and put_vis: "inv s \<Longrightarrow> vis (fst (c_put c t k v ttl s)) k' t' =
           (if k' = k then if live_at (exp t ttl) t' then Some v else None else vis s k' t')"
    and forget_vis: "inv s \<Longrightarrow>
           vis (fst (c_forget c k s)) k' t' = (if k' = k then None else vis s k' t')"
    and forget_result: "inv s \<Longrightarrow> \<exists>b. snd (c_forget c k s) = Inr b"
    and add_result: "inv s \<Longrightarrow> snd (c_add c t0 t1 k v ttl s) = Inr (vis s k t0 = None)"
    and add_vis: "inv s \<Longrightarrow> t0 \<le> t1 \<Longrightarrow> t0 \<le> t' \<Longrightarrow>
           vis (fst (c_add c t0 t1 k v ttl s)) k' t' =
           (if k' = k \<and> vis s k t0 = None
            then if live_at (exp t1 ttl) t' then Some v else None else vis s k' t')"
    and forget_if_result: "inv s \<Longrightarrow> snd (c_forget_if c t k v s) = Inr (vis s k t = Some v)"
    and forget_if_vis: "inv s \<Longrightarrow> vis (fst (c_forget_if c t k v s)) k' t' =
           (if k' = k \<and> vis s k t = Some v then None else vis s k' t')"
    and increment_fresh: "inv s \<Longrightarrow> t0 \<le> t1 \<Longrightarrow> vis s k t0 = None \<Longrightarrow>
           snd (c_increment c t0 t1 k by s) = Inr (i64_saturating_add 0 by) \<and>
           vis (fst (c_increment c t0 t1 k by s)) k t' =
             Some (encode_counter (i64_saturating_add 0 by))"
    and increment_live: "inv s \<Longrightarrow> vis s k t0 = Some raw \<Longrightarrow> decode_counter raw = Inr n \<Longrightarrow>
           vis s k t1 = Some raw \<Longrightarrow> t0 \<le> t1 \<Longrightarrow> t1 \<le> t' \<Longrightarrow>
           snd (c_increment c t0 t1 k by s) = Inr (i64_saturating_add n by) \<and>
           vis (fst (c_increment c t0 t1 k by s)) k t' =
             map_option (\<lambda>_. encode_counter (i64_saturating_add n by)) (vis s k t')"
    and increment_bad: "inv s \<Longrightarrow> vis s k t0 = Some raw \<Longrightarrow> decode_counter raw = Inl e \<Longrightarrow>
           c_increment c t0 t1 k by s = (s, Inl e)"
    and increment_other: "inv s \<Longrightarrow> k' \<noteq> k \<Longrightarrow>
           vis (fst (c_increment c t0 t1 k by s)) k' t' = vis s k' t'"
    and has_result: "inv s \<Longrightarrow> snd (c_has c t k s) = Inr (vis s k t \<noteq> None)"
    and has_vis: "inv s \<Longrightarrow> t \<le> t' \<Longrightarrow> vis (fst (c_has c t k s)) k' t' = vis s k' t'"
    and inv_get: "inv s \<Longrightarrow> inv (fst (c_get c t k s))"
    and inv_put: "inv s \<Longrightarrow> inv (fst (c_put c t k v ttl s))"
    and inv_forget: "inv s \<Longrightarrow> inv (fst (c_forget c k s))"
    and inv_add: "inv s \<Longrightarrow> inv (fst (c_add c t0 t1 k v ttl s))"
    and inv_forget_if: "inv s \<Longrightarrow> inv (fst (c_forget_if c t k v s))"
    and inv_increment: "inv s \<Longrightarrow> inv (fst (c_increment c t0 t1 k by s))"
    and inv_has: "inv s \<Longrightarrow> inv (fst (c_has c t k s))"
begin

lemmas inv_ops [intro, simp] =
  inv_get inv_put inv_forget inv_add inv_forget_if inv_increment inv_has

lemma get_cases: "inv s \<Longrightarrow> c_get c t k s = (fst (c_get c t k s), Inr (vis s k t))"
  by (simp add: get_result prod_eq_iff)

lemma getE:
  assumes "inv s"
  obtains s1 where "c_get c t k s = (s1, Inr (vis s k t))" "inv s1"
    "\<And>k' t'. t \<le> t' \<Longrightarrow> vis s1 k' t' = vis s k' t'"
  using get_cases [OF assms] inv_get [OF assms] get_vis [OF assms] by blast

lemma putE:
  assumes "inv s"
  obtains s1 where "c_put c t k v ttl s = (s1, Inr ())" "inv s1"
    "\<And>k' t'. vis s1 k' t' =
       (if k' = k then if live_at (exp t ttl) t' then Some v else None else vis s k' t')"
  by (metis assms put_result put_vis inv_put prod.collapse)

lemma addE:
  assumes "inv s"
  obtains s1 where "c_add c t0 t1 k v ttl s = (s1, Inr (vis s k t0 = None))" "inv s1"
    "\<And>k' t'. t0 \<le> t1 \<Longrightarrow> t0 \<le> t' \<Longrightarrow> vis s1 k' t' =
       (if k' = k \<and> vis s k t0 = None
        then if live_at (exp t1 ttl) t' then Some v else None else vis s k' t')"
  by (metis (no_types, lifting) assms add_result add_vis inv_add prod.collapse)

lemma get_json_result:
  "inv s \<Longrightarrow> get_json dec c t k s =
     (fst (c_get c t k s), Inr (case vis s k t of None \<Rightarrow> None | Some bs \<Rightarrow> dec bs))"
  by (subst get_json_def, subst get_cases) (auto split: option.splits)

text \<open>A failed computation is returned and leaves every key as a reader would see it.\<close>

lemma remember_failure:
  assumes "inv s" "t0 \<le> t'"
    and "\<And>bs. vis s k t0 = Some bs \<Longrightarrow> dec bs = None"
  shows "snd (remember dec enc c t0 t1 k ttl (Inl e) s) = Inl e \<and>
         vis (fst (remember dec enc c t0 t1 k ttl (Inl e) s)) k' t' = vis s k' t'"
  using assms by (auto simp: remember_def get_json_result get_vis split: option.splits)

text \<open>
  A computed value is returned whatever happens to the write, and a second
  \<^verbatim>\<open>remember\<close> while the entry lives gives it back without computing.
\<close>

lemma remember_then_hit:
  assumes "inv s" and miss: "\<And>bs. vis s k t0 = Some bs \<Longrightarrow> dec bs = None"
    and codec: "enc v = Inr bs" "dec bs = Some v"
    and live: "live_at (exp t1 ttl) t2"
  shows "snd (remember dec enc c t0 t1 k ttl (Inr v) s) = Inr v \<and>
         snd (remember dec enc c t2 t3 k ttl compute2
                (fst (remember dec enc c t0 t1 k ttl (Inr v) s))) = Inr v"
proof -
  let ?s1 = "fst (c_get c t0 k s)"
  let ?s2 = "fst (c_put c t1 k bs ttl ?s1)"
  have first: "remember dec enc c t0 t1 k ttl (Inr v) s = (?s2, Inr v)"
    using assms(1) miss codec by (auto simp: remember_def get_json_result put_json_def split: option.splits)
  have "vis ?s2 k t2 = Some bs"
    using assms(1) live by (simp add: put_vis)
  then have "snd (remember dec enc c t2 t3 k ttl compute2 ?s2) = Inr v"
    using assms(1) codec by (simp add: remember_def get_json_result)
  then show ?thesis by (simp add: first)
qed

end

section \<open>The configured drivers\<close>

datatype cache_driver = DMemory | DRedis | DRedisCluster | DMemcached | DDynamoDb | DKv

definition driver_is_shared :: "cache_driver \<Rightarrow> bool" where
  "driver_is_shared d \<longleftrightarrow> d \<noteq> DMemory"

definition driver_can_hold_a_lock :: "cache_driver \<Rightarrow> bool" where
  "driver_can_hold_a_lock d \<longleftrightarrow> driver_is_shared d \<and> d \<noteq> DKv"

fun driver_feature :: "cache_driver \<Rightarrow> string option" where
  "driver_feature DMemory = None"
| "driver_feature DRedis = Some ''redis-driver''"
| "driver_feature DRedisCluster = Some ''redis-cluster''"
| "driver_feature DMemcached = Some ''memcached''"
| "driver_feature DDynamoDb = Some ''dynamodb''"
| "driver_feature DKv = Some ''cloudflare-kv''"

end
