(* ===== verification/Memory_Cache.thy ===== *)
theory Memory_Cache
  imports Cache_Port
begin

text \<open>
  The in-process cache of \<^verbatim>\<open>rainier-cache/src/memory.rs\<close>: a map from keys to entries with an
  optional expiry instant. Every method runs under the one mutex, so it is one step on the
  map. \<open>from_std\<close> stands for \<^verbatim>\<open>chrono::Duration::from_std\<close>, which refuses a duration it cannot
  represent. The interpretation \<open>mem\<close> shows that the map satisfies the contract of the port.
\<close>

record entry =
  e_value :: bytes
  e_expires_at :: "time option"

type_synonym memory = "(string, entry) hmap"

definition is_live :: "time \<Rightarrow> entry \<Rightarrow> bool" where
  "is_live now e = (case e_expires_at e of Some at \<Rightarrow> at > now | None \<Rightarrow> True)"

definition memory_new :: memory where "memory_new = []"

definition mem_len :: "memory \<Rightarrow> nat" where "mem_len m = hm_len m"

definition mem_is_empty :: "memory \<Rightarrow> bool" where "mem_is_empty m \<longleftrightarrow> mem_len m = 0"

text \<open>\<^verbatim>\<open>purge\<close> reads the clock once per entry: \<open>now k\<close> is the reading for the entry at \<open>k\<close>.\<close>

definition mem_purge :: "(string \<Rightarrow> time) \<Rightarrow> memory \<Rightarrow> memory \<times> nat" where
  "mem_purge now m =
     (let m' = hm_retain (\<lambda>k e. is_live (now k) e) m in (m', hm_len m - hm_len m'))"

definition expiry :: "(duration \<Rightarrow> int option) \<Rightarrow> time \<Rightarrow> duration option \<Rightarrow> time option" where
  "expiry from_std now ttl =
     map_option (\<lambda>d. now + d) (case ttl of None \<Rightarrow> None | Some ttl \<Rightarrow> from_std ttl)"

definition mem_get :: "time \<Rightarrow> string \<Rightarrow> memory \<Rightarrow> memory \<times> bytes option result" where
  "mem_get now k m =
     (case hm_get k m of
        Some e \<Rightarrow> if is_live now e then (m, Inr (Some (e_value e)))
                  else (hm_remove k m, Inr None)
      | None \<Rightarrow> (m, Inr None))"

definition mem_put ::
  "(duration \<Rightarrow> int option) \<Rightarrow> time \<Rightarrow> string \<Rightarrow> bytes \<Rightarrow> duration option \<Rightarrow> memory
    \<Rightarrow> memory \<times> unit result"
where
  "mem_put from_std now k v ttl m =
     (hm_insert k \<lparr>e_value = v, e_expires_at = expiry from_std now ttl\<rparr> m, Inr ())"

definition mem_forget :: "string \<Rightarrow> memory \<Rightarrow> memory \<times> bool result" where
  "mem_forget k m = (hm_remove k m, Inr (hm_contains k m))"

definition mem_flush :: "memory \<Rightarrow> memory \<times> unit result" where
  "mem_flush m = ([], Inr ())"

definition mem_add ::
  "(duration \<Rightarrow> int option) \<Rightarrow> time \<Rightarrow> time \<Rightarrow> string \<Rightarrow> bytes \<Rightarrow> duration option \<Rightarrow> memory
    \<Rightarrow> memory \<times> bool result"
where
  "mem_add from_std t0 t1 k v ttl m =
     (if (case hm_get k m of Some e \<Rightarrow> is_live t0 e | None \<Rightarrow> False) then (m, Inr False)
      else (hm_insert k \<lparr>e_value = v, e_expires_at = expiry from_std t1 ttl\<rparr> m, Inr True))"

definition mem_forget_if :: "time \<Rightarrow> string \<Rightarrow> bytes \<Rightarrow> memory \<Rightarrow> memory \<times> bool result" where
  "mem_forget_if now k expected m =
     (case hm_get k m of
        Some e \<Rightarrow> if is_live now e \<and> e_value e = expected then (hm_remove k m, Inr True)
                  else (m, Inr False)
      | None \<Rightarrow> (m, Inr False))"

text \<open>The liveness of the entry is asked twice, so the method reads the clock twice.\<close>

definition mem_increment ::
  "time \<Rightarrow> time \<Rightarrow> string \<Rightarrow> int \<Rightarrow> memory \<Rightarrow> memory \<times> int result"
where
  "mem_increment t0 t1 k by m =
     (case (case hm_get k m of
              Some e \<Rightarrow> if is_live t0 e then decode_counter (e_value e) else Inr 0
            | None \<Rightarrow> Inr 0) of
        Inl err \<Rightarrow> (m, Inl err)
      | Inr current \<Rightarrow>
          (let nxt = i64_saturating_add current by;
               expires_at = (case hm_get k m of
                               Some e \<Rightarrow> if is_live t1 e then e_expires_at e else None
                             | None \<Rightarrow> None)
           in (hm_insert k \<lparr>e_value = encode_counter nxt, e_expires_at = expires_at\<rparr> m, Inr nxt)))"

definition memory_cache :: "(duration \<Rightarrow> int option) \<Rightarrow> memory cache" where
  "memory_cache from_std =
     \<lparr>c_name = ''memory'', c_is_shared = False,
      c_supports_atomic_add = default_supports_atomic_add,
      c_get = mem_get, c_put = mem_put from_std, c_forget = mem_forget, c_flush = mem_flush,
      c_has = default_has mem_get, c_increment = mem_increment, c_add = mem_add from_std,
      c_forget_if = mem_forget_if\<rparr>"

lemmas mem_defs = memory_cache_def mem_get_def mem_put_def mem_forget_def mem_flush_def
  mem_add_def mem_forget_if_def mem_increment_def default_has_def

section \<open>The contract holds\<close>

definition mem_vis :: "memory \<Rightarrow> string \<Rightarrow> time \<Rightarrow> bytes option" where
  "mem_vis m k t =
     (case hm_get k m of Some e \<Rightarrow> if is_live t e then Some (e_value e) else None | None \<Rightarrow> None)"

lemma is_live_antimono: "is_live t' e \<Longrightarrow> t \<le> t' \<Longrightarrow> is_live t e"
  by (auto simp: is_live_def split: option.splits)

lemma is_live_new [simp]: "is_live t \<lparr>e_value = v, e_expires_at = x\<rparr> = live_at x t"
  by (simp add: is_live_def live_at_def)

lemma is_live_eq: "is_live t e = live_at (e_expires_at e) t"
  by (simp add: is_live_def live_at_def)

lemma live_at_None [simp]: "live_at None t"
  by (simp add: live_at_def)

lemmas mem_vis_simps = mem_vis_def mem_defs is_live_eq

lemma mem_increment_live_aux:
  assumes "mem_vis m k t0 = Some raw" "decode_counter raw = Inr n" "mem_vis m k t1 = Some raw"
    and "t1 \<le> t'"
  shows "snd (mem_increment t0 t1 k by m) = Inr (i64_saturating_add n by) \<and>
         mem_vis (fst (mem_increment t0 t1 k by m)) k t' =
           map_option (\<lambda>_. encode_counter (i64_saturating_add n by)) (mem_vis m k t')"
  using assms by (auto simp: mem_vis_simps Let_def split: option.splits if_splits)

interpretation mem: cache_port "memory_cache from_std" hm_wf mem_vis "expiry from_std" for from_std
proof (unfold_locales, goal_cases)
  case (1 s k t' v t)
  then show ?case by (auto simp: mem_vis_def dest: is_live_antimono split: option.splits if_splits)
next
  case (3 s t t' k k')
  then show ?case by (auto simp: mem_vis_simps split: option.splits dest: live_at_mono)
next
  case (9 s t0 t1 t' k v ttl k')
  then show ?case by (auto simp: mem_vis_simps split: option.splits dest: live_at_mono)
next
  case 13
  then show ?case using mem_increment_live_aux by (simp add: memory_cache_def)
next
  case (17 s t t' k k')
  then show ?case by (auto simp: mem_vis_simps split: option.splits dest: live_at_mono)
qed (auto simp: mem_vis_simps hm_contains_def Let_def split: option.splits sum.splits if_splits dest: live_at_mono)

section \<open>Properties\<close>

text \<open>
  The in-process cache implements the contract of the cache port: at every instant a
  reader sees exactly the unexpired entries, \<^verbatim>\<open>add\<close> stores only when the key is not
  visible and says so, \<^verbatim>\<open>forget_if\<close> removes only a matching visible value, \<^verbatim>\<open>increment\<close> keeps
  the expiry of a live counter, no operation touches another key, and every operation keeps
  the map well formed.
\<close>

theorem memory_cache_implements_port:
  "cache_port (memory_cache from_std) hm_wf mem_vis (expiry from_std)"
  by (rule mem.cache_port_axioms)

text \<open>
  Purging drops exactly the entries that are expired at the instant each is looked at,
  reports how many that was, and hides nothing a reader could still see.
\<close>

theorem purge_exact:
  assumes "hm_wf m" "mem_purge now m = (m', n)"
  shows "hm_wf m'
    \<and> (\<forall>k. hm_get k m' = (case hm_get k m of
              Some e \<Rightarrow> if is_live (now k) e then Some e else None | None \<Rightarrow> None))
    \<and> n = length (filter (\<lambda>(k, e). \<not> is_live (now k) e) m)
    \<and> (\<forall>k t. now k \<le> t \<longrightarrow> mem_vis m' k t = mem_vis m k t)"
proof -
  have m': "m' = hm_retain (\<lambda>k e. is_live (now k) e) m" and n: "n = hm_len m - hm_len m'"
    using assms(2) by (auto simp: mem_purge_def Let_def)
  have get: "hm_get k m' = (case hm_get k m of
              Some e \<Rightarrow> if is_live (now k) e then Some e else None | None \<Rightarrow> None)" for k
    using assms(1) by (simp add: m' hm_get_retain split: option.splits)
  have "mem_vis m' k t = mem_vis m k t" if "now k \<le> t" for k t
    using that by (auto simp: mem_vis_def get dest: is_live_antimono split: option.splits)
  moreover have "n = length (filter (\<lambda>(k, e). \<not> is_live (now k) e) m)"
    using hm_len_retain [of "\<lambda>k e. is_live (now k) e" m] by (simp add: n m')
  ultimately show ?thesis using assms(1) get by (simp add: m')
qed

definition sample_memory :: memory where
  "sample_memory =
     [(''a'', \<lparr>e_value = ''1'', e_expires_at = Some 5\<rparr>),
      (''b'', \<lparr>e_value = ''2'', e_expires_at = Some 50\<rparr>),
      (''c'', \<lparr>e_value = ''3'', e_expires_at = None\<rparr>)]"

theorem purge_exact_witness:
  "hm_wf sample_memory \<and> hm_wf (tl sample_memory)
   \<and> mem_purge (\<lambda>_. 10) sample_memory = (tl sample_memory, 1)
   \<and> mem_vis (tl sample_memory) ''b'' 20 = mem_vis sample_memory ''b'' 20"
proof -
  have wf: "hm_wf sample_memory" by (simp add: hm_wf_def sample_memory_def)
  have run: "mem_purge (\<lambda>_. 10) sample_memory = (tl sample_memory, 1)"
    by (simp add: mem_purge_def hm_retain_def hm_len_def sample_memory_def live_at_def)
  show ?thesis using purge_exact [OF wf run] wf run by simp
qed

text \<open>
  A counter whose entry expires between the two readings of the clock inside one
  \<^verbatim>\<open>increment\<close> is written back without any expiry: the window it was counting never ends,
  although the code states that the expiry is preserved.
\<close>

theorem increment_loses_expiry:
  assumes "hm_get k m = Some \<lparr>e_value = encode_counter n, e_expires_at = Some at\<rparr>"
    and "in_i64 n" and "t0 < at" and "at \<le> t1"
  shows "snd (mem_increment t0 t1 k by m) = Inr (i64_saturating_add n by)
    \<and> (\<forall>t. mem_vis (fst (mem_increment t0 t1 k by m)) k t =
             Some (encode_counter (i64_saturating_add n by)))"
  using assms by (simp add: mem_increment_def mem_vis_def live_at_def Let_def)

theorem increment_loses_expiry_witness:
  "let m = [(''rate:login'', \<lparr>e_value = encode_counter 4, e_expires_at = Some 60\<rparr>)] in
   snd (mem_increment 59 60 ''rate:login'' 1 m) = Inr 5
   \<and> mem_vis (fst (mem_increment 59 60 ''rate:login'' 1 m)) ''rate:login'' 1000000
       = Some (encode_counter 5)"
  using increment_loses_expiry
    [of "''rate:login''" "[(''rate:login'', \<lparr>e_value = encode_counter 4, e_expires_at = Some 60\<rparr>)]"
        4 60 59 60 1]
  by (simp add: hm_get_def int_defs)

end
