(* ===== verification/Prefixed_Cache.thy ===== *)
theory Prefixed_Cache
  imports Memory_Cache
begin

text \<open>
  The namespacing wrapper of \<^verbatim>\<open>rainier-cache/src/prefixed.rs\<close>. It wraps any cache and is a
  cache itself: a method whose key is prefixed and forwarded, a \<^verbatim>\<open>flush\<close> that refuses, and
  the trait's defaults for what it does not override.
\<close>

record 's prefixed_cache =
  p_inner :: "'s cache"
  p_prefix :: string
  p_with_separator :: string

definition prefixed_new :: "'s cache \<Rightarrow> string \<Rightarrow> 's prefixed_cache" where
  "prefixed_new inner pfx =
     (let trimmed = trim_end_char CHR '':'' pfx
      in \<lparr>p_inner = inner, p_prefix = trimmed, p_with_separator = trimmed @ '':''\<rparr>)"

definition prefixed_key :: "'s prefixed_cache \<Rightarrow> string \<Rightarrow> string" where
  "prefixed_key p k = p_with_separator p @ k"

definition prefixed_flush :: "'s prefixed_cache \<Rightarrow> 's \<Rightarrow> 's \<times> unit result" where
  "prefixed_flush p s =
     (s, Inl (err_internal
        (''a prefixed cache cannot flush just `'' @ p_prefix p @ '':` '' @
         [CHR 0xE2, CHR 0x80, CHR 0x94] @
         '' no cache backend can delete by prefix portably. '' @
         ''Flush the underlying cache if you really mean everything, '' @
         ''or forget the keys you know about.'')))"

definition prefixed_ops :: "'s prefixed_cache \<Rightarrow> 's cache" where
  "prefixed_ops p =
     \<lparr>c_name = c_name (p_inner p),
      c_is_shared = c_is_shared (p_inner p),
      c_supports_atomic_add = default_supports_atomic_add,
      c_get = (\<lambda>t k. c_get (p_inner p) t (prefixed_key p k)),
      c_put = (\<lambda>t k. c_put (p_inner p) t (prefixed_key p k)),
      c_forget = (\<lambda>k. c_forget (p_inner p) (prefixed_key p k)),
      c_flush = prefixed_flush p,
      c_has = (\<lambda>t k. c_has (p_inner p) t (prefixed_key p k)),
      c_increment = (\<lambda>t0 t1 k. c_increment (p_inner p) t0 t1 (prefixed_key p k)),
      c_add = (\<lambda>t0 t1 k. c_add (p_inner p) t0 t1 (prefixed_key p k)),
      c_forget_if = (\<lambda>t k. c_forget_if (p_inner p) t (prefixed_key p k))\<rparr>"

definition prefixed_vis ::
  "'s prefixed_cache \<Rightarrow> ('s \<Rightarrow> string \<Rightarrow> time \<Rightarrow> bytes option) \<Rightarrow> 's \<Rightarrow> string \<Rightarrow> time \<Rightarrow> bytes option"
where
  "prefixed_vis p vis s k t = vis s (prefixed_key p k) t"

lemma prefixed_key_eq [simp]: "prefixed_key p k = prefixed_key p k' \<longleftrightarrow> k = k'"
  by (simp add: prefixed_key_def)

text \<open>Whatever implements the port still does so behind a prefix.\<close>

context cache_port
begin

lemma prefixed_implements:
  assumes "p_inner p = c"
  shows "cache_port (prefixed_ops p) inv (prefixed_vis p vis) exp"
  using assms
  by unfold_locales
    (auto simp: prefixed_ops_def prefixed_vis_def get_result get_vis put_result put_vis forget_vis
      forget_result add_result add_vis forget_if_result forget_if_vis increment_fresh
      increment_live increment_bad increment_other has_result has_vis intro: vis_antimono)

end

interpretation pmem: cache_port "prefixed_ops (prefixed_new (memory_cache from_std) pfx)" hm_wf
  "prefixed_vis (prefixed_new (memory_cache from_std) pfx) mem_vis" "expiry from_std"
  for from_std pfx
  by (rule mem.prefixed_implements) (simp add: prefixed_new_def Let_def)

lemma trim_end_char_suffix:
  "trim_end_char c (s @ replicate n c) = trim_end_char c s"
  unfolding trim_end_char_def by (simp, subst dropWhile_append2) auto

lemma append_sep_disjoint:
  assumes "(c :: char) \<notin> set a" "c \<notin> set b" "a @ c # x = b @ c # y"
  shows "a = b"
proof -
  have "Some (a, x) = split_once c (a @ c # x)"
    using assms(1) by (simp add: split_once_append)
  also have "\<dots> = split_once c (b @ c # y)"
    by (simp only: assms(3))
  also have "\<dots> = Some (b, y)"
    using assms(2) by (simp add: split_once_append)
  finally show ?thesis by simp
qed

section \<open>Properties\<close>

text \<open>
  Two namespaces whose prefixes contain no separator inside and differ (once their
  trailing separators are trimmed) never see each other's writes: whatever one puts,
  adds, counts or removes, a reader of the other sees the same as before. Stated over the
  in-process cache that both wrap.
\<close>

theorem prefixed_namespaces_isolated:
  assumes "hm_wf m"
    and "CHR '':'' \<notin> set (trim_end_char CHR '':'' p)"
    and "CHR '':'' \<notin> set (trim_end_char CHR '':'' q)"
    and "trim_end_char CHR '':'' p \<noteq> trim_end_char CHR '':'' q"
    and P_def: "P = prefixed_new (memory_cache from_std) p"
    and Q_def: "Q = prefixed_new (memory_cache from_std) q"
  shows "prefixed_vis Q mem_vis (fst (c_put (prefixed_ops P) t0 k v ttl m)) k' t
           = prefixed_vis Q mem_vis m k' t
       \<and> prefixed_vis Q mem_vis (fst (c_increment (prefixed_ops P) t0 t1 k by m)) k' t
           = prefixed_vis Q mem_vis m k' t
       \<and> prefixed_vis Q mem_vis (fst (c_forget (prefixed_ops P) k m)) k' t
           = prefixed_vis Q mem_vis m k' t
       \<and> prefixed_vis Q mem_vis (fst (c_forget_if (prefixed_ops P) t0 k v m)) k' t
           = prefixed_vis Q mem_vis m k' t
       \<and> (t0 \<le> t1 \<longrightarrow> t0 \<le> t \<longrightarrow>
           prefixed_vis Q mem_vis (fst (c_add (prefixed_ops P) t0 t1 k v ttl m)) k' t
             = prefixed_vis Q mem_vis m k' t)"
proof -
  have "prefixed_key Q k' \<noteq> prefixed_key P k"
    using append_sep_disjoint [OF assms(3,2)] assms(4)
    by (auto simp: prefixed_key_def P_def Q_def prefixed_new_def Let_def)
  moreover have "p_inner P = memory_cache from_std"
    by (simp add: P_def prefixed_new_def Let_def)
  ultimately show ?thesis
    using assms(1)
    by (simp add: prefixed_vis_def prefixed_ops_def mem.put_vis mem.increment_other
        mem.forget_vis mem.forget_if_vis mem.add_vis)
qed

theorem prefixed_namespaces_isolated_witness:
  "let P = prefixed_new (memory_cache (\<lambda>d. Some (int d))) ''billing:'';
       Q = prefixed_new (memory_cache (\<lambda>d. Some (int d))) ''catalogue'' in
   prefixed_vis Q mem_vis (fst (c_put (prefixed_ops P) 0 ''total'' ''10'' None [])) ''total'' 5
     = prefixed_vis Q mem_vis [] ''total'' 5"
  using prefixed_namespaces_isolated
    [of "[]" "''billing:''" "''catalogue''" _ "\<lambda>d. Some (int d)" _ 0 "''total''" "''10''" None "''total''" 5]
  by (simp add: trim_end_char_def)

end
