(* ===== verification/Ip_Addr.thy ===== *)
theory Ip_Addr
  imports Prelude "HOL-Library.Word"
begin

text \<open>
  \<^verbatim>\<open>std::net::IpAddr\<close> as far as the framework uses it: addresses as their octets, the parser behind
  \<^verbatim>\<open>parse::<IpAddr>()\<close> (no leading zeros in IPv4, one \<^verbatim>\<open>::\<close> and an optional trailing IPv4 part in
  IPv6) and the display form (RFC 5952). A reader takes the text and gives back the value and the
  text that is left; a reader that fails leaves the text where it was.
\<close>

type_synonym octet = "8 word"

datatype ip_addr = V4 "octet list" | V6 "octet list"

fun is_ipv4 :: "ip_addr \<Rightarrow> bool" where
  "is_ipv4 (V4 _) = True"
| "is_ipv4 (V6 _) = False"

fun ip_octets :: "ip_addr \<Rightarrow> octet list" where
  "ip_octets (V4 os) = os"
| "ip_octets (V6 os) = os"

definition ip_ok :: "ip_addr \<Rightarrow> bool" where
  "ip_ok a \<longleftrightarrow> length (ip_octets a) = (if is_ipv4 a then 4 else 16)"

section \<open>Parsing\<close>

definition to_digit :: "nat \<Rightarrow> char \<Rightarrow> nat option" where
  "to_digit radix c = (case hex_value c of Some d \<Rightarrow> if d < radix then Some d else None | None \<Rightarrow> None)"

definition read_number :: "nat \<Rightarrow> nat \<Rightarrow> bool \<Rightarrow> nat \<Rightarrow> string \<Rightarrow> (nat \<times> string) option" where
  "read_number radix max_digits allow_zero mx s =
     (let ds = takeWhile (\<lambda>c. to_digit radix c \<noteq> None) s;
          n = foldl (\<lambda>n c. n * radix + the (to_digit radix c)) 0 ds
      in if ds = [] \<or> length ds > max_digits \<or> \<not> allow_zero \<and> hd ds = CHR ''0'' \<and> length ds > 1 \<or> n > mx
         then None else Some (n, drop (length ds) s))"

definition read_char :: "char \<Rightarrow> string \<Rightarrow> string option" where
  "read_char c s = (if s \<noteq> [] \<and> hd s = c then Some (tl s) else None)"

definition read_separator ::
  "char \<Rightarrow> nat \<Rightarrow> (string \<Rightarrow> ('a \<times> string) option) \<Rightarrow> string \<Rightarrow> ('a \<times> string) option"
where
  "read_separator sep index inner s = (if index > 0 then Option.bind (read_char sep s) inner else inner s)"

fun read_octets :: "nat \<Rightarrow> nat \<Rightarrow> string \<Rightarrow> (octet list \<times> string) option" where
  "read_octets 0 index s = Some ([], s)"
| "read_octets (Suc k) index s =
     (case read_separator CHR ''.'' index (read_number 10 3 False 255) s of
        None \<Rightarrow> None
      | Some (n, r) \<Rightarrow> map_option (\<lambda>(os, r'). (of_nat n # os, r')) (read_octets k (Suc index) r))"

definition read_ipv4_addr :: "string \<Rightarrow> (octet list \<times> string) option" where
  "read_ipv4_addr s = read_octets 4 0 s"

definition group_octets :: "nat \<Rightarrow> octet list" where
  "group_octets g = [of_nat (g div 256), of_nat (g mod 256)]"

text \<open>
  \<^verbatim>\<open>read_groups\<close>: the octets of the 16-bit groups read (two per group), and whether an IPv4 part
  ended them. \<open>left\<close> is the number of slots that are left, at least two for an IPv4 part.
\<close>

fun read_groups :: "nat \<Rightarrow> nat \<Rightarrow> string \<Rightarrow> octet list \<times> bool \<times> string" where
  "read_groups 0 i s = ([], False, s)"
| "read_groups (Suc left) i s =
     (case (if left > 0 then read_separator CHR '':'' i read_ipv4_addr s else None) of
        Some (os, r) \<Rightarrow> (os, True, r)
      | None \<Rightarrow>
          (case read_separator CHR '':'' i (read_number 16 4 True 65535) s of
             None \<Rightarrow> ([], False, s)
           | Some (g, r) \<Rightarrow>
               (let (os, v4, r') = read_groups left (Suc i) r in (group_octets g @ os, v4, r'))))"

definition read_ipv6_addr :: "string \<Rightarrow> (octet list \<times> string) option" where
  "read_ipv6_addr s =
     (let (head, head_v4, r) = read_groups 8 0 s
      in if length head = 16 then Some (head, r)
         else if head_v4 then None
         else Option.bind (Option.bind (read_char CHR '':'' r) (read_char CHR '':'')) (\<lambda>r2.
           let limit = 8 - (length head div 2 + 1); (tail, _, r3) = read_groups limit 0 r2
           in Some (head @ replicate (16 - length head - length tail) 0 @ tail, r3)))"

definition ip_parse :: "string \<Rightarrow> ip_addr option" where
  "ip_parse s =
     (case (case read_ipv4_addr s of
              Some (os, r) \<Rightarrow> Some (V4 os, r)
            | None \<Rightarrow> map_option (\<lambda>(os, r). (V6 os, r)) (read_ipv6_addr s)) of
        Some (a, []) \<Rightarrow> Some a
      | _ \<Rightarrow> None)"

lemma read_octets_length: "read_octets k i s = Some (os, r) \<Longrightarrow> length os = k"
  by (induction k i s arbitrary: os r rule: read_octets.induct) (auto split: option.splits)

lemma read_groups_length:
  assumes "read_groups k i s = (os, v4, r)"
  shows "length os \<le> 2 * k \<and> even (length os)"
  using assms
proof (induction k i s arbitrary: os v4 r rule: read_groups.induct)
  case (2 left i s)
  have v4: "length os' = 4" if "read_separator CHR '':'' i read_ipv4_addr s = Some (os', r')" for os' r'
    using that read_octets_length [of 4]
    by (auto simp: read_separator_def read_ipv4_addr_def split: if_splits Option.bind_splits)
  show ?case
  proof (cases "if left > 0 then read_separator CHR '':'' i read_ipv4_addr s else None")
    case None
    with 2 show ?thesis
      by (auto simp: group_octets_def simp del: read_ipv4_addr_def split: option.splits prod.splits)
  next
    case (Some p)
    with 2 v4 show ?thesis by (cases p) (auto split: if_splits)
  qed
qed simp

text \<open>Every parsed address has four or sixteen octets.\<close>

lemma ip_parse_ok: "ip_parse s = Some a \<Longrightarrow> ip_ok a"
proof -
  have six: "length os = 16" if r: "read_ipv6_addr s = Some (os, r)" for os r
  proof -
    obtain head head_v4 rest where h: "read_groups 8 0 s = (head, head_v4, rest)" by (cases "read_groups 8 0 s")
    show ?thesis
    proof (cases "length head = 16")
      case True
      then show ?thesis using r h by (simp add: read_ipv6_addr_def)
    next
      case False
      from r h False obtain r2 tail t4 r3 where
        t: "read_groups (8 - (length head div 2 + 1)) 0 r2 = (tail, t4, r3)"
        and os: "os = head @ replicate (16 - length head - length tail) 0 @ tail"
        by (auto simp: read_ipv6_addr_def Let_def split: if_splits Option.bind_splits prod.splits)
      have "length head \<le> 16" "even (length head)" using read_groups_length [OF h] by auto
      moreover have "length tail \<le> 2 * (8 - (length head div 2 + 1))" using read_groups_length [OF t] by simp
      ultimately show ?thesis using os by auto
    qed
  qed
  assume "ip_parse s = Some a"
  then show ?thesis
    using six read_octets_length [of 4 0 s]
    by (auto simp: ip_parse_def ip_ok_def read_ipv4_addr_def split: option.splits list.splits)
qed

section \<open>Display\<close>

fun octet_groups :: "octet list \<Rightarrow> nat list" where
  "octet_groups (a # b # os) = (256 * unat a + unat b) # octet_groups os"
| "octet_groups _ = []"

fun hex_text :: "nat \<Rightarrow> string" where
  "hex_text n = (if n < 16 then [hex_digit n] else hex_text (n div 16) @ [hex_digit (n mod 16)])"

declare hex_text.simps [simp del]

text \<open>The first longest run of zero groups, as its start and length.\<close>

fun zero_runs :: "nat \<Rightarrow> nat list \<Rightarrow> (nat \<times> nat) \<Rightarrow> (nat \<times> nat) \<Rightarrow> nat \<times> nat" where
  "zero_runs i [] longest current = longest"
| "zero_runs i (g # gs) longest current =
     (if g = 0
      then let current = (if snd current = 0 then (i, 1) else (fst current, snd current + 1));
               longest = (if snd current > snd longest then current else longest)
           in zero_runs (Suc i) gs longest current
      else zero_runs (Suc i) gs longest (0, 0))"

definition ipv4_text :: "octet list \<Rightarrow> string" where
  "ipv4_text os = join ''.'' (map (\<lambda>w. nat_dec (unat w)) os)"

definition ip_display :: "ip_addr \<Rightarrow> string" where
  "ip_display a =
     (case a of
        V4 os \<Rightarrow> ipv4_text os
      | V6 os \<Rightarrow>
          if take 12 os = replicate 10 0 @ [0xFF, 0xFF] then ''::ffff:'' @ ipv4_text (drop 12 os)
          else let gs = octet_groups os; (start, len) = zero_runs 0 gs (0, 0) (0, 0);
                   part = (\<lambda>xs. join '':'' (map hex_text xs))
               in if len > 1 then part (take start gs) @ ''::'' @ part (drop (start + len) gs) else part gs)"

lemma ip_display_example: "ip_display (V4 [10, 0, 0, 1]) = ''10.0.0.1''"
  by code_simp

end
