(* ===== verification/Http.thy ===== *)
theory Http
  imports Support_Error Ip_Addr
begin

text \<open>
  The parts of \<^verbatim>\<open>rainier-http\<close> (\<^verbatim>\<open>request.rs\<close>, \<^verbatim>\<open>response.rs\<close>) that the middleware decides on: the
  headers, bearer token and address of a request, and the response builders including the
  rendering of a framework error. A header map is the list of its (lower-case) names and
  values. \<open>valid\<close> stands for the \<^verbatim>\<open>http\<close> crate's check that a header name and value are well
  formed; an ill-formed header is dropped. A JSON body is kept as the value it serialises. Backtraces,
  which nothing decides on, are left out.
\<close>

type_synonym headers = "(string \<times> string) list"

type_synonym header_check = "string \<Rightarrow> string \<Rightarrow> bool"

datatype body = EmptyBody | TextBody string | JsonBody json

record rendered_error =
  re_status :: nat
  re_message :: string
  re_details :: "json option"
  re_disclosable :: bool
  re_kind :: "string option"

record response =
  r_status :: nat
  r_headers :: headers
  r_body :: body
  r_error :: "rendered_error option"

definition header_get :: "string \<Rightarrow> headers \<Rightarrow> string option" where
  "header_get n hs = map_of hs n"

definition header_insert :: "string \<Rightarrow> string \<Rightarrow> headers \<Rightarrow> headers" where
  "header_insert n v hs = filter (\<lambda>h. fst h \<noteq> n) hs @ [(n, v)]"

definition header_append :: "string \<Rightarrow> string \<Rightarrow> headers \<Rightarrow> headers" where
  "header_append n v hs = hs @ [(n, v)]"

definition response_new :: "nat \<Rightarrow> response" where
  "response_new st = \<lparr>r_status = st, r_headers = [], r_body = EmptyBody, r_error = None\<rparr>"

definition with_status :: "nat \<Rightarrow> response \<Rightarrow> response" where
  "with_status st r = r\<lparr>r_status := st\<rparr>"

definition with_body :: "body \<Rightarrow> response \<Rightarrow> response" where
  "with_body b r = r\<lparr>r_body := b\<rparr>"

definition with_header :: "header_check \<Rightarrow> string \<Rightarrow> string \<Rightarrow> response \<Rightarrow> response" where
  "with_header valid n v r =
     (if valid n v then r\<lparr>r_headers := header_insert n v (r_headers r)\<rparr> else r)"

definition with_added_header :: "header_check \<Rightarrow> string \<Rightarrow> string \<Rightarrow> response \<Rightarrow> response" where
  "with_added_header valid n v r =
     (if valid n v then r\<lparr>r_headers := header_append n v (r_headers r)\<rparr> else r)"

definition with_content_type :: "header_check \<Rightarrow> string \<Rightarrow> response \<Rightarrow> response" where
  "with_content_type valid ct r = with_header valid ''content-type'' ct r"

definition response_ok :: "body \<Rightarrow> response" where
  "response_ok b = with_body b (response_new 200)"

definition response_text :: "header_check \<Rightarrow> string \<Rightarrow> response" where
  "response_text valid s = with_content_type valid ''text/plain; charset=utf-8'' (response_ok (TextBody s))"

definition response_html :: "header_check \<Rightarrow> string \<Rightarrow> response" where
  "response_html valid s = with_content_type valid ''text/html; charset=utf-8'' (response_ok (TextBody s))"

definition no_content :: response where
  "no_content = response_new 204"

definition created :: "header_check \<Rightarrow> string \<Rightarrow> response" where
  "created valid location = with_header valid ''location'' location (response_new 201)"

definition download :: "header_check \<Rightarrow> string \<Rightarrow> string \<Rightarrow> response" where
  "download valid content file_name =
     (let safe = filter (\<lambda>c. c \<noteq> CHR 0x22 \<and> c \<noteq> CHR 0x0D \<and> c \<noteq> CHR 0x0A) file_name
      in with_header valid ''content-disposition''
           (''attachment; filename='' @ [CHR 0x22] @ safe @ [CHR 0x22])
           (with_content_type valid ''application/octet-stream'' (response_ok (TextBody content))))"

record redirect =
  rd_status :: nat
  rd_location :: string

definition redirect_to :: "string \<Rightarrow> redirect" where
  "redirect_to l = \<lparr>rd_status = 302, rd_location = l\<rparr>"

definition permanent :: "string \<Rightarrow> redirect" where
  "permanent l = \<lparr>rd_status = 301, rd_location = l\<rparr>"

definition see_other :: "string \<Rightarrow> redirect" where
  "see_other l = \<lparr>rd_status = 303, rd_location = l\<rparr>"

definition temporary :: "string \<Rightarrow> redirect" where
  "temporary l = \<lparr>rd_status = 307, rd_location = l\<rparr>"

definition redirect_into_response :: "header_check \<Rightarrow> redirect \<Rightarrow> response" where
  "redirect_into_response valid r = with_header valid ''location'' (rd_location r) (response_new (rd_status r))"

text \<open>\<^verbatim>\<open>Response::json\<close> of a JSON value, which always serialises.\<close>

definition response_json :: "header_check \<Rightarrow> json \<Rightarrow> response" where
  "response_json valid v =
     with_content_type valid ''application/json; charset=utf-8'' (response_ok (JsonBody v))"

definition is_successful :: "response \<Rightarrow> bool" where
  "is_successful r \<longleftrightarrow> 200 \<le> r_status r \<and> r_status r < 300"

text \<open>\<^verbatim>\<open>StatusCode::from_u16\<close> accepts 100 to 999.\<close>

definition status_code :: "nat \<Rightarrow> nat option" where
  "status_code n = (if 100 \<le> n \<and> n \<le> 999 then Some n else None)"

text \<open>The \<^verbatim>\<open>Debug\<close> form of a kind.\<close>

fun kind_debug :: "error_kind \<Rightarrow> string" where
  "kind_debug BadRequest = ''BadRequest''"
| "kind_debug Unauthenticated = ''Unauthenticated''"
| "kind_debug Unauthorized = ''Unauthorized''"
| "kind_debug NotFound = ''NotFound''"
| "kind_debug MethodNotAllowed = ''MethodNotAllowed''"
| "kind_debug Conflict = ''Conflict''"
| "kind_debug PayloadTooLarge = ''PayloadTooLarge''"
| "kind_debug Validation = ''Validation''"
| "kind_debug TooManyRequests = ''TooManyRequests''"
| "kind_debug Internal = ''Internal''"
| "kind_debug ServiceUnavailable = ''ServiceUnavailable''"
| "kind_debug (Status code) = ''Status('' @ nat_dec code @ '')''"

definition error_into_response :: "header_check \<Rightarrow> error \<Rightarrow> response" where
  "error_into_response valid e =
     (let st = (case status_code (error_status e) of Some st \<Rightarrow> st | None \<Rightarrow> 500);
          disclosable = (\<not> is_server_error (kind e));
          payload = (''message'', JString (message e)) #
            (case details e of None \<Rightarrow> [] | Some d \<Rightarrow> [(''errors'', d)])
      in (with_status st (response_json valid (JObject payload)))
           \<lparr>r_error := Some \<lparr>re_status = error_status e, re_message = message e,
                             re_details = details e, re_disclosable = disclosable,
                             re_kind = Some (kind_debug (kind e))\<rparr>\<rparr>)"

text \<open>A request as the middleware reads it; more fields extend the record.\<close>

record request =
  rq_method :: string
  rq_path :: string
  rq_headers :: headers
  rq_ip :: "ip_addr option"

text \<open>\<^verbatim>\<open>HeaderValue::to_str\<close>: only visible ASCII, spaces and tabs are text.\<close>

definition header_to_str :: "string \<Rightarrow> string option" where
  "header_to_str v =
     (if list_all (\<lambda>c. byte_in 32 126 c \<or> c = CHR 0x09) v then Some v else None)"

definition request_header :: "string \<Rightarrow> 'a request_scheme \<Rightarrow> string option" where
  "request_header n rq = Option.bind (header_get n (rq_headers rq)) header_to_str"

definition bearer_token :: "'a request_scheme \<Rightarrow> string option" where
  "bearer_token rq =
     (case request_header ''authorization'' rq of
        None \<Rightarrow> None
      | Some h \<Rightarrow>
          (case split_once CHR '' '' h of
             None \<Rightarrow> None
           | Some (scheme, token) \<Rightarrow>
               if eq_ignore_ascii_case scheme ''bearer'' then Some (trim token) else None))"

lemma header_get_insert [simp]:
  "header_get n' (header_insert n v hs) = (if n' = n then Some v else header_get n' hs)"
proof -
  have "map_of (filter (\<lambda>h. fst h \<noteq> n) hs) n' = (if n' = n then None else map_of hs n')"
    by (induction hs) auto
  then show ?thesis by (simp add: header_get_def header_insert_def map_add_def split: option.split)
qed

lemma with_header_status [simp]: "r_status (with_header valid n v r) = r_status r"
  by (simp add: with_header_def)

lemma header_get_with_header [simp]:
  "valid n v \<Longrightarrow> header_get n' (r_headers (with_header valid n v r)) =
     (if n' = n then Some v else header_get n' (r_headers r))"
  by (simp add: with_header_def)

lemma error_into_response_status:
  "status_code (error_status e) = Some st \<Longrightarrow> r_status (error_into_response valid e) = st"
  by (simp add: error_into_response_def Let_def with_status_def)

end
