(* ===== verification/Rate_Limit.thy ===== *)
theory Rate_Limit
  imports Prefixed_Cache Http
begin

text \<open>
  Rate limiting: the counter port and its in-process store (\<^verbatim>\<open>rainier-middleware/src/rate_limit.rs\<close>),
  the counters kept in a cache (\<^verbatim>\<open>rainier-cache/src/rate_limit.rs\<close>) and the throttling middleware
  (\<^verbatim>\<open>rainier-middleware/src/builtin.rs\<close>). A \<^verbatim>\<open>dyn RateLimitStore\<close> is the record of its methods; a
  call gets its clock readings as a function from the number of the reading.
  The locale \<open>rate_port\<close> is the fixed-window contract; both stores satisfy it and the
  throttle is proved from it.
\<close>

record hit =
  h_count :: nat
  h_resets_in :: duration

type_synonym clock = "nat \<Rightarrow> time"

record 's rate_store =
  rs_hit :: "clock \<Rightarrow> string \<Rightarrow> duration \<Rightarrow> 's \<Rightarrow> 's \<times> hit result"
  rs_peek :: "clock \<Rightarrow> string \<Rightarrow> 's \<Rightarrow> 's \<times> hit option result"
  rs_clear :: "string \<Rightarrow> 's \<Rightarrow> 's \<times> unit result"
  rs_is_shared :: bool
  rs_name :: string

section \<open>The in-process store\<close>

record window =
  win_count :: nat
  win_started :: time
  win_length :: duration

type_synonym windows = "(string, window) hmap"

text \<open>\<^verbatim>\<open>Instant::duration_since\<close> saturates at zero.\<close>

definition since :: "time \<Rightarrow> time \<Rightarrow> duration" where
  "since now started = nat (now - started)"

definition window_is_live :: "window \<Rightarrow> time \<Rightarrow> bool" where
  "window_is_live w now \<longleftrightarrow> since now (win_started w) < win_length w"

definition window_resets_in :: "window \<Rightarrow> time \<Rightarrow> duration" where
  "window_resets_in w now = win_length w - since now (win_started w)"

definition rl_tracked :: "windows \<Rightarrow> nat" where
  "rl_tracked m = hm_len m"

text \<open>The \<^verbatim>\<open>u32\<close> counter is incremented with wrap-around.\<close>

definition rl_hit :: "clock \<Rightarrow> string \<Rightarrow> duration \<Rightarrow> windows \<Rightarrow> windows \<times> hit result" where
  "rl_hit x k len m =
     (let now = x 0;
          m1 = hm_retain (\<lambda>_ w. window_is_live w now) m;
          existing = (case hm_get k m1 of Some w \<Rightarrow> w
                      | None \<Rightarrow> \<lparr>win_count = 0, win_started = now, win_length = len\<rparr>);
          w' = existing\<lparr>win_count := as_u32 (win_count existing + 1)\<rparr>
      in (hm_insert k w' m1,
          Inr \<lparr>h_count = win_count w', h_resets_in = window_resets_in w' now\<rparr>))"

definition rl_peek :: "clock \<Rightarrow> string \<Rightarrow> windows \<Rightarrow> windows \<times> hit option result" where
  "rl_peek x k m =
     (m, Inr (case hm_get k m of
          Some w \<Rightarrow> if window_is_live w (x 0)
             then Some \<lparr>h_count = win_count w, h_resets_in = window_resets_in w (x 0)\<rparr> else None
        | None \<Rightarrow> None))"

definition rl_clear :: "string \<Rightarrow> windows \<Rightarrow> windows \<times> unit result" where
  "rl_clear k m = (hm_remove k m, Inr ())"

definition memory_rate_limit_store :: "windows rate_store" where
  "memory_rate_limit_store =
     \<lparr>rs_hit = rl_hit, rs_peek = rl_peek, rs_clear = rl_clear, rs_is_shared = False,
      rs_name = ''memory''\<rparr>"

section \<open>Counters in a cache\<close>

record 's cache_rate_limiter =
  crl_cache :: "'s cache"
  crl_prefix :: string

definition cache_rate_limiter_new :: "'s cache \<Rightarrow> 's cache_rate_limiter" where
  "cache_rate_limiter_new c = \<lparr>crl_cache = c, crl_prefix = ''rate:''\<rparr>"

definition crl_with_prefix :: "string \<Rightarrow> 's cache_rate_limiter \<Rightarrow> 's cache_rate_limiter" where
  "crl_with_prefix p l = l\<lparr>crl_prefix := p\<rparr>"

definition crl_counter :: "'s cache_rate_limiter \<Rightarrow> string \<Rightarrow> string" where
  "crl_counter l k = crl_prefix l @ k"

definition crl_deadline :: "'s cache_rate_limiter \<Rightarrow> string \<Rightarrow> string" where
  "crl_deadline l k = crl_prefix l @ k @ '':until''"

text \<open>Milliseconds since the epoch of an instant, and zero before the epoch.\<close>

definition now_millis :: "time \<Rightarrow> nat" where
  "now_millis t = as_u64 (nat (t div 1000000))"

definition read_millis :: "bytes option \<Rightarrow> nat option" where
  "read_millis stored =
     (case stored of
        None \<Rightarrow> None
      | Some bs \<Rightarrow> if utf8_valid bs then parse_uint u64_max (trim bs) else None)"

definition remaining :: "time \<Rightarrow> nat option \<Rightarrow> duration \<Rightarrow> duration" where
  "remaining t ends_at fallback =
     (case ends_at of
        Some e \<Rightarrow> (e - now_millis t) * 1000000
      | None \<Rightarrow> fallback)"

text \<open>
  One \<^verbatim>\<open>hit\<close>: open the window with an atomic \<^verbatim>\<open>add\<close>; the opener writes the deadline (and ignores
  whether that worked), everybody else reads it; then count.
\<close>

definition crl_hit ::
  "'s cache_rate_limiter \<Rightarrow> clock \<Rightarrow> string \<Rightarrow> duration \<Rightarrow> 's \<Rightarrow> 's \<times> hit result"
where
  "crl_hit l x k len s =
     (let c = crl_cache l; counter = crl_counter l k; deadline = crl_deadline l k in
      case c_add c (x 0) (x 1) counter ''0'' (Some len) s of
        (s1, Inl e) \<Rightarrow> (s1, Inl e)
      | (s1, Inr opened) \<Rightarrow>
          (case (if opened
                 then (let ends_at = as_u64 (now_millis (x 2) + as_u64 (len div 1000000))
                       in (fst (c_add c (x 3) (x 4) deadline (nat_dec ends_at) (Some len) s1),
                           Inr (Some ends_at)))
                 else (case c_get c (x 3) deadline s1 of
                         (s2, Inl e) \<Rightarrow> (s2, Inl e)
                       | (s2, Inr v) \<Rightarrow> (s2, Inr (read_millis v)))) of
             (s2, Inl e) \<Rightarrow> (s2, Inl e)
           | (s2, Inr ends_at) \<Rightarrow>
               (case c_increment c (x 5) (x 6) counter 1 s2 of
                  (s3, Inl e) \<Rightarrow> (s3, Inl e)
                | (s3, Inr count) \<Rightarrow>
                    (s3, Inr \<lparr>h_count = as_u32 (nat (max 0 count)),
                              h_resets_in = remaining (x 7) ends_at len\<rparr>))))"

text \<open>A lossy decoding that had to replace bytes never parses, so it counts as zero.\<close>

definition crl_peek ::
  "'s cache_rate_limiter \<Rightarrow> clock \<Rightarrow> string \<Rightarrow> 's \<Rightarrow> 's \<times> hit option result"
where
  "crl_peek l x k s =
     (let c = crl_cache l in
      case c_get c (x 0) (crl_counter l k) s of
        (s1, Inl e) \<Rightarrow> (s1, Inl e)
      | (s1, Inr None) \<Rightarrow> (s1, Inr None)
      | (s1, Inr (Some raw)) \<Rightarrow>
          (let count = (case (if utf8_valid raw then parse_uint u32_max (trim raw) else None) of
                          Some n \<Rightarrow> n | None \<Rightarrow> 0)
           in case c_get c (x 1) (crl_deadline l k) s1 of
                (s2, Inl e) \<Rightarrow> (s2, Inl e)
              | (s2, Inr v) \<Rightarrow>
                  (s2, Inr (Some \<lparr>h_count = count, h_resets_in = remaining (x 2) (read_millis v) 0\<rparr>))))"

definition crl_clear :: "'s cache_rate_limiter \<Rightarrow> string \<Rightarrow> 's \<Rightarrow> 's \<times> unit result" where
  "crl_clear l k s =
     (case c_forget (crl_cache l) (crl_counter l k) s of
        (s1, Inl e) \<Rightarrow> (s1, Inl e)
      | (s1, Inr _) \<Rightarrow>
          (case c_forget (crl_cache l) (crl_deadline l k) s1 of
             (s2, Inl e) \<Rightarrow> (s2, Inl e) | (s2, Inr _) \<Rightarrow> (s2, Inr ())))"

definition cache_rate_store :: "'s cache_rate_limiter \<Rightarrow> 's rate_store" where
  "cache_rate_store l =
     \<lparr>rs_hit = crl_hit l, rs_peek = crl_peek l, rs_clear = crl_clear l,
      rs_is_shared = c_is_shared (crl_cache l), rs_name = c_name (crl_cache l)\<rparr>"

section \<open>The throttle\<close>

record ('s, 'r) throttle =
  th_max_attempts :: nat
  th_window :: duration
  th_name :: "string option"
  th_key_by :: "('r \<Rightarrow> string option) option"
  th_store :: "'s rate_store"

definition throttle_new :: "'s rate_store \<Rightarrow> nat \<Rightarrow> duration \<Rightarrow> ('s, 'r) throttle" where
  "throttle_new store mx len =
     \<lparr>th_max_attempts = mx, th_window = len, th_name = None, th_key_by = None, th_store = store\<rparr>"

definition per_minute :: "'s rate_store \<Rightarrow> nat \<Rightarrow> ('s, 'r) throttle" where
  "per_minute store mx = throttle_new store mx (60 * 1000000000)"

definition throttle_named :: "string \<Rightarrow> ('s, 'r) throttle \<Rightarrow> ('s, 'r) throttle" where
  "throttle_named n th = th\<lparr>th_name := Some n\<rparr>"

definition throttle_keyed_by :: "('r \<Rightarrow> string option) \<Rightarrow> ('s, 'r) throttle \<Rightarrow> ('s, 'r) throttle" where
  "throttle_keyed_by f th = th\<lparr>th_key_by := Some f\<rparr>"

definition throttle_key :: "('s, 'a request_scheme) throttle \<Rightarrow> 'a request_scheme \<Rightarrow> string option" where
  "throttle_key th rq =
     map_option (\<lambda>key. case th_name th of
          Some n \<Rightarrow> ''throttle:'' @ n @ '':'' @ key
        | None \<Rightarrow> ''throttle:'' @ key)
       (case th_key_by th of
          Some key_by \<Rightarrow> key_by rq
        | None \<Rightarrow>
            Some (case bearer_token rq of
                    Some token \<Rightarrow> ''token:'' @ token
                  | None \<Rightarrow> (case rq_ip rq of Some ip \<Rightarrow> ''ip:'' @ ip_display ip | None \<Rightarrow> ''anonymous'')))"

text \<open>\<open>next\<close> is the rest of the pipeline, which may change the store too.\<close>

definition throttle_handle ::
  "header_check \<Rightarrow> ('s, 'a request_scheme) throttle \<Rightarrow> clock \<Rightarrow> 'a request_scheme
    \<Rightarrow> ('a request_scheme \<Rightarrow> 's \<Rightarrow> 's \<times> response) \<Rightarrow> 's \<Rightarrow> 's \<times> response"
where
  "throttle_handle valid th x rq nxt s =
     (case throttle_key th rq of
        None \<Rightarrow> nxt rq s
      | Some key \<Rightarrow>
          (case rs_hit (th_store th) x key (th_window th) s of
             (s1, Inl e) \<Rightarrow> nxt rq s1
           | (s1, Inr hit) \<Rightarrow>
               (let limit = nat_dec (th_max_attempts th) in
                if h_count hit > th_max_attempts th
                then (s1, with_header valid ''x-ratelimit-remaining'' ''0''
                       (with_header valid ''x-ratelimit-limit'' limit
                         (with_header valid ''retry-after''
                            (nat_dec (h_resets_in hit div 1000000000 + 1))
                           (error_into_response valid
                             (err_too_many_requests ''Too many requests.'')))))
                else (let (s2, r) = nxt rq s1 in
                      (s2, with_header valid ''x-ratelimit-remaining''
                             (nat_dec (th_max_attempts th - h_count hit))
                           (with_header valid ''x-ratelimit-limit'' limit r))))))"

section \<open>The contract of the port\<close>

text \<open>
  \<open>live s k t = Some n\<close>: at instant \<open>t\<close> the key has an open window with \<open>n\<close> hits. \<open>idle s k t\<close>:
  it has none. The first hit opens a window of the given length, anchored at that hit; a
  later one in the same window adds one and never moves the end; keys that are \<open>apart\<close> do
  not influence each other. The readings of one call never go back.
\<close>

locale rate_port =
  fixes rs :: "'s rate_store"
    and inv :: "'s \<Rightarrow> bool"
    and live :: "'s \<Rightarrow> string \<Rightarrow> time \<Rightarrow> nat option"
    and idle :: "'s \<Rightarrow> string \<Rightarrow> time \<Rightarrow> bool"
    and apart :: "string \<Rightarrow> string \<Rightarrow> bool"
  assumes live_antimono: "inv s \<Longrightarrow> live s k t' = Some n \<Longrightarrow> t \<le> t' \<Longrightarrow> live s k t = Some n"
    and hit_opens: "inv s \<Longrightarrow> mono x \<Longrightarrow> x 7 < x 0 + int len \<Longrightarrow> idle s k (x 0) \<Longrightarrow>
      \<exists>s' h e. rs_hit rs x k len s = (s', Inr h) \<and> h_count h = 1 \<and> inv s'
        \<and> x 0 + int len \<le> e \<and> e \<le> x 7 + int len
        \<and> (\<forall>t. x 7 \<le> t \<longrightarrow> (t < e \<longrightarrow> live s' k t = Some 1) \<and> (e \<le> t \<longrightarrow> idle s' k t))"
    and hit_counts: "inv s \<Longrightarrow> mono x \<Longrightarrow> live s k (x 7) = Some n \<Longrightarrow> n < u32_max \<Longrightarrow>
      \<exists>s' h. rs_hit rs x k len s = (s', Inr h) \<and> h_count h = n + 1 \<and> inv s'
        \<and> (\<forall>t. x 7 \<le> t \<longrightarrow> (live s k t = Some n \<longrightarrow> live s' k t = Some (n + 1))
                          \<and> (idle s k t \<longrightarrow> idle s' k t))"
    and hit_apart: "inv s \<Longrightarrow> mono x \<Longrightarrow> apart k k' \<Longrightarrow> x 7 \<le> t \<Longrightarrow>
      live (fst (rs_hit rs x k len s)) k' t = live s k' t \<and>
      idle (fst (rs_hit rs x k len s)) k' t = idle s k' t"
    and hit_inv: "inv s \<Longrightarrow> inv (fst (rs_hit rs x k len s))"

section \<open>The in-process store satisfies it\<close>

definition rl_live :: "windows \<Rightarrow> string \<Rightarrow> time \<Rightarrow> nat option" where
  "rl_live m k t =
     (case hm_get k m of Some w \<Rightarrow> if window_is_live w t then Some (win_count w) else None
      | None \<Rightarrow> None)"

definition rl_idle :: "windows \<Rightarrow> string \<Rightarrow> time \<Rightarrow> bool" where
  "rl_idle m k t \<longleftrightarrow> rl_live m k t = None"

lemma window_live_antimono: "window_is_live w t' \<Longrightarrow> t \<le> t' \<Longrightarrow> window_is_live w t"
  by (auto simp: window_is_live_def since_def)

lemma window_live_count [simp]: "window_is_live (w\<lparr>win_count := n\<rparr>) t = window_is_live w t"
  by (simp add: window_is_live_def)

lemma monoD0: "mono (x :: nat \<Rightarrow> time) \<Longrightarrow> x 0 \<le> x i"
  by (simp add: monoD)

lemma rl_get_retain:
  "hm_wf m \<Longrightarrow> hm_get k (hm_retain (\<lambda>_ w. window_is_live w now) m) =
     (case hm_get k m of Some w \<Rightarrow> if window_is_live w now then Some w else None | None \<Rightarrow> None)"
  by (simp add: hm_get_retain)

lemma rl_live_retain:
  "hm_wf m \<Longrightarrow> now \<le> t \<Longrightarrow>
   rl_live (hm_retain (\<lambda>_ w. window_is_live w now) m) k t = rl_live m k t"
  by (auto simp: rl_live_def rl_get_retain dest: window_live_antimono split: option.splits)

lemma rl_hit_fresh:
  assumes "hm_wf m" "rl_live m k (x 0) = None"
  shows "rl_hit x k len m =
    (hm_insert k \<lparr>win_count = 1, win_started = x 0, win_length = len\<rparr>
       (hm_retain (\<lambda>_ w. window_is_live w (x 0)) m),
     Inr \<lparr>h_count = 1, h_resets_in = len\<rparr>)"
  using assms
  by (auto simp: rl_hit_def rl_live_def rl_get_retain Let_def as_u32_def window_resets_in_def
      since_def split: option.splits if_splits)

lemma rl_hit_again:
  assumes "hm_wf m" "hm_get k m = Some w" "window_is_live w (x 0)"
  shows "rl_hit x k len m =
    (hm_insert k (w\<lparr>win_count := as_u32 (win_count w + 1)\<rparr>)
       (hm_retain (\<lambda>_ w. window_is_live w (x 0)) m),
     Inr \<lparr>h_count = as_u32 (win_count w + 1), h_resets_in = window_resets_in w (x 0)\<rparr>)"
  using assms
  by (simp add: rl_hit_def rl_get_retain Let_def window_resets_in_def)

interpretation rlm: rate_port memory_rate_limit_store hm_wf rl_live rl_idle "(\<noteq>)"
proof (unfold_locales, goal_cases)
  case (1 s k t' n t)
  then show ?case
    by (auto simp: rl_live_def dest: window_live_antimono split: option.splits if_splits)
next
  case (2 s x len k)
  then have "x 0 \<le> x 7" by (simp add: monoD0)
  with 2 show ?case
    by (auto simp: rl_hit_fresh rl_idle_def memory_rate_limit_store_def rl_live_def
        window_is_live_def since_def intro!: exI [of _ "x 0 + int len"])
next
  case (3 s x k n len)
  then have le: "x 0 \<le> x 7" by (simp add: monoD0)
  from 3 obtain w where w: "hm_get k s = Some w" "window_is_live w (x 7)" "win_count w = n"
    by (auto simp: rl_live_def split: option.splits if_splits)
  with le have "window_is_live w (x 0)" by (blast intro: window_live_antimono)
  moreover have "as_u32 (n + 1) = n + 1" using 3(4) by (simp add: int_defs)
  ultimately show ?case using 3 w
    by (auto simp: rl_hit_again memory_rate_limit_store_def rl_live_def rl_idle_def
        split: option.splits if_splits)
next
  case (4 s x k k' t len)
  then have "x 0 \<le> t" using monoD0 [of x 7] by simp
  with 4 have "rl_live (fst (rl_hit x k len s)) k' t = rl_live s k' t"
    using rl_live_retain [of s "x 0" t k']
    by (auto simp: rl_hit_def Let_def rl_live_def)
  then show ?case by (simp add: rl_idle_def memory_rate_limit_store_def)
next
  case (5 s x k len)
  then show ?case by (simp add: rl_hit_def Let_def memory_rate_limit_store_def)
qed

section \<open>The throttle over any store that satisfies the contract\<close>

text \<open>
  A sequence of requests, each with the readings of its call; the rest of the pipeline
  answers from the request and leaves the counters alone.
\<close>

fun throttle_all ::
  "header_check \<Rightarrow> ('s, 'a request_scheme) throttle \<Rightarrow> ('a request_scheme \<Rightarrow> response)
    \<Rightarrow> (clock \<times> 'a request_scheme) list \<Rightarrow> 's \<Rightarrow> response list"
where
  "throttle_all valid th nxt [] s = []"
| "throttle_all valid th nxt ((x, rq) # es) s =
     (let (s', r) = throttle_handle valid th x rq (\<lambda>rq s. (s, nxt rq)) s
      in r # throttle_all valid th nxt es s')"

text \<open>
  The policy as a reader would write it: of the requests counted under \<open>k\<close>, the \<open>j\<close>-th gets
  the pipeline's answer with what is left of the allowance while \<open>j\<close> is at most the
  limit, and \<^verbatim>\<open>429\<close> afterwards.
\<close>

fun window_policy ::
  "header_check \<Rightarrow> ('s, 'a request_scheme) throttle \<Rightarrow> ('a request_scheme \<Rightarrow> response) \<Rightarrow> string
    \<Rightarrow> nat \<Rightarrow> (clock \<times> 'a request_scheme) list \<Rightarrow> response list \<Rightarrow> bool"
where
  "window_policy valid th nxt k n [] rs = (rs = [])"
| "window_policy valid th nxt k n ((x, rq) # es) [] = False"
| "window_policy valid th nxt k n ((x, rq) # es) (r # rs) =
     (if throttle_key th rq = Some k
      then (if n + 1 \<le> th_max_attempts th
            then r = with_header valid ''x-ratelimit-remaining''
                       (nat_dec (th_max_attempts th - (n + 1)))
                     (with_header valid ''x-ratelimit-limit'' (nat_dec (th_max_attempts th)) (nxt rq))
            else r_status r = 429)
           \<and> window_policy valid th nxt k (n + 1) es rs
      else window_policy valid th nxt k n es rs)"

text \<open>Calls follow one another in time, and the last one is over before \<open>e\<close>.\<close>

fun in_order :: "time \<Rightarrow> time \<Rightarrow> (clock \<times> 'r) list \<Rightarrow> bool" where
  "in_order now e [] = (now < e)"
| "in_order now e ((x, rq) # es) = (mono x \<and> now \<le> x 0 \<and> in_order (x 7) e es)"

lemma in_order_le: "in_order now e es \<Longrightarrow> now < e"
  by (induction now e es rule: in_order.induct) (auto dest: monoD0 [of _ 7])

lemma throttle_counted:
  assumes "throttle_key th rq = Some k"
    and "rs_hit (th_store th) x k (th_window th) s = (s', Inr h)" "h_count h = n + 1"
  shows "\<exists>r. throttle_handle valid th x rq (\<lambda>rq s. (s, nxt rq)) s = (s', r) \<and>
     (if n + 1 \<le> th_max_attempts th
      then r = with_header valid ''x-ratelimit-remaining''
                 (nat_dec (th_max_attempts th - (n + 1)))
               (with_header valid ''x-ratelimit-limit'' (nat_dec (th_max_attempts th)) (nxt rq))
      else r_status r = 429)"
  using assms
  by (auto simp: throttle_handle_def Let_def error_into_response_status status_code_def error_defs)

lemma throttle_uncounted:
  assumes "throttle_key th rq \<noteq> Some k"
  shows "fst (throttle_handle valid th x rq (\<lambda>rq s. (s, nxt rq)) s) = s \<or>
    (\<exists>k'. throttle_key th rq = Some k' \<and>
      fst (throttle_handle valid th x rq (\<lambda>rq s. (s, nxt rq)) s) =
        fst (rs_hit (th_store th) x k' (th_window th) s))"
  using assms
  by (auto simp: throttle_handle_def Let_def split: option.splits prod.splits sum.splits)

context rate_port
begin

lemma throttle_window:
  assumes "inv s" "\<And>t. now \<le> t \<Longrightarrow> t < e \<Longrightarrow> live s k t = Some n"
    and "in_order now e es" "th_store th = rs" "n + length es < u32_max"
    and "\<And>x rq k'. (x, rq) \<in> set es \<Longrightarrow> throttle_key th rq = Some k' \<Longrightarrow> k' = k \<or> apart k' k"
  shows "window_policy valid th nxt k n es (throttle_all valid th nxt es s)"
  using assms
proof (induction es arbitrary: s now n)
  case (Cons ev es)
  obtain x rq where ev: "ev = (x, rq)" by force
  have x: "mono x" "now \<le> x 0" "in_order (x 7) e es" and now: "now \<le> x 7" "x 7 < e"
    using Cons.prems(3) monoD0 [of x 7] in_order_le [of "x 7" e es] by (auto simp: ev)
  have apart: "\<And>x rq k'. (x, rq) \<in> set es \<Longrightarrow> throttle_key th rq = Some k' \<Longrightarrow> k' = k \<or> apart k' k"
    using Cons.prems(6) by fastforce
  show ?case
  proof (cases "throttle_key th rq = Some k")
    case True
    have "live s k (x 7) = Some n" using Cons.prems(2) now by simp
    then obtain s' h where hit: "rs_hit rs x k (th_window th) s = (s', Inr h)"
      "h_count h = n + 1" "inv s'" "\<And>t. x 7 \<le> t \<Longrightarrow> live s k t = Some n \<Longrightarrow> live s' k t = Some (n + 1)"
      using hit_counts [OF Cons.prems(1) x(1), of k n "th_window th"] Cons.prems(5) by auto
    have "live s' k t = Some (n + 1)" if "x 7 \<le> t" "t < e" for t
      using that hit(4) Cons.prems(2) now(1) by simp
    then have "window_policy valid th nxt k (n + 1) es (throttle_all valid th nxt es s')"
      using Cons.IH [OF hit(3) _ x(3)] Cons.prems(4,5) apart by simp
    moreover obtain r where "throttle_handle valid th x rq (\<lambda>rq s. (s, nxt rq)) s = (s', r)"
      "if n + 1 \<le> th_max_attempts th
       then r = with_header valid ''x-ratelimit-remaining''
                 (nat_dec (th_max_attempts th - (n + 1)))
               (with_header valid ''x-ratelimit-limit'' (nat_dec (th_max_attempts th)) (nxt rq))
       else r_status r = 429"
      using throttle_counted [of th rq k x s s' h n valid nxt] hit Cons.prems(4) True by auto
    ultimately show ?thesis using True by (simp add: ev)
  next
    case False
    define s' where "s' = fst (throttle_handle valid th x rq (\<lambda>rq s. (s, nxt rq)) s)"
    have s': "inv s' \<and> (\<forall>t. x 7 \<le> t \<longrightarrow> live s' k t = live s k t)"
      using throttle_uncounted [OF False, of valid x nxt s] Cons.prems(1,4,6) x(1) False
        hit_inv hit_apart by (fastforce simp: s'_def ev)
    then have "live s' k t = Some n" if "x 7 \<le> t" "t < e" for t
      using that Cons.prems(2) now(1) by simp
    then have "window_policy valid th nxt k n es (throttle_all valid th nxt es s')"
      using Cons.IH [of s' "x 7" n] s' x(3) Cons.prems(4,5) apart by simp
    then show ?thesis using False by (simp add: ev s'_def split_beta Let_def)
  qed
qed simp

lemma throttle_opens:
  assumes "inv s" "idle s k (x 0)" "mono x" "throttle_key th rq = Some k" "th_store th = rs"
    and "in_order (x 7) (x 0 + int (th_window th)) es" "length es + 1 < u32_max"
    and "\<And>x rq k'. (x, rq) \<in> set es \<Longrightarrow> throttle_key th rq = Some k' \<Longrightarrow> k' = k \<or> apart k' k"
  shows "window_policy valid th nxt k 0 ((x, rq) # es) (throttle_all valid th nxt ((x, rq) # es) s)"
proof -
  obtain s' h e where hit: "rs_hit rs x k (th_window th) s = (s', Inr h)" "h_count h = 0 + 1"
    "inv s'" "x 0 + int (th_window th) \<le> e"
    "\<And>t. x 7 \<le> t \<Longrightarrow> t < e \<Longrightarrow> live s' k t = Some 1"
    using hit_opens [OF assms(1,3) in_order_le [OF assms(6)] assms(2)] by auto
  have "window_policy valid th nxt k 1 es (throttle_all valid th nxt es s')"
    by (rule throttle_window [OF hit(3) _ assms(6,5) _ assms(8)]) (use hit(4,5) assms(7) in auto)
  then show ?thesis
    using throttle_counted [OF assms(4), of x s s' h 0 valid nxt] hit(1,2) assms(4,5) by auto
qed

end

section \<open>Counters in a cache satisfy the contract\<close>

definition count_of :: "bytes \<Rightarrow> nat option" where
  "count_of raw = (case decode_counter raw of Inr n \<Rightarrow> if 0 \<le> n then Some (nat n) else None | Inl _ \<Rightarrow> None)"

definition crl_live ::
  "'s cache_rate_limiter \<Rightarrow> ('s \<Rightarrow> string \<Rightarrow> time \<Rightarrow> bytes option) \<Rightarrow> 's \<Rightarrow> string \<Rightarrow> time \<Rightarrow> nat option"
where
  "crl_live l vis s k t = Option.bind (vis s (crl_counter l k) t) count_of"

definition crl_idle ::
  "'s cache_rate_limiter \<Rightarrow> ('s \<Rightarrow> string \<Rightarrow> time \<Rightarrow> bytes option) \<Rightarrow> 's \<Rightarrow> string \<Rightarrow> time \<Rightarrow> bool"
where
  "crl_idle l vis s k t \<longleftrightarrow> vis s (crl_counter l k) t = None"

text \<open>Two keys are apart when neither is the other's deadline key.\<close>

definition crl_apart :: "string \<Rightarrow> string \<Rightarrow> bool" where
  "crl_apart k k' \<longleftrightarrow> k \<noteq> k' \<and> k' \<noteq> k @ '':until''"

lemma crl_keys [simp]:
  "crl_counter l k \<noteq> crl_deadline l k" "crl_deadline l k \<noteq> crl_counter l k"
  by (simp_all add: crl_counter_def crl_deadline_def)

lemma crl_apart_keys:
  "crl_apart k k' \<Longrightarrow> crl_counter l k' \<noteq> crl_counter l k \<and> crl_counter l k' \<noteq> crl_deadline l k"
  by (auto simp: crl_apart_def crl_counter_def crl_deadline_def)

lemma count_of_encode [simp]: "n \<le> u32_max \<Longrightarrow> count_of (encode_counter (int n)) = Some n"
  by (simp add: count_of_def int_defs)

lemma decode_zero [simp]: "decode_counter ''0'' = Inr 0"
  by code_simp

lemma count_of_SomeD: "count_of raw = Some n \<Longrightarrow> decode_counter raw = Inr (int n)"
  by (auto simp: count_of_def split: sum.splits if_splits)

context cache_port
begin

lemma increment_step:
  assumes "inv s" "vis s k t0 = Some raw" "decode_counter raw = Inr n"
    "vis s k t1 = Some raw" "t0 \<le> t1" "i64_saturating_add n by = m"
  defines "s1 \<equiv> fst (c_increment c t0 t1 k by s)"
  shows "c_increment c t0 t1 k by s = (s1, Inr m)" "inv s1"
    "\<And>t'. t1 \<le> t' \<Longrightarrow> vis s1 k t' = map_option (\<lambda>_. encode_counter m) (vis s k t')"
  using increment_live [OF assms(1-5), of t1 "by"] increment_live [OF assms(1-5)] assms(1,6)
  by (auto simp: s1_def prod_eq_iff)

lemma crl_hit_opens:
  assumes cl: "crl_cache l = c" and inv: "inv s" and x: "mono x" "x 7 < x 0 + int len"
    and idle: "crl_idle l vis s k (x 0)" and ex: "exp (x 1) (Some len) = Some (x 1 + int len)"
  shows "\<exists>s' h. crl_hit l x k len s = (s', Inr h) \<and> h_count h = 1 \<and> inv s'
        \<and> (\<forall>t. x 7 \<le> t \<longrightarrow> (t < x 1 + int len \<longrightarrow> crl_live l vis s' k t = Some 1)
                          \<and> (x 1 + int len \<le> t \<longrightarrow> crl_idle l vis s' k t))"
proof -
  let ?k = "crl_counter l k"
  have le: "\<And>i j. i \<le> j \<Longrightarrow> x i \<le> x j" using x(1) by (simp add: monoD)
  have lt: "x 6 < x 1 + int len" using le [of 0 1] le [of 6 7] x(2) by simp
  have none: "vis s ?k (x 0) = None" using idle by (simp add: crl_idle_def)
  define s1 where "s1 = fst (c_add c (x 0) (x 1) ?k ''0'' (Some len) s)"
  have s1: "c_add c (x 0) (x 1) ?k ''0'' (Some len) s = (s1, Inr True)" "inv s1"
    "\<And>t. x 0 \<le> t \<Longrightarrow> vis s1 ?k t = (if t < x 1 + int len then Some ''0'' else None)"
    using add_result [OF inv, of "x 0" "x 1" ?k "''0''" "Some len"] inv le [of 0 1] none ex
    by (simp_all add: s1_def prod_eq_iff add_vis live_at_def)
  define d where "d = crl_deadline l k"
  define v where "v = nat_dec (as_u64 (now_millis (x 2) + as_u64 (len div 1000000)))"
  define s2 where "s2 = fst (c_add c (x 3) (x 4) d v (Some len) s1)"
  have s2: "inv s2" "\<And>t. x 3 \<le> t \<Longrightarrow> vis s2 ?k t = vis s1 ?k t"
    using s1(2) le [of 3 4] by (simp_all add: s2_def d_def add_vis)
  have "vis s2 ?k (x 5) = Some ''0''" "vis s2 ?k (x 6) = Some ''0''"
    using le [of 0 5] le [of 3 5] le [of 0 6] le [of 3 6] le [of 5 6] lt by (simp_all add: s2 s1)
  note inc = increment_step [OF s2(1) this(1) decode_zero this(2) le, of 1 1]
  define s3 where "s3 = fst (c_increment c (x 5) (x 6) ?k 1 s2)"
  have s3: "c_increment c (x 5) (x 6) ?k 1 s2 = (s3, Inr 1)" "inv s3"
    "\<And>t. x 6 \<le> t \<Longrightarrow> vis s3 ?k t = map_option (\<lambda>_. encode_counter 1) (vis s2 ?k t)"
    using inc by (simp_all add: s3_def int_defs)
  have "crl_live l vis s3 k t = Some 1" if "x 7 \<le> t" "t < x 1 + int len" for t
    using that le [of 6 7] le [of 3 7] le [of 0 7] count_of_encode [of 1]
    by (simp add: crl_live_def s3 s2 s1 u32_max_def)
  moreover have "crl_idle l vis s3 k t" if "x 7 \<le> t" "x 1 + int len \<le> t" for t
    using that le [of 6 7] le [of 3 7] le [of 0 7] by (simp add: crl_idle_def s3 s2 s1)
  moreover have "\<exists>h. crl_hit l x k len s = (s3, Inr h) \<and> h_count h = 1"
    using s3(1) by (simp add: crl_hit_def Let_def cl s1 s2_def [symmetric] d_def [symmetric]
        v_def [symmetric] as_u32_def del: One_nat_def)
  ultimately show ?thesis using s3(2) by blast
qed

lemma crl_hit_counts:
  assumes cl: "crl_cache l = c" and inv: "inv s" and x: "mono x"
    and live: "crl_live l vis s k (x 7) = Some n" and n: "n < u32_max"
  shows "\<exists>s' h. crl_hit l x k len s = (s', Inr h) \<and> h_count h = n + 1 \<and> inv s'
        \<and> (\<forall>t. x 7 \<le> t \<longrightarrow> (crl_live l vis s k t = Some n \<longrightarrow> crl_live l vis s' k t = Some (n + 1))
                          \<and> (crl_idle l vis s k t \<longrightarrow> crl_idle l vis s' k t))"
proof -
  let ?k = "crl_counter l k"
  have le: "\<And>i j. i \<le> j \<Longrightarrow> x i \<le> x j" using x by (simp add: monoD)
  obtain raw where raw: "vis s ?k (x 7) = Some raw" "count_of raw = Some n"
    using live by (auto simp: crl_live_def bind_eq_Some_conv)
  have v: "vis s ?k (x i) = Some raw" if "i \<le> 7" for i
    using vis_antimono [OF inv raw(1) le [OF that]] .
  define s1 where "s1 = fst (c_add c (x 0) (x 1) ?k ''0'' (Some len) s)"
  have add: "c_add c (x 0) (x 1) ?k ''0'' (Some len) s = (s1, Inr False)"
    using add_result [OF inv, of "x 0" "x 1" ?k "''0''" "Some len"] v [of 0]
    by (simp add: s1_def prod_eq_iff)
  have s1: "inv s1" "\<And>k' t. x 0 \<le> t \<Longrightarrow> vis s1 k' t = vis s k' t"
    using inv le [of 0 1] v [of 0] by (simp_all add: s1_def add_vis)
  define d where "d = crl_deadline l k"
  define s2 where "s2 = fst (c_get c (x 3) d s1)"
  have get: "c_get c (x 3) d s1 = (s2, Inr (vis s1 d (x 3)))"
    using get_result [OF s1(1)] by (simp add: s2_def prod_eq_iff)
  have s2: "inv s2" "\<And>t. x 3 \<le> t \<Longrightarrow> vis s2 ?k t = vis s ?k t"
    using s1 le [of 0 3] by (auto simp: s2_def get_vis)
  have "vis s2 ?k (x 5) = Some raw" "vis s2 ?k (x 6) = Some raw"
    using le [of 3 5] le [of 3 6] by (simp_all add: s2 v)
  note inc = increment_step [OF s2(1) this(1) count_of_SomeD [OF raw(2)] this(2) le, of 1 "int (n + 1)"]
  define s3 where "s3 = fst (c_increment c (x 5) (x 6) ?k 1 s2)"
  have "i64_saturating_add (int n) 1 = int (n + 1)" using n by (simp add: int_defs)
  then have s3: "c_increment c (x 5) (x 6) ?k 1 s2 = (s3, Inr (int (n + 1)))" "inv s3"
    "\<And>t. x 6 \<le> t \<Longrightarrow> vis s3 ?k t = map_option (\<lambda>_. encode_counter (int (n + 1))) (vis s2 ?k t)"
    using inc by (simp_all add: s3_def)
  have vis3: "vis s3 ?k t = map_option (\<lambda>_. encode_counter (int (n + 1))) (vis s ?k t)" if "x 7 \<le> t" for t
    using that le [of 6 7] le [of 3 7] by (simp add: s3 s2)
  have "crl_live l vis s3 k t = Some (n + 1)" if "x 7 \<le> t" "crl_live l vis s k t = Some n" for t
    using that vis3 [OF that(1)] count_of_encode [of "n + 1"] n
    by (auto simp: crl_live_def bind_eq_Some_conv)
  moreover have "crl_idle l vis s3 k t" if "x 7 \<le> t" "crl_idle l vis s k t" for t
    using that vis3 by (simp add: crl_idle_def)
  moreover have "as_u32 (Suc n) = n + 1" using n by (simp add: int_defs)
  then have "\<exists>h. crl_hit l x k len s = (s3, Inr h) \<and> h_count h = n + 1"
    using s3(1) by (simp add: crl_hit_def Let_def cl add get d_def [symmetric] nat_add_distrib del: One_nat_def)
  ultimately show ?thesis using s3(2) by blast
qed

lemma crl_hit_cases:
  assumes cl: "crl_cache l = c" and inv: "inv s" and x: "mono x"
  shows "\<exists>s2. inv s2 \<and> (\<forall>k' t. k' \<noteq> crl_counter l k \<longrightarrow> k' \<noteq> crl_deadline l k \<longrightarrow> x 7 \<le> t \<longrightarrow>
            vis s2 k' t = vis s k' t)
       \<and> fst (crl_hit l x k len s) = fst (c_increment c (x 5) (x 6) (crl_counter l k) 1 s2)"
proof -
  have le: "\<And>i j. i \<le> j \<Longrightarrow> x i \<le> x j" using x by (simp add: monoD)
  let ?k = "crl_counter l k" and ?d = "crl_deadline l k"
  define v where "v = nat_dec (as_u64 (now_millis (x 2) + as_u64 (len div 1000000)))"
  define s1 where "s1 = fst (c_add c (x 0) (x 1) ?k ''0'' (Some len) s)"
  define s2a where "s2a = fst (c_add c (x 3) (x 4) ?d v (Some len) s1)"
  define s2b where "s2b = fst (c_get c (x 3) ?d s1)"
  have add: "c_add c (x 0) (x 1) ?k ''0'' (Some len) s = (s1, Inr (vis s ?k (x 0) = None))"
    using add_result [OF inv] by (simp add: s1_def prod_eq_iff)
  have s1: "inv s1" using inv by (simp add: s1_def)
  have get: "c_get c (x 3) ?d s1 = (s2b, Inr (vis s1 ?d (x 3)))"
    using get_result [OF s1] by (simp add: s2b_def prod_eq_iff)
  let ?s2 = "if vis s ?k (x 0) = None then s2a else s2b"
  have "inv ?s2" using s1 by (simp add: s2a_def s2b_def)
  moreover have "vis ?s2 k' t = vis s k' t" if "k' \<noteq> ?k" "k' \<noteq> ?d" "x 7 \<le> t" for k' t
    using that le [of 0 1] le [of 3 4] le [of 0 7] le [of 3 7] inv s1
    by (auto simp: s2a_def s2b_def add_vis get_vis) (simp_all add: s1_def add_vis)
  moreover have "fst (crl_hit l x k len s) = fst (c_increment c (x 5) (x 6) ?k 1 ?s2)"
    by (simp add: crl_hit_def Let_def cl add get s2a_def [symmetric] v_def [symmetric]
        split: prod.splits sum.splits del: One_nat_def)
  ultimately show ?thesis by blast
qed

lemma cache_limiter_implements:
  assumes "crl_cache l = c" and "\<And>t len. exp t (Some len) = Some (t + int len)"
  shows "rate_port (cache_rate_store l) inv (crl_live l vis) (crl_idle l vis) crl_apart"
proof (unfold_locales, goal_cases)
  case (1 s k t' n t)
  then show ?case by (auto simp: crl_live_def bind_eq_Some_conv dest: vis_antimono)
next
  case (2 s x len k)
  then have "x 0 \<le> x 1" "x 1 \<le> x 7" by (simp_all add: monoD)
  with crl_hit_opens [OF assms(1) 2(1-4) assms(2)] show ?case
    by (auto simp: cache_rate_store_def intro!: exI [of _ "x 1 + int len"])
next
  case (3 s x k n len)
  then show ?case using crl_hit_counts [OF assms(1)] by (simp add: cache_rate_store_def)
next
  case (4 s x k k' t len)
  then show ?case
    using crl_hit_cases [OF assms(1) 4(1,2), of k len] crl_apart_keys [OF 4(3), of l]
    by (auto simp: cache_rate_store_def crl_live_def crl_idle_def increment_other)
next
  case (5 s x k len)
  then show ?case
    using get_result add_result
    by (auto simp: cache_rate_store_def crl_hit_def Let_def assms(1) split: prod.splits sum.splits if_splits)
      (metis inv_add inv_get inv_increment fst_conv)+
qed

end

text \<open>\<open>exact_std\<close> is the documented behaviour of \<^verbatim>\<open>from_std\<close> on a duration it accepts.\<close>

abbreviation exact_std :: "duration \<Rightarrow> int option" where
  "exact_std \<equiv> \<lambda>d. Some (int d)"

interpretation crlm: rate_port "cache_rate_store (cache_rate_limiter_new (memory_cache exact_std))"
  hm_wf "crl_live (cache_rate_limiter_new (memory_cache exact_std)) mem_vis"
  "crl_idle (cache_rate_limiter_new (memory_cache exact_std)) mem_vis" crl_apart
  by (rule mem.cache_limiter_implements) (simp_all add: cache_rate_limiter_new_def expiry_def)

section \<open>Properties\<close>

text \<open>
  C19. The throttle over the in-process store enforces its limit exactly. From an idle key, of
  all requests whose calls end before the window that the first one opened does, the first
  \<^verbatim>\<open>max_attempts\<close> under that key reach the rest of the pipeline and are told what is left,
  and every further one is answered \<^verbatim>\<open>429\<close>; requests under other keys, counted or not, do
  not change that.
\<close>

theorem throttle_enforces_limit:
  assumes "hm_wf m" "rl_idle m k (x 0)" "mono x" "throttle_key th rq = Some k"
    and "th_store th = memory_rate_limit_store"
    and "in_order (x 7) (x 0 + int (th_window th)) es" "length es + 1 < u32_max"
  shows "window_policy valid th nxt k 0 ((x, rq) # es) (throttle_all valid th nxt ((x, rq) # es) m)"
  by (rule rlm.throttle_opens [OF assms]) blast

theorem throttle_enforces_limit_witness:
  "let th = throttle_new memory_rate_limit_store 1 (60 :: nat);
       rq = \<lparr>rq_method = ''POST'', rq_path = ''/login'', rq_headers = [], rq_ip = Some (V4 [10, 0, 0, 1])\<rparr>;
       es = [(\<lambda>_. 0, rq), (\<lambda>_. 5, rq)]
   in window_policy (\<lambda>_ _. True) th (\<lambda>_. response_new 200) ''throttle:ip:10.0.0.1'' 0 es
        (throttle_all (\<lambda>_ _. True) th (\<lambda>_. response_new 200) es [])"
  unfolding Let_def
  by (rule throttle_enforces_limit)
    (simp_all add: rl_idle_def rl_live_def throttle_key_def throttle_new_def bearer_token_def
      request_header_def header_to_str_def byte_in_def header_get_def monoI u32_max_def ip_display_example)

text \<open>
  The same limit is enforced when the counters live in a cache: over the in-process
  cache, as long as no other key in use is the deadline key of this one.
\<close>

theorem cache_throttle_enforces_limit:
  assumes "hm_wf m" "crl_idle l mem_vis m k (x 0)" "mono x" "throttle_key th rq = Some k"
    and "th_store th = cache_rate_store l"
    and "in_order (x 7) (x 0 + int (th_window th)) es" "length es + 1 < u32_max"
    and "l = cache_rate_limiter_new (memory_cache exact_std)"
    and "\<And>x rq k'. (x, rq) \<in> set es \<Longrightarrow> throttle_key th rq = Some k' \<Longrightarrow> k' = k \<or> crl_apart k' k"
  shows "window_policy valid th nxt k 0 ((x, rq) # es) (throttle_all valid th nxt ((x, rq) # es) m)"
  using assms by (intro crlm.throttle_opens) simp_all

theorem cache_throttle_enforces_limit_witness:
  "let th = throttle_new (cache_rate_store (cache_rate_limiter_new (memory_cache exact_std))) 1 (60 :: nat);
       rq = \<lparr>rq_method = ''POST'', rq_path = ''/login'', rq_headers = [], rq_ip = Some (V4 [10, 0, 0, 1])\<rparr>;
       es = [(\<lambda>_. 0, rq), (\<lambda>_. 5, rq)]
   in window_policy (\<lambda>_ _. True) th (\<lambda>_. response_new 200) ''throttle:ip:10.0.0.1'' 0 es
        (throttle_all (\<lambda>_ _. True) th (\<lambda>_. response_new 200) es [])"
  unfolding Let_def
  by (rule cache_throttle_enforces_limit [where l = "cache_rate_limiter_new (memory_cache exact_std)"])
    (auto simp: crl_idle_def mem_vis_def throttle_key_def throttle_new_def bearer_token_def
      request_header_def header_to_str_def byte_in_def header_get_def monoI u32_max_def ip_display_example)

text \<open>
  The deadline of one key is the counter of another: a hit on \<open>k\<close> that opens its window
  stores the end of that window, a number of milliseconds, under the very cache key that
  counts the hits of \<open>k:until\<close>, so the first hit on that key already reports the deadline
  plus one.
\<close>

theorem deadline_key_collides:
  "let l = cache_rate_limiter_new (memory_cache exact_std);
       m1 = fst (crl_hit l (\<lambda>_. 0) ''login'' 60000000000 []);
       h = projr (snd (crl_hit l (\<lambda>_. 1) ''login:until'' 60000000000 m1))
   in crl_deadline l ''login'' = crl_counter l ''login:until'' \<and> h_count h = 60001"
proof -
  let ?l = "cache_rate_limiter_new (memory_cache exact_std)"
  let ?m1 = "[(''rate:login'', \<lparr>e_value = encode_counter 1, e_expires_at = Some 60000000000\<rparr>),
     (''rate:login:until'', \<lparr>e_value = nat_dec 60000, e_expires_at = Some 60000000000\<rparr>)]"
  have m1: "fst (crl_hit ?l (\<lambda>_. 0) ''login'' 60000000000 []) = ?m1"
    by (simp add: crl_hit_def crl_counter_def crl_deadline_def cache_rate_limiter_new_def
        memory_cache_def mem_add_def mem_increment_def Let_def expiry_def hm_insert_def hm_get_def
        live_at_def now_millis_def int_defs)
  have "encode_counter (int 60000) = nat_dec 60000"
    by (simp add: encode_counter_def int_dec_def)
  then have "crl_live ?l mem_vis ?m1 ''login:until'' 1 = Some 60000"
    using count_of_encode [of 60000]
    by (simp add: crl_live_def mem_vis_def hm_get_def crl_counter_def cache_rate_limiter_new_def
        live_at_def u32_max_def)
  then obtain h where "snd (crl_hit ?l (\<lambda>_. 1) ''login:until'' 60000000000 ?m1) = Inr h"
    "h_count h = 60001"
    using crlm.hit_counts [of ?m1 "\<lambda>_. 1" "''login:until''" 60000 60000000000]
    by (auto simp: hm_wf_def cache_rate_store_def u32_max_def monoI)
  then show ?thesis
    unfolding Let_def m1 by (simp add: crl_deadline_def crl_counter_def)
qed

end
