(* ===== verification/Base32.thy ===== *)
theory Base32
  imports Support_Error
begin

text \<open>
  The base32 codec of \<^verbatim>\<open>rainier-mfa/src/base32.rs\<close>. The 64-bit buffer of both loops is a natural
  number with the wrap-around of the left shift written out; the low bits of a shifted
  buffer are clear, so the \<^verbatim>\<open>|\<close> of the source is an addition.
\<close>

definition ALPHABET :: string where
  "ALPHABET = ''ABCDEFGHIJKLMNOPQRSTUVWXYZ234567''"

fun b32_emit :: "nat \<Rightarrow> nat \<Rightarrow> string \<Rightarrow> nat \<times> string" where
  "b32_emit buffer bits out =
     (if bits \<ge> 5
      then b32_emit buffer (bits - 5) (out @ [ALPHABET ! (buffer div 2 ^ (bits - 5) mod 32)])
      else (bits, out))"

declare b32_emit.simps [simp del]

fun b32_encode_loop :: "bytes \<Rightarrow> nat \<Rightarrow> nat \<Rightarrow> string \<Rightarrow> nat \<times> nat \<times> string" where
  "b32_encode_loop [] buffer bits out = (buffer, bits, out)"
| "b32_encode_loop (b # bs) buffer bits out =
     (let buffer' = buffer * 2 ^ 8 mod 2 ^ 64 + of_char b;
          (bits', out') = b32_emit buffer' (bits + 8) out
      in b32_encode_loop bs buffer' bits' out')"

definition base32_encode :: "bytes \<Rightarrow> string" where
  "base32_encode bs =
     (let (buffer, bits, out) = b32_encode_loop bs 0 0 []
      in if bits > 0 then out @ [ALPHABET ! (buffer * 2 ^ (5 - bits) mod 2 ^ 64 mod 32)] else out)"

text \<open>The value of one character, or the error that names it.\<close>

definition b32_value :: "string \<Rightarrow> nat result" where
  "b32_value ch =
     (case map ascii_upper_char ch of
        [c] \<Rightarrow>
          (let n = (of_char c :: nat) in
           if 65 \<le> n \<and> n \<le> 90 then Inr (n - 65)
           else if 50 \<le> n \<and> n \<le> 55 then Inr (n - 50 + 26)
           else Inl (err_bad_request (''`'' @ [c] @ ''` is not a base32 character'')))
      | other \<Rightarrow> Inl (err_bad_request (''`'' @ other @ ''` is not a base32 character'')))"

fun b32_decode_loop ::
  "string list \<Rightarrow> nat \<Rightarrow> nat \<Rightarrow> nat \<Rightarrow> bytes \<Rightarrow> (bytes \<times> nat) result"
where
  "b32_decode_loop [] buffer bits symbols out = Inr (out, symbols)"
| "b32_decode_loop (ch # cs) buffer bits symbols out =
     (if is_whitespace ch \<or> ch = ''-'' then b32_decode_loop cs buffer bits symbols out
      else (case b32_value ch of
              Inl e \<Rightarrow> Inl e
            | Inr v \<Rightarrow>
                (let buffer' = buffer * 2 ^ 5 mod 2 ^ 64 + v; bits' = bits + 5
                 in if bits' \<ge> 8
                    then b32_decode_loop cs buffer' (bits' - 8) (symbols + 1)
                           (out @ [char_of (buffer' div 2 ^ (bits' - 8))])
                    else b32_decode_loop cs buffer' bits' (symbols + 1) out)))"

definition base32_decode :: "string \<Rightarrow> bytes result" where
  "base32_decode text =
     (case b32_decode_loop (chars (trim_end_char CHR ''='' text)) 0 0 0 [] of
        Inl e \<Rightarrow> Inl e
      | Inr (out, symbols) \<Rightarrow>
          if symbols mod 8 \<in> {1, 3, 6}
          then Inl (err_bad_request ''that is not a whole number of base32-encoded bytes'')
          else Inr out)"

section \<open>The alphabet\<close>

definition symbol :: "nat \<Rightarrow> char" where "symbol v = ALPHABET ! v"

lemma upto_32: "[0..<32] = [0, 1, 2, 3, 4, 5, 6, 7, 8, 9, 10, 11, 12, 13, 14, 15, 16, 17, 18, 19,
    20, 21, 22, 23, 24, 25, 26, 27, 28, 29, 30, 31]"
  by (simp add: upt_conv_Cons)

lemma less_32_cases: "v < 32 \<Longrightarrow> v \<in> set [0..<32]"
  by simp

lemma symbol_facts:
  assumes "v < 32"
  shows "b32_value [symbol v] = Inr v" "graphic (symbol v)" "symbol v \<noteq> CHR ''-''"
    "symbol v \<noteq> CHR ''=''"
proof -
  have "list_all (\<lambda>v. b32_value [symbol v] = Inr v \<and> graphic (symbol v)
      \<and> symbol v \<noteq> CHR ''-'' \<and> symbol v \<noteq> CHR ''='') [0..<32]"
    unfolding upto_32
    by (simp add: symbol_def ALPHABET_def b32_value_def ascii_upper_char_def graphic_def Let_def)
  then show "b32_value [symbol v] = Inr v" "graphic (symbol v)" "symbol v \<noteq> CHR ''-''"
    "symbol v \<noteq> CHR ''=''"
    using less_32_cases [OF assms] unfolding list_all_iff by blast+
qed

lemma b32_emit_symbol:
  "b32_emit buffer bits out =
     (if bits \<ge> 5
      then b32_emit buffer (bits - 5) (out @ [symbol (buffer div 2 ^ (bits - 5) mod 32)])
      else (bits, out))"
  by (subst b32_emit.simps) (simp add: symbol_def)

section \<open>What the encoder writes\<close>

text \<open>
  The symbols written so far, read in base 32, followed by the pending low bits of the
  buffer, are the bytes read so far in base 256.
\<close>

definition enc_inv :: "nat \<Rightarrow> nat \<Rightarrow> nat \<Rightarrow> nat \<Rightarrow> nat list \<Rightarrow> bool" where
  "enc_inv n B buffer bits vs \<longleftrightarrow>
     8 * n = 5 * length vs + bits \<and> (\<forall>v \<in> set vs. v < 32) \<and>
     B = base_value 32 vs * 2 ^ bits + buffer mod 2 ^ bits"

lemma div_mod_step: "(b::nat) mod 2 ^ (k + m) = (b div 2 ^ k mod 2 ^ m) * 2 ^ k + b mod 2 ^ k"
  by (metis add.commute div_mult_mod_eq mod_mult2_eq mult.commute power_add)

lemma enc_emit:
  assumes "enc_inv n B buffer bits vs"
  shows "\<exists>vs' bits'. b32_emit buffer bits (map symbol vs) = (bits', map symbol vs')
    \<and> enc_inv n B buffer bits' vs' \<and> bits' < 5"
  using assms
proof (induction bits arbitrary: vs rule: less_induct)
  case (less bits)
  show ?case
  proof (cases "bits \<ge> 5")
    case True
    define v where "v = buffer div 2 ^ (bits - 5) mod 32"
    have "buffer mod 2 ^ bits = v * 2 ^ (bits - 5) + buffer mod 2 ^ (bits - 5)"
      using div_mod_step [of buffer "bits - 5" 5] True by (simp add: v_def)
    moreover have "(2::nat) ^ bits = 32 * 2 ^ (bits - 5)"
      using True power_add [of "2::nat" 5 "bits - 5"] by simp
    ultimately have "enc_inv n B buffer (bits - 5) (vs @ [v])"
      using less.prems True by (auto simp: enc_inv_def v_def algebra_simps)
    from less.IH [OF _ this] True show ?thesis
      by (subst b32_emit_symbol) (simp add: v_def)
  qed (use less.prems in \<open>auto simp: b32_emit_symbol [of buffer bits]\<close>)
qed

lemma mod_pow_64: "k \<le> 64 \<Longrightarrow> (x::nat) mod 2 ^ 64 mod 2 ^ k = x mod 2 ^ k"
  by (rule mod_mod_cancel) (rule le_imp_power_dvd)

lemma shifted_low_bits:
  assumes "b < 2 ^ m" "k + m \<le> 64"
  shows "(buf * 2 ^ m mod 2 ^ 64 + b) mod 2 ^ (k + m) = (buf mod 2 ^ k) * 2 ^ m + (b::nat)"
proof -
  have "(buf * 2 ^ m mod 2 ^ 64 + b) mod 2 ^ (k + m) = (buf * 2 ^ m mod 2 ^ 64 mod 2 ^ (k + m) + b) mod 2 ^ (k + m)"
    by (simp add: mod_add_left_eq)
  also have "\<dots> = (buf mod 2 ^ k * 2 ^ m + b) mod 2 ^ (k + m)"
    unfolding mod_pow_64 [OF assms(2)] unfolding power_add by (simp only: mult_mod_left)
  also have "\<dots> = buf mod 2 ^ k * 2 ^ m + b"
  proof (rule mod_less)
    have "buf mod 2 ^ k + 1 \<le> 2 ^ k" by (simp add: Suc_leI)
    then have "(buf mod 2 ^ k + 1) * 2 ^ m \<le> 2 ^ k * 2 ^ m" by (rule mult_le_mono1)
    then show "buf mod 2 ^ k * 2 ^ m + b < 2 ^ (k + m)"
      using assms(1) by (simp add: power_add)
  qed
  finally show ?thesis .
qed

lemma enc_loop:
  assumes "enc_inv n B buffer bits vs" "bits < 5"
  shows "\<exists>vs' buffer' bits'. b32_encode_loop bs buffer bits (map symbol vs) = (buffer', bits', map symbol vs')
    \<and> enc_inv (n + length bs) (foldl (\<lambda>m b. 256 * m + of_char b) B bs) buffer' bits' vs' \<and> bits' < 5"
  using assms
proof (induction bs arbitrary: n B buffer bits vs)
  case (Cons b bs)
  define buffer' where "buffer' = buffer * 2 ^ 8 mod 2 ^ 64 + of_char b"
  have "(of_char b :: nat) < 2 ^ 8" by simp
  then have "buffer' mod 2 ^ (bits + 8) = buffer mod 2 ^ bits * 2 ^ 8 + of_char b"
    unfolding buffer'_def using Cons.prems(2) by (intro shifted_low_bits) simp_all
  then have "enc_inv (n + 1) (256 * B + of_char b) buffer' (bits + 8) vs"
    using Cons.prems(1) by (auto simp: enc_inv_def power_add algebra_simps)
  then obtain vs1 bits1 where e: "b32_emit buffer' (bits + 8) (map symbol vs) = (bits1, map symbol vs1)"
    "enc_inv (n + 1) (256 * B + of_char b) buffer' bits1 vs1" "bits1 < 5"
    using enc_emit by blast
  have "b32_encode_loop (b # bs) buffer bits (map symbol vs) = b32_encode_loop bs buffer' bits1 (map symbol vs1)"
    by (simp only: b32_encode_loop.simps Let_def buffer'_def [symmetric] e(1) prod.case)
  with Cons.IH [OF e(2,3)] show ?case by simp
qed auto

lemma encode_symbols:
  "\<exists>vs p. base32_encode bs = map symbol vs \<and> (\<forall>v \<in> set vs. v < 32) \<and> p < 5
     \<and> 5 * length vs = 8 * length bs + p
     \<and> base_value 32 vs = base_value 256 (map of_char bs) * 2 ^ p"
proof -
  have "enc_inv 0 0 0 0 []" by (simp add: enc_inv_def)
  from enc_loop [OF this, of bs] obtain vs buffer bits where
    l: "b32_encode_loop bs 0 0 [] = (buffer, bits, map symbol vs)" and
    i: "enc_inv (length bs) (base_value 256 (map of_char bs)) buffer bits vs" and b: "bits < 5"
    by (auto simp: base_value_def foldl_map)
  show ?thesis
  proof (cases "bits = 0")
    case True
    then show ?thesis using i by (intro exI [of _ vs] exI [of _ 0]) (simp add: base32_encode_def l enc_inv_def)
  next
    case False
    define v where "v = buffer mod 2 ^ bits * 2 ^ (5 - bits)"
    have "buffer * 2 ^ (5 - bits) mod 2 ^ 64 mod 2 ^ 5 = v"
    proof -
      have "buffer * 2 ^ (5 - bits) mod 2 ^ 64 mod 2 ^ 5 = buffer * 2 ^ (5 - bits) mod (2 ^ bits * 2 ^ (5 - bits))"
        using b by (subst mod_pow_64) (simp_all flip: power_add)
      then show ?thesis by (simp only: v_def mult_mod_left)
    qed
    moreover have "v < 32"
    proof -
      have "v < 2 ^ bits * 2 ^ (5 - bits)" unfolding v_def by simp
      then show ?thesis using b by (simp flip: power_add)
    qed
    moreover have "(2::nat) ^ bits * 2 ^ (5 - bits) = 32"
      using b by (simp flip: power_add)
    then have "base_value 32 (vs @ [v]) = base_value 256 (map of_char bs) * 2 ^ (5 - bits)"
      using i by (simp add: enc_inv_def v_def algebra_simps)
    ultimately show ?thesis using i b False
      by (intro exI [of _ "vs @ [v]"] exI [of _ "5 - bits"])
        (auto simp: base32_encode_def l enc_inv_def symbol_def)
  qed
qed

section \<open>What the decoder reads\<close>

definition dec_inv :: "nat \<Rightarrow> nat \<Rightarrow> nat \<Rightarrow> nat \<Rightarrow> bytes \<Rightarrow> bool" where
  "dec_inv m V buffer bits out \<longleftrightarrow>
     5 * m = 8 * length out + bits \<and>
     V = base_value 256 (map of_char out) * 2 ^ bits + buffer mod 2 ^ bits"

lemma dec_loop:
  assumes "dec_inv m V buffer bits out" "bits < 8" "\<forall>v \<in> set vs. v < 32"
  shows "\<exists>out' buffer' bits'.
      b32_decode_loop (map (\<lambda>v. [symbol v]) vs) buffer bits m out = Inr (out', m + length vs)
    \<and> dec_inv (m + length vs) (foldl (\<lambda>n v. 32 * n + v) V vs) buffer' bits' out' \<and> bits' < 8"
  using assms
proof (induction vs arbitrary: m V buffer bits out)
  case (Cons v vs)
  have v: "v < 2 ^ 5" using Cons.prems(3) by simp
  note sym = symbol_facts [of v]
  define buffer' where "buffer' = buffer * 2 ^ 5 mod 2 ^ 64 + v"
  have "buffer' mod 2 ^ (bits + 5) = buffer mod 2 ^ bits * 2 ^ 5 + v"
    unfolding buffer'_def using Cons.prems(2) v by (intro shifted_low_bits) simp_all
  then have inv: "dec_inv (m + 1) (32 * V + v) buffer' (bits + 5) out"
    using Cons.prems(1) by (auto simp: dec_inv_def power_add algebra_simps)
  show ?case
  proof (cases "bits + 5 \<ge> 8")
    case True
    define b where "b = buffer' div 2 ^ (bits + 5 - 8) mod 256"
    have "buffer' mod 2 ^ (bits + 5) = b * 2 ^ (bits + 5 - 8) + buffer' mod 2 ^ (bits + 5 - 8)"
      using div_mod_step [of buffer' "bits + 5 - 8" 8] True by (simp add: b_def add.commute)
    moreover have "(2::nat) ^ (bits + 5) = 256 * 2 ^ (bits + 5 - 8)"
      using True power_add [of "2::nat" 8 "bits + 5 - 8"] by (simp add: add.commute)
    ultimately have inv': "dec_inv (m + 1) (32 * V + v) buffer' (bits + 5 - 8)
        (out @ [char_of (buffer' div 2 ^ (bits + 5 - 8))])"
      using inv True by (auto simp: dec_inv_def b_def algebra_simps)
    have step: "b32_decode_loop (map (\<lambda>v. [symbol v]) (v # vs)) buffer bits m out =
        b32_decode_loop (map (\<lambda>v. [symbol v]) vs) buffer' (bits + 5 - 8) (m + 1)
          (out @ [char_of (buffer' div 2 ^ (bits + 5 - 8))])"
      using sym v True by (simp add: Let_def buffer'_def)
    show ?thesis
      using Cons.IH [OF inv'] Cons.prems(2,3) unfolding step by simp
  next
    case False
    have step: "b32_decode_loop (map (\<lambda>v. [symbol v]) (v # vs)) buffer bits m out =
        b32_decode_loop (map (\<lambda>v. [symbol v]) vs) buffer' (bits + 5) (m + 1) out"
      using sym v False by (simp add: Let_def buffer'_def)
    show ?thesis
      using Cons.IH [OF inv] Cons.prems(3) False unfolding step by simp
  qed
qed auto

lemma chars_symbols:
  assumes "\<forall>v \<in> set vs. v < 32"
  shows "chars (trim_end_char CHR ''='' (map symbol vs)) = map (\<lambda>v. [symbol v]) vs"
proof -
  have "trim_end_char CHR ''='' (map symbol vs) = map symbol vs"
    using assms symbol_facts(4)
    by (cases vs rule: rev_cases) (auto simp: trim_end_char_def)
  moreover have "\<forall>c \<in> set (map symbol vs). (of_char c :: nat) < 0x80"
    using assms symbol_facts(2) graphic_ascii by fastforce
  ultimately show ?thesis by (simp add: chars_ascii)
qed

section \<open>Properties\<close>

text \<open>
  Decoding what was encoded gives the bytes back, for every byte sequence: neither the
  wrap-around of the 64-bit buffers nor the dropped padding loses a bit.
\<close>

theorem base32_round_trip: "base32_decode (base32_encode bs) = Inr bs"
proof -
  obtain vs p where enc: "base32_encode bs = map symbol vs" and vs: "\<forall>v \<in> set vs. v < 32"
    and p: "p < 5" "5 * length vs = 8 * length bs + p"
    and val: "base_value 32 vs = base_value 256 (map of_char bs) * 2 ^ p"
    using encode_symbols by blast
  have "dec_inv 0 0 0 0 []" by (simp add: dec_inv_def)
  from dec_loop [OF this _ vs] obtain out buffer bits where
    dec: "b32_decode_loop (map (\<lambda>v. [symbol v]) vs) 0 0 0 [] = Inr (out, length vs)"
    and inv: "dec_inv (length vs) (base_value 32 vs) buffer bits out" and b: "bits < 8"
    by (auto simp: base_value_def)
  have len: "length out = length bs" and bits: "bits = p"
  proof -
    have "8 * length bs + p = 8 * length out + bits" using inv p by (simp add: dec_inv_def)
    with p(1) b show "length out = length bs" "bits = p" by presburger+
  qed
  have "base_value 256 (map of_char out) * 2 ^ p + buffer mod 2 ^ p = base_value 256 (map of_char bs) * 2 ^ p"
    using inv val by (simp add: dec_inv_def bits)
  from arg_cong [OF this, of "\<lambda>n. n div 2 ^ p"]
  have "base_value 256 (map of_char out) = base_value 256 (map of_char bs)" by simp
  then have "map (of_char :: char \<Rightarrow> nat) out = map of_char bs"
    by (intro base_value_inject [of _ _ 256]) (simp_all add: len)
  then have "out = bs" by (simp add: inj_map_eq_map inj_of_char)
  moreover have "length vs mod 8 \<notin> {1, 3, 6}"
  proof -
    have "5 * (length vs mod 8) mod 8 = 5 * length vs mod 8" by (rule mod_mult_right_eq)
    also have "\<dots> = p" unfolding p(2) using p(1) by simp
    finally show ?thesis using p(1) by auto
  qed
  ultimately show ?thesis
    by (simp add: base32_decode_def enc chars_symbols [OF vs] dec)
qed

text \<open>
  Encoded text uses the alphabet only (upper case, no padding) and has the length
  \<^verbatim>\<open>ceil(8n / 5)\<close>.
\<close>

theorem base32_encode_shape:
  "set (base32_encode bs) \<subseteq> set ALPHABET \<and> length (base32_encode bs) = (8 * length bs + 4) div 5"
proof -
  obtain vs p where enc: "base32_encode bs = map symbol vs" and vs: "\<forall>v \<in> set vs. v < 32"
    and p: "p < 5" "5 * length vs = 8 * length bs + p"
    using encode_symbols by blast
  have "symbol v \<in> set ALPHABET" if "v < 32" for v
  proof -
    have "v < length ALPHABET" using that by (simp add: ALPHABET_def)
    then show ?thesis unfolding symbol_def by (rule nth_mem)
  qed
  then show ?thesis using enc vs p by auto
qed

end
