(* ===== verification/Totp.thy ===== *)
theory Totp
  imports Base32
begin

text \<open>
  Time-based one-time passwords, \<^verbatim>\<open>rainier-mfa/src/totp.rs\<close>. The keyed hash is a parameter \<open>mac\<close>
  (the \<^verbatim>\<open>hmac\<close> and \<^verbatim>\<open>sha\<close> crates); what the code relies on is that it gives at least twenty
  bytes. The outer \<^const>\<open>None\<close> of \<open>hotp\<close> and \<open>verify_at\<close> is a panic (an index outside the MAC, a
  division by zero).
\<close>

datatype algorithm = Sha1 | Sha256 | Sha512

type_synonym mac = "algorithm \<Rightarrow> bytes \<Rightarrow> bytes \<Rightarrow> bytes"

fun algorithm_name :: "algorithm \<Rightarrow> string" where
  "algorithm_name Sha1 = ''SHA1''"
| "algorithm_name Sha256 = ''SHA256''"
| "algorithm_name Sha512 = ''SHA512''"

type_synonym secret = bytes

definition from_base32 :: "string \<Rightarrow> secret result" where
  "from_base32 text =
     (case base32_decode text of
        Inl e \<Rightarrow> Inl e
      | Inr bs \<Rightarrow> if bs = [] then Inl (err_bad_request ''a TOTP secret cannot be empty'') else Inr bs)"

definition to_base32 :: "secret \<Rightarrow> string" where
  "to_base32 s = base32_encode s"

text \<open>\<^verbatim>\<open>u64::to_be_bytes\<close>, and zero padding to a width.\<close>

definition to_be_bytes :: "nat \<Rightarrow> bytes" where
  "to_be_bytes n = map (\<lambda>i. char_of (n div 256 ^ (7 - i))) [0..<8]"

definition pad_zeros :: "nat \<Rightarrow> string \<Rightarrow> string" where
  "pad_zeros w s = replicate (w - length s) (CHR ''0'') @ s"

text \<open>The shifted bytes occupy different bits, so the \<^verbatim>\<open>|\<close> of the source is an addition.\<close>

definition hotp :: "mac \<Rightarrow> algorithm \<Rightarrow> bytes \<Rightarrow> nat \<Rightarrow> nat \<Rightarrow> string option" where
  "hotp mac alg key counter digits =
     (let m = mac alg key (to_be_bytes counter) in
      if m = [] then None
      else let offset = of_char (last m) mod 16 in
        if length m \<le> offset + 3 then None
        else let binary = (of_char (m ! offset) mod 128) * 2 ^ 24 + of_char (m ! (offset + 1)) * 2 ^ 16
                   + of_char (m ! (offset + 2)) * 2 ^ 8 + of_char (m ! (offset + 3));
                 modulus = 10 ^ digits mod 2 ^ 32
             in if modulus = 0 then None
                else Some (pad_zeros digits (nat_dec (binary mod modulus))))"

record totp =
  t_algorithm :: algorithm
  t_digits :: nat
  t_period :: nat
  t_window :: nat
  t_issuer :: "string option"

definition totp_new :: totp where
  "totp_new = \<lparr>t_algorithm = Sha1, t_digits = 6, t_period = 30, t_window = 1, t_issuer = None\<rparr>"

definition with_algorithm :: "algorithm \<Rightarrow> totp \<Rightarrow> totp" where
  "with_algorithm a t = t\<lparr>t_algorithm := a\<rparr>"

text \<open>The two builders with an assertion: \<^const>\<open>None\<close> is the panic.\<close>

definition with_digits :: "nat \<Rightarrow> totp \<Rightarrow> totp option" where
  "with_digits n t = (if 6 \<le> n \<and> n \<le> 8 then Some (t\<lparr>t_digits := n\<rparr>) else None)"

definition with_period :: "nat \<Rightarrow> totp \<Rightarrow> totp option" where
  "with_period n t = (if n > 0 then Some (t\<lparr>t_period := n\<rparr>) else None)"

definition with_window :: "nat \<Rightarrow> totp \<Rightarrow> totp" where
  "with_window n t = t\<lparr>t_window := n\<rparr>"

definition with_issuer :: "string \<Rightarrow> totp \<Rightarrow> totp" where
  "with_issuer i t = t\<lparr>t_issuer := Some i\<rparr>"

definition step_at :: "totp \<Rightarrow> nat \<Rightarrow> nat" where
  "step_at t unix = unix div t_period t"

definition code_at :: "mac \<Rightarrow> totp \<Rightarrow> secret \<Rightarrow> nat \<Rightarrow> string option" where
  "code_at mac t s unix = hotp mac (t_algorithm t) s (step_at t unix) (t_digits t)"

fun check_steps ::
  "mac \<Rightarrow> totp \<Rightarrow> secret \<Rightarrow> string \<Rightarrow> nat option \<Rightarrow> nat list \<Rightarrow> nat option \<Rightarrow> nat option option"
where
  "check_steps mac t s code used [] matched = Some matched"
| "check_steps mac t s code used (step # steps) matched =
     (case hotp mac (t_algorithm t) s step (t_digits t) of
        None \<Rightarrow> None
      | Some expected \<Rightarrow>
          (let equal = (expected = code);
               fresh = (case used of None \<Rightarrow> True | Some u \<Rightarrow> step > u)
           in check_steps mac t s code used steps
                (if equal \<and> fresh then Some step else matched)))"

definition strip_whitespace :: "string \<Rightarrow> string" where
  "strip_whitespace code = concat (filter (\<lambda>ch. \<not> is_whitespace ch) (chars code))"

definition verify_at ::
  "mac \<Rightarrow> totp \<Rightarrow> secret \<Rightarrow> string \<Rightarrow> nat \<Rightarrow> nat option \<Rightarrow> nat option option"
where
  "verify_at mac t s code unix used =
     (let code = strip_whitespace code in
      if length code \<noteq> t_digits t \<or> \<not> list_all is_digit code then Some None
      else (let current = step_at t unix;
                first = current - t_window t;
                last = min u64_max (current + t_window t)
            in check_steps mac t s code used [first..<last + 1] None))"

section \<open>The enrolment URI\<close>

definition unreserved :: "char \<Rightarrow> bool" where
  "unreserved c =
     (let n = (of_char c :: nat) in
      (65 \<le> n \<and> n \<le> 90) \<or> (97 \<le> n \<and> n \<le> 122) \<or> (48 \<le> n \<and> n \<le> 57) \<or>
      c \<in> {CHR ''-'', CHR ''_'', CHR ''.'', CHR ''~''})"

definition escape :: "string \<Rightarrow> string" where
  "escape v = concat (map (\<lambda>c. if unreserved c then [c]
     else [CHR ''%'', hex_upper (of_char c div 16), hex_upper (of_char c mod 16)]) v)"

definition provisioning_uri :: "totp \<Rightarrow> secret \<Rightarrow> string \<Rightarrow> string" where
  "provisioning_uri t s account =
     (let label = (case t_issuer t of Some i \<Rightarrow> escape i @ '':'' @ escape account
                   | None \<Rightarrow> escape account)
      in ''otpauth://totp/'' @ label @ ''?secret='' @ to_base32 s
         @ (case t_issuer t of Some i \<Rightarrow> ''&issuer='' @ escape i | None \<Rightarrow> [])
         @ (if t_algorithm t \<noteq> Sha1 then ''&algorithm='' @ algorithm_name (t_algorithm t) else [])
         @ (if t_digits t \<noteq> 6 then ''&digits='' @ nat_dec (t_digits t) else [])
         @ (if t_period t \<noteq> 30 then ''&period='' @ nat_dec (t_period t) else []))"

section \<open>Codes\<close>

lemma nat_dec_length: "n < 10 ^ d \<Longrightarrow> 0 < d \<Longrightarrow> length (nat_dec n) \<le> d"
proof (induction n arbitrary: d rule: nat_dec.induct)
  case (1 n)
  show ?case
  proof (cases "n < 10")
    case True
    then show ?thesis using 1(3) by (subst nat_dec.simps) simp
  next
    case False
    then obtain e where d: "d = Suc e" "0 < e"
      using 1(2,3) by (cases d; cases "d - 1") auto
    then have "n div 10 < 10 ^ e" using 1(2) by simp
    then have "length (nat_dec (n div 10)) \<le> e" using 1(1) [of e] False d by simp
    then show ?thesis using False d by (subst nat_dec.simps) simp
  qed
qed

lemma modulus_ok: "6 \<le> d \<Longrightarrow> d \<le> 8 \<Longrightarrow> (10::nat) ^ d mod 2 ^ 32 = 10 ^ d"
proof -
  assume "6 \<le> d" "d \<le> 8"
  then have "d = 6 \<or> d = 7 \<or> d = 8" by auto
  then show ?thesis by auto
qed

lemma hotp_total:
  assumes "20 \<le> length (mac alg key (to_be_bytes counter))" "6 \<le> d" "d \<le> 8"
  shows "\<exists>c. hotp mac alg key counter d = Some c \<and> length c = d \<and> list_all is_digit c"
proof -
  let ?m = "mac alg key (to_be_bytes counter)"
  have "of_char (last ?m) mod 16 < (16::nat)" by simp
  then have off: "\<not> length ?m \<le> of_char (last ?m) mod 16 + 3" using assms(1) by linarith
  have ne: "?m \<noteq> []" using assms(1) by auto
  define n where "n = ((of_char (?m ! (of_char (last ?m) mod 16)) mod 128) * 2 ^ 24
      + of_char (?m ! (of_char (last ?m) mod 16 + 1)) * 2 ^ 16
      + of_char (?m ! (of_char (last ?m) mod 16 + 2)) * 2 ^ 8
      + of_char (?m ! (of_char (last ?m) mod 16 + 3)) :: nat) mod 10 ^ d"
  have h: "hotp mac alg key counter d = Some (pad_zeros d (nat_dec n))"
    using ne off by (simp add: hotp_def Let_def modulus_ok [OF assms(2,3), simplified] n_def)
  have "length (nat_dec n) \<le> d" using assms(2) by (intro nat_dec_length) (simp_all add: n_def)
  then have "length (pad_zeros d (nat_dec n)) = d" by (simp add: pad_zeros_def)
  moreover have "list_all is_digit (pad_zeros d (nat_dec n))"
    by (auto simp: pad_zeros_def list_all_iff is_digit_def [of "CHR ''0''"] dest: nat_dec_digit)
  ultimately show ?thesis using h by simp
qed

section \<open>Checking a code\<close>

definition fresh_match :: "mac \<Rightarrow> totp \<Rightarrow> secret \<Rightarrow> string \<Rightarrow> nat option \<Rightarrow> nat \<Rightarrow> bool" where
  "fresh_match mac t s code used step \<longleftrightarrow>
     hotp mac (t_algorithm t) s step (t_digits t) = Some code \<and>
     (case used of None \<Rightarrow> True | Some u \<Rightarrow> step > u)"

lemma check_steps_sound:
  "check_steps mac t s code used steps matched = Some (Some r) \<Longrightarrow>
   matched = Some r \<or> (r \<in> set steps \<and> fresh_match mac t s code used r)"
  by (induction steps arbitrary: matched)
    (auto simp: fresh_match_def Let_def split: option.splits if_splits)

lemma check_steps_total:
  assumes "\<And>step. step \<in> set steps \<Longrightarrow> hotp mac (t_algorithm t) s step (t_digits t) \<noteq> None"
  shows "check_steps mac t s code used steps matched =
    Some (case filter (fresh_match mac t s code used) steps of [] \<Rightarrow> matched | ms \<Rightarrow> Some (last ms))"
  using assms
  by (induction steps arbitrary: matched)
    (auto simp: fresh_match_def Let_def split: option.splits list.splits)

lemma sorted_le_last: "sorted ys \<Longrightarrow> y \<in> set ys \<Longrightarrow> y \<le> last ys"
  by (induction ys) auto

lemma last_filter_Max:
  assumes "sorted (xs :: nat list)" "filter P xs \<noteq> []"
  shows "last (filter P xs) = Max {x \<in> set xs. P x}"
proof (rule Max_eqI [symmetric])
  show "last (filter P xs) \<in> {x \<in> set xs. P x}"
    using last_in_set [OF assms(2)] by simp
  show "y \<le> last (filter P xs)" if "y \<in> {x \<in> set xs. P x}" for y
    using that assms(1) by (intro sorted_le_last) (simp_all add: sorted_wrt_filter)
qed simp

section \<open>Properties\<close>

text \<open>
  The check of a code is exact. With a MAC of at least twenty bytes and six to eight
  digits it never panics; a code that is not the right number of digits (white space aside)
  is refused; otherwise the answer is the latest step within the tolerated drift whose code
  this is and that is after the last used step, and nothing if there is none.
\<close>

theorem verify_at_exact:
  assumes mac: "\<And>alg key msg. 20 \<le> length (mac alg key msg)"
    and d: "6 \<le> t_digits t" "t_digits t \<le> 8"
    and u: "step_at t unix + t_window t \<le> u64_max"
  shows "verify_at mac t s code unix used = Some
    (let c = strip_whitespace code;
         S = {step. step_at t unix - t_window t \<le> step \<and> step \<le> step_at t unix + t_window t
                \<and> fresh_match mac t s c used step}
     in if length c \<noteq> t_digits t \<or> \<not> list_all is_digit c \<or> S = {} then None else Some (Max S))"
proof -
  define c where "c = strip_whitespace code"
  let ?lo = "step_at t unix - t_window t" and ?hi = "step_at t unix + t_window t"
  define ms where "ms = filter (fresh_match mac t s c used) [?lo..<?hi + 1]"
  define S where "S = {step. ?lo \<le> step \<and> step \<le> ?hi \<and> fresh_match mac t s c used step}"
  have S: "S = {x \<in> set [?lo..<?hi + 1]. fresh_match mac t s c used x}" by (auto simp: S_def)
  have "hotp mac (t_algorithm t) s step (t_digits t) \<noteq> None" for step
    using hotp_total [of mac "t_algorithm t" s step "t_digits t"] mac d by auto
  then have run: "check_steps mac t s c used [?lo..<?hi + 1] None =
      Some (case ms of [] \<Rightarrow> None | ms \<Rightarrow> Some (last ms))"
    unfolding ms_def by (rule check_steps_total)
  have empty: "ms = [] \<longleftrightarrow> S = {}" by (auto simp: ms_def S filter_empty_conv)
  have "ms \<noteq> [] \<Longrightarrow> last ms = Max S" unfolding S ms_def by (rule last_filter_Max) (simp only: sorted_upt)
  with run empty have "check_steps mac t s c used [?lo..<?hi + 1] None =
      Some (if S = {} then None else Some (Max S))"
    by (auto split: list.splits)
  moreover have "min u64_max ?hi = ?hi" using u by simp
  ultimately show ?thesis
    unfolding verify_at_def Let_def c_def [symmetric] S_def [symmetric] by simp
qed

definition const_mac :: mac where
  "const_mac alg key msg = replicate 20 (CHR 0x01)"

theorem verify_at_exact_witness:
  "verify_at const_mac totp_new ''k'' ''84 3009'' 59 None = Some
    (let c = strip_whitespace ''84 3009'';
         S = {step. step_at totp_new 59 - t_window totp_new \<le> step
                \<and> step \<le> step_at totp_new 59 + t_window totp_new
                \<and> fresh_match const_mac totp_new ''k'' c None step}
     in if length c \<noteq> t_digits totp_new \<or> \<not> list_all is_digit c \<or> S = {}
        then None else Some (Max S))"
  by (rule verify_at_exact) (simp_all add: const_mac_def totp_new_def step_at_def u64_max_def)

fun accept_all ::
  "mac \<Rightarrow> totp \<Rightarrow> secret \<Rightarrow> nat option \<Rightarrow> (string \<times> nat) list \<Rightarrow> nat list"
where
  "accept_all mac t s used [] = []"
| "accept_all mac t s used ((code, unix) # attempts) =
     (case verify_at mac t s code unix used of
        Some (Some step) \<Rightarrow> step # accept_all mac t s (Some step) attempts
      | _ \<Rightarrow> accept_all mac t s used attempts)"

lemma verify_at_fresh:
  "verify_at mac t s code unix used = Some (Some step) \<Longrightarrow> used = Some u \<Longrightarrow> u < step"
  by (auto simp: verify_at_def Let_def fresh_match_def split: if_splits dest!: check_steps_sound)

lemma accept_all_increasing:
  "sorted_wrt (<) (accept_all mac t s used attempts)
   \<and> (\<forall>u. used = Some u \<longrightarrow> (\<forall>step \<in> set (accept_all mac t s used attempts). u < step))"
  by (induction mac t s used attempts rule: accept_all.induct)
    (fastforce split: option.splits dest: verify_at_fresh)+

text \<open>
  C23. No code is accepted twice. When each accepted step is stored and passed to the next
  check, as the documentation demands, the accepted steps increase strictly over any sequence
  of attempts at any times, so one step's code is good at most once.
\<close>

theorem totp_no_replay:
  "sorted_wrt (<) (accept_all mac t s used attempts)"
  using accept_all_increasing by blast

end
