(* ===== verification/Recovery.thy ===== *)
theory Recovery
  imports Prelude
begin

text \<open>
  Single-use recovery codes, \<^verbatim>\<open>rainier-mfa/src/recovery.rs\<close>. The random bytes are an input: the
  list of the 16-byte blocks the operating system hands out, in order; \<^const>\<open>None\<close> says that
  the loop is still waiting for another block. SHA-256 is a third-party function and a
  parameter \<^verbatim>\<open>sha\<close> of the definitions that call it.
\<close>

section \<open>Issuing codes\<close>

definition RECOVERY_ALPHABET :: string where
  "RECOVERY_ALPHABET = ''ABCDEFGHIJKLMNOPQRSTUVWXYZabcdefghijklmnopqrstuvwxyz0123456789''"

text \<open>The inner loop of \<^verbatim>\<open>group\<close>, over one block.\<close>

fun group_block :: "bytes \<Rightarrow> string \<Rightarrow> string" where
  "group_block [] out = out"
| "group_block (b # bs) out =
     (if (of_char b :: nat) < 248 \<and> length out < 10
      then group_block bs (out @ [RECOVERY_ALPHABET ! (of_char b mod 62)])
      else group_block bs out)"

fun group :: "bytes list \<Rightarrow> string \<Rightarrow> (string \<times> bytes list) option" where
  "group [] out = (if length out < 10 then None else Some (out, []))"
| "group (b # bs) out = (if length out < 10 then group bs (group_block b out) else Some (out, b # bs))"

fun generate :: "nat \<Rightarrow> bytes list \<Rightarrow> (string list \<times> bytes list) option" where
  "generate 0 rng = Some ([], rng)"
| "generate (Suc count) rng =
     (case group rng [] of
        None \<Rightarrow> None
      | Some (g1, rng1) \<Rightarrow>
          (case group rng1 [] of
             None \<Rightarrow> None
           | Some (g2, rng2) \<Rightarrow>
               (case generate count rng2 of
                  None \<Rightarrow> None
                | Some (codes, rng3) \<Rightarrow> Some ((g1 @ ''-'' @ g2) # codes, rng3))))"

section \<open>Spending codes\<close>

definition hex_byte :: "char \<Rightarrow> string" where
  "hex_byte b = [hex_digit (of_char b div 16), hex_digit (of_char b mod 16)]"

definition recovery_hash :: "(bytes \<Rightarrow> bytes) \<Rightarrow> string \<Rightarrow> string" where
  "recovery_hash sha code = concat (map hex_byte (sha (trim code)))"

text \<open>The loop over the stored entries, which looks at every entry and keeps the first match.\<close>

fun spend_find :: "nat \<Rightarrow> string list \<Rightarrow> bytes \<Rightarrow> (string \<Rightarrow> bytes) \<Rightarrow> nat option \<Rightarrow> nat option" where
  "spend_find i [] candidate form found = found"
| "spend_find i (entry # entries) candidate form found =
     spend_find (i + 1) entries candidate form
       (if form entry = candidate \<and> found = None then Some i else found)"

definition spend :: "string list \<Rightarrow> bytes \<Rightarrow> (string \<Rightarrow> bytes) \<Rightarrow> string list \<times> bool" where
  "spend stored candidate form =
     (if candidate = [] then (stored, False)
      else (case spend_find 0 stored candidate form None of
              Some i \<Rightarrow> (take i stored @ drop (i + 1) stored, True)
            | None \<Rightarrow> (stored, False)))"

definition consume :: "(bytes \<Rightarrow> bytes) \<Rightarrow> string list \<Rightarrow> string \<Rightarrow> string list \<times> bool" where
  "consume sha stored submitted = spend stored (recovery_hash sha submitted) (\<lambda>s. s)"

definition consume_plain :: "string list \<Rightarrow> string \<Rightarrow> string list \<times> bool" where
  "consume_plain stored submitted = spend stored (trim submitted) trim"

section \<open>The shape of issued codes\<close>

lemma length_RECOVERY_ALPHABET [simp]: "length RECOVERY_ALPHABET = 62"
  by (simp add: RECOVERY_ALPHABET_def)

lemma group_block_shape:
  "length out \<le> 10 \<Longrightarrow> set out \<subseteq> set RECOVERY_ALPHABET \<Longrightarrow>
   length (group_block b out) \<le> 10 \<and> set (group_block b out) \<subseteq> set RECOVERY_ALPHABET"
  by (induction b out rule: group_block.induct) auto

lemma group_shape:
  "group rng out = Some (g, rest) \<Longrightarrow> length out \<le> 10 \<Longrightarrow> set out \<subseteq> set RECOVERY_ALPHABET \<Longrightarrow>
   length g = 10 \<and> set g \<subseteq> set RECOVERY_ALPHABET"
  by (induction rng out rule: group.induct) (auto simp: group_block_shape split: if_splits)

text \<open>A code is two groups of ten letters and digits with a dash between.\<close>

definition code_shaped :: "string \<Rightarrow> bool" where
  "code_shaped c \<longleftrightarrow> length c = 21 \<and> c ! 10 = CHR ''-''
     \<and> set (take 10 c) \<subseteq> set RECOVERY_ALPHABET \<and> set (drop 11 c) \<subseteq> set RECOVERY_ALPHABET"

lemma generate_shaped:
  "generate count rng = Some (codes, rest) \<Longrightarrow> length codes = count \<and> list_all code_shaped codes"
proof (induction count arbitrary: rng codes)
  case (Suc count)
  then obtain g1 rng1 g2 rng2 codes' where
    g: "group rng [] = Some (g1, rng1)" "group rng1 [] = Some (g2, rng2)"
      "generate count rng2 = Some (codes', rest)" "codes = (g1 @ ''-'' @ g2) # codes'"
    by (auto split: option.splits)
  have "length g1 = 10" "length g2 = 10" "set g1 \<subseteq> set RECOVERY_ALPHABET"
    "set g2 \<subseteq> set RECOVERY_ALPHABET"
    using g(1,2) [THEN group_shape] by auto
  then show ?case using Suc.IH [OF g(3)] g(4) by (simp add: code_shaped_def nth_append)
qed simp

lemma alphabet_graphic: "c \<in> set RECOVERY_ALPHABET \<Longrightarrow> graphic c"
  by (auto simp: RECOVERY_ALPHABET_def graphic_def)

lemma code_shaped_trim: assumes "code_shaped c" shows "trim c = c"
proof (rule trim_id)
  have l: "length c = 21" using assms by (simp add: code_shaped_def)
  then have "hd c = take 10 c ! 0" "last c = drop 11 c ! 9"
    by (simp_all add: hd_conv_nth last_conv_nth flip: length_0_conv)
  moreover have "take 10 c ! 0 \<in> set (take 10 c)" "drop 11 c ! 9 \<in> set (drop 11 c)"
    using l by (intro nth_mem; simp)+
  ultimately show "graphic (hd c)" "graphic (last c)"
    using assms alphabet_graphic by (auto simp: code_shaped_def)
qed

text \<open>Rejection makes the choice fair: every letter is hit by exactly four of the accepted bytes.\<close>

lemma letter_fair:
  assumes "c < 62"
  shows "card {n :: nat. n < 248 \<and> n mod 62 = c} = 4"
proof -
  have "{n. n < 248 \<and> n mod 62 = c} = {c, c + 62, c + 124, c + 186}" (is "?L = ?R")
  proof (intro equalityI subsetI)
    fix n assume "n \<in> ?L"
    then have n: "n < 248" "n = 62 * (n div 62) + c" by auto
    then have "n div 62 < 4" by (simp add: less_mult_imp_div_less)
    then have "n div 62 \<in> {0, 1, 2, 3}" by auto
    with n(2) show "n \<in> ?R" by auto
  next
    fix n assume "n \<in> ?R"
    moreover have "(c + 62) mod 62 = c" "(c + 124) mod 62 = c" "(c + 186) mod 62 = c"
      using assms mod_mult_self1 [of c 1 62] mod_mult_self1 [of c 2 62] mod_mult_self1 [of c 3 62]
      by simp_all
    ultimately show "n \<in> ?L" using assms by auto
  qed
  then show ?thesis by simp
qed

text \<open>A block with ten accepted bytes completes a group.\<close>

lemma group_block_length:
  "length out \<le> 10 \<Longrightarrow> length (group_block b out)
     = min 10 (length out + length (filter (\<lambda>x. (of_char x :: nat) < 248) b))"
  by (induction b out rule: group_block.induct) auto

lemma group_returns:
  "length out \<le> 10 \<Longrightarrow> 10 \<le> length out + length (filter (\<lambda>x. (of_char x :: nat) < 248) (concat rng)) \<Longrightarrow>
   \<exists>g rest. group rng out = Some (g, rest)"
  by (induction rng out rule: group.induct) (auto simp: group_block_length min_def)

section \<open>Spending\<close>

lemma spend_find_Some [simp]: "spend_find i es c form (Some j) = Some j"
  by (induction es arbitrary: i) auto

lemma spend_find_None:
  "spend_find i es c form None = (if c \<in> form ` set es
     then Some (i + length (takeWhile (\<lambda>e. form e \<noteq> c) es)) else None)"
  by (induction es arbitrary: i) auto

lemma remove_first:
  "x \<in> set xs \<Longrightarrow> (let i = length (takeWhile (\<lambda>e. e \<noteq> x) xs)
     in take i xs @ drop (Suc i) xs) = remove1 x xs"
  by (induction xs) (auto simp: Let_def)

lemma consume_eq:
  assumes "sha (trim s) \<noteq> []"
  shows "consume sha stored s =
    (remove1 (recovery_hash sha s) stored, recovery_hash sha s \<in> set stored)"
proof -
  have "recovery_hash sha s \<noteq> []"
    using assms by (cases "sha (trim s)") (auto simp: recovery_hash_def hex_byte_def)
  then show ?thesis using remove_first [of "recovery_hash sha s" stored]
    by (auto simp: consume_def spend_def spend_find_None Let_def remove1_idem)
qed

lemma hex_byte_inject: "hex_byte a = hex_byte b \<longleftrightarrow> a = b"
proof
  assume "hex_byte a = hex_byte b"
  then have "of_char a div 16 = (of_char b :: nat) div 16" "of_char a mod 16 = (of_char b :: nat) mod 16"
    using hex_digit_inject [of "of_char a div 16" "of_char b div 16"]
      hex_digit_inject [of "of_char a mod 16" "of_char b mod 16"]
    by (simp_all add: hex_byte_def less_mult_imp_div_less)
  then have "(of_char a :: nat) = of_char b" by (metis div_mult_mod_eq)
  then show "a = b" by simp
qed simp

lemma hex_inject: "concat (map hex_byte xs) = concat (map hex_byte ys) \<longleftrightarrow> xs = ys"
proof (induction xs arbitrary: ys)
  case Nil
  then show ?case by (cases ys) (auto simp: hex_byte_def)
next
  case (Cons x xs)
  have *: "length (hex_byte b) = 2" for b by (simp add: hex_byte_def)
  show ?case
  proof (cases ys)
    case Nil
    then show ?thesis by (simp add: hex_byte_def)
  next
    case (Cons y ys')
    then show ?thesis using Cons.IH [of ys'] * by (simp add: append_eq_append_conv hex_byte_inject)
  qed
qed

text \<open>Spending a sequence of submissions against one list of stored hashes.\<close>

fun consume_all :: "(bytes \<Rightarrow> bytes) \<Rightarrow> string list \<Rightarrow> string list \<Rightarrow> string list \<times> bool list" where
  "consume_all sha stored [] = (stored, [])"
| "consume_all sha stored (s # ss) =
     (let (stored', ok) = consume sha stored s; (stored'', oks) = consume_all sha stored' ss
      in (stored'', ok # oks))"

lemma remove1_map_inj:
  "inj_on f (insert x (set xs)) \<Longrightarrow> remove1 (f x) (map f xs) = map f (remove1 x xs)"
  by (induction xs) (auto simp: inj_on_def)

lemma consume_all_codes:
  assumes "distinct codes" "\<forall>c \<in> set codes. trim c = c"
    "\<forall>x. sha x \<noteq> []" "inj_on sha (set codes \<union> trim ` set subs)"
  shows "consume_all sha (map (recovery_hash sha) codes) subs =
    (map (recovery_hash sha) (filter (\<lambda>c. c \<notin> trim ` set subs) codes),
     map (\<lambda>i. trim (subs ! i) \<in> set codes - trim ` set (take i subs)) [0..<length subs])"
  using assms
proof (induction subs arbitrary: codes)
  case Nil
  then show ?case by simp
next
  case (Cons s ss)
  let ?h = "\<lambda>t. concat (map hex_byte (sha t))"
  have h: "map (recovery_hash sha) cs = map ?h cs" if "set cs \<subseteq> set codes" for cs
    using that Cons.prems(2) by (auto simp: recovery_hash_def)
  have inj: "inj_on ?h (insert (trim s) (set codes))"
    using Cons.prems(4) by (auto simp: inj_on_def hex_inject)
  define codes' where "codes' = remove1 (trim s) codes"
  have codes': "codes' = filter (\<lambda>c. c \<noteq> trim s) codes"
    unfolding codes'_def using Cons.prems(1) by (induction codes) (auto intro!: filter_True [symmetric])
  have mem: "?h (trim s) \<in> ?h ` set codes \<longleftrightarrow> trim s \<in> set codes"
    using inj by (auto simp: inj_on_def)
  have "consume sha (map (recovery_hash sha) codes) s =
      (map (recovery_hash sha) codes', trim s \<in> set codes)"
  proof -
    have "remove1 (?h (trim s)) (map ?h codes) = map ?h codes'"
      unfolding codes'_def using inj by (rule remove1_map_inj)
    then show ?thesis using Cons.prems(3) mem
      unfolding h [OF subset_refl] h [of codes', unfolded codes', OF filter_is_subset, folded codes']
      by (simp add: consume_eq recovery_hash_def)
  qed
  moreover have "consume_all sha (map (recovery_hash sha) codes') ss =
    (map (recovery_hash sha) (filter (\<lambda>c. c \<notin> trim ` set ss) codes'),
     map (\<lambda>i. trim (ss ! i) \<in> set codes' - trim ` set (take i ss)) [0..<length ss])"
  proof (rule Cons.IH)
    show "inj_on sha (set codes' \<union> trim ` set ss)"
      using Cons.prems(4) by (rule inj_on_subset) (auto simp: codes')
  qed (use Cons.prems in \<open>auto simp: codes'\<close>)
  ultimately show ?case
    by (auto simp: codes' upt_conv_Cons map_Suc_upt [symmetric] simp del: upt_Suc
      intro!: arg_cong [of _ _ "map (recovery_hash sha)"] filter_cong)
qed

text \<open>
  C38. Recovery codes are single-use passwords. Issue codes from any random bytes and store only
  their hashes; if they do not repeat and SHA-256 does not collide on the texts involved, then
  over any sequence of submissions exactly the issued codes, trimmed, are accepted, each the
  first time it comes, and exactly the spent ones are gone from the store. (That random codes do
  not repeat is a matter of probability, and a hypothesis.)
\<close>

theorem recovery_codes_single_use:
  assumes "generate count rng = Some (codes, rest)" "distinct codes"
    and sha: "\<forall>x. sha x \<noteq> []" "inj_on sha (set codes \<union> trim ` set subs)"
  shows "consume_all sha (map (recovery_hash sha) codes) subs =
    (map (recovery_hash sha) (filter (\<lambda>c. c \<notin> trim ` set subs) codes),
     map (\<lambda>i. trim (subs ! i) \<in> set codes - trim ` set (take i subs)) [0..<length subs])"
  using assms generate_shaped [OF assms(1)] code_shaped_trim
  by (intro consume_all_codes) (auto simp: list_all_iff)

definition demo_block :: bytes where "demo_block = ''abcdefghijklmnop''"

theorem recovery_codes_single_use_witness:
  "consume_all (\<lambda>x. x @ ''.'') (map (recovery_hash (\<lambda>x. x @ ''.'')) [''jklmnopqrs-jklmnopqrs''])
     [''jklmnopqrs-jklmnopqrs'', ''jklmnopqrs-jklmnopqrs''] =
    (map (recovery_hash (\<lambda>x. x @ ''.''))
       (filter (\<lambda>c. c \<notin> trim ` set [''jklmnopqrs-jklmnopqrs'', ''jklmnopqrs-jklmnopqrs''])
         [''jklmnopqrs-jklmnopqrs'']),
     map (\<lambda>i. trim ([''jklmnopqrs-jklmnopqrs'', ''jklmnopqrs-jklmnopqrs''] ! i)
            \<in> set [''jklmnopqrs-jklmnopqrs'']
              - trim ` set (take i [''jklmnopqrs-jklmnopqrs'', ''jklmnopqrs-jklmnopqrs'']))
       [0..<length [''jklmnopqrs-jklmnopqrs'', ''jklmnopqrs-jklmnopqrs'']])"
  by (rule recovery_codes_single_use [of 1 "[demo_block, demo_block]" _ "[]"])
    (simp_all add: demo_block_def RECOVERY_ALPHABET_def inj_on_def)

text \<open>
  Issuing ends as soon as the random source has supplied ten usable bytes for each group, and
  every code has the documented shape of two groups of ten alphanumerics; no letter is likelier
  than another, since exactly four of the accepted byte values select each.
\<close>

theorem recovery_codes_shape:
  "(10 \<le> length (filter (\<lambda>x. (of_char x :: nat) < 248) (concat rng)) \<longrightarrow>
      (\<exists>g rest. group rng [] = Some (g, rest)))
   \<and> (generate count rng = Some (codes, rest) \<longrightarrow> length codes = count \<and> list_all code_shaped codes)
   \<and> (i < 62 \<longrightarrow> card {n. n < 248 \<and> RECOVERY_ALPHABET ! (n mod 62) = RECOVERY_ALPHABET ! i} = 4)"
proof -
  have "distinct RECOVERY_ALPHABET" by (simp add: RECOVERY_ALPHABET_def)
  then have "RECOVERY_ALPHABET ! (n mod 62) = RECOVERY_ALPHABET ! i \<longleftrightarrow> n mod 62 = i" if "i < 62" for n
    using that by (simp add: nth_eq_iff_index_eq)
  then show ?thesis using group_returns [of "[]" rng] generate_shaped letter_fair by auto
qed

theorem recovery_codes_shape_witness:
  "(\<exists>g rest. group [demo_block] [] = Some (g, rest))
   \<and> list_all code_shaped [''jklmnopqrs-jklmnopqrs'']
   \<and> card {n. n < 248 \<and> RECOVERY_ALPHABET ! (n mod 62) = RECOVERY_ALPHABET ! 3} = 4"
proof -
  have "generate 1 [demo_block, demo_block] = Some ([''jklmnopqrs-jklmnopqrs''], [])"
    by (simp add: demo_block_def RECOVERY_ALPHABET_def)
  then show ?thesis
    using recovery_codes_shape [of "[demo_block]" 1 "[''jklmnopqrs-jklmnopqrs'']" "[]" 3]
      recovery_codes_shape [of "[demo_block, demo_block]" 1 "[''jklmnopqrs-jklmnopqrs'']" "[]" 3]
    by (simp add: demo_block_def)
qed

end
