(* ===== verification/Php_Serialize.thy ===== *)
theory Php_Serialize
  imports Support_Error
begin

text \<open>
  PHP's \<^verbatim>\<open>serialize()\<close> format, \<^verbatim>\<open>rainier-compat/src/php/serialize.rs\<close>. The \<^verbatim>\<open>f64\<close> type with its
  classification, printing and parsing is a record of operations over a type \<^typ>\<open>'f\<close>, and what
  the code relies on of it the predicate \<^verbatim>\<open>f64_laws\<close>: Rust documents that \<^verbatim>\<open>Display\<close> prints a finite
  number as plain decimal digits that parse back to the same number. The state of the parser
  is \<^verbatim>\<open>at\<close> together with the bytes left, \<^verbatim>\<open>input[at..]\<close>.
\<close>

section \<open>Values\<close>

record 'f f64 =
  f_is_nan :: "'f \<Rightarrow> bool"
  f_is_infinite :: "'f \<Rightarrow> bool"
  f_positive :: "'f \<Rightarrow> bool"
  f_display :: "'f \<Rightarrow> string"
  f_parse :: "string \<Rightarrow> 'f option"
  f_inf :: 'f
  f_neg_inf :: 'f
  f_nan :: 'f

datatype php_key = KInt int | KStr bytes

datatype 'f php =
    PNull
  | PBool bool
  | PInt int
  | PFloat 'f
  | PString bytes
  | PArray "(php_key \<times> 'f php) list"
  | PObject string "(bytes \<times> 'f php) list"
  | PCustom string bytes
  | PEnum string string
  | PReference nat bool

datatype visibility = VPublic | VProtected | VPrivate string

definition key_matches :: "php_key \<Rightarrow> string \<Rightarrow> bool" where
  "key_matches k name =
     (case k of KStr b \<Rightarrow> b = name | KInt n \<Rightarrow> parse_i64 name = Some n)"

definition key_to_text :: "php_key \<Rightarrow> string option" where
  "key_to_text k =
     (case k of KInt n \<Rightarrow> Some (int_dec n) | KStr b \<Rightarrow> if utf8_valid b then Some b else None)"

definition key_display :: "php_key \<Rightarrow> string" where
  "key_display k = (case k of KInt n \<Rightarrow> int_dec n | KStr b \<Rightarrow> from_utf8_lossy b)"

definition array_key :: "string \<Rightarrow> php_key" where
  "array_key name =
     (case parse_i64 name of
        Some n \<Rightarrow> if int_dec n = name then KInt n else KStr name
      | None \<Rightarrow> KStr name)"

definition NUL :: char where "NUL = CHR 0x00"

definition prop_public :: "string \<Rightarrow> bytes" where "prop_public name = name"
definition prop_protected :: "string \<Rightarrow> bytes" where
  "prop_protected name = [NUL, CHR ''*'', NUL] @ name"
definition prop_private :: "string \<Rightarrow> string \<Rightarrow> bytes" where
  "prop_private class name = [NUL] @ class @ [NUL] @ name"

definition prop_split :: "bytes \<Rightarrow> bytes option \<times> bytes" where
  "prop_split raw =
     (case raw of
        [] \<Rightarrow> (None, raw)
      | c # r \<Rightarrow>
          if c = NUL
          then (case split_once NUL r of Some (scope, name) \<Rightarrow> (Some scope, name) | None \<Rightarrow> (None, raw))
          else (None, raw))"

definition prop_name :: "bytes \<Rightarrow> string" where
  "prop_name raw = from_utf8_lossy (snd (prop_split raw))"

definition prop_visibility :: "bytes \<Rightarrow> visibility" where
  "prop_visibility raw =
     (case fst (prop_split raw) of
        None \<Rightarrow> VPublic
      | Some scope \<Rightarrow> if scope = ''*'' then VProtected else VPrivate (from_utf8_lossy scope))"

definition object_get :: "(bytes \<times> 'f php) list \<Rightarrow> string \<Rightarrow> 'f php option" where
  "object_get props name = map_option snd (find (\<lambda>(p, _). prop_name p = name) props)"

definition php_get :: "'f php \<Rightarrow> string \<Rightarrow> 'f php option" where
  "php_get v name =
     (case v of
        PArray entries \<Rightarrow> map_option snd (find (\<lambda>(k, _). key_matches k name) entries)
      | PObject _ props \<Rightarrow> object_get props name
      | _ \<Rightarrow> None)"

fun php_follow :: "'f php \<Rightarrow> string list \<Rightarrow> 'f php option" where
  "php_follow v [] = Some v"
| "php_follow v (seg # segs) =
     (case php_get v seg of None \<Rightarrow> None | Some w \<Rightarrow> php_follow w segs)"

definition php_path :: "'f php \<Rightarrow> string \<Rightarrow> 'f php option" where
  "php_path v path = php_follow v (split_on CHR ''.'' path)"

definition php_as_str :: "'f php \<Rightarrow> string option" where
  "php_as_str v = (case v of PString b \<Rightarrow> if utf8_valid b then Some b else None | _ \<Rightarrow> None)"

section \<open>Writing\<close>

definition write_string :: "bytes \<Rightarrow> bytes" where
  "write_string b = ''s:'' @ nat_dec (length b) @ '':\"'' @ b @ ''\";''"

definition write_key :: "php_key \<Rightarrow> bytes" where
  "write_key k = (case k of KInt n \<Rightarrow> ''i:'' @ int_dec n @ '';'' | KStr b \<Rightarrow> write_string b)"

definition php_float :: "'f f64 \<Rightarrow> 'f \<Rightarrow> string" where
  "php_float F f =
     (if f_is_nan F f then ''NAN''
      else if f_is_infinite F f then (if f_positive F f then ''INF'' else ''-INF'')
      else f_display F f)"

primrec serialize :: "'f f64 \<Rightarrow> 'f php \<Rightarrow> bytes" where
  "serialize F PNull = ''N;''"
| "serialize F (PBool b) = (if b then ''b:1;'' else ''b:0;'')"
| "serialize F (PInt n) = ''i:'' @ int_dec n @ '';''"
| "serialize F (PFloat f) = ''d:'' @ php_float F f @ '';''"
| "serialize F (PString b) = write_string b"
| "serialize F (PArray entries) =
     ''a:'' @ nat_dec (length entries) @ '':{''
       @ concat (map (\<lambda>(k, w). write_key k @ w) (map (map_prod id (serialize F)) entries)) @ ''}''"
| "serialize F (PObject class props) =
     ''O:'' @ nat_dec (length class) @ '':\"'' @ class @ ''\":'' @ nat_dec (length props) @ '':{''
       @ concat (map (\<lambda>(p, w). write_string p @ w) (map (map_prod id (serialize F)) props)) @ ''}''"
| "serialize F (PCustom class data) =
     ''C:'' @ nat_dec (length class) @ '':\"'' @ class @ ''\":'' @ nat_dec (length data) @ '':{''
       @ data @ ''}''"
| "serialize F (PEnum class kase) =
     ''E:'' @ nat_dec (length (class @ '':'' @ kase)) @ '':\"'' @ (class @ '':'' @ kase) @ ''\";''"
| "serialize F (PReference slot alias) = (if alias then ''R:'' else ''r:'') @ nat_dec slot @ '';''"

section \<open>Reading\<close>

type_synonym parser = "nat \<times> bytes"

definition php_error :: "string \<Rightarrow> parser \<Rightarrow> error" where
  "php_error what p =
     err_bad_request (''not a PHP-serialized value: '' @ what @ '' at byte '' @ nat_dec (fst p))"

definition php_expect :: "char \<Rightarrow> parser \<Rightarrow> parser result" where
  "php_expect c p =
     (case p of
        (at, x # r) \<Rightarrow> if x = c then Inr (at + 1, r) else Inl (php_error (''expected `'' @ [c] @ ''`'') p)
      | (at, []) \<Rightarrow> Inl (php_error (''expected `'' @ [c] @ ''`'') p))"

definition php_until :: "char \<Rightarrow> parser \<Rightarrow> (bytes \<times> parser) result" where
  "php_until c p =
     (case p of (at, r) \<Rightarrow>
       (case split_once c r of
          None \<Rightarrow> Inl (php_error (''unterminated, expected `'' @ [c] @ ''`'') p)
        | Some (a, b) \<Rightarrow> Inr (a, (at + length a + 1, b))))"

definition parse_int :: "bytes \<Rightarrow> int option" where
  "parse_int digits =
     (let unsigned = (case digits of
            [] \<Rightarrow> []
          | c # r \<Rightarrow> if c = CHR ''+'' \<or> c = CHR ''-'' then r else digits)
      in if \<not> utf8_valid digits \<or> unsigned = [] \<or> \<not> list_all is_digit unsigned then None
         else parse_i64 (strip_plus digits))"

definition php_int_until :: "char \<Rightarrow> parser \<Rightarrow> (int \<times> parser) result" where
  "php_int_until c p = and_then (php_until c p) (\<lambda>(digits, p).
     case parse_int digits of None \<Rightarrow> Inl (php_error ''bad integer'' p) | Some n \<Rightarrow> Inr (n, p))"

definition php_length_until :: "char \<Rightarrow> parser \<Rightarrow> (nat \<times> parser) result" where
  "php_length_until c p = and_then (php_int_until c p) (\<lambda>(n, p).
     if n < 0 then Inl (php_error ''negative length'' p)
     else if nat n > length (snd p) then Inl (php_error ''a length longer than the payload'' p)
     else Inr (nat n, p))"

definition php_take :: "nat \<Rightarrow> parser \<Rightarrow> (bytes \<times> parser) result" where
  "php_take n p =
     (if n > length (snd p) then Inl (php_error ''truncated'' p)
      else Inr (take n (snd p), (fst p + n, drop n (snd p))))"

definition php_quoted :: "parser \<Rightarrow> (bytes \<times> parser) result" where
  "php_quoted p =
     and_then (php_length_until CHR '':'' p) (\<lambda>(len, p).
     and_then (php_expect (CHR 0x22) p) (\<lambda>p.
     and_then (php_take len p) (\<lambda>(b, p).
     and_then (php_expect (CHR 0x22) p) (\<lambda>p. Inr (b, p)))))"

definition php_name :: "parser \<Rightarrow> (string \<times> parser) result" where
  "php_name p = and_then (php_quoted p) (\<lambda>(b, p).
     if utf8_valid b then Inr (b, p) else Inl (php_error ''a class name that is not UTF-8'' p))"

definition parse_float :: "'f f64 \<Rightarrow> bytes \<Rightarrow> 'f option" where
  "parse_float F text =
     (if \<not> utf8_valid text then None
      else if text = ''INF'' then Some (f_inf F)
      else if text = ''-INF'' then Some (f_neg_inf F)
      else if text = ''NAN'' then Some (f_nan F)
      else if text \<noteq> [] \<and> list_all (\<lambda>b. is_digit b \<or> b \<in> set ''+-.eE'') text then f_parse F text
      else None)"

definition php_read_key :: "parser \<Rightarrow> (php_key \<times> parser) result" where
  "php_read_key p =
     (case p of (at, r) \<Rightarrow>
        if r \<noteq> [] \<and> hd r = CHR ''i'' then
          and_then (php_expect CHR '':'' (at + 1, tl r)) (\<lambda>p.
          and_then (php_int_until CHR '';'' p) (\<lambda>(n, p). Inr (KInt n, p)))
        else if r \<noteq> [] \<and> hd r = CHR ''s'' then
          and_then (php_expect CHR '':'' (at + 1, tl r)) (\<lambda>p.
          and_then (php_quoted p) (\<lambda>(b, p).
          and_then (php_expect CHR '';'' p) (\<lambda>p. Inr (KStr b, p))))
        else Inl (php_error ''an array key that is not an integer or a string'' p))"

text \<open>The two loops of \<^verbatim>\<open>value\<close>, over the parser of a nested value.\<close>

fun php_entries ::
  "(parser \<Rightarrow> ('f php \<times> parser) result) \<Rightarrow> nat \<Rightarrow> parser
     \<Rightarrow> ((php_key \<times> 'f php) list \<times> parser) result"
where
  "php_entries val 0 p = Inr ([], p)"
| "php_entries val (Suc n) p =
     and_then (php_read_key p) (\<lambda>(k, p).
     and_then (val p) (\<lambda>(v, p).
     and_then (php_entries val n p) (\<lambda>(es, p). Inr ((k, v) # es, p))))"

definition property_of_key :: "php_key \<Rightarrow> bytes" where
  "property_of_key k = (case k of KStr b \<Rightarrow> b | KInt n \<Rightarrow> int_dec n)"

fun php_props ::
  "(parser \<Rightarrow> ('f php \<times> parser) result) \<Rightarrow> nat \<Rightarrow> parser
     \<Rightarrow> ((bytes \<times> 'f php) list \<times> parser) result"
where
  "php_props val 0 p = Inr ([], p)"
| "php_props val (Suc n) p =
     and_then (php_read_key p) (\<lambda>(k, p).
     and_then (val p) (\<lambda>(v, p).
     and_then (php_props val n p) (\<lambda>(ps, p). Inr ((property_of_key k, v) # ps, p))))"

definition php_scalar :: "'f f64 \<Rightarrow> char \<Rightarrow> parser \<Rightarrow> ('f php \<times> parser) result" where
  "php_scalar F tag p =
     (if tag = CHR ''b'' then
        and_then (php_until CHR '';'' p) (\<lambda>(t, p).
          if t = ''0'' then Inr (PBool False, p)
          else if t = ''1'' then Inr (PBool True, p) else Inl (php_error ''bad boolean'' p))
      else if tag = CHR ''i'' then
        and_then (php_int_until CHR '';'' p) (\<lambda>(n, p). Inr (PInt n, p))
      else if tag = CHR ''d'' then
        and_then (php_until CHR '';'' p) (\<lambda>(t, p).
          case parse_float F t of Some f \<Rightarrow> Inr (PFloat f, p) | None \<Rightarrow> Inl (php_error ''bad float'' p))
      else if tag = CHR ''s'' then
        and_then (php_quoted p) (\<lambda>(b, p).
        and_then (php_expect CHR '';'' p) (\<lambda>p. Inr (PString b, p)))
      else if tag = CHR ''C'' then
        and_then (php_name p) (\<lambda>(class, p).
        and_then (php_expect CHR '':'' p) (\<lambda>p.
        and_then (php_length_until CHR '':'' p) (\<lambda>(len, p).
        and_then (php_expect CHR ''{'' p) (\<lambda>p.
        and_then (php_take len p) (\<lambda>(data, p).
        and_then (php_expect CHR ''}'' p) (\<lambda>p. Inr (PCustom class data, p)))))))
      else if tag = CHR ''E'' then
        and_then (php_name p) (\<lambda>(name, p).
        and_then (php_expect CHR '';'' p) (\<lambda>p.
          case split_once CHR '':'' name of
            None \<Rightarrow> Inl (php_error ''an enum without a case'' p)
          | Some (class, kase) \<Rightarrow> Inr (PEnum class kase, p)))
      else if tag = CHR ''r'' \<or> tag = CHR ''R'' then
        and_then (php_int_until CHR '';'' p) (\<lambda>(slot, p).
          if slot > 0 then Inr (PReference (nat slot) (tag = CHR ''R''), p)
          else Inl (php_error ''bad reference'' p))
      else Inl (php_error (''unknown type `'' @ latin1 tag @ ''`'') p))"

function php_value :: "'f f64 \<Rightarrow> nat \<Rightarrow> nat \<Rightarrow> parser \<Rightarrow> ('f php \<times> parser) result" where
  "php_value F max_depth depth p =
     (case snd p of
        [] \<Rightarrow> Inl (php_error ''empty'' p)
      | tag # r \<Rightarrow>
          if tag = CHR ''N'' then
            and_then (php_expect CHR '';'' (fst p + 1, r)) (\<lambda>p. Inr (PNull, p))
          else
            and_then (php_expect CHR '':'' (fst p + 1, r)) (\<lambda>p.
              if tag = CHR ''a'' then
                (if depth \<ge> max_depth then Inl (php_error ''nested too deeply'' p)
                 else
                   and_then (php_length_until CHR '':'' p) (\<lambda>(count, p).
                   and_then (php_expect CHR ''{'' p) (\<lambda>p.
                   and_then (php_entries (\<lambda>q. php_value F max_depth (depth + 1) q) count p) (\<lambda>(es, p).
                   and_then (php_expect CHR ''}'' p) (\<lambda>p. Inr (PArray es, p))))))
              else if tag = CHR ''O'' then
                (if depth \<ge> max_depth then Inl (php_error ''nested too deeply'' p)
                 else
                   and_then (php_name p) (\<lambda>(class, p).
                   and_then (php_expect CHR '':'' p) (\<lambda>p.
                   and_then (php_length_until CHR '':'' p) (\<lambda>(count, p).
                   and_then (php_expect CHR ''{'' p) (\<lambda>p.
                   and_then (php_props (\<lambda>q. php_value F max_depth (depth + 1) q) count p) (\<lambda>(ps, p).
                   and_then (php_expect CHR ''}'' p) (\<lambda>p. Inr (PObject class ps, p))))))))
              else php_scalar F tag p))"
  by pat_completeness auto
termination
  by (relation "measure (\<lambda>(F, max_depth, depth, p). max_depth - depth)") auto

declare php_value.simps [simp del]

definition DEFAULT_MAX_DEPTH :: nat where "DEFAULT_MAX_DEPTH = 64"

definition unserialize_with :: "'f f64 \<Rightarrow> bytes \<Rightarrow> nat \<Rightarrow> 'f php result" where
  "unserialize_with F input max_depth =
     and_then (php_value F max_depth 0 (0, input)) (\<lambda>(v, p).
       if fst p \<noteq> length input then Inl (php_error ''trailing bytes after the value'' p) else Inr v)"

definition unserialize :: "'f f64 \<Rightarrow> bytes \<Rightarrow> 'f php result" where
  "unserialize F input = unserialize_with F input DEFAULT_MAX_DEPTH"

section \<open>Reading back what was written\<close>

text \<open>
  The values Rust's types admit and the format can carry: integers of 64 bits, lengths and slots
  that fit one, UTF-8 class names, an enum name whose class has no colon.
\<close>

definition LEN_MAX :: nat where "LEN_MAX = 2 ^ 63 - 1"

fun key_wf :: "php_key \<Rightarrow> bool" where
  "key_wf (KInt n) = in_i64 n"
| "key_wf (KStr b) = (length b \<le> LEN_MAX)"

primrec php_wf :: "'f php \<Rightarrow> bool" where
  "php_wf PNull = True"
| "php_wf (PBool b) = True"
| "php_wf (PInt n) = in_i64 n"
| "php_wf (PFloat f) = True"
| "php_wf (PString b) = (length b \<le> LEN_MAX)"
| "php_wf (PArray es) = (length es \<le> LEN_MAX
     \<and> list_all (\<lambda>(k, ok). key_wf k \<and> ok) (map (map_prod id php_wf) es))"
| "php_wf (PObject class ps) = (length class \<le> LEN_MAX \<and> utf8_valid class \<and> length ps \<le> LEN_MAX
     \<and> list_all (\<lambda>(p, ok). length p \<le> LEN_MAX \<and> ok) (map (map_prod id php_wf) ps))"
| "php_wf (PCustom class data) =
     (length class \<le> LEN_MAX \<and> utf8_valid class \<and> length data \<le> LEN_MAX)"
| "php_wf (PEnum class kase) = (length (class @ '':'' @ kase) \<le> LEN_MAX
     \<and> utf8_valid (class @ '':'' @ kase) \<and> CHR '':'' \<notin> set class)"
| "php_wf (PReference slot alias) = (0 < slot \<and> slot \<le> LEN_MAX)"

primrec nesting :: "'f php \<Rightarrow> nat" where
  "nesting PNull = 0"
| "nesting (PBool b) = 0"
| "nesting (PInt n) = 0"
| "nesting (PFloat f) = 0"
| "nesting (PString b) = 0"
| "nesting (PArray es) = Suc (foldr max (map snd (map (map_prod id nesting) es)) 0)"
| "nesting (PObject class ps) = Suc (foldr max (map snd (map (map_prod id nesting) ps)) 0)"
| "nesting (PCustom class data) = 0"
| "nesting (PEnum class kase) = 0"
| "nesting (PReference slot alias) = 0"

definition f64_laws :: "'f f64 \<Rightarrow> bool" where
  "f64_laws F \<longleftrightarrow>
     (\<forall>f. if f_is_nan F f then f = f_nan F
          else if f_is_infinite F f then f = (if f_positive F f then f_inf F else f_neg_inf F)
          else f_parse F (f_display F f) = Some f \<and> f_display F f \<noteq> []
            \<and> list_all (\<lambda>b. is_digit b \<or> b \<in> set ''-.'') (f_display F f))"

lemma foldr_max_le: "foldr max xs 0 \<le> (n :: nat) \<longleftrightarrow> (\<forall>x \<in> set xs. x \<le> n)"
  by (induction xs) auto

text \<open>The primitives on text that starts with what they look for.\<close>

lemma php_expect_ok [simp]: "php_expect c (at, c # r) = Inr (at + 1, r)"
  by (simp add: php_expect_def)

lemma php_until_ok: "c \<notin> set a \<Longrightarrow> php_until c (at, a @ c # r) = Inr (a, (at + length a + 1, r))"
  by (simp add: php_until_def split_once_append)

definition delimiter :: "char \<Rightarrow> bool" where
  "delimiter c \<longleftrightarrow> c = CHR '':'' \<or> c = CHR '';''"

lemma delimiter_simps [simp]: "delimiter (CHR '':'')" "delimiter (CHR '';'')"
  by (simp_all add: delimiter_def)

lemma delimiter_not_in_dec:
  assumes "delimiter c"
  shows "c \<notin> set (nat_dec n)" "c \<notin> set (int_dec m)"
proof -
  have "\<not> is_digit c" "c \<noteq> CHR ''-''" using assms by (auto simp: delimiter_def is_digit_def)
  then show "c \<notin> set (nat_dec n)" "c \<notin> set (int_dec m)"
    by (auto simp: int_dec_def dest: nat_dec_digit)
qed

lemma int_dec_nat [simp]: "int_dec (int n) = nat_dec n"
  by (simp add: int_dec_def)

lemma parse_int_int_dec [simp]: "in_i64 n \<Longrightarrow> parse_int (int_dec n) = Some n"
proof -
  assume n: "in_i64 n"
  have "strip_plus (int_dec n) = int_dec n"
    by (auto simp: int_dec_def strip_plus_def [of "CHR ''-'' # _"])
  moreover have "(case nat_dec (nat n) of [] \<Rightarrow> []
      | c # r \<Rightarrow> if c = CHR ''+'' \<or> c = CHR ''-'' then r else nat_dec (nat n)) = nat_dec (nat n)"
    using hd_nat_dec_no_sign [of "nat n"] by (cases "nat_dec (nat n)") auto
  ultimately show ?thesis using n parse_i64_int_dec [OF n]
    by (auto simp: parse_int_def int_dec_def Let_def utf8_valid_graphic graphic_def nat_dec_digit)
qed

lemma php_int_until_ok [simp]:
  "delimiter c \<Longrightarrow> in_i64 n \<Longrightarrow>
   php_int_until c (at, int_dec n @ c # r) = Inr (n, (at + length (int_dec n) + 1, r))"
  by (simp add: php_int_until_def php_until_ok delimiter_not_in_dec)

lemma in_i64_len [simp]: "n \<le> LEN_MAX \<Longrightarrow> in_i64 (int n)"
  by (simp add: LEN_MAX_def in_i64_def i64_min_def i64_max_def)

lemma php_int_until_nat_ok [simp]:
  "delimiter c \<Longrightarrow> n \<le> LEN_MAX \<Longrightarrow>
   php_int_until c (at, nat_dec n @ c # r) = Inr (int n, (at + length (nat_dec n) + 1, r))"
  using php_int_until_ok [of c "int n" at r] by simp

lemma php_length_until_ok [simp]:
  "delimiter c \<Longrightarrow> n \<le> LEN_MAX \<Longrightarrow> n \<le> length r \<Longrightarrow>
   php_length_until c (at, nat_dec n @ c # r) = Inr (n, (at + length (nat_dec n) + 1, r))"
  by (simp add: php_length_until_def)

lemma php_take_ok [simp]: "php_take (length b) (at, b @ r) = Inr (b, (at + length b, r))"
  by (simp add: php_take_def)

lemma php_quoted_ok [simp]:
  "length b \<le> LEN_MAX \<Longrightarrow>
   php_quoted (at, nat_dec (length b) @ CHR '':'' # CHR 0x22 # b @ CHR 0x22 # r) =
     Inr (b, (at + length (nat_dec (length b)) + length b + 3, r))"
  by (simp add: php_quoted_def)

lemma php_name_ok [simp]:
  "length b \<le> LEN_MAX \<Longrightarrow> utf8_valid b \<Longrightarrow>
   php_name (at, nat_dec (length b) @ CHR '':'' # CHR 0x22 # b @ CHR 0x22 # r) =
     Inr (b, (at + length (nat_dec (length b)) + length b + 3, r))"
  by (simp add: php_name_def)

lemma php_read_key_ok [simp]:
  "key_wf k \<Longrightarrow> php_read_key (at, write_key k @ r) = Inr (k, (at + length (write_key k), r))"
  by (cases k) (simp_all add: php_read_key_def write_key_def write_string_def)

lemma php_read_property_ok [simp]:
  "length p \<le> LEN_MAX \<Longrightarrow>
   php_read_key (at, write_string p @ r) = Inr (KStr p, (at + length (write_string p), r))"
  using php_read_key_ok [of "KStr p" at r] by (simp add: write_key_def)

lemma parse_float_ok:
  assumes "f64_laws F"
  shows "parse_float F (php_float F f) = Some f" "CHR '';'' \<notin> set (php_float F f)"
proof -
  let ?d = "f_display F f"
  let ?fin = "\<not> f_is_nan F f \<and> \<not> f_is_infinite F f"
  have laws: "if f_is_nan F f then f = f_nan F
      else if f_is_infinite F f then f = (if f_positive F f then f_inf F else f_neg_inf F)
      else f_parse F ?d = Some f \<and> ?d \<noteq> [] \<and> list_all (\<lambda>b. is_digit b \<or> b \<in> set ''-.'') ?d"
    using assms unfolding f64_laws_def by blast
  have chars: "\<forall>c \<in> set ?d. (is_digit c \<or> c \<in> set ''-.'') \<and> graphic c \<and> c \<notin> set '';NIF''" if ?fin
    using laws that by (auto simp: list_all_iff graphic_def is_digit_def)
  have "CHR ''N'' \<notin> set ?d" if ?fin
    using chars [OF that, THEN bspec, of "CHR ''N''"] by auto
  then have ne: "?d \<noteq> ''INF'' \<and> ?d \<noteq> ''-INF'' \<and> ?d \<noteq> ''NAN''" if ?fin
    using that by auto
  have v: "utf8_valid ?d" if ?fin using chars that by (simp add: utf8_valid_graphic)
  have ok: "list_all (\<lambda>b. is_digit b \<or> b \<in> set ''+-.eE'') ?d" if ?fin
    using chars that by (auto simp: list_all_iff)
  have "php_float F f = (if ?fin then ?d else if f_is_nan F f then ''NAN''
      else if f_positive F f then ''INF'' else ''-INF'')"
    by (simp add: php_float_def)
  moreover have "parse_float F ?d = Some f" if ?fin
    using laws that ne v ok by (simp add: parse_float_def)
  moreover have "parse_float F ''NAN'' = Some (f_nan F)" "parse_float F ''INF'' = Some (f_inf F)"
    "parse_float F ''-INF'' = Some (f_neg_inf F)"
    by (simp_all add: parse_float_def)
  ultimately show "parse_float F (php_float F f) = Some f"
    using laws by metis
  show "CHR '';'' \<notin> set (php_float F f)" using chars by (auto simp: php_float_def)
qed

lemma php_entries_ok:
  assumes "\<And>k v at r. (k, v) \<in> set es \<Longrightarrow> key_wf k \<and>
    val (at, w v @ r) = Inr (v, (at + length (w v), r))"
  shows "php_entries val (length es) (at, concat (map (\<lambda>(k, v). write_key k @ w v) es) @ r) =
    Inr (es, (at + length (concat (map (\<lambda>(k, v). write_key k @ w v) es)), r))"
  using assms
proof (induction es arbitrary: at)
  case (Cons e es)
  obtain k v where e: "e = (k, v)" by (cases e)
  have "key_wf k \<and> val (a, w v @ q) = Inr (v, (a + length (w v), q))" for a q
    using Cons.prems [of k v] e by simp
  moreover note Cons.IH [OF Cons.prems [OF list.set_intros(2)]]
  ultimately show ?case by (simp add: e add.assoc)
qed simp

lemma php_props_ok:
  assumes "\<And>p v at r. (p, v) \<in> set ps \<Longrightarrow> length p \<le> LEN_MAX \<and>
    val (at, w v @ r) = Inr (v, (at + length (w v), r))"
  shows "php_props val (length ps) (at, concat (map (\<lambda>(p, v). write_string p @ w v) ps) @ r) =
    Inr (ps, (at + length (concat (map (\<lambda>(p, v). write_string p @ w v) ps)), r))"
  using assms
proof (induction ps arbitrary: at)
  case (Cons e ps)
  obtain p v where e: "e = (p, v)" by (cases e)
  have "length p \<le> LEN_MAX \<and> val (a, w v @ q) = Inr (v, (a + length (w v), q))" for a q
    using Cons.prems [of p v] e by simp
  moreover note Cons.IH [OF Cons.prems [OF list.set_intros(2)]]
  ultimately show ?case by (simp add: e add.assoc property_of_key_def)
qed simp

text \<open>One step of \<^const>\<open>php_value\<close>, by the tag of the value it meets.\<close>

lemma php_value_scalar:
  assumes "tag \<notin> {CHR ''N'', CHR ''a'', CHR ''O''}"
  shows "php_value F md depth (at, tag # CHR '':'' # r) = php_scalar F tag (at + 2, r)"
  using assms by (subst php_value.simps) simp

lemma php_value_array:
  assumes "depth < md" "length es \<le> LEN_MAX"
    and "\<And>k v at r. (k, v) \<in> set es \<Longrightarrow> key_wf k \<and>
      php_value F md (depth + 1) (at, serialize F v @ r) = Inr (v, (at + length (serialize F v), r))"
  shows "php_value F md depth (at, serialize F (PArray es) @ r) =
    Inr (PArray es, (at + length (serialize F (PArray es)), r))"
proof -
  let ?body = "concat (map (\<lambda>(k, v). write_key k @ serialize F v) es)"
  have body: "(\<lambda>(k, w). write_key k @ w) \<circ> map_prod id (serialize F) =
      (\<lambda>(k, v). write_key k @ serialize F v)"
    by auto
  have "length es \<le> length ?body"
    by (induction es) (auto simp: write_key_def write_string_def split: php_key.splits)
  then have len: "length es \<le> length ?body + Suc (length r)" by simp
  show ?thesis
    using assms(1,2) len
      php_entries_ok [of es "php_value F md (depth + 1)" "serialize F", OF assms(3)]
    by (subst php_value.simps) (simp add: body)
qed

lemma php_value_object:
  assumes "depth < md" "php_wf (PObject class [])" "length ps \<le> LEN_MAX"
    and "\<And>p v at r. (p, v) \<in> set ps \<Longrightarrow> length p \<le> LEN_MAX \<and>
      php_value F md (depth + 1) (at, serialize F v @ r) = Inr (v, (at + length (serialize F v), r))"
  shows "php_value F md depth (at, serialize F (PObject class ps) @ r) =
    Inr (PObject class ps, (at + length (serialize F (PObject class ps)), r))"
proof -
  let ?body = "concat (map (\<lambda>(p, v). write_string p @ serialize F v) ps)"
  have body: "(\<lambda>(p, w). write_string p @ w) \<circ> map_prod id (serialize F) =
      (\<lambda>(p, v). write_string p @ serialize F v)"
    by auto
  have "length ps \<le> length ?body"
    by (induction ps) (auto simp: write_string_def)
  then have len: "length ps \<le> length ?body + Suc (length r)" by simp
  show ?thesis
    using assms(1,2,3) len
      php_props_ok [of ps "php_value F md (depth + 1)" "serialize F", OF assms(4)]
    by (subst php_value.simps) (simp add: body)
qed

lemma php_value_serialize:
  assumes "f64_laws F"
  shows "php_wf v \<Longrightarrow> depth + nesting v \<le> md \<Longrightarrow>
    php_value F md depth (at, serialize F v @ r) = Inr (v, (at + length (serialize F v), r))"
proof (induction v arbitrary: depth at r)
  case (PFloat f)
  then show ?case using assms
    by (simp add: php_value_scalar php_scalar_def php_until_ok parse_float_ok)
next
  case (PArray es)
  show ?case
  proof (rule php_value_array)
    fix k v at r
    assume kv: "(k, v) \<in> set es"
    then have "nesting v \<le> foldr max (map snd (map (map_prod id nesting) es)) 0"
      using foldr_max_le [of "map snd (map (map_prod id nesting) es)"] by (force simp del: foldr_map)
    then have "depth + 1 + nesting v \<le> md" using PArray.prems by simp
    moreover have "key_wf k" "php_wf v" using PArray.prems kv by (auto simp: list_all_iff)
    ultimately show "key_wf k \<and> php_value F md (depth + 1) (at, serialize F v @ r)
        = Inr (v, (at + length (serialize F v), r))"
      using PArray.IH [OF kv, of v] by simp
  qed (use PArray.prems in auto)
next
  case (PObject cls ps)
  show ?case
  proof (rule php_value_object)
    fix p v at r
    assume kv: "(p, v) \<in> set ps"
    then have "nesting v \<le> foldr max (map snd (map (map_prod id nesting) ps)) 0"
      using foldr_max_le [of "map snd (map (map_prod id nesting) ps)"] by (force simp del: foldr_map)
    then have "depth + 1 + nesting v \<le> md" using PObject.prems by simp
    moreover have "length p \<le> LEN_MAX" "php_wf v" using PObject.prems kv by (auto simp: list_all_iff)
    ultimately show "length p \<le> LEN_MAX \<and> php_value F md (depth + 1) (at, serialize F v @ r)
        = Inr (v, (at + length (serialize F v), r))"
      using PObject.IH [OF kv, of v] by simp
  qed (use PObject.prems in auto)
next
  case PNull
  then show ?case by (subst php_value.simps) simp
next
  case (PBool b)
  have "CHR '';'' \<notin> set ''0''" "CHR '';'' \<notin> set ''1''" by simp_all
  then show ?case
    using php_until_ok [of "CHR '';''" "''0''" "at + 2" r] php_until_ok [of "CHR '';''" "''1''" "at + 2" r]
    by (simp add: php_value_scalar php_scalar_def)
next
  case (PEnum cls kase)
  then show ?case
    using php_name_ok [of "cls @ CHR '':'' # kase" "at + 2" "CHR '';'' # r"]
    by (simp add: php_value_scalar php_scalar_def split_once_append)
qed (simp_all add: php_value_scalar php_scalar_def write_string_def)

section \<open>What is accepted\<close>

text \<open>The number of values and keys in a tree, what reading it has to allocate.\<close>

primrec nodes :: "'f php \<Rightarrow> nat" where
  "nodes PNull = 1"
| "nodes (PBool b) = 1"
| "nodes (PInt n) = 1"
| "nodes (PFloat f) = 1"
| "nodes (PString b) = 1"
| "nodes (PArray es) = 1 + sum_list (map (\<lambda>(k, n). 1 + n) (map (map_prod id nodes) es))"
| "nodes (PObject class ps) = 1 + sum_list (map (\<lambda>(p, n). 1 + n) (map (map_prod id nodes) ps))"
| "nodes (PCustom class data) = 1"
| "nodes (PEnum class kase) = 1"
| "nodes (PReference slot alias) = 1"

lemma php_expect_sound: "php_expect c p = Inr p' \<Longrightarrow> length (snd p) = Suc (length (snd p'))"
  by (auto simp: php_expect_def split: prod.splits list.splits if_splits)

lemma php_until_sound: "php_until c p = Inr (a, p') \<Longrightarrow> length (snd p') < length (snd p)"
  by (auto simp: php_until_def split: prod.splits option.splits dest!: split_once_Some)

lemma parse_int_in: "parse_int s = Some n \<Longrightarrow> in_i64 n"
  by (auto simp: parse_int_def Let_def split: if_splits dest: parse_i64_in)

lemma php_int_until_sound:
  "php_int_until c p = Inr (n, p') \<Longrightarrow> in_i64 n \<and> length (snd p') < length (snd p)"
  by (auto simp: php_int_until_def and_then_Inr split: option.splits
    dest!: php_until_sound dest: parse_int_in)

lemma php_length_until_sound:
  "php_length_until c p = Inr (n, p') \<Longrightarrow>
   n \<le> LEN_MAX \<and> n \<le> length (snd p') \<and> length (snd p') < length (snd p)"
  by (auto simp: php_length_until_def and_then_Inr LEN_MAX_def int_defs
    split: if_splits dest!: php_int_until_sound)

lemma php_take_sound:
  "php_take n p = Inr (b, p') \<Longrightarrow> length b = n \<and> length (snd p) = n + length (snd p')"
  by (auto simp: php_take_def split: if_splits)

lemma php_quoted_sound:
  "php_quoted p = Inr (b, p') \<Longrightarrow> length b \<le> LEN_MAX \<and> length (snd p') < length (snd p)"
  by (auto simp: php_quoted_def and_then_Inr
    dest!: php_length_until_sound php_expect_sound php_take_sound)

lemma php_name_sound:
  "php_name p = Inr (b, p') \<Longrightarrow>
   utf8_valid b \<and> length b \<le> LEN_MAX \<and> length (snd p') < length (snd p)"
  by (auto simp: php_name_def and_then_Inr split: if_splits dest!: php_quoted_sound)

lemmas php_primitives_sound = php_expect_sound php_until_sound php_int_until_sound
  php_length_until_sound php_take_sound php_quoted_sound php_name_sound

lemma php_read_key_sound:
  "php_read_key p = Inr (k, p') \<Longrightarrow> key_wf k \<and> length (snd p') < length (snd p)"
  by (cases p) (auto simp: php_read_key_def and_then_Inr neq_Nil_conv
    split: if_splits dest!: php_primitives_sound)

lemma php_scalar_sound:
  "php_scalar F tag p = Inr (v, p') \<Longrightarrow>
   php_wf v \<and> nesting v = 0 \<and> nodes v = 1 \<and> length (snd p') < length (snd p)"
  (is "?r \<Longrightarrow> ?ok")
proof -
  assume r: ?r
  consider "tag = CHR ''b''" | "tag = CHR ''i''" | "tag = CHR ''d''" | "tag = CHR ''s''"
    | "tag = CHR ''C''" | "tag = CHR ''E''" | "tag = CHR ''r'' \<or> tag = CHR ''R''"
    using r by (auto simp: php_scalar_def split: if_splits)
  then show ?ok
  proof cases
    case 7
    then obtain slot where "php_int_until CHR '';'' p = Inr (slot, p')" "0 < slot"
      "v = PReference (nat slot) (tag = CHR ''R'')"
      using r by (auto simp: php_scalar_def and_then_Inr split: if_splits)
    then show ?thesis by (auto simp: LEN_MAX_def int_defs dest!: php_int_until_sound)
  next
    case 6
    then obtain name p1 where e: "php_name p = Inr (name, p1)" "php_expect CHR '';'' p1 = Inr p'"
      "(case split_once CHR '':'' name of
          None \<Rightarrow> Inl (php_error ''an enum without a case'' p')
        | Some (class, kase) \<Rightarrow> Inr (PEnum class kase, p')) = Inr (v, p')"
      using r by (fastforce simp: php_scalar_def and_then_Inr split: option.splits)
    then obtain a b where "split_once CHR '':'' name = Some (a, b)" "v = PEnum a b"
      by (auto split: option.splits)
    then show ?thesis using e(1,2)
      by (auto dest!: php_name_sound php_expect_sound split_once_Some)
  qed (use r in \<open>auto simp: php_scalar_def and_then_Inr split: if_splits option.splits
      dest!: php_primitives_sound split_once_Some\<close>)
qed

lemma length_nat_dec: "n < 10 ^ Suc k \<Longrightarrow> length (nat_dec n) \<le> Suc k"
proof (induction k arbitrary: n)
  case 0
  then show ?case by (subst nat_dec.simps) simp
next
  case (Suc k)
  have "n div 10 < 10 ^ Suc k" using Suc.prems by (simp add: less_mult_imp_div_less)
  then show ?case using Suc.IH [of "n div 10"] by (subst nat_dec.simps) simp
qed

lemma property_of_key_length: "key_wf k \<Longrightarrow> length (property_of_key k) \<le> LEN_MAX"
proof (cases k)
  case (KInt n)
  assume "key_wf k"
  then have "nat n \<le> nat (2 ^ 63)" "nat (- n) \<le> nat (2 ^ 63)"
    using KInt by (intro nat_mono; simp add: int_defs)+
  then have "nat n < 10 ^ Suc 19" "nat (- n) < 10 ^ Suc 19" by simp_all
  from this [THEN length_nat_dec] have "length (int_dec n) \<le> 21" by (simp add: int_dec_def)
  then show ?thesis using KInt by (simp add: property_of_key_def LEN_MAX_def)
qed (simp add: property_of_key_def)

lemma php_entries_sound:
  assumes val: "\<And>p v p'. val p = Inr (v, p') \<Longrightarrow> P v \<and> nodes v + length (snd p') \<le> length (snd p)"
  shows "php_entries val n p = Inr (es, p') \<Longrightarrow>
    length es = n \<and> (\<forall>(k, v) \<in> set es. key_wf k \<and> P v)
    \<and> (\<Sum>(k, v) \<leftarrow> es. 1 + nodes v) + length (snd p') \<le> length (snd p)"
proof (induction n arbitrary: p es)
  case (Suc n)
  then obtain k p1 v p2 es' where r: "php_read_key p = Inr (k, p1)" "val p1 = Inr (v, p2)"
    "php_entries val n p2 = Inr (es', p')" "es = (k, v) # es'"
    by (auto simp: and_then_Inr)
  show ?case using php_read_key_sound [OF r(1)] val [OF r(2)] Suc.IH [OF r(3)] r(4) by simp
qed simp

lemma php_props_sound:
  assumes val: "\<And>p v p'. val p = Inr (v, p') \<Longrightarrow> P v \<and> nodes v + length (snd p') \<le> length (snd p)"
  shows "php_props val n p = Inr (ps, p') \<Longrightarrow>
    length ps = n \<and> (\<forall>(x, v) \<in> set ps. length x \<le> LEN_MAX \<and> P v)
    \<and> (\<Sum>(k, v) \<leftarrow> ps. 1 + nodes v) + length (snd p') \<le> length (snd p)"
proof (induction n arbitrary: p ps)
  case (Suc n)
  then obtain k p1 v p2 ps' where r: "php_read_key p = Inr (k, p1)" "val p1 = Inr (v, p2)"
    "php_props val n p2 = Inr (ps', p')" "ps = (property_of_key k, v) # ps'"
    by (auto simp: and_then_Inr)
  show ?case using php_read_key_sound [OF r(1)] val [OF r(2)] Suc.IH [OF r(3)] r(4)
    by (simp add: property_of_key_length)
qed simp

lemma nested_bound:
  "\<forall>(k, v) \<in> set es. Suc d + nesting v \<le> md \<Longrightarrow> Suc d \<le> md \<Longrightarrow>
   Suc (d + foldr max (map snd (map (map_prod id nesting) es)) 0) \<le> md"
  using foldr_max_le [of "map snd (map (map_prod id nesting) es)" "md - Suc d"]
  by (force simp del: foldr_map)

lemma map_prod_nodes: "(\<lambda>(k, n). Suc n) \<circ> map_prod id nodes = (\<lambda>(k, v). Suc (nodes v))"
  by auto

lemma php_value_sound:
  "php_value F md depth p = Inr (v, p') \<Longrightarrow> depth \<le> md \<Longrightarrow>
   (php_wf v \<and> depth + nesting v \<le> md) \<and> nodes v + length (snd p') \<le> length (snd p)"
proof (induction "md - depth" arbitrary: depth p v p' rule: less_induct)
  case less
  have rec: "(php_wf w \<and> Suc depth + nesting w \<le> md) \<and> nodes w + length (snd q') \<le> length (snd q)"
    if "depth < md" "php_value F md (depth + 1) q = Inr (w, q')" for w q q'
    using less.hyps [OF _ that(2)] that(1) by simp
  obtain tag r where p: "snd p = tag # r"
    using less.prems(1) by (subst (asm) php_value.simps) (auto split: list.splits)
  note step = less.prems(1) [unfolded php_value.simps [of F md depth p] p list.case]
  consider "tag = CHR ''N''" | "tag = CHR ''a''" | "tag = CHR ''O''"
    | "tag \<notin> {CHR ''N'', CHR ''a'', CHR ''O''}" by blast
  then show ?case
  proof cases
    case 1
    then show ?thesis using step less.prems(2) p by (auto simp: and_then_Inr dest!: php_expect_sound)
  next
    case 2
    then obtain p1 n p2 p3 es p4 where run: "php_expect CHR '':'' (fst p + 1, r) = Inr p1" "depth < md"
      "php_length_until CHR '':'' p1 = Inr (n, p2)" "php_expect CHR ''{'' p2 = Inr p3"
      "php_entries (php_value F md (depth + 1)) n p3 = Inr (es, p4)"
      "php_expect CHR ''}'' p4 = Inr p'" "v = PArray es"
      using step by (auto simp: and_then_Inr split: if_splits)
    note es = php_entries_sound [OF rec [OF run(2)] run(5)]
    show ?thesis using es run(1-4,6,7) p nested_bound [of es depth md]
      by (auto simp: map_prod_nodes list_all_iff dest!: php_expect_sound php_length_until_sound)
  next
    case 3
    then obtain p1 cls p2 p3 n p4 p5 ps p6 where run:
      "php_expect CHR '':'' (fst p + 1, r) = Inr p1" "depth < md"
      "php_name p1 = Inr (cls, p2)" "php_expect CHR '':'' p2 = Inr p3"
      "php_length_until CHR '':'' p3 = Inr (n, p4)" "php_expect CHR ''{'' p4 = Inr p5"
      "php_props (php_value F md (depth + 1)) n p5 = Inr (ps, p6)"
      "php_expect CHR ''}'' p6 = Inr p'" "v = PObject cls ps"
      using step by (auto simp: and_then_Inr split: if_splits)
    note ps = php_props_sound [OF rec [OF run(2)] run(7)]
    show ?thesis using ps run(1-6,8,9) p nested_bound [of ps depth md]
      by (auto simp: map_prod_nodes list_all_iff
        dest!: php_expect_sound php_length_until_sound php_name_sound)
  next
    case 4
    then obtain p1 where "php_expect CHR '':'' (fst p + 1, r) = Inr p1"
      "php_scalar F tag p1 = Inr (v, p')"
      using step by (auto simp: and_then_Inr)
    then show ?thesis using less.prems(2) p by (auto dest!: php_expect_sound php_scalar_sound)
  qed
qed

text \<open>Every refusal is a bad request.\<close>

definition bad_only :: "'a result \<Rightarrow> bool" where
  "bad_only r \<longleftrightarrow> (\<forall>e. r = Inl e \<longrightarrow> kind e = BadRequest)"

lemma bad_only_simps [simp]: "bad_only (Inr a)" "bad_only (Inl (php_error what p))"
  by (simp_all add: bad_only_def php_error_def error_defs)

lemma bad_only_and_then: "bad_only r \<Longrightarrow> \<forall>a. bad_only (f a) \<Longrightarrow> bad_only (and_then r f)"
  by (cases r) (auto simp: bad_only_def)

lemma bad_only_if: "bad_only a \<Longrightarrow> bad_only b \<Longrightarrow> bad_only (if P then a else b)"
  by simp

lemma bad_only_option: "bad_only a \<Longrightarrow> \<forall>x. bad_only (f x) \<Longrightarrow>
    bad_only (case r of None \<Rightarrow> a | Some x \<Rightarrow> f x)"
  by (cases r) auto

lemma bad_only_prod: "bad_only (f (fst p) (snd p)) \<Longrightarrow> bad_only (case p of (a, b) \<Rightarrow> f a b)"
  by (cases p) simp

lemmas bad_only_rules = allI bad_only_and_then bad_only_if bad_only_option bad_only_prod
  bad_only_simps

lemma bad_only_expect: "bad_only (php_expect c p)"
  by (cases p) (auto simp: php_expect_def split: list.splits)

lemma bad_only_until: "bad_only (php_until c p)"
  unfolding php_until_def by (intro bad_only_rules)

lemma bad_only_take: "bad_only (php_take n p)"
  unfolding php_take_def by (intro bad_only_rules)

lemma bad_only_int_until: "bad_only (php_int_until c p)"
  unfolding php_int_until_def by (intro bad_only_rules bad_only_until)

lemma bad_only_length_until: "bad_only (php_length_until c p)"
  unfolding php_length_until_def by (intro bad_only_rules bad_only_int_until)

lemmas bad_only_primitives = bad_only_expect bad_only_until bad_only_take bad_only_int_until
  bad_only_length_until

lemma bad_only_quoted: "bad_only (php_quoted p)"
  unfolding php_quoted_def by (intro bad_only_rules bad_only_primitives)

lemma bad_only_name: "bad_only (php_name p)"
  unfolding php_name_def by (intro bad_only_rules bad_only_quoted)

lemma bad_only_read_key: "bad_only (php_read_key p)"
  unfolding php_read_key_def by (intro bad_only_rules bad_only_primitives bad_only_quoted)

lemma bad_only_scalar: "bad_only (php_scalar F tag p)"
  unfolding php_scalar_def by (intro bad_only_rules bad_only_primitives bad_only_quoted bad_only_name)

lemma bad_only_entries: "(\<And>q. bad_only (val q)) \<Longrightarrow> bad_only (php_entries val n p)"
  by (induction n arbitrary: p) (simp_all add: bad_only_rules bad_only_read_key)

lemma bad_only_props: "(\<And>q. bad_only (val q)) \<Longrightarrow> bad_only (php_props val n p)"
  by (induction n arbitrary: p) (simp_all add: bad_only_rules bad_only_read_key)

lemma bad_only_value: "bad_only (php_value F md depth p)"
proof (induction "md - depth" arbitrary: depth p rule: less_induct)
  case less
  then have rec: "bad_only (php_value F md (depth + 1) q)" if "\<not> md \<le> depth" for q
    using that by simp
  have "bad_only (php_entries (php_value F md (depth + 1)) n q)"
    "bad_only (php_props (php_value F md (depth + 1)) n q)" if "\<not> md \<le> depth" for n q
    using rec [OF that] by (rule bad_only_entries bad_only_props)+
  then show ?case
    unfolding php_value.simps [of F md depth p]
    by (cases "snd p"; cases "md \<le> depth")
      (simp_all add: bad_only_rules bad_only_primitives bad_only_name bad_only_scalar del: One_nat_def add_Suc_right)
qed

section \<open>Lookup\<close>

lemma key_matches_array_key: "key_matches (array_key name) name"
  by (simp add: array_key_def key_matches_def split: option.splits)

text \<open>An integer key is also found under spellings PHP would keep apart from it.\<close>

lemma key_matches_loose:
  "key_matches (KInt 7) ''07'' \<and> array_key ''07'' = KStr ''07''"
  by (simp add: key_matches_def array_key_def parse_i64_def strip_plus_def all_digits_def
    is_digit_def digits_value_def digit_val_def in_i64_def i64_min_def i64_max_def int_dec_def
    nat_dec.simps digit_char_def)

section \<open>Properties\<close>

text \<open>
  C26. Reading back what was written. For every value Rust's types admit and the format can
  carry, within the nesting limit, \<^verbatim>\<open>unserialize_with\<close> of \<^verbatim>\<open>serialize\<close> returns the value itself,
  given that printed floats parse back.
\<close>

theorem php_round_trip:
  assumes "f64_laws F" "php_wf v" "nesting v \<le> max_depth"
  shows "unserialize_with F (serialize F v) max_depth = Inr v"
  using php_value_serialize [OF assms(1,2), of 0 max_depth 0 "[]"] assms(3)
  by (simp add: unserialize_with_def)

definition int_f64 :: "int f64" where
  "int_f64 = \<lparr>f_is_nan = (\<lambda>f. False), f_is_infinite = (\<lambda>f. False), f_positive = (\<lambda>f. f > 0),
     f_display = int_dec, f_parse = (\<lambda>s. if hd s = CHR ''-'' then Some (- int (digits_value (tl s)))
       else Some (int (digits_value s))), f_inf = 0, f_neg_inf = 0, f_nan = 0\<rparr>"

lemma int_f64_laws: "f64_laws int_f64"
  by (auto simp: f64_laws_def int_f64_def int_dec_def list_all_iff dest: nat_dec_digit)

theorem php_round_trip_witness:
  "unserialize_with int_f64 (serialize int_f64
     (PArray [(KStr ''name'', PString ''Ada''), (KInt (-3), PFloat 25),
        (KInt 0, PObject ''User'' [(''age'', PInt 36), (''suit'', PEnum ''Suit'' ''Hearts'')])])) 2
   = Inr (PArray [(KStr ''name'', PString ''Ada''), (KInt (-3), PFloat 25),
        (KInt 0, PObject ''User'' [(''age'', PInt 36), (''suit'', PEnum ''Suit'' ''Hearts'')])])"
  by (rule php_round_trip [OF int_f64_laws]) (simp_all add: LEN_MAX_def int_defs)

text \<open>
  A payload that is accepted is bounded and stable. Whatever bytes come in, a value read has
  integers, lengths and slots in range, UTF-8 names, no more nesting than the limit and no more
  values and keys than the payload has bytes; and writing it and reading it again gives the same
  value. Everything else is refused, with a bad request error, never with a panic.
\<close>

theorem php_accepted_bounded_and_stable:
  assumes "f64_laws F"
  shows "case unserialize_with F input max_depth of
      Inl e \<Rightarrow> kind e = BadRequest
    | Inr v \<Rightarrow> php_wf v \<and> nesting v \<le> max_depth \<and> nodes v \<le> length input
        \<and> unserialize_with F (serialize F v) max_depth = Inr v"
proof (cases "unserialize_with F input max_depth")
  case (Inl e)
  moreover have "bad_only (unserialize_with F input max_depth)"
    unfolding unserialize_with_def by (intro bad_only_rules bad_only_value)
  ultimately show ?thesis by (simp add: bad_only_def)
next
  case (Inr v)
  then obtain p where "php_value F max_depth 0 (0, input) = Inr (v, p)"
    by (auto simp: unserialize_with_def and_then_Inr split: if_splits)
  from php_value_sound [OF this]
  have "php_wf v" "nesting v \<le> max_depth" "nodes v \<le> length input" by auto
  then show ?thesis
    using Inr php_value_serialize [OF assms, of v 0 max_depth 0 "[]"]
    by (simp add: unserialize_with_def)
qed

theorem php_accepted_bounded_and_stable_witness:
  "case unserialize_with int_f64 ''a:1:{i:+7;b:1;}'' 64 of
      Inl e \<Rightarrow> kind e = BadRequest
    | Inr v \<Rightarrow> php_wf v \<and> nesting v \<le> 64 \<and> nodes v \<le> length ''a:1:{i:+7;b:1;}''
        \<and> unserialize_with int_f64 (serialize int_f64 v) 64 = Inr v"
  by (rule php_accepted_bounded_and_stable [OF int_f64_laws])

text \<open>
  Visibility survives PHP's name mangling: a public, protected or private property is read
  back with its name, its visibility and its class.
\<close>

lemma property_mangling:
  assumes "utf8_valid name" "utf8_valid class" "NUL \<notin> set class" "class \<noteq> ''*''"
  shows "prop_visibility (prop_private class name) = VPrivate class"
    and "prop_name (prop_private class name) = name"
    and "prop_visibility (prop_protected name) = VProtected"
    and "prop_name (prop_protected name) = name"
    and "take 1 name \<noteq> [NUL] \<Longrightarrow> prop_visibility (prop_public name) = VPublic"
    and "take 1 name \<noteq> [NUL] \<Longrightarrow> prop_name (prop_public name) = name"
proof -
  have c: "prop_split (prop_private class name) = (Some class, name)"
    using assms(3) by (simp add: prop_split_def prop_private_def split_once_append)
  have p: "prop_split (prop_protected name) = (Some ''*'', name)"
    by (simp add: prop_split_def prop_protected_def NUL_def)
  have n: "take 1 name \<noteq> [NUL] \<Longrightarrow> prop_split (prop_public name) = (None, name)"
    by (cases name) (simp_all add: prop_split_def prop_public_def)
  note defs = prop_visibility_def prop_name_def from_utf8_lossy_id
  show "prop_visibility (prop_private class name) = VPrivate class"
    "prop_name (prop_private class name) = name" using c assms by (simp_all add: defs)
  show "prop_visibility (prop_protected name) = VProtected"
    "prop_name (prop_protected name) = name" using p assms by (simp_all add: defs)
  show "take 1 name \<noteq> [NUL] \<Longrightarrow> prop_visibility (prop_public name) = VPublic"
    "take 1 name \<noteq> [NUL] \<Longrightarrow> prop_name (prop_public name) = name" using n assms by (simp_all add: defs)
qed

end
