(* ===== verification/Cron.thy ===== *)
theory Cron
  imports Support_Error
begin

text \<open>
  Cron expressions, \<^verbatim>\<open>rainier-scheduler/src/cron.rs\<close>. The date and time type of the \<^verbatim>\<open>chrono\<close>
  package is a type \<^typ>\<open>'t\<close> with the record of the methods the code calls; a field's
  \<^verbatim>\<open>BTreeSet\<close> is a set of numbers.
\<close>

section \<open>The code\<close>

record 't datetime =
  dt_minute :: "'t \<Rightarrow> nat"
  dt_hour :: "'t \<Rightarrow> nat"
  dt_day :: "'t \<Rightarrow> nat"
  dt_month :: "'t \<Rightarrow> nat"
  dt_weekday :: "'t \<Rightarrow> nat"
  dt_whole_minute :: "'t \<Rightarrow> 't option"
  dt_plus_minute :: "'t \<Rightarrow> 't"

record field =
  f_values :: "nat set"
  f_wildcard :: bool

record cron =
  cron_source :: string
  minutes :: field
  hours :: field
  days_of_month :: field
  months :: field
  days_of_week :: field

definition field_matches :: "field \<Rightarrow> nat \<Rightarrow> bool" where
  "field_matches f v \<longleftrightarrow> v \<in> f_values f"

definition MONTHS :: "string list" where
  "MONTHS = [''jan'', ''feb'', ''mar'', ''apr'', ''may'', ''jun'', ''jul'', ''aug'', ''sep'',
     ''oct'', ''nov'', ''dec'']"

definition DAYS :: "string list" where
  "DAYS = [''sun'', ''mon'', ''tue'', ''wed'', ''thu'', ''fri'', ''sat'']"

definition cron_invalid :: "string \<Rightarrow> string \<Rightarrow> string \<Rightarrow> error" where
  "cron_invalid source field why =
     err_internal (''`'' @ source @ ''`: the field `'' @ field @ ''` has '' @ why)"

definition expand_shorthand :: "string \<Rightarrow> string option" where
  "expand_shorthand expression =
     (let e = to_ascii_lowercase expression in
      if e = ''@yearly'' \<or> e = ''@annually'' then Some ''0 0 1 1 *''
      else if e = ''@monthly'' then Some ''0 0 1 * *''
      else if e = ''@weekly'' then Some ''0 0 * * 0''
      else if e = ''@daily'' \<or> e = ''@midnight'' then Some ''0 0 * * *''
      else if e = ''@hourly'' then Some ''0 * * * *''
      else None)"

text \<open>The two name tables differ, so comparing them is comparing their addresses.\<close>

definition value_of :: "string \<Rightarrow> string \<Rightarrow> string \<Rightarrow> string list \<Rightarrow> nat result" where
  "value_of source field raw names =
     (let raw = trim raw in
      case parse_uint u32_max raw of
        Some n \<Rightarrow> Inr n
      | None \<Rightarrow>
          (case position names (to_ascii_lowercase raw) of
             Some i \<Rightarrow> Inr (if names = MONTHS then i + 1 else i)
           | None \<Rightarrow> Inl (cron_invalid source field (''`'' @ raw @ ''` is not a number or a name''))))"

definition parse_step :: "string \<Rightarrow> string \<Rightarrow> string \<Rightarrow> (string \<times> nat) result" where
  "parse_step source field part =
     (case split_once CHR ''/'' part of
        Some (rng, step) \<Rightarrow>
          (case parse_uint u32_max step of
             None \<Rightarrow> Inl (cron_invalid source field (''`'' @ step @ ''` is not a step''))
           | Some n \<Rightarrow>
               if n = 0 then Inl (cron_invalid source field ''a step of zero'') else Inr (rng, n))
      | None \<Rightarrow> Inr (part, 1))"

definition parse_range ::
  "string \<Rightarrow> string \<Rightarrow> nat \<Rightarrow> nat \<Rightarrow> string list \<Rightarrow> string \<Rightarrow> nat \<Rightarrow> (nat \<times> nat) result"
where
  "parse_range source field mn mx names rng step =
     (if rng = ''*'' then Inr (mn, mx)
      else (case split_once CHR ''-'' rng of
              Some (start, stop) \<Rightarrow>
                and_then (value_of source field start names) (\<lambda>a.
                and_then (value_of source field stop names) (\<lambda>b. Inr (a, b)))
            | None \<Rightarrow>
                and_then (value_of source field rng names) (\<lambda>single.
                  Inr (if step > 1 then (single, mx) else (single, single)))))"

text \<open>\<^verbatim>\<open>(from..=to).step_by(step)\<close>.\<close>

definition step_range :: "nat \<Rightarrow> nat \<Rightarrow> nat \<Rightarrow> nat set" where
  "step_range from to step = set (filter (\<lambda>v. (v - from) mod step = 0) [from..<Suc to])"

text \<open>The loop of \<^verbatim>\<open>parse_field\<close> over the parts of the list.\<close>

fun parse_parts ::
  "string \<Rightarrow> string \<Rightarrow> nat \<Rightarrow> nat \<Rightarrow> string list \<Rightarrow> string list \<Rightarrow> nat set \<Rightarrow> nat set result"
where
  "parse_parts source field mn mx names [] values = Inr values"
| "parse_parts source field mn mx names (p # ps) values =
     (let part = trim p in
      if part = [] then Inl (cron_invalid source field ''an empty entry in a list'')
      else and_then (parse_step source field part) (\<lambda>(rng, step).
           and_then (parse_range source field mn mx names rng step) (\<lambda>(from, to).
             if from > to then Inl (cron_invalid source field
               (''`'' @ nat_dec from @ ''-'' @ nat_dec to @ ''` runs backwards''))
             else if from < mn \<or> to > mx then Inl (cron_invalid source field
               (''`'' @ nat_dec from @ ''-'' @ nat_dec to @ ''` is outside '' @ nat_dec mn @ ''-''
                  @ nat_dec mx))
             else parse_parts source field mn mx names ps (values \<union> step_range from to step))))"

definition parse_field ::
  "string \<Rightarrow> string \<Rightarrow> nat \<Rightarrow> nat \<Rightarrow> string list \<Rightarrow> field result"
where
  "parse_field source field mn mx names =
     and_then (parse_parts source field mn mx names (split_on CHR '','' field) {}) (\<lambda>values.
       if values = {} then Inl (cron_invalid source field ''it matches nothing'')
       else Inr \<lparr>f_values = values, f_wildcard = (field = ''*'')\<rparr>)"

definition parse_day_of_week :: "string \<Rightarrow> string \<Rightarrow> field result" where
  "parse_day_of_week source field =
     and_then (parse_field source field 0 7 DAYS) (\<lambda>parsed.
       Inr \<lparr>f_values = {d \<in> (\<lambda>d. d mod 7) ` f_values parsed. d \<le> 6},
            f_wildcard = f_wildcard parsed\<rparr>)"

definition parse_fields :: "string \<Rightarrow> string \<Rightarrow> cron result" where
  "parse_fields source expression =
     (let fields = split_whitespace expression in
      if length fields \<noteq> 5
      then Inl (err_internal (''`'' @ source @ ''` has '' @ nat_dec (length fields)
        @ '' field(s); a cron expression has 5 (minute hour day-of-month month day-of-week)''))
      else
        and_then (parse_field source (fields ! 0) 0 59 []) (\<lambda>mi.
        and_then (parse_field source (fields ! 1) 0 23 []) (\<lambda>ho.
        and_then (parse_field source (fields ! 2) 1 31 []) (\<lambda>dm.
        and_then (parse_field source (fields ! 3) 1 12 MONTHS) (\<lambda>mo.
        and_then (parse_day_of_week source (fields ! 4)) (\<lambda>dw.
          Inr \<lparr>cron_source = source, minutes = mi, hours = ho, days_of_month = dm, months = mo,
               days_of_week = dw\<rparr>))))))"

definition cron_parse :: "string \<Rightarrow> cron result" where
  "cron_parse expression =
     (let trimmed = trim expression in
      case expand_shorthand trimmed of
        Some shorthand \<Rightarrow> parse_fields trimmed shorthand
      | None \<Rightarrow> parse_fields trimmed trimmed)"

definition cron_matches :: "'t datetime \<Rightarrow> cron \<Rightarrow> 't \<Rightarrow> bool" where
  "cron_matches D e at =
     (if \<not> field_matches (minutes e) (dt_minute D at) \<or> \<not> field_matches (hours e) (dt_hour D at)
         \<or> \<not> field_matches (months e) (dt_month D at)
      then False
      else let dom = field_matches (days_of_month e) (dt_day D at);
               dow = field_matches (days_of_week e) (dt_weekday D at)
           in if f_wildcard (days_of_month e) \<or> f_wildcard (days_of_week e) then dom \<and> dow
              else dom \<or> dow)"

definition SEARCH_MINUTES :: nat where "SEARCH_MINUTES = 4 * 366 * 24 * 60"

fun search_next :: "'t datetime \<Rightarrow> cron \<Rightarrow> nat \<Rightarrow> 't \<Rightarrow> 't option" where
  "search_next D e 0 candidate = None"
| "search_next D e (Suc n) candidate =
     (if cron_matches D e candidate then Some candidate
      else search_next D e n (dt_plus_minute D candidate))"

definition next_after :: "'t datetime \<Rightarrow> cron \<Rightarrow> 't \<Rightarrow> 't option" where
  "next_after D e from =
     (case dt_whole_minute D from of
        None \<Rightarrow> None
      | Some base \<Rightarrow> search_next D e SEARCH_MINUTES (dt_plus_minute D base))"

section \<open>What is accepted is in range\<close>

lemma step_range_iff:
  "v \<in> step_range from to step \<longleftrightarrow> from \<le> v \<and> v \<le> to \<and> (v - from) mod step = 0"
  by (auto simp: step_range_def)

lemma step_range_self [simp]: "from \<le> to \<Longrightarrow> from \<in> step_range from to step"
  by (simp add: step_range_iff)

lemma parse_parts_range:
  "parse_parts source field mn mx names ps vs = Inr ws \<Longrightarrow> vs \<subseteq> {mn..mx} \<Longrightarrow> ws \<subseteq> {mn..mx}"
proof (induction ps arbitrary: vs)
  case (Cons p ps)
  then obtain lo hi step where
    "parse_parts source field mn mx names ps (vs \<union> step_range lo hi step) = Inr ws"
    "mn \<le> lo" "hi \<le> mx"
    by (auto simp: Let_def and_then_Inr not_less split: if_splits)
  then show ?case using Cons.prems(2)
    by (intro Cons.IH [of "vs \<union> step_range lo hi step"]) (auto simp: step_range_iff)
qed simp

definition field_ok :: "nat \<Rightarrow> nat \<Rightarrow> field \<Rightarrow> bool" where
  "field_ok mn mx f \<longleftrightarrow> f_values f \<noteq> {} \<and> f_values f \<subseteq> {mn..mx}"

lemma parse_field_ok: "parse_field source field mn mx names = Inr f \<Longrightarrow> field_ok mn mx f"
  by (auto simp: parse_field_def and_then_Inr field_ok_def split: if_splits
      dest!: parse_parts_range [OF _ empty_subsetI])

lemma parse_day_of_week_ok: "parse_day_of_week source field = Inr f \<Longrightarrow> field_ok 0 6 f"
  by (fastforce simp: parse_day_of_week_def and_then_Inr field_ok_def dest!: parse_field_ok)

definition cron_ok :: "cron \<Rightarrow> bool" where
  "cron_ok e \<longleftrightarrow> field_ok 0 59 (minutes e) \<and> field_ok 0 23 (hours e) \<and> field_ok 1 31 (days_of_month e)
     \<and> field_ok 1 12 (months e) \<and> field_ok 0 6 (days_of_week e)"

lemma cron_parse_ok: "cron_parse s = Inr e \<Longrightarrow> cron_ok e \<and> cron_source e = trim s"
  by (auto simp: cron_parse_def parse_fields_def cron_ok_def Let_def and_then_Inr
      dest!: parse_field_ok parse_day_of_week_ok split: option.splits if_splits)

section \<open>What an expression means\<close>

text \<open>The documented grammar of a field, how it is written and the values it stands for.\<close>

datatype atom = Num nat | Name nat

datatype cron_range = RAll | ROne atom | RSpan atom atom

type_synonym part = "cron_range \<times> nat option"

fun print_atom :: "string list \<Rightarrow> atom \<Rightarrow> string" where
  "print_atom names (Num n) = nat_dec n"
| "print_atom names (Name i) = names ! i"

fun atom_value :: "string list \<Rightarrow> atom \<Rightarrow> nat" where
  "atom_value names (Num n) = n"
| "atom_value names (Name i) = (if names = MONTHS then i + 1 else i)"

fun atom_ok :: "string list \<Rightarrow> atom \<Rightarrow> bool" where
  "atom_ok names (Num n) = (n \<le> u32_max)"
| "atom_ok names (Name i) = (i < length names)"

fun print_range :: "string list \<Rightarrow> cron_range \<Rightarrow> string" where
  "print_range names RAll = ''*''"
| "print_range names (ROne a) = print_atom names a"
| "print_range names (RSpan a b) = print_atom names a @ ''-'' @ print_atom names b"

fun print_part :: "string list \<Rightarrow> part \<Rightarrow> string" where
  "print_part names (r, None) = print_range names r"
| "print_part names (r, Some n) = print_range names r @ ''/'' @ nat_dec n"

fun part_step :: "part \<Rightarrow> nat" where
  "part_step (r, None) = 1"
| "part_step (r, Some n) = n"

fun part_bounds :: "nat \<Rightarrow> nat \<Rightarrow> string list \<Rightarrow> part \<Rightarrow> nat \<times> nat" where
  "part_bounds mn mx names (RAll, n) = (mn, mx)"
| "part_bounds mn mx names (ROne a, n) =
     (atom_value names a, if part_step (ROne a, n) > 1 then mx else atom_value names a)"
| "part_bounds mn mx names (RSpan a b, n) = (atom_value names a, atom_value names b)"

definition part_meaning :: "nat \<Rightarrow> nat \<Rightarrow> string list \<Rightarrow> part \<Rightarrow> nat set" where
  "part_meaning mn mx names p =
     (let (from, to) = part_bounds mn mx names p
      in {v. from \<le> v \<and> v \<le> to \<and> (\<exists>k. v = from + k * part_step p)})"

definition part_ok :: "nat \<Rightarrow> nat \<Rightarrow> string list \<Rightarrow> part \<Rightarrow> bool" where
  "part_ok mn mx names p \<longleftrightarrow>
     (let (from, to) = part_bounds mn mx names p
      in mn \<le> from \<and> from \<le> to \<and> to \<le> mx) \<and> 0 < part_step p \<and> part_step p \<le> u32_max
     \<and> (case fst p of RAll \<Rightarrow> True | ROne a \<Rightarrow> atom_ok names a
         | RSpan a b \<Rightarrow> atom_ok names a \<and> atom_ok names b)"

definition print_field :: "string list \<Rightarrow> part list \<Rightarrow> string" where
  "print_field names ps = join '','' (map (print_part names) ps)"

definition field_meaning :: "nat \<Rightarrow> nat \<Rightarrow> string list \<Rightarrow> part list \<Rightarrow> nat set" where
  "field_meaning mn mx names ps = (\<Union>p \<in> set ps. part_meaning mn mx names p)"

definition name_table :: "string list \<Rightarrow> bool" where
  "name_table names \<longleftrightarrow> names = [] \<or> names = MONTHS \<or> names = DAYS"

text \<open>Nothing printed contains a separator of the level above.\<close>

definition plain_char :: "char \<Rightarrow> bool" where
  "plain_char c \<longleftrightarrow> graphic c \<and> c \<notin> set '',-/*@''"

lemma is_digit_plain: "is_digit c \<Longrightarrow> plain_char c"
  by (auto simp: plain_char_def graphic_def is_digit_def)

lemma name_facts:
  "list_all (\<lambda>n. list_all plain_char n \<and> n \<noteq> [] \<and> to_ascii_lowercase n = n \<and> \<not> all_digits (strip_plus n))
     (MONTHS @ DAYS)"
  by (simp add: MONTHS_def DAYS_def plain_char_def graphic_def to_ascii_lowercase_def
      ascii_lower_char_def all_digits_def strip_plus_def is_digit_def)

lemma name_table_nth:
  assumes "name_table names" "i < length names"
  shows "list_all plain_char (names ! i)" "names ! i \<noteq> []" "to_ascii_lowercase (names ! i) = names ! i"
    "parse_uint u32_max (names ! i) = None" "position names (names ! i) = Some i"
proof -
  have "names ! i \<in> set (MONTHS @ DAYS)" using assms by (auto simp: name_table_def)
  then show "list_all plain_char (names ! i)" "names ! i \<noteq> []"
    "to_ascii_lowercase (names ! i) = names ! i" "parse_uint u32_max (names ! i) = None"
    using name_facts by (auto simp: list_all_iff parse_uint_def Let_def)
  have "distinct names" using assms by (auto simp: name_table_def MONTHS_def DAYS_def)
  then show "position names (names ! i) = Some i" using assms(2) by (rule position_nth)
qed

lemma print_atom_plain:
  "name_table names \<Longrightarrow> atom_ok names a \<Longrightarrow> (\<forall>c \<in> set (print_atom names a). plain_char c)
     \<and> print_atom names a \<noteq> []"
  using name_table_nth by (cases a) (auto simp: list_all_iff is_digit_plain dest: nat_dec_digit)

lemma value_of_atom:
  assumes "name_table names" "atom_ok names a"
  shows "value_of source field (print_atom names a) names = Inr (atom_value names a)"
proof -
  have "trim (print_atom names a) = print_atom names a"
    using print_atom_plain [OF assms] by (intro trim_graphic) (auto simp: plain_char_def)
  then show ?thesis using name_table_nth [OF assms(1)] assms(2)
    by (cases a) (auto simp: value_of_def Let_def)
qed

text \<open>One part, printed and parsed.\<close>

definition range_char :: "char \<Rightarrow> bool" where
  "range_char c \<longleftrightarrow> graphic c \<and> c \<notin> set '',/@''"

definition part_char :: "char \<Rightarrow> bool" where
  "part_char c \<longleftrightarrow> graphic c \<and> c \<notin> set '',@''"

lemma char_levels: "plain_char c \<Longrightarrow> range_char c" "range_char c \<Longrightarrow> part_char c"
  by (simp_all add: plain_char_def range_char_def part_char_def)

lemma char_separators: "range_char CHR ''-''" "range_char CHR ''*''" "part_char CHR ''/''"
  by (simp_all add: range_char_def part_char_def graphic_def)

lemma print_range_chars:
  assumes "name_table names" "part_ok mn mx names (r, n)"
  shows "print_range names r \<noteq> []" "\<forall>c \<in> set (print_range names r). range_char c"
proof -
  have atom: "print_atom names a \<noteq> []" "\<forall>c \<in> set (print_atom names a). range_char c"
    if "atom_ok names a" for a
    using print_atom_plain [OF assms(1) that] char_levels by blast+
  have r: "case r of RAll \<Rightarrow> True | ROne a \<Rightarrow> atom_ok names a
      | RSpan a b \<Rightarrow> atom_ok names a \<and> atom_ok names b"
    using assms(2) by (simp add: part_ok_def)
  show "print_range names r \<noteq> []" using r atom(1) by (cases r) simp_all
  show "\<forall>c \<in> set (print_range names r). range_char c"
    using r atom(2) char_separators by (cases r) auto
qed

lemma print_part_chars:
  assumes "name_table names" "part_ok mn mx names p"
  shows "print_part names p \<noteq> []" "\<forall>c \<in> set (print_part names p). part_char c"
proof -
  obtain r n where p: "p = (r, n)" by (cases p)
  note r = print_range_chars [OF assms(1), of mn mx r n] and ok = assms(2) [unfolded p]
  show "print_part names p \<noteq> []" using r(1) [OF ok] by (cases n) (simp_all add: p)
  show "\<forall>c \<in> set (print_part names p). part_char c"
    using r(2) [OF ok] char_separators char_levels
    by (cases n) (auto simp: p dest!: nat_dec_digit is_digit_plain)
qed

lemma parse_step_print:
  assumes "name_table names" "part_ok mn mx names p"
  shows "parse_step source field (print_part names p) = Inr (print_range names (fst p), part_step p)"
proof -
  obtain r n where p: "p = (r, n)" by (cases p)
  have "CHR ''/'' \<notin> set (print_range names r)"
    using print_range_chars(2) [OF assms(1), of mn mx r n] assms(2) p by (auto simp: range_char_def)
  then show ?thesis using assms(2)
    by (cases n) (auto simp: p parse_step_def split_once_append split_once_skip part_ok_def)
qed

lemma parse_range_print:
  assumes "name_table names" "part_ok mn mx names p"
  shows "parse_range source field mn mx names (print_range names (fst p)) (part_step p) =
    Inr (part_bounds mn mx names p)"
proof -
  obtain r n where p: "p = (r, n)" by (cases p)
  have atom: "print_atom names a \<noteq> ''*''" "CHR ''-'' \<notin> set (print_atom names a)"
    "value_of source field (print_atom names a) names = Inr (atom_value names a)" if "atom_ok names a" for a
    using print_atom_plain [OF assms(1) that] value_of_atom [OF assms(1) that]
    by (auto simp: plain_char_def)
  show ?thesis
  proof (cases r)
    case RAll
    then show ?thesis by (simp add: p parse_range_def)
  next
    case (ROne a)
    then have "atom_ok names a" using assms(2) by (simp add: p part_ok_def)
    then show ?thesis using atom [of a] ROne by (simp add: p parse_range_def split_once_skip)
  next
    case (RSpan a b)
    then have "atom_ok names a" "atom_ok names b" using assms(2) by (simp_all add: p part_ok_def)
    moreover have "print_atom names a @ CHR ''-'' # print_atom names b \<noteq> ''*''"
      by (auto simp: append_eq_Cons_conv)
    ultimately show ?thesis using atom [of a] atom [of b] RSpan
      by (simp add: p parse_range_def split_once_append)
  qed
qed

lemma step_range_meaning:
  assumes "0 < step"
  shows "step_range lo hi step = {v. lo \<le> v \<and> v \<le> hi \<and> (\<exists>k. v = lo + k * step)}"
proof -
  have "(v - lo) mod step = 0 \<longleftrightarrow> (\<exists>k. v = lo + k * step)" if "lo \<le> v" for v
    using that by (auto simp: mod_eq_0_iff_dvd dvd_def nat_le_iff_add ac_simps)
  then have "v \<in> step_range lo hi step \<longleftrightarrow> lo \<le> v \<and> v \<le> hi \<and> (\<exists>k. v = lo + k * step)" for v
    unfolding step_range_iff by (cases "lo \<le> v") metis+
  then show ?thesis by blast
qed

lemma parse_parts_print:
  assumes "name_table names" "list_all (part_ok mn mx names) ps"
  shows "parse_parts source field mn mx names (map (print_part names) ps) vs =
    Inr (vs \<union> field_meaning mn mx names ps)"
  using assms(2)
proof (induction ps arbitrary: vs)
  case (Cons p ps)
  then have ok: "part_ok mn mx names p" by simp
  obtain lo hi where b: "part_bounds mn mx names p = (lo, hi)" by (cases "part_bounds mn mx names p")
  then have bounds: "mn \<le> lo" "lo \<le> hi" "hi \<le> mx" "0 < part_step p"
    using ok by (simp_all add: part_ok_def Let_def)
  have "trim (print_part names p) = print_part names p" "print_part names p \<noteq> []"
    using print_part_chars [OF assms(1) ok] by (auto simp: part_char_def intro!: trim_graphic)
  then show ?case using Cons bounds
    by (simp add: parse_step_print [OF assms(1) ok] parse_range_print [OF assms(1) ok] b
        step_range_meaning field_meaning_def part_meaning_def Un_assoc)
qed (simp add: field_meaning_def)

lemma part_meaning_nonempty: "part_ok mn mx names p \<Longrightarrow> part_meaning mn mx names p \<noteq> {}"
  by (cases "part_bounds mn mx names p")
    (fastforce simp: part_ok_def part_meaning_def Let_def)

lemma print_field_star: 
  assumes "name_table names" "list_all (part_ok mn mx names) ps" "ps \<noteq> []"
  shows "print_field names ps = ''*'' \<longleftrightarrow> ps = [(RAll, None)]"
proof
  assume eq: "print_field names ps = ''*''"
  have comma: "\<forall>w \<in> set (map (print_part names) ps). CHR '','' \<notin> set w"
    using assms(2) print_part_chars(2) [OF assms(1)] by (fastforce simp: list_all_iff part_char_def)
  have "split_on CHR '','' (print_field names ps) = map (print_part names) ps"
    unfolding print_field_def using assms(3) comma by (intro split_on_join) auto
  then obtain r n where ps: "ps = [(r, n)]" and star: "print_part names (r, n) = ''*''"
    unfolding eq by (auto simp: map_eq_Cons_conv)
  have ok: "part_ok mn mx names (r, n)" using assms(2) ps by simp
  have "n = None" using star print_range_chars(1) [OF assms(1) ok]
    by (cases n) (auto simp: append_eq_Cons_conv)
  moreover have "r = RAll"
  proof (cases r)
    case (ROne a)
    then have "atom_ok names a" using ok by (simp add: part_ok_def)
    then have "\<forall>c \<in> set (print_atom names a). plain_char c" using print_atom_plain [OF assms(1)] by blast
    moreover have "print_atom names a = ''*''" using star ROne \<open>n = None\<close> by simp
    ultimately show ?thesis by (simp add: plain_char_def)
  qed (use star \<open>n = None\<close> in \<open>auto simp: append_eq_Cons_conv\<close>)
  ultimately show "ps = [(RAll, None)]" using ps by simp
qed (simp add: print_field_def)

lemma parse_field_print:
  assumes "name_table names" "list_all (part_ok mn mx names) ps" "ps \<noteq> []"
  shows "parse_field source (print_field names ps) mn mx names =
    Inr \<lparr>f_values = field_meaning mn mx names ps, f_wildcard = (ps = [(RAll, None)])\<rparr>"
proof -
  have comma: "\<forall>w \<in> set (map (print_part names) ps). CHR '','' \<notin> set w"
    using assms(2) print_part_chars(2) [OF assms(1)] by (fastforce simp: list_all_iff part_char_def)
  have "split_on CHR '','' (print_field names ps) = map (print_part names) ps"
    unfolding print_field_def using assms(3) comma by (intro split_on_join) auto
  moreover have "field_meaning mn mx names ps \<noteq> {}"
    using assms(2,3) part_meaning_nonempty by (cases ps) (auto simp: field_meaning_def)
  ultimately show ?thesis
    by (simp add: parse_field_def parse_parts_print [OF assms(1,2)] print_field_star [OF assms])
qed

lemma parse_day_of_week_print:
  assumes "list_all (part_ok 0 7 DAYS) ps" "ps \<noteq> []"
  shows "parse_day_of_week source (print_field DAYS ps) =
    Inr \<lparr>f_values = (\<lambda>d. d mod 7) ` field_meaning 0 7 DAYS ps, f_wildcard = (ps = [(RAll, None)])\<rparr>"
proof -
  have "name_table DAYS" by (simp add: name_table_def)
  note parse_field_print [OF this assms, of source]
  moreover have "(d :: nat) mod 7 \<le> 6" for d
    using mod_less_divisor [of 7 d] by linarith
  ultimately show ?thesis by (auto simp: parse_day_of_week_def)
qed

definition field_text :: "string \<Rightarrow> bool" where
  "field_text w \<longleftrightarrow> w \<noteq> [] \<and> (\<forall>c \<in> set w. graphic c \<and> c \<noteq> CHR ''@'')"

lemma print_field_text:
  assumes "name_table names" "list_all (part_ok mn mx names) ps" "ps \<noteq> []"
  shows "field_text (print_field names ps)"
proof -
  have parts: "\<forall>w \<in> set (map (print_part names) ps). w \<noteq> [] \<and> (\<forall>c \<in> set w. part_char c)"
    using assms(2) print_part_chars [OF assms(1)] by (auto simp: list_all_iff)
  then have "print_field names ps \<noteq> []" using assms(3) unfolding print_field_def
    by (cases ps rule: remdups_adj.cases) auto
  moreover have "graphic (CHR '','') \<and> CHR '','' \<noteq> CHR ''@''" by (simp add: graphic_def)
  then have "\<forall>c \<in> set (print_field names ps). graphic c \<and> c \<noteq> CHR ''@''"
    unfolding print_field_def using parts by (intro join_chars) (auto simp: part_char_def)
  ultimately show ?thesis by (simp add: field_text_def)
qed

text \<open>The five fields of an expression, its text and its meaning at an instant.\<close>

record schedule_spec =
  sp_minutes :: "part list"
  sp_hours :: "part list"
  sp_days :: "part list"
  sp_months :: "part list"
  sp_weekdays :: "part list"

definition spec_ok :: "schedule_spec \<Rightarrow> bool" where
  "spec_ok sp \<longleftrightarrow>
     sp_minutes sp \<noteq> [] \<and> list_all (part_ok 0 59 []) (sp_minutes sp)
     \<and> sp_hours sp \<noteq> [] \<and> list_all (part_ok 0 23 []) (sp_hours sp)
     \<and> sp_days sp \<noteq> [] \<and> list_all (part_ok 1 31 []) (sp_days sp)
     \<and> sp_months sp \<noteq> [] \<and> list_all (part_ok 1 12 MONTHS) (sp_months sp)
     \<and> sp_weekdays sp \<noteq> [] \<and> list_all (part_ok 0 7 DAYS) (sp_weekdays sp)"

definition print_spec :: "schedule_spec \<Rightarrow> string" where
  "print_spec sp = join '' '' [print_field [] (sp_minutes sp), print_field [] (sp_hours sp),
     print_field [] (sp_days sp), print_field MONTHS (sp_months sp), print_field DAYS (sp_weekdays sp)]"

definition fires :: "'t datetime \<Rightarrow> schedule_spec \<Rightarrow> 't \<Rightarrow> bool" where
  "fires D sp at \<longleftrightarrow>
     dt_minute D at \<in> field_meaning 0 59 [] (sp_minutes sp)
     \<and> dt_hour D at \<in> field_meaning 0 23 [] (sp_hours sp)
     \<and> dt_month D at \<in> field_meaning 1 12 MONTHS (sp_months sp)
     \<and> (let day = dt_day D at \<in> field_meaning 1 31 [] (sp_days sp);
            weekday = (\<exists>d \<in> field_meaning 0 7 DAYS (sp_weekdays sp). dt_weekday D at = d mod 7);
            star = [(RAll, None)]
        in if sp_days sp = star \<or> sp_weekdays sp = star then day \<and> weekday else day \<or> weekday)"

lemma name_table_simps [simp]: "name_table []" "name_table MONTHS" "name_table DAYS"
  by (simp_all add: name_table_def)

lemma spec_text:
  assumes "spec_ok sp"
  shows "list_all field_text [print_field [] (sp_minutes sp), print_field [] (sp_hours sp),
     print_field [] (sp_days sp), print_field MONTHS (sp_months sp), print_field DAYS (sp_weekdays sp)]"
  using assms print_field_text [of "[]" 0 59] print_field_text [of "[]" 0 23]
    print_field_text [of "[]" 1 31] print_field_text [of MONTHS 1 12] print_field_text [of DAYS 0 7]
  by (simp add: spec_ok_def)

lemma parse_fields_print:
  assumes "spec_ok sp"
  shows "\<exists>e. parse_fields source (print_spec sp) = Inr e \<and> cron_source e = source
     \<and> (\<forall>at. cron_matches D e at = fires D sp at)"
proof -
  let ?fs = "[print_field [] (sp_minutes sp), print_field [] (sp_hours sp),
     print_field [] (sp_days sp), print_field MONTHS (sp_months sp), print_field DAYS (sp_weekdays sp)]"
  have "\<forall>w \<in> set ?fs. w \<noteq> [] \<and> (\<forall>c \<in> set w. graphic c)"
    using spec_text [OF assms] by (simp add: field_text_def)
  then have words: "split_whitespace (print_spec sp) = ?fs"
    unfolding print_spec_def by (intro split_whitespace_join) auto
  show ?thesis using assms
    by (auto simp: spec_ok_def parse_fields_def words Let_def parse_field_print
        parse_day_of_week_print cron_matches_def fires_def field_matches_def image_iff)
qed

lemma ascii_lower_at: "ascii_lower_char c = CHR ''@'' \<Longrightarrow> c = CHR ''@''"
proof (rule ccontr)
  assume a: "ascii_lower_char c = CHR ''@''" "c \<noteq> CHR ''@''"
  then have c: "65 \<le> (of_char c :: nat)" "(of_char c :: nat) \<le> 90"
    "char_of (of_char c + 32 :: nat) = CHR ''@''"
    by (auto simp: ascii_lower_char_def Let_def split: if_splits)
  have "(of_char (char_of (of_char c + 32 :: nat) :: char) :: nat) = of_char c + 32"
    using c(2) by (simp add: of_char_of)
  then show False unfolding c(3) using c(1) by simp
qed

lemma print_spec_trim:
  assumes "spec_ok sp"
  shows "trim (print_spec sp) = print_spec sp" "expand_shorthand (print_spec sp) = None"
proof -
  let ?m = "print_field [] (sp_minutes sp)" and ?d = "print_field DAYS (sp_weekdays sp)"
  have m: "?m \<noteq> []" "\<forall>c \<in> set ?m. graphic c \<and> c \<noteq> CHR ''@''"
    and d: "?d \<noteq> []" "\<forall>c \<in> set ?d. graphic c \<and> c \<noteq> CHR ''@''"
    using spec_text [OF assms] by (simp_all add: field_text_def)
  have hd: "hd (print_spec sp) = hd ?m" and last: "last (print_spec sp) = last ?d"
    using m(1) d(1) by (simp_all add: print_spec_def)
  show "trim (print_spec sp) = print_spec sp"
    using m d by (intro trim_id) (auto simp: hd last)
  have "hd (print_spec sp) \<noteq> CHR ''@''" "print_spec sp \<noteq> []"
    using m by (auto simp: hd print_spec_def)
  then have "hd (to_ascii_lowercase (print_spec sp)) \<noteq> CHR ''@''"
    by (auto simp: to_ascii_lowercase_def hd_map dest: ascii_lower_at)
  then show "expand_shorthand (print_spec sp) = None"
    by (auto simp: expand_shorthand_def Let_def)
qed

lemma cron_parse_print:
  assumes "spec_ok sp"
  shows "\<exists>e. cron_parse (print_spec sp) = Inr e \<and> cron_source e = print_spec sp
     \<and> (\<forall>at. cron_matches D e at = fires D sp at)"
  using parse_fields_print [OF assms, of "print_spec sp" D] print_spec_trim [OF assms]
  by (simp add: cron_parse_def Let_def)

section \<open>Properties\<close>


definition demo_spec :: schedule_spec where
  "demo_spec = \<lparr>sp_minutes = [(RAll, Some 15)], sp_hours = [(RSpan (Num 9) (Num 17), None)],
     sp_days = [(ROne (Num 1), None), (ROne (Num 15), None)], sp_months = [(ROne (Name 0), Some 3)],
     sp_weekdays = [(RSpan (Name 1) (Name 5), None)]\<rparr>"

definition demo_clock :: "nat datetime" where
  "demo_clock = \<lparr>dt_minute = (\<lambda>t. t mod 60), dt_hour = (\<lambda>t. t div 60 mod 24),
     dt_day = (\<lambda>t. t div 1440 mod 31 + 1), dt_month = (\<lambda>t. t div 44640 mod 12 + 1),
     dt_weekday = (\<lambda>t. t div 1440 mod 7), dt_whole_minute = Some, dt_plus_minute = Suc\<rparr>"


text \<open>The search visits the minutes after the start in order.\<close>

lemma search_next_iff:
  "search_next D e n c = Some r \<longleftrightarrow>
   (\<exists>k < n. r = (dt_plus_minute D ^^ k) c \<and> cron_matches D e r
      \<and> (\<forall>j < k. \<not> cron_matches D e ((dt_plus_minute D ^^ j) c)))"
proof (induction n arbitrary: c)
  case (Suc n)
  let ?s = "dt_plus_minute D"
  show ?case
  proof (cases "cron_matches D e c")
    case True
    then show ?thesis
      by (auto intro!: exI [of _ 0]) (metis funpow_0 neq0_conv)
  next
    case False
    have "(\<exists>k < Suc n. r = (?s ^^ k) c \<and> cron_matches D e r
        \<and> (\<forall>j < k. \<not> cron_matches D e ((?s ^^ j) c))) \<longleftrightarrow>
      (\<exists>k < n. r = (?s ^^ k) (?s c) \<and> cron_matches D e r
        \<and> (\<forall>j < k. \<not> cron_matches D e ((?s ^^ j) (?s c))))"
      using False by (auto simp: Ex_less_Suc2 All_less_Suc2 funpow_swap1)
    then show ?thesis using False Suc.IH by simp
  qed
qed simp

text \<open>
  \<^verbatim>\<open>next_after\<close> finds the first firing minute strictly after the starting one, and finds
  none exactly when nothing fires within four years of 366 days: the result is some number of
  minutes later, at least one, it matches, and no whole minute in between does.
\<close>

theorem next_after_first:
  "next_after D e at = Some r \<longleftrightarrow>
   (\<exists>base k. dt_whole_minute D at = Some base \<and> 1 \<le> k \<and> k \<le> 4 * 366 * 24 * 60
      \<and> r = (dt_plus_minute D ^^ k) base \<and> cron_matches D e r
      \<and> \<not> (\<exists>j. 1 \<le> j \<and> j < k \<and> cron_matches D e ((dt_plus_minute D ^^ j) base)))"
proof (cases "dt_whole_minute D at")
  case (Some base)
  let ?s = "dt_plus_minute D"
  have "(\<exists>k < SEARCH_MINUTES. r = (?s ^^ k) (?s base) \<and> cron_matches D e r
        \<and> (\<forall>j < k. \<not> cron_matches D e ((?s ^^ j) (?s base)))) \<longleftrightarrow>
      (\<exists>k. 1 \<le> k \<and> k \<le> SEARCH_MINUTES \<and> r = (?s ^^ k) base \<and> cron_matches D e r
        \<and> (\<forall>j. 1 \<le> j \<and> j < k \<longrightarrow> \<not> cron_matches D e ((?s ^^ j) base)))" (is "?L \<longleftrightarrow> ?R")
  proof
    assume ?L
    then obtain k where "k < SEARCH_MINUTES" "r = (?s ^^ Suc k) base" "cron_matches D e r"
      "\<forall>j < k. \<not> cron_matches D e ((?s ^^ Suc j) base)"
      by (auto simp: funpow_swap1)
    then show ?R by (intro exI [of _ "Suc k"]) (auto simp del: funpow.simps simp: gr0_conv_Suc Suc_le_eq)
  next
    assume ?R
    then obtain k where "Suc k \<le> SEARCH_MINUTES" "r = (?s ^^ Suc k) base" "cron_matches D e r"
      "\<forall>j. 1 \<le> j \<and> j < Suc k \<longrightarrow> \<not> cron_matches D e ((?s ^^ j) base)"
      by (auto simp del: funpow.simps simp: Suc_le_eq gr0_conv_Suc)
    then show ?L by (intro exI [of _ k]) (auto simp: funpow_swap1 dest: spec [of _ "Suc _"])
  qed
  then show ?thesis using Some search_next_iff [of D e SEARCH_MINUTES "?s base" r]
    by (simp add: next_after_def SEARCH_MINUTES_def) metis
qed (simp add: next_after_def)

end
