(* ===== verification/Cache_Lock.thy ===== *)
theory Cache_Lock
  imports Prefixed_Cache
begin

text \<open>
  The named locks of \<^verbatim>\<open>rainier-cache/src/lock.rs\<close> over any cache. A lock is a lease: acquiring is
  one atomic \<^verbatim>\<open>add\<close> of a fresh owner token with a TTL, releasing is \<^verbatim>\<open>forget_if\<close> of that token.

  The loop of \<^verbatim>\<open>acquire\<close> runs against a world that supplies, for the attempt number \<open>i\<close>, the
  random numbers the token is minted from, the clock readings, and what the other users of
  the store do while this caller sleeps. It carries fuel; \<open>acquire_returns\<close> shows how much
  is enough once sleeping takes at least the polling interval.
\<close>

definition POLL_INTERVAL :: duration where "POLL_INTERVAL = 100 * 1000000"

record 's lock_manager =
  lm_cache :: "'s cache"
  lm_prefix :: string
  lm_declared_shared :: bool

definition lock_manager_new :: "'s cache \<Rightarrow> 's lock_manager" where
  "lock_manager_new c = \<lparr>lm_cache = c, lm_prefix = ''lock:'', lm_declared_shared = False\<rparr>"

definition lm_with_prefix :: "string \<Rightarrow> 's lock_manager \<Rightarrow> 's lock_manager" where
  "lm_with_prefix p lm = lm\<lparr>lm_prefix := p\<rparr>"

definition lm_declare_shared :: "'s lock_manager \<Rightarrow> 's lock_manager" where
  "lm_declare_shared lm = lm\<lparr>lm_declared_shared := True\<rparr>"

definition lm_is_shared :: "'s lock_manager \<Rightarrow> bool" where
  "lm_is_shared lm \<longleftrightarrow>
     lm_declared_shared lm \<or> (c_is_shared (lm_cache lm) \<and> c_supports_atomic_add (lm_cache lm))"

record 's lock =
  l_cache :: "'s cache"
  l_key :: string
  l_ttl :: duration
  l_wait :: "duration option"

definition lm_lock :: "'s lock_manager \<Rightarrow> string \<Rightarrow> duration \<Rightarrow> 's lock" where
  "lm_lock lm name ttl =
     \<lparr>l_cache = lm_cache lm, l_key = lm_prefix lm @ name, l_ttl = ttl, l_wait = None\<rparr>"

definition wait_for :: "duration \<Rightarrow> 's lock \<Rightarrow> 's lock" where
  "wait_for w l = l\<lparr>l_wait := Some w\<rparr>"

record 's lock_guard =
  g_cache :: "'s cache"
  g_key :: string
  g_owner :: string
  g_released :: bool

section \<open>Owner tokens\<close>

fun nat_hex :: "nat \<Rightarrow> string" where
  "nat_hex n = (if n < 16 then [hex_digit n] else nat_hex (n div 16) @ [hex_digit (n mod 16)])"

declare nat_hex.simps [simp del]

text \<open>\<^verbatim>\<open>{:016x}\<close>: lower-case hexadecimal, padded on the left with zeros to sixteen digits.\<close>

definition hex016 :: "nat \<Rightarrow> string" where
  "hex016 n = replicate (16 - length (nat_hex n)) (CHR ''0'') @ nat_hex n"

text \<open>\<open>h\<close> is what the randomly seeded hasher gives, \<open>pid\<close> the process id.\<close>

definition mint_owner :: "nat \<Rightarrow> nat \<Rightarrow> string" where
  "mint_owner h pid = hex016 h @ hex016 pid"

section \<open>Acquiring\<close>

record 's world =
  w_start :: time
  w_hash :: "nat \<Rightarrow> nat"
  w_pid :: nat
  w_check :: "nat \<Rightarrow> time"
  w_write :: "nat \<Rightarrow> time"
  w_now :: "nat \<Rightarrow> time"
  w_env :: "nat \<Rightarrow> 's \<Rightarrow> 's"

fun acquire_from ::
  "nat \<Rightarrow> nat \<Rightarrow> 's lock \<Rightarrow> time option \<Rightarrow> 's world \<Rightarrow> 's \<Rightarrow> ('s \<times> 's lock_guard option result) option"
where
  "acquire_from 0 i l deadline w s = None"
| "acquire_from (Suc fuel) i l deadline w s =
     (let owner = mint_owner (w_hash w i) (w_pid w) in
      case c_add (l_cache l) (w_check w i) (w_write w i) (l_key l) owner (Some (l_ttl l)) s of
        (s', Inl e) \<Rightarrow> Some (s', Inl e)
      | (s', Inr True) \<Rightarrow>
          Some (s', Inr (Some \<lparr>g_cache = l_cache l, g_key = l_key l, g_owner = owner,
                                g_released = False\<rparr>))
      | (s', Inr False) \<Rightarrow>
          (case deadline of
             Some d \<Rightarrow>
               if w_now w i + int POLL_INTERVAL < d
               then acquire_from fuel (Suc i) l deadline w (w_env w i s')
               else Some (s', Inr None)
           | None \<Rightarrow> Some (s', Inr None)))"

definition acquire :: "nat \<Rightarrow> 's lock \<Rightarrow> 's world \<Rightarrow> 's \<Rightarrow> ('s \<times> 's lock_guard option result) option" where
  "acquire fuel l w s =
     acquire_from fuel 0 l (map_option (\<lambda>wt. w_start w + int wt) (l_wait l)) w s"

section \<open>Guards\<close>

definition release :: "'s lock_guard \<Rightarrow> time \<Rightarrow> 's \<Rightarrow> 's \<times> bool result" where
  "release g t s = c_forget_if (g_cache g) t (g_key g) (g_owner g) s"

text \<open>\<^verbatim>\<open>extend\<close> reads and then writes; \<open>env\<close> is what others do in between.\<close>

definition extend ::
  "'s lock_guard \<Rightarrow> duration \<Rightarrow> time \<Rightarrow> time \<Rightarrow> ('s \<Rightarrow> 's) \<Rightarrow> 's \<Rightarrow> 's \<times> bool result"
where
  "extend g ttl t0 t1 env s =
     (case c_get (g_cache g) t0 (g_key g) s of
        (s', Inl e) \<Rightarrow> (s', Inl e)
      | (s', Inr v) \<Rightarrow>
          if v = Some (g_owner g)
          then (case c_put (g_cache g) t1 (g_key g) (g_owner g) (Some ttl) (env s') of
                  (s'', Inl e) \<Rightarrow> (s'', Inl e) | (s'', Inr _) \<Rightarrow> (s'', Inr True))
          else (s', Inr False))"

definition keep :: "'s lock_guard \<Rightarrow> 's lock_guard" where
  "keep g = g\<lparr>g_released := True\<rparr>"

definition is_still_held :: "'s lock_guard \<Rightarrow> time \<Rightarrow> 's \<Rightarrow> 's \<times> bool result" where
  "is_still_held g t s =
     (case c_get (g_cache g) t (g_key g) s of
        (s', Inl e) \<Rightarrow> (s', Inl e) | (s', Inr v) \<Rightarrow> (s', Inr (v = Some (g_owner g))))"

definition force_release :: "'s lock \<Rightarrow> 's \<Rightarrow> 's \<times> bool result" where
  "force_release l s = c_forget (l_cache l) (l_key l) s"

definition is_held :: "'s lock \<Rightarrow> time \<Rightarrow> 's \<Rightarrow> 's \<times> bool result" where
  "is_held l t s = c_has (l_cache l) t (l_key l) s"

definition contended :: "string \<Rightarrow> error" where
  "contended name = err_internal (''`'' @ name @ ''` is already running elsewhere'')"

text \<open>\<^verbatim>\<open>run\<close>: the work changes the store and has an outcome; it runs only under the lock.\<close>

definition run ::
  "nat \<Rightarrow> 's lock \<Rightarrow> 's world \<Rightarrow> ('s \<Rightarrow> 's \<times> 'a result) \<Rightarrow> time \<Rightarrow> 's \<Rightarrow> ('s \<times> 'a option result) option"
where
  "run fuel l w work t s =
     (case acquire fuel l w s of
        None \<Rightarrow> None
      | Some (s1, Inl e) \<Rightarrow> Some (s1, Inl e)
      | Some (s1, Inr None) \<Rightarrow> Some (s1, Inr None)
      | Some (s1, Inr (Some g)) \<Rightarrow>
          (let (s2, outcome) = work s1 in
           case release g t s2 of
             (s3, Inl e) \<Rightarrow> Some (s3, Inl e)
           | (s3, Inr _) \<Rightarrow> Some (s3, map_sum id Some outcome)))"

section \<open>The loop ends\<close>

lemma acquire_from_returns:
  assumes "\<And>j. w_now w j + int POLL_INTERVAL \<le> w_now w (Suc j)"
    and "w_start w + int i * int POLL_INTERVAL \<le> w_now w i"
    and "deadline = None \<or> (\<exists>wt. deadline = Some (w_start w + int wt) \<and>
           wt div POLL_INTERVAL < fuel + i)" and "0 < fuel"
  shows "acquire_from fuel i l deadline w s \<noteq> None"
  using assms(2-)
proof (induction fuel arbitrary: i s)
  case (Suc fuel)
  have step: "acquire_from fuel (Suc i) l deadline w s' \<noteq> None"
    if dl: "deadline = Some d" and lt: "w_now w i + int POLL_INTERVAL < d" for s' d
  proof (rule Suc.IH)
    obtain wt where wt: "d = w_start w + int wt" "wt div POLL_INTERVAL < Suc fuel + i"
      using Suc.prems(2) dl by auto
    have "int (Suc i) * int POLL_INTERVAL < int wt"
      using lt wt(1) Suc.prems(1) by (simp add: algebra_simps)
    then have "Suc i * POLL_INTERVAL < wt"
      by (metis of_nat_less_iff of_nat_mult)
    then have "Suc i \<le> wt div POLL_INTERVAL"
      by (simp add: less_eq_div_iff_mult_less_eq POLL_INTERVAL_def)
    then show "0 < fuel" using wt(2) by simp
    show "deadline = None \<or> (\<exists>wt. deadline = Some (w_start w + int wt) \<and>
           wt div POLL_INTERVAL < fuel + Suc i)"
      using dl wt by auto
    show "w_start w + int (Suc i) * int POLL_INTERVAL \<le> w_now w (Suc i)"
      using Suc.prems(1) assms(1) [of i] by (simp add: algebra_simps)
  qed
  then show ?case
    by (auto simp: Let_def split: prod.splits sum.splits bool.splits option.splits)
qed simp

text \<open>
  Waiting for a lock always ends: when every sleep lasts at least the polling
  interval, \<^verbatim>\<open>acquire\<close> has answered after at most \<^verbatim>\<open>wait / 100ms + 1\<close> attempts, whatever the
  other users of the store do in the meantime (and after one attempt when it does not wait).
\<close>

theorem acquire_returns:
  assumes "\<And>j. w_now w j + int POLL_INTERVAL \<le> w_now w (Suc j)"
    and "w_start w \<le> w_now w 0"
    and "fuel = (case l_wait l of None \<Rightarrow> 1 | Some wt \<Rightarrow> wt div POLL_INTERVAL + 1)"
  shows "\<exists>s' r. acquire fuel l w s = Some (s', r)"
proof -
  have "acquire_from fuel 0 l (map_option (\<lambda>wt. w_start w + int wt) (l_wait l)) w s \<noteq> None"
    using assms by (intro acquire_from_returns) (auto split: option.splits)
  then show ?thesis by (auto simp: acquire_def)
qed

definition steady_world :: "'s world" where
  "steady_world = \<lparr>w_start = 0, w_hash = (\<lambda>i. i), w_pid = 7, w_check = (\<lambda>i. int i * 100000000),
     w_write = (\<lambda>i. int i * 100000000), w_now = (\<lambda>i. int i * 100000000), w_env = (\<lambda>_ s. s)\<rparr>"

theorem acquire_returns_witness:
  "\<exists>s' r. acquire 4 (wait_for 350000000 (lm_lock (lock_manager_new (memory_cache (\<lambda>d. Some (int d))))
              ''nightly'' 60)) steady_world [] = Some (s', r)"
  using acquire_returns [of steady_world 4
      "wait_for 350000000 (lm_lock (lock_manager_new (memory_cache (\<lambda>d. Some (int d)))) ''nightly'' 60)" "[]"]
  by (simp add: steady_world_def wait_for_def lm_lock_def POLL_INTERVAL_def algebra_simps)

section \<open>The lease\<close>

text \<open>
  What the other holders of locks do to the store, at instants that never go back: trying to
  acquire any key, releasing, extending and querying guards, always under tokens other than
  \<open>me\<close>. An \<^verbatim>\<open>extend\<close> here is not interrupted between its read and its write.
\<close>

inductive other_step :: "'s cache \<Rightarrow> string \<Rightarrow> time \<times> 's \<Rightarrow> time \<times> 's \<Rightarrow> bool" for c me where
  other_add: "\<lbrakk>now \<le> t0; t0 \<le> t1; owner \<noteq> me\<rbrakk> \<Longrightarrow>
     other_step c me (now, s) (t1, fst (c_add c t0 t1 k owner (Some ttl) s))"
| other_release: "\<lbrakk>now \<le> t; g_cache g = c; g_owner g \<noteq> me\<rbrakk> \<Longrightarrow>
     other_step c me (now, s) (t, fst (release g t s))"
| other_extend: "\<lbrakk>now \<le> t0; t0 \<le> t1; g_cache g = c; g_owner g \<noteq> me\<rbrakk> \<Longrightarrow>
     other_step c me (now, s) (t1, fst (extend g ttl t0 t1 id s))"
| other_still_held: "\<lbrakk>now \<le> t; g_cache g = c\<rbrakk> \<Longrightarrow>
     other_step c me (now, s) (t, fst (is_still_held g t s))"
| other_is_held: "\<lbrakk>now \<le> t; l_cache l = c\<rbrakk> \<Longrightarrow>
     other_step c me (now, s) (t, fst (is_held l t s))"

inductive other_steps :: "'s cache \<Rightarrow> string \<Rightarrow> time \<times> 's \<Rightarrow> time \<times> 's \<Rightarrow> bool" for c me where
  steps_refl: "other_steps c me x x"
| steps_step: "other_steps c me x y \<Longrightarrow> other_step c me y z \<Longrightarrow> other_steps c me x z"

inductive_cases other_stepE: "other_step c me x y"

lemma other_step_time: "other_step c me x y \<Longrightarrow> fst x \<le> fst y"
  by (erule other_stepE) auto

lemma other_steps_time: "other_steps c me x y \<Longrightarrow> fst x \<le> fst y"
  by (induction rule: other_steps.induct) (auto dest: other_step_time)

context cache_port
begin

lemma extendE:
  assumes "inv s" "g_cache g = c"
  obtains s1 where "extend g ttl t0 t1 id s = (s1, Inr (vis s (g_key g) t0 = Some (g_owner g)))"
    "inv s1"
    "\<And>k t'. t0 \<le> t' \<Longrightarrow> vis s1 k t' =
     (if k = g_key g \<and> vis s k t0 = Some (g_owner g)
      then if live_at (exp t1 (Some ttl)) t' then Some (g_owner g) else None else vis s k t')"
proof (rule getE [OF assms(1), of t0 "g_key g"])
  fix s1
  assume get: "c_get c t0 (g_key g) s = (s1, Inr (vis s (g_key g) t0))" "inv s1"
    "\<And>k' t'. t0 \<le> t' \<Longrightarrow> vis s1 k' t' = vis s k' t'"
  show thesis
  proof (rule putE [OF get(2), of t1 "g_key g" "g_owner g" "Some ttl"])
    fix s2
    assume "c_put c t1 (g_key g) (g_owner g) (Some ttl) s1 = (s2, Inr ())" "inv s2"
      "\<And>k' t'. vis s2 k' t' = (if k' = g_key g then if live_at (exp t1 (Some ttl)) t'
          then Some (g_owner g) else None else vis s1 k' t')"
    with get assms(2) show thesis
      by (intro that [of "if vis s (g_key g) t0 = Some (g_owner g) then s2 else s1"])
        (auto simp: extend_def)
  qed
qed

lemma still_heldE:
  assumes "inv s" "g_cache g = c"
  obtains s1 where
    "is_still_held g t s = (s1, Inr (vis s (g_key g) t = Some (g_owner g)))" "inv s1"
    "\<And>k' t'. t \<le> t' \<Longrightarrow> vis s1 k' t' = vis s k' t'"
  by (rule getE [OF assms(1), of t "g_key g"]) (auto simp: is_still_held_def assms(2) intro: that)

lemma extend_inv: "inv s \<Longrightarrow> g_cache g = c \<Longrightarrow> inv (fst (extend g ttl t0 t1 id s))"
  by (rule extendE [of s g ttl t0 t1]) simp_all

lemma extend_vis:
  "inv s \<Longrightarrow> g_cache g = c \<Longrightarrow> t0 \<le> t' \<Longrightarrow> vis (fst (extend g ttl t0 t1 id s)) k t' =
     (if k = g_key g \<and> vis s k t0 = Some (g_owner g)
      then if live_at (exp t1 (Some ttl)) t' then Some (g_owner g) else None else vis s k t')"
  by (rule extendE [of s g ttl t0 t1]) simp_all

lemma still_held_inv: "inv s \<Longrightarrow> g_cache g = c \<Longrightarrow> inv (fst (is_still_held g t s))"
  by (rule still_heldE [of s g t]) simp_all

lemma still_held_result:
  "inv s \<Longrightarrow> g_cache g = c \<Longrightarrow>
   snd (is_still_held g t s) = Inr (vis s (g_key g) t = Some (g_owner g))"
  by (rule still_heldE [of s g t]) simp_all

lemma still_held_vis:
  "inv s \<Longrightarrow> g_cache g = c \<Longrightarrow> t \<le> t' \<Longrightarrow> vis (fst (is_still_held g t s)) k' t' = vis s k' t'"
  by (rule still_heldE [of s g t]) simp_all

lemma release_vis:
  "inv s \<Longrightarrow> g_cache g = c \<Longrightarrow> vis (fst (release g t s)) k t' =
     (if k = g_key g \<and> vis s k t = Some (g_owner g) then None else vis s k t')"
  by (auto simp: release_def forget_if_vis)

lemma release_result:
  "inv s \<Longrightarrow> g_cache g = c \<Longrightarrow>
   release g t s = (fst (release g t s), Inr (vis s (g_key g) t = Some (g_owner g)))"
  by (simp add: release_def forget_if_result prod_eq_iff)

lemma is_held_vis:
  "inv s \<Longrightarrow> l_cache l = c \<Longrightarrow> t \<le> t' \<Longrightarrow> vis (fst (is_held l t s)) k t' = vis s k t'"
  by (simp add: is_held_def has_vis)

lemma other_step_inv: "other_step c me x y \<Longrightarrow> inv (snd x) \<Longrightarrow> inv (snd y)"
  by (erule other_stepE) (auto simp: release_def is_held_def extend_inv still_held_inv)

text \<open>The holder's token stays visible until its expiry, whatever single step another takes.\<close>

definition leased :: "'s \<Rightarrow> string \<Rightarrow> string \<Rightarrow> time \<Rightarrow> time \<Rightarrow> bool" where
  "leased s k me t e \<longleftrightarrow> (\<forall>t'. t \<le> t' \<longrightarrow> t' < e \<longrightarrow> vis s k t' = Some me)"

lemma leasedD: "leased s k me t e \<Longrightarrow> t \<le> t' \<Longrightarrow> t' < e \<Longrightarrow> vis s k t' = Some me"
  by (simp add: leased_def)

lemma other_step_leased:
  assumes "other_step c me x y" "inv (snd x)" "leased (snd x) k me (fst x) e" "fst y < e"
  shows "leased (snd y) k me (fst y) e"
  using assms
  by (auto elim!: other_stepE simp: leased_def release_vis is_held_vis add_vis extend_vis
      still_held_vis)

lemma other_steps_leased:
  assumes "other_steps c me x y" "inv (snd x)" "leased (snd x) k me (fst x) e" "fst y < e"
  shows "inv (snd y) \<and> leased (snd y) k me (fst y) e"
  using assms
proof (induction rule: other_steps.induct)
  case (steps_step x y z)
  then have "fst y < e" using other_step_time by fastforce
  with steps_step show ?case using other_step_inv other_step_leased by blast
qed simp

text \<open>While the token is visible, an attempt to acquire is turned down and changes nothing.\<close>

lemma acquire_refused:
  assumes "inv s" "l_cache l = c" "vis s (l_key l) (w_check w 0) = Some me" "l_wait l = None"
  shows "\<exists>s'. acquire (Suc fuel) l w s = Some (s', Inr None)"
proof -
  obtain s1 where
    "c_add c (w_check w 0) (w_write w 0) (l_key l) (mint_owner (w_hash w 0) (w_pid w))
       (Some (l_ttl l)) s = (s1, Inr (vis s (l_key l) (w_check w 0) = None))"
    by (rule addE [OF assms(1)])
  then show ?thesis using assms by (simp add: acquire_def Let_def)
qed

end

section \<open>Properties of locks over the in-process cache\<close>

lemma acquire_once_eq:
  assumes "hm_wf m" "l_cache l = memory_cache from_std" "l_wait l = None"
  shows "acquire (Suc fuel) l w m =
    (let owner = mint_owner (w_hash w 0) (w_pid w);
         m' = fst (mem_add from_std (w_check w 0) (w_write w 0) (l_key l) owner (Some (l_ttl l)) m)
     in Some (m', Inr (if mem_vis m (l_key l) (w_check w 0) = None
          then Some \<lparr>g_cache = l_cache l, g_key = l_key l, g_owner = owner, g_released = False\<rparr>
          else None)))"
proof -
  let ?o = "mint_owner (w_hash w 0) (w_pid w)"
  have "c_add (l_cache l) (w_check w 0) (w_write w 0) (l_key l) ?o (Some (l_ttl l)) m =
     (fst (mem_add from_std (w_check w 0) (w_write w 0) (l_key l) ?o (Some (l_ttl l)) m),
      Inr (mem_vis m (l_key l) (w_check w 0) = None))"
    using mem.add_result [OF assms(1), of from_std "w_check w 0" "w_write w 0" "l_key l" ?o "Some (l_ttl l)"]
    by (simp add: assms(2) memory_cache_def prod_eq_iff)
  then show ?thesis
    using assms(3)
    by (cases "mem_vis m (l_key l) (w_check w 0) = None") (simp_all add: acquire_def Let_def)
qed


abbreviation test_cache :: "memory cache" where
  "test_cache \<equiv> memory_cache (\<lambda>d. Some (int d))"


text \<open>
  Running work under a lock. When somebody holds the lock the work does not run and
  nothing visible changes; otherwise its outcome, success or error, is what is returned, and
  afterwards the lock is free if the token was still this caller's. If the lease ran out and
  another holder took over, that holder's token (and everything else the work left) stays.
\<close>

theorem run_releases:
  assumes wf: "hm_wf m" and lc: "l_cache l = memory_cache from_std" "l_wait l = None"
    and le: "w_check w 0 \<le> w_write w 0"
    and work: "\<And>s. hm_wf s \<Longrightarrow> hm_wf (fst (work s))"
  shows
    "(mem_vis m (l_key l) (w_check w 0) \<noteq> None \<longrightarrow>
        (\<exists>m'. run 1 l w work t m = Some (m', Inr None)
          \<and> (\<forall>k t'. w_check w 0 \<le> t' \<longrightarrow> mem_vis m' k t' = mem_vis m k t')))
     \<and> (mem_vis m (l_key l) (w_check w 0) = None \<longrightarrow>
        (\<exists>m1 m3 owner. run 1 l w work t m = Some (m3, map_sum id Some (snd (work m1)))
          \<and> mem_vis m1 (l_key l) (w_write w 0) =
              (if live_at (expiry from_std (w_write w 0) (Some (l_ttl l))) (w_write w 0)
               then Some owner else None)
          \<and> (\<forall>k t'. mem_vis m3 k t' =
               (if k = l_key l \<and> mem_vis (fst (work m1)) k t = Some owner then None
                else mem_vis (fst (work m1)) k t'))))"
proof -
  let ?o = "mint_owner (w_hash w 0) (w_pid w)"
  let ?m1 = "fst (mem_add from_std (w_check w 0) (w_write w 0) (l_key l) ?o (Some (l_ttl l)) m)"
  let ?g = "\<lparr>g_cache = l_cache l, g_key = l_key l, g_owner = ?o, g_released = False\<rparr>"
  have acq: "acquire (Suc 0) l w m = Some (?m1, Inr (if mem_vis m (l_key l) (w_check w 0) = None
      then Some ?g else None))"
    using acquire_once_eq [OF wf lc, of 0 w] by (simp add: Let_def)
  have add: "?m1 = fst (c_add (memory_cache from_std) (w_check w 0) (w_write w 0) (l_key l) ?o
      (Some (l_ttl l)) m)"
    by (simp add: memory_cache_def)
  note vis1 = mem.add_vis [OF wf le, of _ from_std "l_key l" ?o "Some (l_ttl l)", folded add]
  have wf2: "hm_wf (fst (work ?m1))"
    by (rule work) (simp add: add mem.inv_add wf)
  have g: "g_cache ?g = memory_cache from_std" by (simp add: lc)
  note rel = mem.release_result [OF wf2 g] and rel_vis = mem.release_vis [OF wf2 g]
  have "\<exists>m'. run 1 l w work t m = Some (m', Inr None)
          \<and> (\<forall>k t'. w_check w 0 \<le> t' \<longrightarrow> mem_vis m' k t' = mem_vis m k t')"
    if "mem_vis m (l_key l) (w_check w 0) \<noteq> None"
    using that by (auto simp: run_def acq vis1)
  moreover have "\<exists>m1 m3 owner. run 1 l w work t m = Some (m3, map_sum id Some (snd (work m1)))
          \<and> mem_vis m1 (l_key l) (w_write w 0) =
              (if live_at (expiry from_std (w_write w 0) (Some (l_ttl l))) (w_write w 0)
               then Some owner else None)
          \<and> (\<forall>k t'. mem_vis m3 k t' =
               (if k = l_key l \<and> mem_vis (fst (work m1)) k t = Some owner then None
                else mem_vis (fst (work m1)) k t'))"
    if free: "mem_vis m (l_key l) (w_check w 0) = None"
  proof -
    obtain m3 b where r: "release ?g t (fst (work ?m1)) = (m3, Inr b)"
      using rel [of t] by blast
    show ?thesis
    proof (intro exI conjI)
      show "run 1 l w work t m = Some (m3, map_sum id Some (snd (work ?m1)))"
        by (simp add: run_def acq free r split_beta)
      show "mem_vis ?m1 (l_key l) (w_write w 0) =
         (if live_at (expiry from_std (w_write w 0) (Some (l_ttl l))) (w_write w 0)
          then Some ?o else None)"
        using le by (simp add: vis1 free)
      show "\<forall>k t'. mem_vis m3 k t' =
         (if k = l_key l \<and> mem_vis (fst (work ?m1)) k t = Some ?o then None
          else mem_vis (fst (work ?m1)) k t')"
        using rel_vis [of t] by (simp add: r)
    qed
  qed
  ultimately show ?thesis by blast
qed

theorem run_releases_witness:
  "let l = lm_lock (lock_manager_new test_cache) ''import'' 60 in
   \<exists>m3. run 1 l steady_world (\<lambda>s. (s, Inl (contended ''x'') :: nat result)) 5 [] = Some (m3, Inl (contended ''x''))"
proof -
  let ?l = "lm_lock (lock_manager_new test_cache) ''import'' 60"
  have "mem_vis [] (l_key ?l) (w_check (steady_world :: memory world) 0) = None"
    by (simp add: mem_vis_def)
  then show ?thesis
    using run_releases [of "[]" ?l "\<lambda>d. Some (int d)" steady_world
        "\<lambda>s. (s, Inl (contended ''x'') :: nat result)" 5]
    by (auto simp: lm_lock_def lock_manager_new_def steady_world_def Let_def)
qed

text \<open>
  Wrapping a store in a prefix hides that it cannot compare and set. For a shared
  store that reports no atomic \<^verbatim>\<open>add\<close> (Workers KV), a lock manager on the store itself says its
  locks are not trustworthy, and a lock manager on the prefixed store says they are.
\<close>

theorem prefix_hides_missing_atomic_add:
  assumes "c_is_shared c" and "\<not> c_supports_atomic_add c"
  shows "\<not> lm_is_shared (lock_manager_new c)
    \<and> lm_is_shared (lock_manager_new (prefixed_ops (prefixed_new c p)))"
  using assms
  by (simp add: lm_is_shared_def lock_manager_new_def prefixed_ops_def prefixed_new_def Let_def
      default_supports_atomic_add_def)

theorem prefix_hides_missing_atomic_add_witness:
  "let kv = test_cache\<lparr>c_name := ''kv'', c_is_shared := True, c_supports_atomic_add := False\<rparr> in
   \<not> lm_is_shared (lock_manager_new kv)
   \<and> lm_is_shared (lock_manager_new (prefixed_ops (prefixed_new kv ''app'')))"
  using prefix_hides_missing_atomic_add
    [of "test_cache\<lparr>c_name := ''kv'', c_is_shared := True, c_supports_atomic_add := False\<rparr>" "''app''"]
  by (simp add: Let_def)

end
