(* ===== verification/Schedule.thy ===== *)
theory Schedule
  imports Cron Cache_Lock "HOL-Library.Char_ord" "HOL-Library.List_Lexorder"
begin

text \<open>
  The scheduler, \<^verbatim>\<open>rainier-scheduler/src/task.rs\<close> and \<^verbatim>\<open>schedule.rs\<close>: scheduled tasks with their
  builders, running one task under its condition and its two locks, and one pass over the due
  tasks. The state is the store of the cache the lock manager works on; a task's work is a
  function on it with a result. \<^verbatim>\<open>chrono\<close> is the record of \<^theory_text>\<open>Cron\<close>, extended by the
  conversions used here. Log lines and telemetry spans are left out.
\<close>

section \<open>Scheduled tasks\<close>

record 't zoned = "'t datetime" +
  dt_with_offset :: "int \<Rightarrow> 't \<Rightarrow> 't"
  dt_to_utc :: "'t \<Rightarrow> 't"
  dt_stamp :: "'t \<Rightarrow> string"

datatype skipped = StillRunning | AnotherServer | ConditionFalse

datatype outcome = Ran | Failed error | Skipped skipped

fun skipped_label :: "skipped \<Rightarrow> string" where
  "skipped_label StillRunning = ''still_running''"
| "skipped_label AnotherServer = ''another_server''"
| "skipped_label ConditionFalse = ''condition_false''"

fun skipped_display :: "skipped \<Rightarrow> string" where
  "skipped_display StillRunning = ''a previous run is still going''"
| "skipped_display AnotherServer = ''another server is running it''"
| "skipped_display ConditionFalse = ''its condition was false''"

definition did_run :: "outcome \<Rightarrow> bool" where
  "did_run out = (case out of Ran \<Rightarrow> True | Failed _ \<Rightarrow> True | Skipped _ \<Rightarrow> False)"

record 's task =
  task_name :: string
  task_work :: "'s \<Rightarrow> 's \<times> unit result"

record 's scheduled_task =
  st_task :: "'s task"
  st_expression :: cron
  st_timezone :: "int option"
  st_overlap :: "duration option"
  st_one_server :: bool
  st_condition :: "('s \<Rightarrow> bool) option"
  st_description :: "string option"
  st_error :: "string option"

text \<open>\<^verbatim>\<open>* * * * *\<close> parses (lemma \<open>every_minute_parses\<close>), so the \<^verbatim>\<open>expect\<close> never fails.\<close>

definition scheduled_task_new :: "'s task \<Rightarrow> 's scheduled_task" where
  "scheduled_task_new t =
     \<lparr>st_task = t, st_expression = projr (cron_parse ''* * * * *''), st_timezone = None,
      st_overlap = None, st_one_server = False, st_condition = None, st_description = None,
      st_error = None\<rparr>"

definition st_with :: "string \<Rightarrow> 's scheduled_task \<Rightarrow> 's scheduled_task" where
  "st_with expression st =
     (case cron_parse expression of
        Inr parsed \<Rightarrow> st\<lparr>st_expression := parsed, st_error := None\<rparr>
      | Inl e \<Rightarrow> st\<lparr>st_error := Some (message e)\<rparr>)"

definition parse_time :: "string \<Rightarrow> nat \<times> nat" where
  "parse_time time =
     (let (h, m) = (case split_once CHR '':'' time of
            Some (h, m) \<Rightarrow> (Some h, Some m) | None \<Rightarrow> (Some time, None));
          num = (\<lambda>p. case p of None \<Rightarrow> 0
                 | Some t \<Rightarrow> (case parse_uint u32_max (trim t) of Some n \<Rightarrow> n | None \<Rightarrow> 0))
      in (min (num h) 23, min (num m) 59))"

definition st_cron :: "string \<Rightarrow> 's scheduled_task \<Rightarrow> 's scheduled_task" where
  "st_cron = st_with"
definition every_minute :: "'s scheduled_task \<Rightarrow> 's scheduled_task" where
  "every_minute = st_with ''* * * * *''"
definition every_minutes :: "nat \<Rightarrow> 's scheduled_task \<Rightarrow> 's scheduled_task" where
  "every_minutes n = st_with (''*/'' @ nat_dec n @ '' * * * *'')"
definition every_five_minutes :: "'s scheduled_task \<Rightarrow> 's scheduled_task" where
  "every_five_minutes = every_minutes 5"
definition every_fifteen_minutes :: "'s scheduled_task \<Rightarrow> 's scheduled_task" where
  "every_fifteen_minutes = every_minutes 15"
definition every_thirty_minutes :: "'s scheduled_task \<Rightarrow> 's scheduled_task" where
  "every_thirty_minutes = every_minutes 30"
definition hourly :: "'s scheduled_task \<Rightarrow> 's scheduled_task" where
  "hourly = st_with ''0 * * * *''"
definition hourly_at :: "nat \<Rightarrow> 's scheduled_task \<Rightarrow> 's scheduled_task" where
  "hourly_at minute = st_with (nat_dec minute @ '' * * * *'')"
definition daily :: "'s scheduled_task \<Rightarrow> 's scheduled_task" where
  "daily = st_with ''0 0 * * *''"
definition daily_at :: "string \<Rightarrow> 's scheduled_task \<Rightarrow> 's scheduled_task" where
  "daily_at time st = (let (hour, minute) = parse_time time
     in st_with (nat_dec minute @ '' '' @ nat_dec hour @ '' * * *'') st)"
definition twice_daily :: "nat \<Rightarrow> nat \<Rightarrow> 's scheduled_task \<Rightarrow> 's scheduled_task" where
  "twice_daily a b = st_with (''0 '' @ nat_dec a @ '','' @ nat_dec b @ '' * * *'')"
definition weekly :: "'s scheduled_task \<Rightarrow> 's scheduled_task" where
  "weekly = st_with ''0 0 * * 0''"
definition weekly_on :: "nat \<Rightarrow> string \<Rightarrow> 's scheduled_task \<Rightarrow> 's scheduled_task" where
  "weekly_on day time st = (let (hour, minute) = parse_time time
     in st_with (nat_dec minute @ '' '' @ nat_dec hour @ '' * * '' @ nat_dec day) st)"
definition monthly :: "'s scheduled_task \<Rightarrow> 's scheduled_task" where
  "monthly = st_with ''0 0 1 * *''"
definition monthly_on :: "nat \<Rightarrow> string \<Rightarrow> 's scheduled_task \<Rightarrow> 's scheduled_task" where
  "monthly_on day time st = (let (hour, minute) = parse_time time
     in st_with (nat_dec minute @ '' '' @ nat_dec hour @ '' '' @ nat_dec day @ '' * *'') st)"
definition yearly :: "'s scheduled_task \<Rightarrow> 's scheduled_task" where
  "yearly = st_with ''0 0 1 1 *''"

definition on_days :: "string \<Rightarrow> 's scheduled_task \<Rightarrow> 's scheduled_task" where
  "on_days days st =
     (let fields = split_whitespace (cron_source (st_expression st)) in
      if length fields = 5
      then st_with (fields ! 0 @ '' '' @ fields ! 1 @ '' '' @ fields ! 2 @ '' '' @ fields ! 3 @ '' '' @ days) st
      else st)"

definition weekdays :: "'s scheduled_task \<Rightarrow> 's scheduled_task" where
  "weekdays = on_days ''1-5''"
definition weekends :: "'s scheduled_task \<Rightarrow> 's scheduled_task" where
  "weekends = on_days ''0,6''"
definition in_timezone :: "int \<Rightarrow> 's scheduled_task \<Rightarrow> 's scheduled_task" where
  "in_timezone offset st = st\<lparr>st_timezone := Some offset\<rparr>"
definition without_overlapping :: "duration \<Rightarrow> 's scheduled_task \<Rightarrow> 's scheduled_task" where
  "without_overlapping ttl st = st\<lparr>st_overlap := Some ttl\<rparr>"
definition on_one_server :: "'s scheduled_task \<Rightarrow> 's scheduled_task" where
  "on_one_server st = st\<lparr>st_one_server := True\<rparr>"
definition st_when :: "('s \<Rightarrow> bool) \<Rightarrow> 's scheduled_task \<Rightarrow> 's scheduled_task" where
  "st_when cond st = st\<lparr>st_condition := Some cond\<rparr>"
definition st_skip :: "('s \<Rightarrow> bool) \<Rightarrow> 's scheduled_task \<Rightarrow> 's scheduled_task" where
  "st_skip cond = st_when (\<lambda>s. \<not> cond s)"
definition described_as :: "string \<Rightarrow> 's scheduled_task \<Rightarrow> 's scheduled_task" where
  "described_as d st = st\<lparr>st_description := Some d\<rparr>"

definition st_name :: "'s scheduled_task \<Rightarrow> string" where
  "st_name st = task_name (st_task st)"
definition description :: "'s scheduled_task \<Rightarrow> string" where
  "description st = (case st_description st of Some d \<Rightarrow> d | None \<Rightarrow> st_name st)"
definition needs_shared_locks :: "'s scheduled_task \<Rightarrow> bool" where
  "needs_shared_locks st \<longleftrightarrow> st_one_server st \<or> st_overlap st \<noteq> None"

definition is_due :: "('t, 'z) zoned_scheme \<Rightarrow> 's scheduled_task \<Rightarrow> 't \<Rightarrow> bool" where
  "is_due D st at =
     (case st_timezone st of
        Some offset \<Rightarrow> cron_matches (datetime.truncate D) (st_expression st) (dt_with_offset D offset at)
      | None \<Rightarrow> cron_matches (datetime.truncate D) (st_expression st) at)"

definition next_run :: "('t, 'z) zoned_scheme \<Rightarrow> 's scheduled_task \<Rightarrow> 't \<Rightarrow> 't option" where
  "next_run D st at =
     (case st_timezone st of
        Some offset \<Rightarrow>
          map_option (dt_to_utc D)
            (next_after (datetime.truncate D) (st_expression st) (dt_with_offset D offset at))
      | None \<Rightarrow> next_after (datetime.truncate D) (st_expression st) at)"

section \<open>Running a task\<close>

definition MINUTE :: duration where "MINUTE = 60 * 1000000000"

definition one_server_key :: "('t, 'z) zoned_scheme \<Rightarrow> 's scheduled_task \<Rightarrow> 't \<Rightarrow> string" where
  "one_server_key D st at = ''schedule:one-server:'' @ st_name st @ '':'' @ dt_stamp D at"

definition overlap_key :: "'s scheduled_task \<Rightarrow> string" where
  "overlap_key st = ''schedule:overlap:'' @ st_name st"

definition outcome_of :: "unit result \<Rightarrow> outcome" where
  "outcome_of r = (case r of Inr _ \<Rightarrow> Ran | Inl e \<Rightarrow> Failed e)"

text \<open>
  What happens after the claim: plain, or under the overlap lock. The worlds \<open>wc\<close> and \<open>wo\<close> give
  the clock and tokens of the two acquisitions, \<open>t\<close> is the instant of the release. Neither lock
  waits, so one attempt each is enough fuel.
\<close>

definition run_work :: "'s lock_manager \<Rightarrow> 's world \<Rightarrow> time \<Rightarrow> 's scheduled_task \<Rightarrow> 's \<Rightarrow> ('s \<times> outcome) option" where
  "run_work lm wo t st s =
     (case st_overlap st of
        None \<Rightarrow> (let (s', r) = task_work (st_task st) s in Some (s', outcome_of r))
      | Some ttl \<Rightarrow>
          (case run 1 (lm_lock lm (overlap_key st) ttl) wo (task_work (st_task st)) t s of
             None \<Rightarrow> None
           | Some (s', Inr (Some _)) \<Rightarrow> Some (s', Ran)
           | Some (s', Inr None) \<Rightarrow> Some (s', Skipped StillRunning)
           | Some (s', Inl e) \<Rightarrow> Some (s', Failed e)))"

definition task_run ::
  "('t, 'z) zoned_scheme \<Rightarrow> 's lock_manager \<Rightarrow> 's world \<Rightarrow> 's world \<Rightarrow> time \<Rightarrow> 's scheduled_task \<Rightarrow> 't
    \<Rightarrow> 's \<Rightarrow> ('s \<times> outcome) option"
where
  "task_run D lm wc wo t st at s =
     (if (case st_condition st of Some cond \<Rightarrow> \<not> cond s | None \<Rightarrow> False)
      then Some (s, Skipped ConditionFalse)
      else if st_one_server st
      then (case acquire 1 (lm_lock lm (one_server_key D st at) MINUTE) wc s of
              None \<Rightarrow> None
            | Some (s', Inr (Some guard)) \<Rightarrow> (let _ = keep guard in run_work lm wo t st s')
            | Some (s', Inr None) \<Rightarrow> Some (s', Skipped AnotherServer)
            | Some (s', Inl e) \<Rightarrow> Some (s', Failed e))
      else run_work lm wo t st s)"

section \<open>The schedule\<close>

type_synonym 's schedule = "'s scheduled_task list"

record run_summary =
  rs_ran :: "string list"
  rs_failed :: "(string \<times> string) list"
  rs_skipped :: "(string \<times> skipped) list"
  rs_durations :: "(string \<times> duration) list"

definition summary_empty :: run_summary where
  "summary_empty = \<lparr>rs_ran = [], rs_failed = [], rs_skipped = [], rs_durations = []\<rparr>"

definition schedule_add :: "'s schedule \<Rightarrow> 's task \<Rightarrow> 's schedule" where
  "schedule_add sch t = sch @ [scheduled_task_new t]"

definition due :: "('t, 'z) zoned_scheme \<Rightarrow> 's schedule \<Rightarrow> 't \<Rightarrow> 's scheduled_task list" where
  "due D sch at = filter (\<lambda>st. is_due D st at) sch"

definition schedule_errors :: "'s schedule \<Rightarrow> (string \<times> string) list" where
  "schedule_errors sch =
     List.map_filter (\<lambda>st. map_option (\<lambda>e. (st_name st, e)) (st_error st)) sch"

definition duplicate_names :: "'s schedule \<Rightarrow> string list" where
  "duplicate_names sch =
     (let names = map st_name sch in filter (\<lambda>n. count_list names n > 1) (sort (remdups names)))"

definition tasks_needing_shared_locks :: "'s schedule \<Rightarrow> string list" where
  "tasks_needing_shared_locks sch = map st_name (filter needs_shared_locks sch)"

definition considered :: "run_summary \<Rightarrow> nat" where
  "considered r = length (rs_ran r) + length (rs_failed r) + length (rs_skipped r)"

definition has_failures :: "run_summary \<Rightarrow> bool" where
  "has_failures r \<longleftrightarrow> rs_failed r \<noteq> []"

definition record_outcome :: "string \<Rightarrow> duration \<Rightarrow> outcome \<Rightarrow> run_summary \<Rightarrow> run_summary" where
  "record_outcome name elapsed out r =
     (let r = r\<lparr>rs_durations := rs_durations r @ [(name, elapsed)]\<rparr> in
      case out of
        Ran \<Rightarrow> r\<lparr>rs_ran := rs_ran r @ [name]\<rparr>
      | Failed e \<Rightarrow> r\<lparr>rs_failed := rs_failed r @ [(name, message e)]\<rparr>
      | Skipped why \<Rightarrow> r\<lparr>rs_skipped := rs_skipped r @ [(name, why)]\<rparr>)"

text \<open>The loop of \<^verbatim>\<open>run_due\<close>; each due task brings its worlds, release instant and duration.\<close>

record 's slot =
  sl_claim :: "'s world"
  sl_overlap :: "'s world"
  sl_release :: time
  sl_elapsed :: duration

fun run_tasks ::
  "('t, 'z) zoned_scheme \<Rightarrow> 's lock_manager \<Rightarrow> 't \<Rightarrow> ('s scheduled_task \<times> 's slot) list
    \<Rightarrow> run_summary \<Rightarrow> 's \<Rightarrow> ('s \<times> run_summary) option"
where
  "run_tasks D lm at [] r s = Some (s, r)"
| "run_tasks D lm at ((st, sl) # rest) r s =
     (case task_run D lm (sl_claim sl) (sl_overlap sl) (sl_release sl) st at s of
        None \<Rightarrow> None
      | Some (s', out) \<Rightarrow>
          run_tasks D lm at rest (record_outcome (st_name st) (sl_elapsed sl) out r) s')"

definition run_due ::
  "('t, 'z) zoned_scheme \<Rightarrow> 's lock_manager \<Rightarrow> 's slot list \<Rightarrow> 's schedule \<Rightarrow> 't \<Rightarrow> 's
    \<Rightarrow> ('s \<times> run_summary) option"
where
  "run_due D lm slots sch at s = run_tasks D lm at (zip (due D sch at) slots) summary_empty s"

section \<open>Every pass ends and accounts for every due task\<close>

definition star_spec :: schedule_spec where
  "star_spec = \<lparr>sp_minutes = [(RAll, None)], sp_hours = [(RAll, None)], sp_days = [(RAll, None)],
     sp_months = [(RAll, None)], sp_weekdays = [(RAll, None)]\<rparr>"

lemma every_minute_parses: "\<exists>e. cron_parse ''* * * * *'' = Inr e"
proof -
  have "spec_ok star_spec" by (simp add: star_spec_def spec_ok_def part_ok_def u32_max_def)
  moreover have "print_spec star_spec = ''* * * * *''"
    by (simp add: star_spec_def print_spec_def print_field_def)
  ultimately show ?thesis using cron_parse_print [of star_spec demo_clock] by auto
qed

lemma acquire_no_wait_total:
  "l_wait l = None \<Longrightarrow> \<exists>s' r. acquire (Suc n) l w s = Some (s', r)"
  by (auto simp: acquire_def Let_def split: prod.splits sum.splits bool.splits)

lemma lm_lock_no_wait [simp]: "l_wait (lm_lock lm k ttl) = None"
  by (simp add: lm_lock_def)

lemma run_no_wait_total: "l_wait l = None \<Longrightarrow> \<exists>s' r. run (Suc n) l w work t s = Some (s', r)"
  using acquire_no_wait_total [of l n w s]
  by (auto simp: run_def split: prod.splits sum.splits option.splits)

lemma run_work_total: "\<exists>s' out. run_work lm wo t st s = Some (s', out)"
proof (cases "st_overlap st")
  case (Some ttl)
  then show ?thesis
    using run_no_wait_total [of "lm_lock lm (overlap_key st) ttl" 0 wo "task_work (st_task st)" t s]
    by (auto simp: run_work_def split: option.splits prod.splits sum.splits)
qed (simp add: run_work_def split: prod.splits)

lemma task_run_total: "\<exists>s' out. task_run D lm wc wo t st at s = Some (s', out)"
  using acquire_no_wait_total [of "lm_lock lm (one_server_key D st at) MINUTE" 0 wc s] run_work_total
  by (fastforce simp: task_run_def split: option.splits prod.splits sum.splits)

text \<open>The outcomes of the due tasks, each run in the state its predecessors left.\<close>

fun task_outcomes ::
  "('t, 'z) zoned_scheme \<Rightarrow> 's lock_manager \<Rightarrow> 't \<Rightarrow> ('s scheduled_task \<times> 's slot) list \<Rightarrow> 's
    \<Rightarrow> 's \<times> outcome list"
where
  "task_outcomes D lm at [] s = (s, [])"
| "task_outcomes D lm at ((st, sl) # rest) s =
     (let (s1, out) = the (task_run D lm (sl_claim sl) (sl_overlap sl) (sl_release sl) st at s);
          (s2, outs) = task_outcomes D lm at rest s1
      in (s2, out # outs))"

definition summarise :: "(string \<times> duration) list \<Rightarrow> outcome list \<Rightarrow> run_summary" where
  "summarise names outs =
     \<lparr>rs_ran = [n. ((n, _), Ran) \<leftarrow> zip names outs],
      rs_failed = [(n, message e). ((n, _), Failed e) \<leftarrow> zip names outs],
      rs_skipped = [(n, why). ((n, _), Skipped why) \<leftarrow> zip names outs],
      rs_durations = names\<rparr>"

definition append_summary :: "run_summary \<Rightarrow> run_summary \<Rightarrow> run_summary" where
  "append_summary a b = \<lparr>rs_ran = rs_ran a @ rs_ran b, rs_failed = rs_failed a @ rs_failed b,
     rs_skipped = rs_skipped a @ rs_skipped b, rs_durations = rs_durations a @ rs_durations b\<rparr>"

lemma summarise_Cons:
  "append_summary r (summarise ((n, d) # names) (out # outs)) =
   append_summary (record_outcome n d out r) (summarise names outs)"
  by (cases out) (simp_all add: summarise_def append_summary_def record_outcome_def Let_def)

lemma run_tasks_eq:
  "run_tasks D lm at xs r s =
     Some (fst (task_outcomes D lm at xs s),
       append_summary r (summarise (map (\<lambda>(st, sl). (st_name st, sl_elapsed sl)) xs)
         (snd (task_outcomes D lm at xs s))))
   \<and> length (snd (task_outcomes D lm at xs s)) = length xs"
proof (induction xs arbitrary: r s)
  case Nil
  then show ?case by (simp add: append_summary_def summarise_def)
next
  case (Cons x xs)
  obtain st sl where x: "x = (st, sl)" by (cases x)
  obtain s1 out where "task_run D lm (sl_claim sl) (sl_overlap sl) (sl_release sl) st at s = Some (s1, out)"
    using task_run_total [of D lm "sl_claim sl" "sl_overlap sl" "sl_release sl" st at s] by blast
  moreover obtain s2 outs where "task_outcomes D lm at xs s1 = (s2, outs)" by fastforce
  ultimately show ?case using Cons.IH [of "record_outcome (st_name st) (sl_elapsed sl) out r" s1]
    by (simp add: x summarise_Cons)
qed

lemma considered_summarise:
  "length names = length outs \<Longrightarrow> considered (summarise names outs) = length outs"
proof (induction names outs rule: list_induct2)
  case (Cons x xs y ys)
  then show ?case by (cases y; cases x) (simp_all add: summarise_def considered_def)
qed (simp add: summarise_def considered_def)

text \<open>
  One pass of the scheduler. Every task due at the minute is run exactly once, in
  declaration order, each in the state its predecessors left, and whatever happened to one
  (error or skip) does not stop the rest; the summary lists each under exactly one of ran,
  failed and skipped, in order, and the pass always ends.
\<close>

theorem run_due_accounts_for_all:
  assumes "length (due D sch at) \<le> length slots"
  shows "\<exists>s' r outs. run_due D lm slots sch at s = Some (s', r)
    \<and> task_outcomes D lm at (zip (due D sch at) slots) s = (s', outs)
    \<and> length outs = length (due D sch at) \<and> considered r = length (due D sch at)
    \<and> map fst (rs_durations r) = map st_name (due D sch at)
    \<and> r = summarise (rs_durations r) outs"
proof -
  let ?xs = "zip (due D sch at) slots"
  let ?names = "map (\<lambda>(st, sl). (st_name st, sl_elapsed sl)) ?xs"
  obtain s' outs where o: "task_outcomes D lm at ?xs s = (s', outs)" by fastforce
  have len: "length outs = length (due D sch at)"
    using run_tasks_eq [of D lm at ?xs summary_empty s] o assms by simp
  have "append_summary summary_empty r = r" for r
    by (simp add: append_summary_def summary_empty_def)
  then have "run_due D lm slots sch at s = Some (s', summarise ?names outs)"
    using run_tasks_eq [of D lm at ?xs summary_empty s] o by (simp add: run_due_def)
  moreover have "map fst ?names = map st_name (due D sch at)"
  proof -
    have "map fst ?names = map st_name (map fst ?xs)" by (auto simp: case_prod_unfold)
    also have "map fst ?xs = due D sch at" using assms by (simp add: map_fst_zip_take)
    finally show ?thesis .
  qed
  moreover have "considered (summarise ?names outs) = length (due D sch at)"
    using considered_summarise [of ?names outs] len assms by simp
  moreover have "rs_durations (summarise ?names outs) = ?names" by (simp add: summarise_def)
  ultimately show ?thesis using o len by metis
qed

definition demo_zone :: "nat zoned" where
  "demo_zone = datetime.extend demo_clock \<lparr>dt_with_offset = (\<lambda>offset t. t), dt_to_utc = (\<lambda>t. t),
     dt_stamp = nat_dec\<rparr>"

definition demo_schedule :: "memory schedule" where
  "demo_schedule = schedule_add [] \<lparr>task_name = ''prune'', task_work = (\<lambda>s. (s, Inr ()))\<rparr>"

definition demo_slot :: "memory slot" where
  "demo_slot = \<lparr>sl_claim = steady_world, sl_overlap = steady_world, sl_release = 5, sl_elapsed = 3\<rparr>"

theorem run_due_accounts_for_all_witness:
  "\<exists>s' r outs. run_due demo_zone (lock_manager_new test_cache) [demo_slot] demo_schedule 7 [] = Some (s', r)
    \<and> task_outcomes demo_zone (lock_manager_new test_cache) 7 (zip (due demo_zone demo_schedule 7) [demo_slot]) []
        = (s', outs)
    \<and> length outs = length (due demo_zone demo_schedule 7)
    \<and> considered r = length (due demo_zone demo_schedule 7)
    \<and> map fst (rs_durations r) = map st_name (due demo_zone demo_schedule 7)
    \<and> r = summarise (rs_durations r) outs"
  by (rule run_due_accounts_for_all) (simp add: due_def demo_schedule_def schedule_add_def)

section \<open>The two locks\<close>

context cache_port
begin

lemma acquire_once:
  assumes "inv s" "l_cache l = c" "l_wait l = None"
  obtains s1 where "acquire (Suc 0) l w s = Some (s1, Inr (if vis s (l_key l) (w_check w 0) = None
      then Some \<lparr>g_cache = c, g_key = l_key l, g_owner = mint_owner (w_hash w 0) (w_pid w),
        g_released = False\<rparr> else None))" "inv s1"
    "\<And>k' t'. w_check w 0 \<le> w_write w 0 \<Longrightarrow> w_check w 0 \<le> t' \<Longrightarrow> vis s1 k' t' =
       (if k' = l_key l \<and> vis s (l_key l) (w_check w 0) = None
        then if live_at (exp (w_write w 0) (Some (l_ttl l))) t'
             then Some (mint_owner (w_hash w 0) (w_pid w)) else None
        else vis s k' t')"
proof -
  obtain s1 where "c_add c (w_check w 0) (w_write w 0) (l_key l) (mint_owner (w_hash w 0) (w_pid w))
       (Some (l_ttl l)) s = (s1, Inr (vis s (l_key l) (w_check w 0) = None))" "inv s1"
    "\<And>k' t'. w_check w 0 \<le> w_write w 0 \<Longrightarrow> w_check w 0 \<le> t' \<Longrightarrow> vis s1 k' t' =
       (if k' = l_key l \<and> vis s (l_key l) (w_check w 0) = None
        then if live_at (exp (w_write w 0) (Some (l_ttl l))) t'
             then Some (mint_owner (w_hash w 0) (w_pid w)) else None
        else vis s k' t')"
    by (rule addE [OF assms(1)]) blast
  then show thesis
    by (cases "vis s (l_key l) (w_check w 0)"; intro that [of s1])
      (simp_all add: acquire_def Let_def assms)
qed

text \<open>Running under a lock leaves every key alone that is neither the lock's nor the work's.\<close>

lemma run_frame:
  assumes "inv s" "l_cache l = c" "l_wait l = None" "w_check w 0 \<le> w_write w 0" "w_check w 0 \<le> t'"
    and "k \<noteq> l_key l" and work: "\<And>s. inv s \<Longrightarrow> inv (fst (work s)) \<and> vis (fst (work s)) k t' = vis s k t'"
    and "run (Suc 0) l w work t s = Some (s', r)"
  shows "inv s' \<and> vis s' k t' = vis s k t'"
proof (rule acquire_once [OF assms(1-3), of w])
  fix s1
  let ?g = "\<lparr>g_cache = c, g_key = l_key l, g_owner = mint_owner (w_hash w 0) (w_pid w), g_released = False\<rparr>"
  assume acq: "acquire (Suc 0) l w s = Some (s1, Inr (if vis s (l_key l) (w_check w 0) = None
      then Some ?g else None))" "inv s1"
    "\<And>k' t'. w_check w 0 \<le> w_write w 0 \<Longrightarrow> w_check w 0 \<le> t' \<Longrightarrow> vis s1 k' t' =
       (if k' = l_key l \<and> vis s (l_key l) (w_check w 0) = None
        then if live_at (exp (w_write w 0) (Some (l_ttl l))) t'
             then Some (mint_owner (w_hash w 0) (w_pid w)) else None
        else vis s k' t')"
  have k: "vis s1 k t' = vis s k t'" using acq(3) assms(4-6) by simp
  obtain s2 out where w: "work s1 = (s2, out)" by fastforce
  have s2: "inv s2" "vis s2 k t' = vis s k t'" using work [OF acq(2)] k w by simp_all
  have rel: "vis (fst (release ?g t s2)) k t' = vis s k t'" "inv (fst (release ?g t s2))"
    using release_vis [OF s2(1), of ?g t k t'] s2 assms(6) inv_forget_if [OF s2(1)]
    by (auto simp: release_def)
  show ?thesis
    using assms(8) acq(1,2) k w rel
    by (auto simp: run_def split: if_splits prod.splits sum.splits)
qed

end

definition machine_window ::
  "memory world \<Rightarrow> int \<Rightarrow> memory world \<times> memory world \<times> time \<Rightarrow> bool"
where
  "machine_window wc d m \<longleftrightarrow> w_write wc 0 \<le> w_check (fst m) 0 \<and> w_check (fst m) 0 < w_write wc 0 + d"

text \<open>Several machines meet the same due task, one after the other.\<close>

fun run_machines ::
  "('t, 'z) zoned_scheme \<Rightarrow> 's lock_manager \<Rightarrow> 's scheduled_task \<Rightarrow> 't
    \<Rightarrow> ('s world \<times> 's world \<times> time) list \<Rightarrow> 's \<Rightarrow> ('s \<times> outcome list) option"
where
  "run_machines D lm st at [] s = Some (s, [])"
| "run_machines D lm st at ((wc, wo, t) # ms) s =
     (case task_run D lm wc wo t st at s of
        None \<Rightarrow> None
      | Some (s', out) \<Rightarrow>
          (case run_machines D lm st at ms s' of
             None \<Rightarrow> None | Some (s'', outs) \<Rightarrow> Some (s'', out # outs)))"

abbreviation claim_lock :: "('t, 'z) zoned_scheme \<Rightarrow> 's lock_manager \<Rightarrow> 's scheduled_task \<Rightarrow> 't \<Rightarrow> 's lock" where
  "claim_lock D lm st at \<equiv> lm_lock lm (one_server_key D st at) MINUTE"

lemma lm_lock_simps [simp]: "l_cache (lm_lock lm k ttl) = lm_cache lm"
  "l_key (lm_lock lm k ttl) = lm_prefix lm @ k" "l_ttl (lm_lock lm k ttl) = ttl"
  by (simp_all add: lm_lock_def)

lemma keys_differ [simp]: "one_server_key D st at \<noteq> overlap_key st'"
  by (simp add: one_server_key_def overlap_key_def)

lemma mem_add_live:
  "mem_vis m k t0 \<noteq> None \<Longrightarrow> mem_add from_std t0 t1 k v ttl m = (m, Inr False)"
  by (auto simp: mem_vis_def mem_add_def split: option.splits if_splits)

text \<open>A machine that finds the claim taken skips, and leaves the store as it was.\<close>

lemma task_run_claimed:
  assumes "lm_cache lm = memory_cache from_std" "st_one_server st" "st_condition st = None"
    and "mem_vis m (l_key (claim_lock D lm st at)) (w_check wc 0) \<noteq> None"
  shows "task_run D lm wc wo t st at m = Some (m, Skipped AnotherServer)"
proof -
  have "acquire 1 (claim_lock D lm st at) wc m = Some (m, Inr None)"
    using assms(1,4) by (simp add: acquire_def memory_cache_def mem_add_live Let_def)
  then show ?thesis using assms(2,3) by (simp add: task_run_def)
qed

lemma run_work_frame:
  assumes "hm_wf m" "lm_cache lm = memory_cache from_std" "w_check wo 0 \<le> w_write wo 0" "w_check wo 0 \<le> t'"
    and "k \<noteq> lm_prefix lm @ overlap_key st"
    and work: "\<And>s. hm_wf s \<Longrightarrow> hm_wf (fst (task_work (st_task st) s))
        \<and> mem_vis (fst (task_work (st_task st) s)) k t' = mem_vis s k t'"
    and run: "run_work lm wo t st m = Some (m', out)"
  shows "hm_wf m' \<and> mem_vis m' k t' = mem_vis m k t' \<and> out \<noteq> Skipped AnotherServer"
proof (cases "st_overlap st")
  case None
  then show ?thesis using run work [OF assms(1)]
    by (auto simp: run_work_def outcome_of_def split: prod.splits sum.splits)
next
  case (Some ttl)
  then obtain r where r: "run (Suc 0) (lm_lock lm (overlap_key st) ttl) wo (task_work (st_task st)) t m
      = Some (m', r)" and out: "out \<noteq> Skipped AnotherServer"
    using run by (auto simp: run_work_def split: option.splits prod.splits sum.splits)
  have "hm_wf m' \<and> mem_vis m' k t' = mem_vis m k t'"
    by (rule mem.run_frame [OF assms(1) _ _ assms(3,4) _ work r]) (use assms(2,5) in simp_all)
  with out show ?thesis by simp
qed

lemma run_machines_claimed:
  assumes "lm_cache lm = memory_cache from_std" "st_one_server st" "st_condition st = None"
    and "\<And>mc. mc \<in> set ms \<Longrightarrow> mem_vis m (l_key (claim_lock D lm st at)) (w_check (fst mc) 0) \<noteq> None"
  shows "run_machines D lm st at ms m = Some (m, replicate (length ms) (Skipped AnotherServer))"
  using assms(4)
proof (induction ms)
  case (Cons mc ms)
  obtain wc wo t where mc: "mc = (wc, wo, t)" by (cases mc)
  have "task_run D lm wc wo t st at m = Some (m, Skipped AnotherServer)"
    using Cons.prems [of mc] by (intro task_run_claimed [OF assms(1-3)]) (simp add: mc)
  then show ?case using Cons by (simp add: mc)
qed simp


definition demo_task :: "memory scheduled_task" where
  "demo_task = without_overlapping 60 (on_one_server (scheduled_task_new
     \<lparr>task_name = ''digest'', task_work = (\<lambda>s. (s, Inr ()))\<rparr>))"

definition late_machine :: "memory world \<times> memory world \<times> time" where
  "late_machine = (steady_world\<lparr>w_check := (\<lambda>_. 9)\<rparr>, steady_world, 9)"


text \<open>
  A task that is still running is not started again, but its minute is spent all the same:
  when the overlap lock is held, the run takes the one-server claim first, then skips without
  running the work, and afterwards the claim stands. The documentation of \<^verbatim>\<open>run\<close> gives exactly
  this as what its order avoids.
\<close>

theorem busy_task_spends_the_claim:
  assumes wf: "hm_wf m" and lm: "lm_cache lm = memory_cache from_std"
    and st: "st_one_server st" "st_condition st = None" "st_overlap st = Some ttl"
    and le: "w_check wc 0 \<le> w_write wc 0" "w_check wc 0 \<le> w_check wo 0"
    and free: "mem_vis m (l_key (claim_lock D lm st at)) (w_check wc 0) = None"
    and busy: "mem_vis m (lm_prefix lm @ overlap_key st) (w_check wo 0) \<noteq> None"
  shows "\<exists>m'. task_run D lm wc wo t st at m = Some (m', Skipped StillRunning)
    \<and> (\<forall>t'. w_check wc 0 \<le> t' \<longrightarrow> mem_vis m' (l_key (claim_lock D lm st at)) t' =
         (if live_at (expiry from_std (w_write wc 0) (Some MINUTE)) t'
          then Some (mint_owner (w_hash wc 0) (w_pid wc)) else None))"
proof -
  let ?l = "claim_lock D lm st at"
  obtain m1 where acq: "acquire (Suc 0) ?l wc m = Some (m1, Inr (Some
      \<lparr>g_cache = memory_cache from_std, g_key = l_key ?l,
       g_owner = mint_owner (w_hash wc 0) (w_pid wc), g_released = False\<rparr>))"
    and wf1: "hm_wf m1" and vis1: "\<And>k' t'. w_check wc 0 \<le> t' \<Longrightarrow> mem_vis m1 k' t' =
       (if k' = l_key ?l then if live_at (expiry from_std (w_write wc 0) (Some MINUTE)) t'
          then Some (mint_owner (w_hash wc 0) (w_pid wc)) else None else mem_vis m k' t')"
    by (rule mem.acquire_once [OF wf, of ?l from_std wc]) (use lm free le(1) in simp_all)
  have "mem_vis m1 (lm_prefix lm @ overlap_key st) (w_check wo 0) \<noteq> None"
    using vis1 [of "w_check wo 0" "lm_prefix lm @ overlap_key st"] busy le(2)
      keys_differ [of D st at st] by auto
  then have "acquire (Suc 0) (lm_lock lm (overlap_key st) ttl) wo m1 = Some (m1, Inr None)"
    using lm by (simp add: acquire_def memory_cache_def mem_add_live Let_def)
  then have "task_run D lm wc wo t st at m = Some (m1, Skipped StillRunning)"
    using st acq by (simp add: task_run_def run_work_def run_def)
  then show ?thesis using vis1 by simp
qed

theorem busy_task_spends_the_claim_witness:
  "\<exists>m'. task_run demo_zone (lock_manager_new test_cache) steady_world steady_world 5 demo_task 7
      [(''lock:schedule:overlap:digest'', \<lparr>e_value = ''x'', e_expires_at = None\<rparr>)]
      = Some (m', Skipped StillRunning)
    \<and> (\<forall>t'. w_check (steady_world :: memory world) 0 \<le> t' \<longrightarrow>
        mem_vis m' (l_key (claim_lock demo_zone (lock_manager_new test_cache) demo_task 7)) t' =
         (if live_at (expiry (\<lambda>d. Some (int d)) (w_write (steady_world :: memory world) 0) (Some MINUTE)) t'
          then Some (mint_owner (w_hash (steady_world :: memory world) 0) (w_pid (steady_world :: memory world)))
          else None))"
  by (rule busy_task_spends_the_claim [where ttl = 60])
    (simp_all add: lock_manager_new_def demo_task_def on_one_server_def without_overlapping_def
      scheduled_task_new_def steady_world_def mem_vis_def one_server_key_def overlap_key_def
      st_name_def is_live_def hm_wf_def hm_get_def)

text \<open>A malformed time means midnight, and is no error the schedule would report.\<close>

lemma daily_at_malformed:
  "parse_time ''nope'' = (0, 0)"
  by (simp add: parse_time_def Let_def parse_uint_def trim_id graphic_def strip_plus_def all_digits_def
      is_digit_def)

text \<open>Restricting the days of a task scheduled with a shorthand does nothing.\<close>

lemma on_days_ignores_shorthand:
  assumes "cron_parse ''@daily'' = Inr e" "st_expression st = e"
  shows "on_days days st = st"
proof -
  have "cron_source e = trim ''@daily''" using cron_parse_ok [OF assms(1)] by simp
  moreover have "trim ''@daily'' = ''@daily''" by (simp add: trim_id graphic_def)
  moreover have "split_whitespace ''@daily'' = [''@daily'']" by code_simp
  ultimately show ?thesis using assms(2) by (simp add: on_days_def)
qed

end
