(* ===== verification/Pipeline.thy ===== *)
theory Pipeline
  imports Http Hash_Map
begin

text \<open>
  The request pipeline, \<^verbatim>\<open>rainier-middleware/src/pipeline.rs\<close> and \<^verbatim>\<open>stack.rs\<close>. A middleware is its
  type's identity and name and its \<^verbatim>\<open>handle\<close>, a function of the request, the continuation
  \<^verbatim>\<open>next\<close> and the application's state; awaiting a future is applying the function. A deferred
  stage builds its middleware from the container, of some type \<^typ>\<open>'c\<close>.
\<close>

record matched_route =
  mr_name :: "string option"
  mr_uri :: string
  mr_methods :: "string list"

text \<open>
  The whole request: the raw query and body, the inputs a middleware put in their place, and what
  the router fills in, the route parameters and the matched route.
\<close>

record routed = request +
  rq_query :: string
  rq_body :: string
  rq_override :: "json option"
  rq_params :: "(string, string) hmap"
  rq_matched :: "matched_route option"

type_synonym 's destination = "routed \<Rightarrow> 's \<Rightarrow> 's \<times> response"

record 's middleware =
  mw_type :: string
  mw_type_name :: string
  mw_label :: "string option"
  mw_handle :: "routed \<Rightarrow> 's destination \<Rightarrow> 's \<Rightarrow> 's \<times> response"

section \<open>Labels\<close>

text \<open>The text up to the first \<^verbatim>\<open>::\<close>, on a reversed name.\<close>

fun upto_colons :: "string \<Rightarrow> string" where
  "upto_colons (c # d # r) = (if c = CHR '':'' \<and> d = CHR '':'' then [] else c # upto_colons (d # r))"
| "upto_colons s = s"

definition short_type_name :: "string \<Rightarrow> string" where
  "short_type_name full =
     (let without_generics = (case split_once CHR ''<'' full of Some (h, _) \<Rightarrow> h | None \<Rightarrow> full)
      in rev (upto_colons (rev without_generics)))"

text \<open>\<^verbatim>\<open>Middleware::name\<close>: a type may override it with a label of its own.\<close>

definition mw_name :: "'s middleware \<Rightarrow> string" where
  "mw_name m = (case mw_label m of Some l \<Rightarrow> l | None \<Rightarrow> short_type_name (mw_type_name m))"

section \<open>Pipelines\<close>

function run_next :: "'s middleware list \<Rightarrow> nat \<Rightarrow> 's destination \<Rightarrow> 's destination" where
  "run_next stages index dest request s =
     (if index < length stages
      then mw_handle (stages ! index) request (\<lambda>rq. run_next stages (index + 1) dest rq) s
      else dest request s)"
  by pat_completeness auto
termination
  by (relation "measure (\<lambda>(stages, index, _). length stages - index)") auto

declare run_next.simps [simp del]

definition next_remaining :: "'s middleware list \<Rightarrow> nat \<Rightarrow> nat" where
  "next_remaining stages index = length stages - index"

record 's pipeline =
  p_stages :: "'s middleware list"

record 's ready_pipeline =
  rp_stages :: "'s middleware list"
  rp_destination :: "'s destination"

definition pipeline_new :: "'s pipeline" where
  "pipeline_new = \<lparr>p_stages = []\<rparr>"

definition through :: "'s middleware \<Rightarrow> 's pipeline \<Rightarrow> 's pipeline" where
  "through m p = p\<lparr>p_stages := p_stages p @ [m]\<rparr>"

definition through_all :: "'s middleware list \<Rightarrow> 's pipeline \<Rightarrow> 's pipeline" where
  "through_all ms p = p\<lparr>p_stages := p_stages p @ ms\<rparr>"

definition then_arc :: "'s destination \<Rightarrow> 's pipeline \<Rightarrow> 's ready_pipeline" where
  "then_arc dest p = \<lparr>rp_stages = p_stages p, rp_destination = dest\<rparr>"

definition pipeline_run :: "'s ready_pipeline \<Rightarrow> 's destination" where
  "pipeline_run p request s = run_next (rp_stages p) 0 (rp_destination p) request s"

definition stage_names :: "'s ready_pipeline \<Rightarrow> string list" where
  "stage_names p = map mw_name (rp_stages p)"

section \<open>Stacks\<close>

datatype ('c, 's) stage = Ready "'s middleware" | Deferred string "'c \<Rightarrow> 's middleware result"

record ('c, 's) middleware_stack =
  ms_stages :: "('c, 's) stage list"

definition stack_new :: "('c, 's) middleware_stack" where
  "stack_new = \<lparr>ms_stages = []\<rparr>"

definition stack_with :: "'s middleware \<Rightarrow> ('c, 's) middleware_stack \<Rightarrow> ('c, 's) middleware_stack" where
  "stack_with m st = st\<lparr>ms_stages := ms_stages st @ [Ready m]\<rparr>"

definition with_stack ::
  "('c, 's) middleware_stack \<Rightarrow> ('c, 's) middleware_stack \<Rightarrow> ('c, 's) middleware_stack"
where
  "with_stack other st = st\<lparr>ms_stages := ms_stages st @ ms_stages other\<rparr>"

definition deferred ::
  "string \<Rightarrow> ('c \<Rightarrow> 's middleware result) \<Rightarrow> ('c, 's) middleware_stack \<Rightarrow> ('c, 's) middleware_stack"
where
  "deferred type_name build st =
     st\<lparr>ms_stages := ms_stages st @ [Deferred (short_type_name type_name) build]\<rparr>"

definition resolved ::
  "string \<Rightarrow> ('c \<Rightarrow> 'v result) \<Rightarrow> ('v \<Rightarrow> 's middleware) \<Rightarrow> ('c, 's) middleware_stack
    \<Rightarrow> ('c, 's) middleware_stack"
where
  "resolved type_name resolve_service build =
     deferred type_name (\<lambda>c. and_then (resolve_service c) (\<lambda>v. Inr (build v)))"

definition stack_prepend ::
  "('c, 's) middleware_stack \<Rightarrow> ('c, 's) middleware_stack \<Rightarrow> ('c, 's) middleware_stack"
where
  "stack_prepend outer st = st\<lparr>ms_stages := ms_stages outer @ ms_stages st\<rparr>"

fun resolve_stage :: "'c \<Rightarrow> ('c, 's) stage \<Rightarrow> 's middleware result" where
  "resolve_stage c (Ready m) = Inr m"
| "resolve_stage c (Deferred name build) =
     (case build c of
        Inr m \<Rightarrow> Inr m
      | Inl e \<Rightarrow> Inl (err_internal (''could not build the `'' @ name @ ''` middleware: '' @ error_display e)))"

fun resolve_stages :: "'c \<Rightarrow> ('c, 's) stage list \<Rightarrow> 's middleware list result" where
  "resolve_stages c [] = Inr []"
| "resolve_stages c (st # sts) =
     and_then (resolve_stage c st) (\<lambda>m. and_then (resolve_stages c sts) (\<lambda>ms. Inr (m # ms)))"

definition stack_resolve :: "'c \<Rightarrow> ('c, 's) middleware_stack \<Rightarrow> 's middleware list result" where
  "stack_resolve c st = resolve_stages c (ms_stages st)"

fun stage_label :: "('c, 's) stage \<Rightarrow> string" where
  "stage_label (Ready m) = mw_name m"
| "stage_label (Deferred name build) = name"

definition stack_labels :: "('c, 's) middleware_stack \<Rightarrow> string list" where
  "stack_labels st = map stage_label (ms_stages st)"

section \<open>Nesting\<close>

text \<open>
  What a chain of stages means: each wraps the rest. \<open>wrap_all\<close> is the specification, the
  right-nested composition of the stages around the destination.
\<close>

definition wrap_all :: "'s middleware list \<Rightarrow> 's destination \<Rightarrow> 's destination" where
  "wrap_all stages dest = foldr (\<lambda>m k rq. mw_handle m rq k) stages dest"

lemma run_next_wrap: "run_next stages i dest = wrap_all (drop i stages) dest"
proof (induction "length stages - i" arbitrary: i)
  case 0
  then show ?case by (intro ext) (simp add: run_next.simps wrap_all_def)
next
  case (Suc n)
  then have lt: "i < length stages" and IH: "run_next stages (Suc i) dest = wrap_all (drop (Suc i) stages) dest"
    by simp_all
  have "drop i stages = stages ! i # drop (Suc i) stages" using lt by (simp add: Cons_nth_drop_Suc)
  then show ?case using lt IH
    by (intro ext) (simp add: run_next.simps [of stages i] wrap_all_def)
qed

lemma wrap_all_append: "wrap_all (a @ b) dest = wrap_all a (wrap_all b dest)"
  by (simp add: wrap_all_def)

lemma pipeline_run_wrap: "pipeline_run p = wrap_all (rp_stages p) (rp_destination p)"
  by (intro ext) (simp add: pipeline_run_def run_next_wrap)

lemma wrap_all_Cons: "wrap_all (m # ms) dest rq s = mw_handle m rq (wrap_all ms dest) s"
  by (simp add: wrap_all_def)

lemma resolve_stages_append:
  "resolve_stages c (a @ b) =
     and_then (resolve_stages c a) (\<lambda>x. and_then (resolve_stages c b) (\<lambda>y. Inr (x @ y)))"
  by (induction a) (auto simp: and_then_def split: sum.splits)

lemma resolve_stages_ready: "resolve_stages c (map Ready ms) = Inr ms"
  by (induction ms) auto

text \<open>
  Middleware wraps what comes after it. Running a pipeline is running the first stage
  around the pipeline of the remaining ones, down to the destination; so a stage that does not
  call \<^verbatim>\<open>next\<close> decides the response alone, whatever stages and destination follow, and groups of
  stages compose by putting one pipeline inside the other.
\<close>

theorem pipeline_nests:
  "pipeline_run (then_arc dest pipeline_new) = dest
   \<and> pipeline_run (then_arc dest (through_all (m # ms) pipeline_new)) rq s
       = mw_handle m rq (pipeline_run (then_arc dest (through_all ms pipeline_new))) s
   \<and> pipeline_run (then_arc dest (through_all (xs @ ys) pipeline_new))
       = pipeline_run (then_arc (pipeline_run (then_arc dest (through_all ys pipeline_new)))
           (through_all xs pipeline_new))
   \<and> ((\<forall>k. mw_handle m rq k s = out) \<longrightarrow>
       pipeline_run (then_arc dest (through_all (m # ms) pipeline_new)) rq s = out)"
  by (simp add: pipeline_run_wrap then_arc_def through_all_def pipeline_new_def wrap_all_append
      wrap_all_Cons) (simp add: wrap_all_def)

text \<open>A stage that refuses everything and one that passes on and marks the response.\<close>

definition refuse :: "nat middleware" where
  "refuse = \<lparr>mw_type = ''refuse'', mw_type_name = ''demo::Refuse'', mw_label = None,
     mw_handle = (\<lambda>rq k s. (s, response_new 403))\<rparr>"

definition bare_request :: "string \<Rightarrow> string \<Rightarrow> routed" where
  "bare_request meth path = \<lparr>rq_method = meth, rq_path = path, rq_headers = [], rq_ip = None,
     rq_query = [], rq_body = [], rq_override = None, rq_params = [], rq_matched = None\<rparr>"

theorem pipeline_nests_witness:
  "pipeline_run (then_arc (\<lambda>rq s. (Suc s, response_new 200)) (through_all [refuse] pipeline_new))
     (bare_request ''GET'' ''/'') 5 = (5, response_new 403)"
  using pipeline_nests [of "\<lambda>rq s. (Suc s, response_new 200)" refuse "[]" "bare_request ''GET'' ''/''"
      5 "[]" "[]" "(5, response_new 403)"]
  by (simp add: refuse_def)

end
