(* ===== verification/Route.thy ===== *)
theory Route
  imports Pipeline
begin

text \<open>
  A single route, \<^verbatim>\<open>rainier-routing/src/route.rs\<close>: compiled patterns, parameter constraints, the
  builders and matching a path. Percent-decoding (of the \<^verbatim>\<open>percent_encoding\<close> package, with its
  lossy UTF-8 conversion) is a parameter \<open>dec\<close>. Matching keeps the segments of the path that are
  still to be matched, \<^verbatim>\<open>actual[index..]\<close>, in place of the index.
\<close>

section \<open>Patterns\<close>

datatype segment = Static string | Param string | OptionalParam string | Wildcard string

datatype param_constraint =
    CNumber | CAlpha | CAlphaNumeric | CSlug | CUuid | CIn "string list" | CCustom "string \<Rightarrow> bool"

definition is_ascii_alphabetic :: "char \<Rightarrow> bool" where
  "is_ascii_alphabetic c \<longleftrightarrow> byte_in 65 90 c \<or> byte_in 97 122 c"

definition is_ascii_alphanumeric :: "char \<Rightarrow> bool" where
  "is_ascii_alphanumeric c \<longleftrightarrow> is_ascii_alphabetic c \<or> is_digit c"

definition is_ascii_hexdigit :: "char \<Rightarrow> bool" where
  "is_ascii_hexdigit c \<longleftrightarrow> is_digit c \<or> byte_in 65 70 c \<or> byte_in 97 102 c"

fun uuid_groups :: "nat list \<Rightarrow> string list \<Rightarrow> bool" where
  "uuid_groups [] parts = (parts = [])"
| "uuid_groups (n # ns) [] = False"
| "uuid_groups (n # ns) (p # ps) =
     (if length p \<noteq> n \<or> \<not> list_all is_ascii_hexdigit p then False else uuid_groups ns ps)"

definition is_uuid :: "string \<Rightarrow> bool" where
  "is_uuid v = uuid_groups [8, 4, 4, 4, 12] (split_on CHR ''-'' v)"

fun constraint_allows :: "param_constraint \<Rightarrow> string \<Rightarrow> bool" where
  "constraint_allows CNumber v = (v \<noteq> [] \<and> list_all is_digit v)"
| "constraint_allows CAlpha v = (v \<noteq> [] \<and> list_all is_ascii_alphabetic v)"
| "constraint_allows CAlphaNumeric v = (v \<noteq> [] \<and> list_all is_ascii_alphanumeric v)"
| "constraint_allows CSlug v =
     (v \<noteq> [] \<and> list_all (\<lambda>b. is_ascii_alphanumeric b \<or> b = CHR ''-'' \<or> b = CHR ''_'') v)"
| "constraint_allows CUuid v = is_uuid v"
| "constraint_allows (CIn allowed) v = (v \<in> set allowed)"
| "constraint_allows (CCustom p) v = p v"

definition split_path :: "string \<Rightarrow> string list" where
  "split_path path = filter (\<lambda>s. s \<noteq> []) (split_on CHR ''/'' path)"

definition normalise_uri :: "string \<Rightarrow> string" where
  "normalise_uri uri =
     (let trimmed = split_path uri in if trimmed = [] then ''/'' else ''/'' @ join ''/'' trimmed)"

definition compile_piece :: "string \<Rightarrow> segment" where
  "compile_piece piece =
     (case Option.bind (strip_prefix_char CHR ''{'' piece) (strip_suffix_char CHR ''}'') of
        None \<Rightarrow> Static piece
      | Some inner \<Rightarrow>
          (case strip_suffix_char CHR ''?'' inner of
             Some name \<Rightarrow> OptionalParam name
           | None \<Rightarrow>
               (case strip_suffix_char CHR ''*'' inner of
                  Some name \<Rightarrow> Wildcard name
                | None \<Rightarrow> Param inner)))"

definition compile :: "string \<Rightarrow> segment list" where
  "compile uri = map compile_piece (split_path uri)"

section \<open>Routes\<close>

record ('c, 's) route =
  rt_methods :: "string list"
  rt_uri :: string
  rt_segments :: "segment list"
  rt_handler :: "'s destination"
  rt_middleware :: "('c, 's) middleware_stack"
  rt_excluded :: "string list"
  rt_name :: "string option"
  rt_constraints :: "(string, param_constraint) hmap"

definition route_new :: "string list \<Rightarrow> string \<Rightarrow> 's destination \<Rightarrow> ('c, 's) route" where
  "route_new methods uri handler =
     (let uri = normalise_uri uri;
          methods = (if ''GET'' \<in> set methods \<and> ''HEAD'' \<notin> set methods then methods @ [''HEAD''] else methods)
      in \<lparr>rt_methods = methods, rt_uri = uri, rt_segments = compile uri, rt_handler = handler,
          rt_middleware = stack_new, rt_excluded = [], rt_name = None, rt_constraints = []\<rparr>)"

definition route_named :: "string \<Rightarrow> ('c, 's) route \<Rightarrow> ('c, 's) route" where
  "route_named name r = r\<lparr>rt_name := Some name\<rparr>"

definition route_middleware :: "('c, 's) middleware_stack \<Rightarrow> ('c, 's) route \<Rightarrow> ('c, 's) route" where
  "route_middleware m r = r\<lparr>rt_middleware := with_stack m (rt_middleware r)\<rparr>"

definition without_middleware :: "string \<Rightarrow> ('c, 's) route \<Rightarrow> ('c, 's) route" where
  "without_middleware type_id r = r\<lparr>rt_excluded := rt_excluded r @ [type_id]\<rparr>"

definition where_param :: "string \<Rightarrow> param_constraint \<Rightarrow> ('c, 's) route \<Rightarrow> ('c, 's) route" where
  "where_param param c r = r\<lparr>rt_constraints := hm_insert param c (rt_constraints r)\<rparr>"

definition where_number :: "string \<Rightarrow> ('c, 's) route \<Rightarrow> ('c, 's) route" where
  "where_number param = where_param param CNumber"

definition where_slug :: "string \<Rightarrow> ('c, 's) route \<Rightarrow> ('c, 's) route" where
  "where_slug param = where_param param CSlug"

definition where_uuid :: "string \<Rightarrow> ('c, 's) route \<Rightarrow> ('c, 's) route" where
  "where_uuid param = where_param param CUuid"

definition where_in :: "string \<Rightarrow> string list \<Rightarrow> ('c, 's) route \<Rightarrow> ('c, 's) route" where
  "where_in param values = where_param param (CIn values)"

fun segment_param :: "segment \<Rightarrow> string option" where
  "segment_param (Static s) = None"
| "segment_param (Param n) = Some n"
| "segment_param (OptionalParam n) = Some n"
| "segment_param (Wildcard n) = Some n"

definition param_names :: "('c, 's) route \<Rightarrow> string list" where
  "param_names r = List.map_filter segment_param (rt_segments r)"

definition prefix_with :: "string \<Rightarrow> ('c, 's) route \<Rightarrow> ('c, 's) route" where
  "prefix_with pre r =
     (if pre = [] then r
      else let uri = normalise_uri (''/'' @ trim_char CHR ''/'' pre @ ''/'' @ trim_start_char CHR ''/'' (rt_uri r))
           in r\<lparr>rt_uri := uri, rt_segments := compile uri\<rparr>)"

definition prepend_middleware :: "('c, 's) middleware_stack \<Rightarrow> ('c, 's) route \<Rightarrow> ('c, 's) route" where
  "prepend_middleware outer r = r\<lparr>rt_middleware := stack_prepend outer (rt_middleware r)\<rparr>"

definition prepend_name :: "string \<Rightarrow> ('c, 's) route \<Rightarrow> ('c, 's) route" where
  "prepend_name pre r = (if pre = [] then r else r\<lparr>rt_name := map_option (\<lambda>n. pre @ n) (rt_name r)\<rparr>)"

fun add_constraints_list ::
  "(string \<times> param_constraint) list \<Rightarrow> (string, param_constraint) hmap \<Rightarrow> (string, param_constraint) hmap"
where
  "add_constraints_list [] cs = cs"
| "add_constraints_list ((p, c) # rest) cs =
     add_constraints_list rest (case hm_get p cs of None \<Rightarrow> hm_insert p c cs | Some _ \<Rightarrow> cs)"

definition add_constraints :: "(string, param_constraint) hmap \<Rightarrow> ('c, 's) route \<Rightarrow> ('c, 's) route" where
  "add_constraints cs r = r\<lparr>rt_constraints := add_constraints_list cs (rt_constraints r)\<rparr>"

definition route_allows :: "('c, 's) route \<Rightarrow> string \<Rightarrow> string \<Rightarrow> bool" where
  "route_allows r param v =
     (case hm_get param (rt_constraints r) of Some c \<Rightarrow> constraint_allows c v | None \<Rightarrow> True)"

definition rest_is_optional :: "segment list \<Rightarrow> bool" where
  "rest_is_optional segs = list_all (\<lambda>s. case s of OptionalParam _ \<Rightarrow> True | Wildcard _ \<Rightarrow> True | _ \<Rightarrow> False) segs"

fun match_segments ::
  "(string \<Rightarrow> string) \<Rightarrow> ('c, 's) route \<Rightarrow> segment list \<Rightarrow> string list \<Rightarrow> (string, string) hmap
    \<Rightarrow> (string, string) hmap option"
where
  "match_segments dec r [] actual params = (if actual = [] then Some params else None)"
| "match_segments dec r (Static literal # segs) actual params =
     (case actual of
        [] \<Rightarrow> None
      | a # as \<Rightarrow> if a \<noteq> literal then None else match_segments dec r segs as params)"
| "match_segments dec r (Param name # segs) actual params =
     (case actual of
        [] \<Rightarrow> None
      | a # as \<Rightarrow>
          if \<not> route_allows r name (dec a) then None
          else match_segments dec r segs as (hm_insert name (dec a) params))"
| "match_segments dec r (OptionalParam name # segs) actual params =
     (case actual of
        [] \<Rightarrow> if rest_is_optional segs then Some params else None
      | a # as \<Rightarrow>
          if \<not> route_allows r name (dec a) then None
          else match_segments dec r segs as (hm_insert name (dec a) params))"
| "match_segments dec r (Wildcard name # segs) actual params =
     (let v = dec (join ''/'' actual) in
      if \<not> route_allows r name v then None else match_segments dec r segs [] (hm_insert name v params))"

definition match_path :: "(string \<Rightarrow> string) \<Rightarrow> ('c, 's) route \<Rightarrow> string \<Rightarrow> (string, string) hmap option" where
  "match_path dec r path = match_segments dec r (rt_segments r) (split_path path) []"

definition matches_path_only :: "(string \<Rightarrow> string) \<Rightarrow> ('c, 's) route \<Rightarrow> string \<Rightarrow> bool" where
  "matches_path_only dec r path \<longleftrightarrow> match_path dec r path \<noteq> None"

definition accepts :: "('c, 's) route \<Rightarrow> string \<Rightarrow> bool" where
  "accepts r meth \<longleftrightarrow> meth \<in> set (rt_methods r)"

section \<open>Paths\<close>

lemma split_path_append: "split_path (a @ CHR ''/'' # b) = split_path a @ split_path b"
  by (simp add: split_path_def split_on_append_many)

lemma split_path_Nil [simp]: "split_path [] = []"
  by (simp add: split_path_def)

lemma split_path_slash [simp]: "split_path (CHR ''/'' # b) = split_path b"
  using split_path_append [of "[]" b] by simp

lemma split_path_no_slash: "w \<in> set (split_path p) \<Longrightarrow> CHR ''/'' \<notin> set w \<and> w \<noteq> []"
  by (auto simp: split_path_def dest: split_on_no_sep)

definition piece_ok :: "string \<Rightarrow> bool" where
  "piece_ok w \<longleftrightarrow> w \<noteq> [] \<and> CHR ''/'' \<notin> set w"

lemma split_path_single: "piece_ok w \<Longrightarrow> split_path w = [w]"
  by (simp add: split_path_def piece_ok_def split_on_single)

lemma split_path_join: "list_all piece_ok ws \<Longrightarrow> split_path (join ''/'' ws) = ws"
proof (induction "''/''" ws rule: join.induct)
  case (3 x y xs)
  then show ?case using split_path_append [of x "join ''/'' (y # xs)"]
    by (simp add: split_path_single)
qed (simp_all add: split_path_single)

lemma split_path_pieces: "list_all piece_ok (split_path p)"
  by (auto simp: list_all_iff piece_ok_def dest: split_path_no_slash)

lemma split_path_normalise [simp]: "split_path (normalise_uri u) = split_path u"
  using split_path_join [OF split_path_pieces, of u] by (simp add: normalise_uri_def Let_def)

lemma normalise_idem: "normalise_uri (normalise_uri u) = normalise_uri u"
  unfolding normalise_uri_def [of "normalise_uri u"] split_path_normalise
  by (simp add: normalise_uri_def)

lemma split_path_trim_start: "split_path (trim_start_char CHR ''/'' s) = split_path s"
  by (induction s) (simp_all add: trim_start_char_def)

lemma split_path_snoc [simp]: "split_path (s @ ''/'') = split_path s"
  using split_path_append [of s "[]"] by simp

lemma split_path_trim_end: "split_path (trim_end_char CHR ''/'' s) = split_path s"
  by (induction s rule: rev_induct) (simp_all add: trim_end_char_def)

lemma split_path_trim: "split_path (trim_char CHR ''/'' s) = split_path s"
  by (simp add: trim_char_def split_path_trim_end split_path_trim_start)

text \<open>
  The invariant of a route: its URI is in normal form and its segments are what the URI
  compiles to.
\<close>

definition route_ok :: "('c, 's) route \<Rightarrow> bool" where
  "route_ok r \<longleftrightarrow> normalise_uri (rt_uri r) = rt_uri r \<and> rt_segments r = compile (rt_uri r)"

lemma route_ok_new [simp]: "route_ok (route_new ms u h)"
  by (simp add: route_ok_def route_new_def Let_def normalise_idem)

lemma route_ok_builders [simp]:
  "route_ok (route_named n r) = route_ok r" "route_ok (route_middleware m r) = route_ok r"
  "route_ok (without_middleware t r) = route_ok r" "route_ok (where_param p c r) = route_ok r"
  "route_ok (prepend_middleware m r) = route_ok r" "route_ok (add_constraints cs r) = route_ok r"
  "route_ok (prepend_name n r) = route_ok r"
  by (simp_all add: route_ok_def route_named_def route_middleware_def without_middleware_def
      where_param_def prepend_middleware_def add_constraints_def prepend_name_def)

lemma route_ok_prefix: "route_ok r \<Longrightarrow> route_ok (prefix_with pre r)"
  by (simp add: route_ok_def prefix_with_def Let_def normalise_idem)

lemma prefix_with_split: "split_path (rt_uri (prefix_with pre r)) = split_path pre @ split_path (rt_uri r)"
  using split_path_append [of "trim_char CHR ''/'' pre" "trim_start_char CHR ''/'' (rt_uri r)"]
  by (simp add: prefix_with_def Let_def split_path_trim split_path_trim_start)

lemma compile_eq: "compile u = map compile_piece (split_path u)"
  by (simp add: compile_def)

lemma prefix_with_segments:
  "route_ok r \<Longrightarrow> rt_segments (prefix_with pre r) = compile pre @ rt_segments r"
  using route_ok_prefix [of r pre] by (simp add: route_ok_def compile_eq prefix_with_split)

lemma add_constraints_list_get:
  "hm_get p (add_constraints_list cs own) =
     (case hm_get p own of Some c \<Rightarrow> Some c | None \<Rightarrow> hm_get p cs)"
proof (induction cs own rule: add_constraints_list.induct)
  case (2 q c rest own)
  show ?case
  proof (cases "hm_get q own")
    case None
    then show ?thesis using 2 by (cases "p = q") (auto simp: hm_get_def hm_insert_def update_conv split: option.splits)
  next
    case (Some d)
    then show ?thesis using 2 by (cases "p = q") (auto simp: hm_get_def split: option.splits)
  qed
qed (simp add: hm_get_def split: option.splits)

end
