(* ===== verification/Router.thy ===== *)
theory Router
  imports Route
begin

text \<open>
  The router, \<^verbatim>\<open>rainier-routing/src/router.rs\<close>: declaring routes and groups, compiling them into
  pipelines, and dispatching a request. Compiling reports one of the names declared twice; which
  one is up to the iteration order of a hash map and is the parameter \<open>pick\<close>. Telemetry spans
  are left out. The state of a declaration is the table so far, and the closure of a group is a
  function on it.
\<close>

section \<open>Declaring\<close>

record ('c, 's) group_attributes =
  ga_prefix :: string
  ga_name :: string
  ga_middleware :: "('c, 's) middleware_stack"
  ga_constraints :: "(string, param_constraint) hmap"

definition group_new :: "('c, 's) group_attributes" where
  "group_new = \<lparr>ga_prefix = [], ga_name = [], ga_middleware = stack_new, ga_constraints = []\<rparr>"

definition group_prefix :: "string \<Rightarrow> ('c, 's) group_attributes \<Rightarrow> ('c, 's) group_attributes" where
  "group_prefix p g = g\<lparr>ga_prefix := p\<rparr>"

definition group_name :: "string \<Rightarrow> ('c, 's) group_attributes \<Rightarrow> ('c, 's) group_attributes" where
  "group_name p g = g\<lparr>ga_name := p\<rparr>"

definition group_middleware ::
  "('c, 's) middleware_stack \<Rightarrow> ('c, 's) group_attributes \<Rightarrow> ('c, 's) group_attributes"
where
  "group_middleware m g = g\<lparr>ga_middleware := with_stack m (ga_middleware g)\<rparr>"

definition group_where_param ::
  "string \<Rightarrow> param_constraint \<Rightarrow> ('c, 's) group_attributes \<Rightarrow> ('c, 's) group_attributes"
where
  "group_where_param p c g = g\<lparr>ga_constraints := hm_insert p c (ga_constraints g)\<rparr>"

record ('c, 's) router =
  r_routes :: "('c, 's) route list"
  r_fallback :: "'s destination option"

definition router_new :: "('c, 's) router" where
  "router_new = \<lparr>r_routes = [], r_fallback = None\<rparr>"

text \<open>
  Declaring a route appends it; the borrow handed back configures the last entry, so a
  declaration is the route with its builders applied.
\<close>

definition add_erased ::
  "string list \<Rightarrow> string \<Rightarrow> 's destination \<Rightarrow> (('c, 's) route \<Rightarrow> ('c, 's) route) \<Rightarrow> ('c, 's) router
    \<Rightarrow> ('c, 's) router"
where
  "add_erased methods uri handler configure rt =
     rt\<lparr>r_routes := r_routes rt @ [configure (route_new methods uri handler)]\<rparr>"

definition router_get :: "string \<Rightarrow> 's destination \<Rightarrow> (('c, 's) route \<Rightarrow> ('c, 's) route) \<Rightarrow> ('c, 's) router \<Rightarrow> ('c, 's) router" where
  "router_get = add_erased [''GET'']"
definition router_post :: "string \<Rightarrow> 's destination \<Rightarrow> (('c, 's) route \<Rightarrow> ('c, 's) route) \<Rightarrow> ('c, 's) router \<Rightarrow> ('c, 's) router" where
  "router_post = add_erased [''POST'']"
definition router_put :: "string \<Rightarrow> 's destination \<Rightarrow> (('c, 's) route \<Rightarrow> ('c, 's) route) \<Rightarrow> ('c, 's) router \<Rightarrow> ('c, 's) router" where
  "router_put = add_erased [''PUT'']"
definition router_patch :: "string \<Rightarrow> 's destination \<Rightarrow> (('c, 's) route \<Rightarrow> ('c, 's) route) \<Rightarrow> ('c, 's) router \<Rightarrow> ('c, 's) router" where
  "router_patch = add_erased [''PATCH'']"
definition router_delete :: "string \<Rightarrow> 's destination \<Rightarrow> (('c, 's) route \<Rightarrow> ('c, 's) route) \<Rightarrow> ('c, 's) router \<Rightarrow> ('c, 's) router" where
  "router_delete = add_erased [''DELETE'']"
definition router_options :: "string \<Rightarrow> 's destination \<Rightarrow> (('c, 's) route \<Rightarrow> ('c, 's) route) \<Rightarrow> ('c, 's) router \<Rightarrow> ('c, 's) router" where
  "router_options = add_erased [''OPTIONS'']"
definition router_any :: "string \<Rightarrow> 's destination \<Rightarrow> (('c, 's) route \<Rightarrow> ('c, 's) route) \<Rightarrow> ('c, 's) router \<Rightarrow> ('c, 's) router" where
  "router_any = add_erased [''GET'', ''POST'', ''PUT'', ''PATCH'', ''DELETE'', ''OPTIONS'']"

definition router_redirect ::
  "header_check \<Rightarrow> string \<Rightarrow> string \<Rightarrow> (('c, 's) route \<Rightarrow> ('c, 's) route) \<Rightarrow> ('c, 's) router \<Rightarrow> ('c, 's) router"
where
  "router_redirect valid source target =
     router_get source (\<lambda>rq s. (s, redirect_into_response valid (permanent target)))"

definition has_fallback :: "('c, 's) router \<Rightarrow> bool" where
  "has_fallback rt \<longleftrightarrow> r_fallback rt \<noteq> None"

definition router_fallback :: "'s destination \<Rightarrow> ('c, 's) router \<Rightarrow> ('c, 's) router" where
  "router_fallback h rt = rt\<lparr>r_fallback := Some h\<rparr>"

definition apply_group :: "('c, 's) group_attributes \<Rightarrow> ('c, 's) route \<Rightarrow> ('c, 's) route" where
  "apply_group g r =
     add_constraints (ga_constraints g) (prepend_name (ga_name g)
       (prepend_middleware (ga_middleware g) (prefix_with (ga_prefix g) r)))"

definition router_group ::
  "('c, 's) group_attributes \<Rightarrow> (('c, 's) router \<Rightarrow> ('c, 's) router) \<Rightarrow> ('c, 's) router \<Rightarrow> ('c, 's) router"
where
  "router_group g declare_routes rt =
     (let start = length (r_routes rt); rt1 = declare_routes rt
      in rt1\<lparr>r_routes := take start (r_routes rt1) @ map (apply_group g) (drop start (r_routes rt1))\<rparr>)"

definition router_merge :: "('c, 's) router \<Rightarrow> ('c, 's) router \<Rightarrow> ('c, 's) router" where
  "router_merge other rt =
     rt\<lparr>r_routes := r_routes rt @ r_routes other,
        r_fallback := (if r_fallback rt = None then r_fallback other else r_fallback rt)\<rparr>"

definition uri_for :: "('c, 's) router \<Rightarrow> string \<Rightarrow> string option" where
  "uri_for rt name = map_option rt_uri (find (\<lambda>r. rt_name r = Some name) (r_routes rt))"

definition named_routes :: "('c, 's) router \<Rightarrow> (string \<times> string) list" where
  "named_routes rt = List.map_filter (\<lambda>r. map_option (\<lambda>n. (n, rt_uri r)) (rt_name r)) (r_routes rt)"

record route_summary =
  sm_methods :: "string list"
  sm_uri :: string
  sm_name :: "string option"
  sm_middleware :: "string list"

definition describe :: "('c, 's) router \<Rightarrow> route_summary list" where
  "describe rt = map (\<lambda>r. \<lparr>sm_methods = rt_methods r, sm_uri = rt_uri r, sm_name = rt_name r,
     sm_middleware = stack_labels (rt_middleware r)\<rparr>) (r_routes rt)"

section \<open>Compiling\<close>

record ('c, 's) compiled_route =
  cr_route :: "('c, 's) route"
  cr_pipeline :: "'s ready_pipeline"

record ('c, 's) compiled_router =
  cd_routes :: "('c, 's) compiled_route list"
  cd_fallback :: "'s ready_pipeline option"

definition build_pipeline :: "'c \<Rightarrow> ('c, 's) route \<Rightarrow> 's ready_pipeline result" where
  "build_pipeline c r =
     (case stack_resolve c (rt_middleware r) of
        Inl e \<Rightarrow> Inl (err_internal (''route `'' @ (case rt_methods r of [] \<Rightarrow> ''?'' | m # _ \<Rightarrow> m) @ '' ''
                  @ rt_uri r @ ''`: '' @ error_display e))
      | Inr ms \<Rightarrow>
          Inr (then_arc (rt_handler r)
            (through_all (filter (\<lambda>m. mw_type m \<notin> set (rt_excluded r)) ms) pipeline_new)))"

fun compile_routes :: "'c \<Rightarrow> ('c, 's) route list \<Rightarrow> ('c, 's) compiled_route list result" where
  "compile_routes c [] = Inr []"
| "compile_routes c (r # rs) =
     and_then (build_pipeline c r) (\<lambda>p.
     and_then (compile_routes c rs) (\<lambda>crs. Inr (\<lparr>cr_route = r, cr_pipeline = p\<rparr> # crs)))"

definition route_names :: "('c, 's) router \<Rightarrow> string list" where
  "route_names rt = List.map_filter rt_name (r_routes rt)"

definition duplicated :: "string list \<Rightarrow> string list" where
  "duplicated names = filter (\<lambda>n. count_list names n > 1) (remdups names)"

definition router_compile ::
  "(string list \<Rightarrow> string) \<Rightarrow> 'c \<Rightarrow> ('c, 's) router \<Rightarrow> ('c, 's) compiled_router result"
where
  "router_compile pick c rt =
     (if duplicated (route_names rt) \<noteq> []
      then Inl (err_internal (''two routes are both named `'' @ pick (duplicated (route_names rt))
        @ ''` '' @ EM_DASH @ '' route names must be unique for URL generation to be unambiguous''))
      else and_then (compile_routes c (r_routes rt)) (\<lambda>crs.
        Inr \<lparr>cd_routes = crs,
             cd_fallback = map_option (\<lambda>h. then_arc h pipeline_new) (r_fallback rt)\<rparr>))"

definition compiled_describe :: "('c, 's) compiled_router \<Rightarrow> route_summary list" where
  "compiled_describe cd = map (\<lambda>cr. \<lparr>sm_methods = rt_methods (cr_route cr), sm_uri = rt_uri (cr_route cr),
     sm_name = rt_name (cr_route cr), sm_middleware = stage_names (cr_pipeline cr)\<rparr>) (cd_routes cd)"

definition compiled_uri_for :: "('c, 's) compiled_router \<Rightarrow> string \<Rightarrow> string option" where
  "compiled_uri_for cd name =
     map_option (\<lambda>cr. rt_uri (cr_route cr)) (find (\<lambda>cr. rt_name (cr_route cr) = Some name) (cd_routes cd))"

definition compiled_named_routes :: "('c, 's) compiled_router \<Rightarrow> (string \<times> string) list" where
  "compiled_named_routes cd =
     List.map_filter (\<lambda>cr. map_option (\<lambda>n. (n, rt_uri (cr_route cr))) (rt_name (cr_route cr))) (cd_routes cd)"

definition not_found_response :: "header_check \<Rightarrow> response" where
  "not_found_response valid = error_into_response valid (err_not_found ''Not Found'')"

section \<open>Dispatching\<close>

definition insert_methods :: "string list \<Rightarrow> string list \<Rightarrow> string list" where
  "insert_methods ms allowed = fold (\<lambda>m acc. if m \<in> set acc then acc else acc @ [m]) ms allowed"

text \<open>The answer when the loop ends without a match.\<close>

definition unmatched ::
  "header_check \<Rightarrow> ('c, 's) compiled_router \<Rightarrow> string list \<Rightarrow> 's destination"
where
  "unmatched valid cd allowed rq s =
     (if allowed \<noteq> []
      then (s, with_header valid ''allow'' (join '', '' allowed)
             (error_into_response valid (error_new MethodNotAllowed
               (''The '' @ rq_method rq @ '' method is not supported for this route.''))))
      else (case cd_fallback cd of
              Some p \<Rightarrow> pipeline_run p rq s
            | None \<Rightarrow> (s, error_into_response valid (err_not_found (''No route matches '' @ rq_path rq)))))"

fun dispatch_loop ::
  "(string \<Rightarrow> string) \<Rightarrow> header_check \<Rightarrow> ('c, 's) compiled_router \<Rightarrow> ('c, 's) compiled_route list
    \<Rightarrow> string list \<Rightarrow> 's destination"
where
  "dispatch_loop dec valid cd [] allowed rq s = unmatched valid cd allowed rq s"
| "dispatch_loop dec valid cd (cr # crs) allowed rq s =
     (case match_path dec (cr_route cr) (rq_path rq) of
        None \<Rightarrow> dispatch_loop dec valid cd crs allowed rq s
      | Some params \<Rightarrow>
          if \<not> accepts (cr_route cr) (rq_method rq)
          then dispatch_loop dec valid cd crs (insert_methods (rt_methods (cr_route cr)) allowed) rq s
          else pipeline_run (cr_pipeline cr)
                 (rq\<lparr>rq_params := params,
                     rq_matched := Some \<lparr>mr_name = rt_name (cr_route cr), mr_uri = rt_uri (cr_route cr),
                       mr_methods = rt_methods (cr_route cr)\<rparr>\<rparr>) s)"

definition dispatch :: "(string \<Rightarrow> string) \<Rightarrow> header_check \<Rightarrow> ('c, 's) compiled_router \<Rightarrow> 's destination" where
  "dispatch dec valid cd rq s = dispatch_loop dec valid cd (cd_routes cd) [] rq s"

section \<open>Lemmas\<close>

lemma insert_methods_append: "insert_methods (a @ b) acc = insert_methods b (insert_methods a acc)"
  by (simp add: insert_methods_def)

text \<open>The loop, told by which route it takes: the first that matches path and method.\<close>

definition takes :: "(string \<Rightarrow> string) \<Rightarrow> routed \<Rightarrow> ('c, 's) compiled_route \<Rightarrow> bool" where
  "takes dec rq cr \<longleftrightarrow>
     matches_path_only dec (cr_route cr) (rq_path rq) \<and> accepts (cr_route cr) (rq_method rq)"

definition allowed_methods :: "(string \<Rightarrow> string) \<Rightarrow> routed \<Rightarrow> ('c, 's) compiled_route list \<Rightarrow> string list" where
  "allowed_methods dec rq crs = insert_methods
     (concat (map (\<lambda>cr. rt_methods (cr_route cr))
       (filter (\<lambda>cr. matches_path_only dec (cr_route cr) (rq_path rq)) crs))) []"

definition serve :: "(string \<Rightarrow> string) \<Rightarrow> ('c, 's) compiled_route \<Rightarrow> 's destination" where
  "serve dec cr rq = pipeline_run (cr_pipeline cr)
     (rq\<lparr>rq_params := the (match_path dec (cr_route cr) (rq_path rq)),
         rq_matched := Some \<lparr>mr_name = rt_name (cr_route cr), mr_uri = rt_uri (cr_route cr),
           mr_methods = rt_methods (cr_route cr)\<rparr>\<rparr>)"

lemma dispatch_loop_eq:
  "dispatch_loop dec valid cd crs acc rq s =
     (case find (takes dec rq) crs of
        Some cr \<Rightarrow> serve dec cr rq s
      | None \<Rightarrow> unmatched valid cd (insert_methods
          (concat (map (\<lambda>cr. rt_methods (cr_route cr))
            (filter (\<lambda>cr. matches_path_only dec (cr_route cr) (rq_path rq)) crs))) acc) rq s)"
proof (induction crs arbitrary: acc)
  case (Cons cr crs)
  then show ?case
    by (cases "match_path dec (cr_route cr) (rq_path rq)")
      (simp_all add: takes_def [of dec rq cr] matches_path_only_def [of dec "cr_route cr" "rq_path rq"]
        serve_def [of dec cr] insert_methods_append split: option.split)
qed (simp add: insert_methods_def)

lemma set_insert_methods: "set (insert_methods ms acc) = set ms \<union> set acc"
  by (induction ms arbitrary: acc) (auto simp: insert_methods_def)

lemma distinct_insert_methods: "distinct acc \<Longrightarrow> distinct (insert_methods ms acc)"
  by (induction ms arbitrary: acc) (auto simp: insert_methods_def)


section \<open>Groups\<close>

text \<open>The effect of a group on one route, in terms of what the route serves.\<close>

lemma apply_group_simps [simp]:
  "rt_methods (apply_group g r) = rt_methods r" "rt_handler (apply_group g r) = rt_handler r"
  "rt_excluded (apply_group g r) = rt_excluded r"
  "ms_stages (rt_middleware (apply_group g r)) = ms_stages (ga_middleware g) @ ms_stages (rt_middleware r)"
  "rt_name (apply_group g r) = map_option (\<lambda>n. ga_name g @ n) (rt_name r)"
  by (simp_all add: apply_group_def add_constraints_def prepend_name_def prepend_middleware_def
      prefix_with_def stack_prepend_def Let_def option.map_ident)

lemma apply_group_ok: "route_ok r \<Longrightarrow> route_ok (apply_group g r)"
  by (simp add: apply_group_def route_ok_prefix)

lemma apply_group_segments: "route_ok r \<Longrightarrow> rt_segments (apply_group g r) = compile (ga_prefix g) @ rt_segments r"
  by (simp add: apply_group_def add_constraints_def prepend_name_def prepend_middleware_def
      prefix_with_segments)

lemma apply_group_constraint:
  "hm_get p (rt_constraints (apply_group g r)) =
     (case hm_get p (rt_constraints r) of Some c \<Rightarrow> Some c | None \<Rightarrow> hm_get p (ga_constraints g))"
  by (simp add: apply_group_def add_constraints_def prepend_name_def prepend_middleware_def
      prefix_with_def Let_def add_constraints_list_get)

definition router_ok :: "('c, 's) router \<Rightarrow> bool" where
  "router_ok rt \<longleftrightarrow> list_all route_ok (r_routes rt)"

text \<open>What a declaration may do: append routes, whatever the table holds already.\<close>

definition declares :: "(('c, 's) router \<Rightarrow> ('c, 's) router) \<Rightarrow> ('c, 's) route list \<Rightarrow> bool" where
  "declares f rs \<longleftrightarrow> (\<forall>rt. r_routes (f rt) = r_routes rt @ rs)"

lemma declares_add: "declares (add_erased ms u h cfg) [cfg (route_new ms u h)]"
  by (simp add: declares_def add_erased_def)

lemma declares_comp: "declares f xs \<Longrightarrow> declares g ys \<Longrightarrow> declares (g \<circ> f) (xs @ ys)"
  by (simp add: declares_def)

lemma declares_group: "declares f rs \<Longrightarrow> declares (router_group g f) (map (apply_group g) rs)"
  by (simp add: declares_def router_group_def Let_def)

text \<open>
  Groups nest. Declaring routes inside two nested groups gives routes that are the declared
  ones with both prefixes (outer first), both name prefixes, the middleware of the outer group
  around that of the inner one around the route's own, and for each parameter the innermost
  constraint that was set; handlers, methods and exclusions are kept, nothing declared before
  changes, and every route stays in normal form with its pattern compiled.
\<close>

theorem groups_nest:
  assumes "declares f rs" and "list_all route_ok rs"
  shows "declares (router_group outer (router_group inner f)) (map (apply_group outer \<circ> apply_group inner) rs)
    \<and> (\<forall>r \<in> set rs. let r' = apply_group outer (apply_group inner r) in route_ok r'
      \<and> rt_segments r' = compile (ga_prefix outer) @ compile (ga_prefix inner) @ rt_segments r
      \<and> ms_stages (rt_middleware r') =
          ms_stages (ga_middleware outer) @ ms_stages (ga_middleware inner) @ ms_stages (rt_middleware r)
      \<and> rt_name r' = map_option (\<lambda>n. ga_name outer @ ga_name inner @ n) (rt_name r)
      \<and> rt_methods r' = rt_methods r \<and> rt_handler r' = rt_handler r \<and> rt_excluded r' = rt_excluded r
      \<and> (\<forall>p. hm_get p (rt_constraints r') =
          (case hm_get p (rt_constraints r) of Some c \<Rightarrow> Some c
           | None \<Rightarrow> (case hm_get p (ga_constraints inner) of Some c \<Rightarrow> Some c
                     | None \<Rightarrow> hm_get p (ga_constraints outer)))))"
proof (intro conjI ballI)
  show "declares (router_group outer (router_group inner f)) (map (apply_group outer \<circ> apply_group inner) rs)"
    using declares_group [OF declares_group [OF assms(1), of inner], of outer] by simp
next
  fix r assume "r \<in> set rs"
  then have ok: "route_ok r" using assms(2) by (simp add: list_all_iff)
  then show "let r' = apply_group outer (apply_group inner r) in route_ok r'
      \<and> rt_segments r' = compile (ga_prefix outer) @ compile (ga_prefix inner) @ rt_segments r
      \<and> ms_stages (rt_middleware r') =
          ms_stages (ga_middleware outer) @ ms_stages (ga_middleware inner) @ ms_stages (rt_middleware r)
      \<and> rt_name r' = map_option (\<lambda>n. ga_name outer @ ga_name inner @ n) (rt_name r)
      \<and> rt_methods r' = rt_methods r \<and> rt_handler r' = rt_handler r \<and> rt_excluded r' = rt_excluded r
      \<and> (\<forall>p. hm_get p (rt_constraints r') =
          (case hm_get p (rt_constraints r) of Some c \<Rightarrow> Some c
           | None \<Rightarrow> (case hm_get p (ga_constraints inner) of Some c \<Rightarrow> Some c
                     | None \<Rightarrow> hm_get p (ga_constraints outer))))"
    by (auto simp: Let_def apply_group_ok apply_group_segments apply_group_constraint option.map_comp o_def
        split: option.splits)
qed

definition posts :: "(unit, nat) route" where
  "posts = route_named ''posts.show'' (route_new [''GET''] ''posts/{post}'' (\<lambda>rq s. (s, response_new 200)))"

definition v1 :: "(unit, nat) group_attributes" where "v1 = group_prefix ''/v1'' group_new"
definition api :: "(unit, nat) group_attributes" where "api = group_prefix ''api/'' group_new"

lemma posts_patterns: "compile (ga_prefix v1) = [Static ''v1'']" "compile (ga_prefix api) = [Static ''api'']"
  "rt_segments posts = [Static ''posts'', Param ''post'']"
  by (simp_all add: v1_def api_def group_prefix_def group_new_def compile_def split_path_def
      compile_piece_def strip_prefix_char_def strip_suffix_char_def posts_def route_named_def
      route_new_def normalise_uri_def Let_def)

theorem groups_nest_witness:
  "declares (router_group v1 (router_group api
       (add_erased [''GET''] ''posts/{post}'' (\<lambda>rq s. (s, response_new 200)) (route_named ''posts.show''))))
     (map (apply_group v1 \<circ> apply_group api) [posts])
   \<and> rt_segments (apply_group v1 (apply_group api posts))
       = [Static ''v1'', Static ''api'', Static ''posts'', Param ''post'']"
proof -
  have d: "declares (add_erased [''GET''] ''posts/{post}'' (\<lambda>rq s. (s, response_new 200))
      (route_named ''posts.show'')) [posts]"
    unfolding posts_def by (rule declares_add)
  have ok: "list_all route_ok [posts]" by (simp add: posts_def)
  note nest = groups_nest [OF d ok, of v1 api]
  have "rt_segments (apply_group v1 (apply_group api posts)) =
      compile (ga_prefix v1) @ compile (ga_prefix api) @ rt_segments posts"
    using nest [THEN conjunct2, THEN bspec, of posts, unfolded Let_def] by simp
  then show ?thesis using nest [THEN conjunct1] by (simp add: posts_patterns)
qed

section \<open>Compiling is exact\<close>

lemma distinct_count: "distinct xs \<longleftrightarrow> (\<forall>x \<in> set xs. count_list xs x \<le> 1)"
proof (induction xs)
  case (Cons y ys)
  have "count_list ys y = 0 \<longleftrightarrow> y \<notin> set ys" by (rule count_list_0_iff)
  then show ?case using Cons by (auto simp del: count_list_0_iff split: if_splits)
qed simp

lemma duplicated_Nil: "duplicated names = [] \<longleftrightarrow> distinct names"
  unfolding distinct_count by (auto simp: duplicated_def filter_empty_conv not_less)

lemma compile_routes_exact:
  "compile_routes c rs = Inr crs \<Longrightarrow> map cr_route crs = rs
   \<and> (\<forall>cr \<in> set crs. build_pipeline c (cr_route cr) = Inr (cr_pipeline cr))"
  by (induction rs arbitrary: crs) (auto simp: and_then_Inr)

lemma build_pipeline_exact:
  "build_pipeline c r = Inr p \<longleftrightarrow> (\<exists>ms. stack_resolve c (rt_middleware r) = Inr ms
     \<and> p = \<lparr>rp_stages = filter (\<lambda>m. mw_type m \<notin> set (rt_excluded r)) ms, rp_destination = rt_handler r\<rparr>)"
  by (auto simp: build_pipeline_def then_arc_def through_all_def pipeline_new_def split: sum.splits)

text \<open>
  A router that compiles has unambiguous names, keeps the declared routes in order, and
  each route's pipeline is exactly its resolved middleware, in order, without the types it
  excludes, in front of its handler.
\<close>

theorem router_compile_exact:
  assumes "router_compile pick c rt = Inr cd"
  shows "distinct (route_names rt) \<and> map cr_route (cd_routes cd) = r_routes rt
    \<and> (\<forall>cr \<in> set (cd_routes cd). \<exists>ms. stack_resolve c (rt_middleware (cr_route cr)) = Inr ms
        \<and> rp_stages (cr_pipeline cr) = filter (\<lambda>m. mw_type m \<notin> set (rt_excluded (cr_route cr))) ms
        \<and> rp_destination (cr_pipeline cr) = rt_handler (cr_route cr))"
  using assms compile_routes_exact [of c "r_routes rt" "cd_routes cd"]
  by (fastforce simp: router_compile_def and_then_Inr duplicated_Nil build_pipeline_exact split: if_splits)

definition demo_router :: "(unit, nat) router" where
  "demo_router = \<lparr>r_routes = [without_middleware ''refuse'' (route_middleware (stack_with refuse stack_new) posts)],
     r_fallback = None\<rparr>"

theorem router_compile_exact_witness:
  "let cd = projr (router_compile hd () demo_router) in
   distinct (route_names demo_router) \<and> map cr_route (cd_routes cd) = r_routes demo_router
    \<and> (\<forall>cr \<in> set (cd_routes cd). \<exists>ms. stack_resolve () (rt_middleware (cr_route cr)) = Inr ms
        \<and> rp_stages (cr_pipeline cr) = filter (\<lambda>m. mw_type m \<notin> set (rt_excluded (cr_route cr))) ms
        \<and> rp_destination (cr_pipeline cr) = rt_handler (cr_route cr))"
proof -
  have "\<exists>cd. router_compile hd () demo_router = Inr cd"
    by (simp add: router_compile_def demo_router_def duplicated_Nil route_names_def map_filter_simps
        build_pipeline_def stack_resolve_def route_middleware_def without_middleware_def stack_with_def
        with_stack_def stack_new_def posts_def route_named_def route_new_def Let_def)
  then obtain cd where cd: "router_compile hd () demo_router = Inr cd" by blast
  show ?thesis unfolding cd Let_def sum.sel by (rule router_compile_exact [OF cd])
qed

end
