(* ===== verification/Percent.thy ===== *)
theory Percent
  imports Prelude
begin

text \<open>
  The interface to the \<^verbatim>\<open>percent_encoding\<close> package: the encoder is a function of the set of ASCII
  characters to escape and the text, the decoder turns escapes into bytes and converts to UTF-8
  lossily. \<open>percent_laws\<close> says what their documentation promises, and an encoder and a decoder
  written from that documentation show that the laws can hold.
\<close>

section \<open>The laws\<close>

type_synonym encoder = "(char \<Rightarrow> bool) \<Rightarrow> string \<Rightarrow> string"

definition CONTROLS :: "char \<Rightarrow> bool" where
  "CONTROLS c \<longleftrightarrow> (of_char c :: nat) < 0x20 \<or> (of_char c :: nat) = 0x7F"

definition escape_chars :: "char set" where
  "escape_chars = set ''%0123456789ABCDEF''"

text \<open>A set of characters to escape that leaves the escape sequences themselves alone.\<close>

definition escapable :: "(char \<Rightarrow> bool) \<Rightarrow> bool" where
  "escapable S \<longleftrightarrow> S CHR ''%'' \<and> (\<forall>d < 16. \<not> S (hex_upper d))"

definition percent_laws :: "encoder \<Rightarrow> (string \<Rightarrow> string) \<Rightarrow> bool" where
  "percent_laws enc dec \<longleftrightarrow>
     (\<forall>S s. escapable S \<longrightarrow> (utf8_valid s \<longrightarrow> dec (enc S s) = s)
        \<and> (\<forall>c \<in> set (enc S s). (of_char c :: nat) < 0x80 \<and> (c = CHR ''%'' \<or> \<not> S c)
          \<and> (c \<in> set s \<or> c \<in> escape_chars)) \<and> (enc S s = [] \<longleftrightarrow> s = []))"

lemma percent_lawsD:
  assumes "percent_laws enc dec" "escapable S"
  shows "utf8_valid s \<Longrightarrow> dec (enc S s) = s" "c \<in> set (enc S s) \<Longrightarrow> c = CHR ''%'' \<or> \<not> S c"
    "enc S s = [] \<longleftrightarrow> s = []" "c \<in> set (enc S s) \<Longrightarrow> (of_char c :: nat) < 0x80"
    "c \<in> set (enc S s) \<Longrightarrow> c \<in> set s \<or> c \<in> escape_chars"
  using assms unfolding percent_laws_def by blast+

lemma hex_upper_list:
  "map hex_upper [0..<16] = ''0123456789ABCDEF''"
  by code_simp

lemma less_16: "d < 16 \<Longrightarrow> hex_upper d \<in> set ''0123456789ABCDEF''"
  unfolding hex_upper_list [symmetric] by simp

lemma enc_free:
  assumes "percent_laws enc dec" "escapable S" "S c" "c \<noteq> CHR ''%''"
  shows "c \<notin> set (enc S s)"
  using percent_lawsD(2) [OF assms(1,2)] assms(3,4) by blast

section \<open>An encoder with these laws\<close>

definition pct_char :: "(char \<Rightarrow> bool) \<Rightarrow> char \<Rightarrow> string" where
  "pct_char S c = (let n = (of_char c :: nat) in
     if S c \<or> 128 \<le> n then [CHR ''%'', hex_upper (n div 16), hex_upper (n mod 16)] else [c])"

definition pct_encode :: encoder where
  "pct_encode S s = concat (map (pct_char S) s)"

fun pct_bytes :: "string \<Rightarrow> string" where
  "pct_bytes [] = []"
| "pct_bytes (c # s) =
     (if c \<noteq> CHR ''%'' then c # pct_bytes s
      else case s of
        a # b # r \<Rightarrow>
          (case (hex_value a, hex_value b) of
             (Some x, Some y) \<Rightarrow> char_of (16 * x + y) # pct_bytes r
           | _ \<Rightarrow> c # pct_bytes s)
      | _ \<Rightarrow> c # pct_bytes s)"

definition pct_decode :: "string \<Rightarrow> string" where
  "pct_decode s = from_utf8_lossy (pct_bytes s)"

lemma hex_value_list: "map hex_value ''0123456789ABCDEF'' = map Some [0..<16]"
  by code_simp

lemma hex_value_hex_upper: "d < 16 \<Longrightarrow> hex_value (hex_upper d) = Some d"
  using arg_cong [OF hex_value_list [unfolded hex_upper_list [symmetric]], of "\<lambda>xs. xs ! d"] by simp

lemma of_char_div_16: "(of_char c :: nat) div 16 < 16"
  using of_char_less_256 [of c] by (simp add: less_mult_imp_div_less)

lemma pct_bytes_char: "escapable S \<Longrightarrow> pct_bytes (pct_char S c @ t) = c # pct_bytes t"
proof -
  assume S: "escapable S"
  let ?n = "of_char c :: nat"
  have "hex_value (hex_upper (?n div 16)) = Some (?n div 16)"
    "hex_value (hex_upper (?n mod 16)) = Some (?n mod 16)"
    by (simp_all add: hex_value_hex_upper of_char_div_16)
  moreover have "char_of (16 * (?n div 16) + ?n mod 16) = c" by simp
  ultimately show ?thesis using S by (auto simp: pct_char_def Let_def escapable_def)
qed

lemma pct_bytes_encode: "escapable S \<Longrightarrow> pct_bytes (pct_encode S s) = s"
  by (induction s) (simp_all add: pct_encode_def pct_bytes_char)

lemma hex_upper_ascii: "d < 16 \<Longrightarrow> (of_char (hex_upper d) :: nat) < 0x80"
  by (simp add: hex_upper_def take_bit_eq_mod)

lemma pct_char_set:
  assumes S: "escapable S" and d: "d \<in> set (pct_char S c)"
  shows "(of_char d :: nat) < 0x80 \<and> (d = CHR ''%'' \<or> \<not> S d) \<and> (d = c \<or> d \<in> escape_chars)"
proof -
  consider "d = c" "\<not> S c" "(of_char c :: nat) < 0x80" | "d = CHR ''%''" | k where "k < 16" "d = hex_upper k"
    using d of_char_div_16 [of c] mod_less_divisor [of 16 "of_char c :: nat"]
    by (auto simp: pct_char_def Let_def simp del: mod_less_divisor split: if_splits)
  then show ?thesis
  proof cases
    case 3
    then show ?thesis using S less_16 [of k] by (simp add: hex_upper_ascii escapable_def escape_chars_def)
  qed (simp_all add: escape_chars_def)
qed

lemma pct_laws: "percent_laws pct_encode pct_decode"
proof -
  have empty: "pct_encode S s = [] \<longleftrightarrow> s = []" for S s
    by (cases s) (auto simp: pct_encode_def pct_char_def Let_def)
  have encoded: "\<forall>c \<in> set (pct_encode S s). (of_char c :: nat) < 0x80 \<and> (c = CHR ''%'' \<or> \<not> S c)
      \<and> (c \<in> set s \<or> c \<in> escape_chars)" if "escapable S" for S s
  proof
    fix c assume "c \<in> set (pct_encode S s)"
    then obtain x where "x \<in> set s" "c \<in> set (pct_char S x)" by (auto simp: pct_encode_def)
    then show "(of_char c :: nat) < 0x80 \<and> (c = CHR ''%'' \<or> \<not> S c) \<and> (c \<in> set s \<or> c \<in> escape_chars)"
      using pct_char_set [OF that, of c x] by blast
  qed
  show ?thesis unfolding percent_laws_def
  proof (intro allI impI conjI)
    fix S s assume S: "escapable S"
    show "\<forall>c \<in> set (pct_encode S s). (of_char c :: nat) < 0x80 \<and> (c = CHR ''%'' \<or> \<not> S c)
      \<and> (c \<in> set s \<or> c \<in> escape_chars)" by (rule encoded [OF S])
    show "pct_decode (pct_encode S s) = s" if "utf8_valid s"
      using that by (simp add: pct_decode_def pct_bytes_encode [OF S] from_utf8_lossy_id)
  qed (rule empty)
qed

end
