(* ===== verification/Url.thy ===== *)
theory Url
  imports Router Percent "HOL-Library.Char_ord" "HOL-Library.List_Lexorder" "HOL-Library.Product_Lexorder"
begin

text \<open>
  URL generation, \<^verbatim>\<open>rainier-routing/src/url.rs\<close>. The encoder of the \<^verbatim>\<open>percent_encoding\<close> package is a
  parameter \<open>enc\<close> with the laws of theory \<open>Percent\<close>.
\<close>

section \<open>The code\<close>

definition PATH_SEGMENT :: "char \<Rightarrow> bool" where
  "PATH_SEGMENT c \<longleftrightarrow> CONTROLS c \<or> c = CHR 0x22 \<or> c = CHR 0x60 \<or> c \<in> set '' #<>?{}/%''"

definition QUERY_COMPONENT :: "char \<Rightarrow> bool" where
  "QUERY_COMPONENT c \<longleftrightarrow> CONTROLS c \<or> c = CHR 0x22 \<or> c = CHR 0x60 \<or> c \<in> set '' #<>{}%&=+?''"

record url_generator =
  ug_routes :: "(string, string) hmap"
  ug_base :: "string option"

definition hm_of :: "('k \<times> 'v) list \<Rightarrow> ('k, 'v) hmap" where
  "hm_of kvs = fold (\<lambda>(k, v) m. hm_insert k v m) kvs []"

definition url_new :: url_generator where
  "url_new = \<lparr>ug_routes = [], ug_base = None\<rparr>"

definition from_routes :: "(string \<times> string) list \<Rightarrow> url_generator" where
  "from_routes rs = \<lparr>ug_routes = hm_of rs, ug_base = None\<rparr>"

definition with_base :: "string \<Rightarrow> url_generator \<Rightarrow> url_generator" where
  "with_base base g = g\<lparr>ug_base := Some (trim_end_char CHR ''/'' base)\<rparr>"

definition url_insert :: "string \<Rightarrow> string \<Rightarrow> url_generator \<Rightarrow> url_generator" where
  "url_insert name uri g = g\<lparr>ug_routes := hm_insert name uri (ug_routes g)\<rparr>"

definition url_has :: "url_generator \<Rightarrow> string \<Rightarrow> bool" where
  "url_has g name = hm_contains name (ug_routes g)"

text \<open>The loop over the segments: the path so far and the parameters not yet used.\<close>

fun url_path ::
  "encoder \<Rightarrow> string \<Rightarrow> segment list \<Rightarrow> (string, string) hmap \<Rightarrow> string
    \<Rightarrow> (string \<times> (string, string) hmap) result"
where
  "url_path enc name [] supplied path = Inr (path, supplied)"
| "url_path enc name (Static literal # segs) supplied path =
     url_path enc name segs supplied (path @ ''/'' @ literal)"
| "url_path enc name (Param param # segs) supplied path =
     (case hm_get param supplied of
        None \<Rightarrow> Inl (err_internal (''the `'' @ name @ ''` route needs a `'' @ param @ ''` parameter''))
      | Some v \<Rightarrow>
          url_path enc name segs (hm_remove param supplied) (path @ ''/'' @ enc PATH_SEGMENT v))"
| "url_path enc name (OptionalParam param # segs) supplied path =
     (case hm_get param supplied of
        None \<Rightarrow> url_path enc name segs supplied path
      | Some v \<Rightarrow>
          url_path enc name segs (hm_remove param supplied) (path @ ''/'' @ enc PATH_SEGMENT v))"
| "url_path enc name (Wildcard param # segs) supplied path =
     (case hm_get param supplied of
        None \<Rightarrow> url_path enc name segs supplied path
      | Some v \<Rightarrow>
          url_path enc name segs (hm_remove param supplied)
            (path @ ''/'' @ join ''/'' (map (enc PATH_SEGMENT) (split_on CHR ''/'' v))))"

definition url_query :: "encoder \<Rightarrow> (string \<times> string) list \<Rightarrow> string" where
  "url_query enc extras =
     join ''&'' (map (\<lambda>(k, v). enc QUERY_COMPONENT k @ ''='' @ enc QUERY_COMPONENT v) extras)"

definition url_route :: "encoder \<Rightarrow> url_generator \<Rightarrow> string \<Rightarrow> (string \<times> string) list \<Rightarrow> string result" where
  "url_route enc g name params =
     (case hm_get name (ug_routes g) of
        None \<Rightarrow> Inl (err_internal (''no route is named `'' @ name @ ''` '' @ EM_DASH
          @ '' check the name, or that the route is registered before URLs are generated''))
      | Some pattern \<Rightarrow>
          and_then (url_path enc name (compile pattern) (hm_of params) []) (\<lambda>(path, supplied).
            let path = (if path = [] then ''/'' else path)
            in if supplied = [] then Inr path
               else Inr (path @ ''?'' @ url_query enc (sort supplied))))"

definition url_to :: "url_generator \<Rightarrow> string \<Rightarrow> string" where
  "url_to g path =
     (case ug_base g of
        Some base \<Rightarrow> if path \<noteq> [] \<and> hd path = CHR ''/'' then base @ path else base @ ''/'' @ path
      | None \<Rightarrow> path)"

definition url_absolute :: "encoder \<Rightarrow> url_generator \<Rightarrow> string \<Rightarrow> (string \<times> string) list \<Rightarrow> string result" where
  "url_absolute enc g name params = and_then (url_route enc g name params) (\<lambda>path. Inr (url_to g path))"

section \<open>The escape sets\<close>

lemma escapable_sets: "escapable PATH_SEGMENT" "escapable QUERY_COMPONENT"
proof -
  have "list_all (\<lambda>c. \<not> PATH_SEGMENT c \<and> \<not> QUERY_COMPONENT c) ''0123456789ABCDEF''"
    by (simp add: PATH_SEGMENT_def QUERY_COMPONENT_def CONTROLS_def)
  then have "\<not> PATH_SEGMENT (hex_upper d) \<and> \<not> QUERY_COMPONENT (hex_upper d)" if "d < 16" for d
    using less_16 [OF that] unfolding list_all_iff by blast
  then show "escapable PATH_SEGMENT" "escapable QUERY_COMPONENT"
    by (simp_all add: escapable_def) (simp_all add: PATH_SEGMENT_def QUERY_COMPONENT_def)
qed

section \<open>The path\<close>

definition seg_names :: "segment list \<Rightarrow> string list" where
  "seg_names segs = List.map_filter segment_param segs"

lemma seg_names_simps [simp]:
  "seg_names [] = []" "seg_names (s # segs) = (case segment_param s of None \<Rightarrow> [] | Some n \<Rightarrow> [n]) @ seg_names segs"
  by (simp_all add: seg_names_def List.map_filter_simps split: option.split)

fun seg_text :: "encoder \<Rightarrow> (string, string) hmap \<Rightarrow> segment \<Rightarrow> string" where
  "seg_text enc given (Static l) = l"
| "seg_text enc given (Param n) = enc PATH_SEGMENT (the (hm_get n given))"
| "seg_text enc given (OptionalParam n) = enc PATH_SEGMENT (the (hm_get n given))"
| "seg_text enc given (Wildcard n) = enc PATH_SEGMENT (the (hm_get n given))"

definition no_wildcard :: "segment list \<Rightarrow> bool" where
  "no_wildcard segs \<longleftrightarrow> list_all (\<lambda>s. case s of Wildcard _ \<Rightarrow> False | _ \<Rightarrow> True) segs"

definition supplies :: "(string, string) hmap \<Rightarrow> segment list \<Rightarrow> bool" where
  "supplies given segs \<longleftrightarrow> distinct (seg_names segs) \<and> (\<forall>n \<in> set (seg_names segs). hm_get n given \<noteq> None)"

lemma seg_text_remove:
  "n \<notin> set (seg_names segs) \<Longrightarrow> map (seg_text enc (hm_remove n given)) segs = map (seg_text enc given) segs"
proof (induction segs)
  case (Cons s segs)
  then show ?case by (cases s) auto
qed simp

lemma supplies_remove: "supplies given segs \<Longrightarrow> n \<notin> set (seg_names segs) \<Longrightarrow> supplies (hm_remove n given) segs"
  by (auto simp: supplies_def)

definition slashed :: "string list \<Rightarrow> string" where
  "slashed ws = concat (map (\<lambda>w. CHR ''/'' # w) ws)"

lemma slashed_simps [simp]: "slashed [] = []" "slashed (w # ws) = CHR ''/'' # w @ slashed ws"
  by (simp_all add: slashed_def)

lemma url_path_eq:
  "no_wildcard segs \<Longrightarrow> supplies given segs \<Longrightarrow>
   url_path enc name segs given path =
     Inr (path @ slashed (map (seg_text enc given) segs), fold hm_remove (seg_names segs) given)"
proof (induction segs arbitrary: given path)
  case (Cons s segs)
  have nw: "no_wildcard segs" using Cons.prems(1) by (simp add: no_wildcard_def)
  have sg: "supplies given segs" using Cons.prems(2) by (auto simp: supplies_def)
  show ?case
  proof (cases "segment_param s")
    case None
    then obtain l where "s = Static l" by (cases s) auto
    then show ?thesis using Cons.IH [OF nw sg] by simp
  next
    case (Some n)
    then obtain v where n: "n \<notin> set (seg_names segs)" "hm_get n given = Some v"
      using Cons.prems(2) by (auto simp: supplies_def)
    note rest = Cons.IH [OF nw supplies_remove [OF sg n(1)]]
    show ?thesis using Cons.prems(1) Some n rest
      by (cases s) (simp_all add: no_wildcard_def seg_text_remove)
  qed
qed (simp add: slashed_def)

lemma split_path_slashed: "list_all piece_ok ws \<Longrightarrow> split_path (slashed ws) = ws"
proof (induction ws)
  case (Cons w ws)
  show ?case
  proof (cases ws)
    case Nil
    then show ?thesis using Cons.prems by (simp add: split_path_single)
  next
    case (Cons y ys)
    then have "split_path (w @ slashed ws) = split_path w @ split_path (slashed ws)"
      using split_path_append [of w "y @ slashed ys"] by simp
    then show ?thesis using Cons.IH \<open>list_all piece_ok (w # ws)\<close> by (simp add: split_path_single)
  qed
qed simp

text \<open>The supplied values a route accepts: not empty, text, and within the constraints.\<close>

definition value_ok :: "('c, 's) route \<Rightarrow> (string, string) hmap \<Rightarrow> string \<Rightarrow> bool" where
  "value_ok r given n \<longleftrightarrow> (case hm_get n given of None \<Rightarrow> False
     | Some v \<Rightarrow> v \<noteq> [] \<and> utf8_valid v \<and> route_allows r n v)"

lemma match_segments_generated:
  assumes laws: "percent_laws enc dec"
  shows "no_wildcard segs \<Longrightarrow> distinct (seg_names segs) \<Longrightarrow> \<forall>n \<in> set (seg_names segs). value_ok r given n \<Longrightarrow>
    \<exists>m. match_segments dec r segs (map (seg_text enc given) segs) m0 = Some m
      \<and> (\<forall>n. hm_get n m = (if n \<in> set (seg_names segs) then hm_get n given else hm_get n m0))"
proof (induction segs arbitrary: m0)
  case (Cons s segs)
  have nw: "no_wildcard segs" using Cons.prems(1) by (simp add: no_wildcard_def)
  show ?case
  proof (cases "segment_param s")
    case None
    then obtain l where "s = Static l" by (cases s) auto
    then show ?thesis using Cons nw by simp
  next
    case (Some n)
    then obtain v where n: "n \<notin> set (seg_names segs)" "hm_get n given = Some v"
      and v: "utf8_valid v" "route_allows r n v"
      using Cons.prems(2,3) by (auto simp: value_ok_def split: option.splits)
    have "dec (enc PATH_SEGMENT v) = v"
      by (rule percent_lawsD(1) [OF laws escapable_sets(1) v(1)])
    moreover obtain m where "match_segments dec r segs (map (seg_text enc given) segs) (hm_insert n v m0) = Some m"
      "\<forall>k. hm_get k m = (if k \<in> set (seg_names segs) then hm_get k given else hm_get k (hm_insert n v m0))"
      using Cons.IH [OF nw, of "hm_insert n v m0"] Cons.prems(2,3) by (auto split: option.splits)
    ultimately show ?thesis using Cons.prems(1) Some n v
      by (cases s) (auto simp: no_wildcard_def)
  qed
qed simp

section \<open>The query\<close>

definition parse_pair :: "(string \<Rightarrow> string) \<Rightarrow> string \<Rightarrow> string \<times> string" where
  "parse_pair dec p =
     (case split_once CHR ''='' p of Some (k, v) \<Rightarrow> (dec k, dec v) | None \<Rightarrow> (dec p, []))"

definition parse_query :: "(string \<Rightarrow> string) \<Rightarrow> string \<Rightarrow> (string \<times> string) list" where
  "parse_query dec q = (if q = [] then [] else map (parse_pair dec) (split_on CHR ''&'' q))"

lemma parse_query_url_query:
  assumes laws: "percent_laws enc dec" and valid_text: "\<forall>(k, v) \<in> set kvs. utf8_valid k \<and> utf8_valid v"
  shows "parse_query dec (url_query enc kvs) = kvs"
    and "kvs \<noteq> [] \<Longrightarrow> url_query enc kvs \<noteq> []" and "CHR ''?'' \<notin> set (url_query enc kvs)"
proof -
  let ?item = "\<lambda>(k, v). enc QUERY_COMPONENT k @ ''='' @ enc QUERY_COMPONENT v"
  have free: "c \<notin> set (enc QUERY_COMPONENT s)" if "c \<in> set ''&=?''" for c s
    using that by (intro enc_free [OF laws escapable_sets(2)]) (auto simp: QUERY_COMPONENT_def)
  have amp: "\<forall>w \<in> set (map ?item kvs). CHR ''&'' \<notin> set w" using free by auto
  have item: "parse_pair dec (?item kv) = kv" if "kv \<in> set kvs" for kv
  proof (cases kv)
    case (Pair k v)
    have "CHR ''='' \<notin> set (enc QUERY_COMPONENT k)" using free by simp
    then show ?thesis
      using Pair that valid_text percent_lawsD(1) [OF laws escapable_sets(2)]
      by (auto simp: parse_pair_def split_once_append)
  qed
  show ne: "kvs \<noteq> [] \<Longrightarrow> url_query enc kvs \<noteq> []"
    unfolding url_query_def by (cases kvs rule: remdups_adj.cases) auto
  show "parse_query dec (url_query enc kvs) = kvs"
  proof (cases kvs)
    case Nil
    then show ?thesis by (simp add: parse_query_def url_query_def)
  next
    case (Cons kv rest)
    then have "split_on CHR ''&'' (url_query enc kvs) = map ?item kvs"
      unfolding url_query_def using amp by (intro split_on_join) simp_all
    moreover have "map (parse_pair dec) (map ?item kvs) = kvs"
      unfolding map_map by (rule map_idI) (simp only: o_apply item)
    moreover have "url_query enc kvs \<noteq> []" using ne Cons by blast
    ultimately show ?thesis by (simp add: parse_query_def)
  qed
  have "\<forall>c \<in> set (join ''&'' (map ?item kvs)). c \<noteq> CHR ''?''"
    using free by (intro join_chars) auto
  then show "CHR ''?'' \<notin> set (url_query enc kvs)" unfolding url_query_def by blast
qed

section \<open>Generated URLs\<close>

lemma hm_wf_hm_of: "hm_wf (hm_of kvs)"
proof -
  have "hm_wf m \<Longrightarrow> hm_wf (fold (\<lambda>(k, v) m. hm_insert k v m) kvs m)" for m :: "('a, 'b) hmap"
    by (induction kvs arbitrary: m) auto
  then show ?thesis by (simp add: hm_of_def)
qed

lemma hm_insert_subset: "set (hm_insert k v m) \<subseteq> insert (k, v) (set m)"
  by (induction m) (auto simp: hm_insert_def)

lemma set_hm_of: "set (hm_of kvs) \<subseteq> set kvs"
proof -
  have "set (fold (\<lambda>(k, v) m. hm_insert k v m) kvs m) \<subseteq> set kvs \<union> set m" for m :: "('a, 'b) hmap"
    using hm_insert_subset by (induction kvs arbitrary: m) fastforce+
  then show ?thesis by (fastforce simp: hm_of_def)
qed

lemma set_fold_remove: "set (fold hm_remove ns m) \<subseteq> set m"
proof (induction ns arbitrary: m)
  case (Cons n ns)
  have "set (hm_remove n m) \<subseteq> set m" by (auto simp: hm_remove_def AList.delete_eq)
  then show ?case using Cons [of "hm_remove n m"] by auto
qed simp

lemma hm_wf_fold_remove: "hm_wf m \<Longrightarrow> hm_wf (fold hm_remove ns m)"
  by (induction ns arbitrary: m) simp_all

lemma map_of_sort: "hm_wf m \<Longrightarrow> map_of (sort m) k = hm_get k (m :: (string, string) hmap)"
  unfolding hm_get_def hm_wf_def
  by (rule arg_cong [where f = "\<lambda>f. f k"], rule map_of_inject_set [THEN iffD2])
     (auto simp: distinct_map)

lemma hm_get_fold_remove:
  "hm_get k (fold hm_remove ns m) = (if k \<in> set ns then None else hm_get k m)"
  by (induction ns arbitrary: m) auto

definition split_url :: "string \<Rightarrow> string \<times> string" where
  "split_url url = (case split_once CHR ''?'' url of Some pq \<Rightarrow> pq | None \<Rightarrow> (url, []))"

lemma seg_text_piece:
  assumes "percent_laws enc dec" "no_wildcard segs" "\<forall>n \<in> set (seg_names segs). value_ok r given n"
    and "\<forall>l. Static l \<in> set segs \<longrightarrow> piece_ok l \<and> CHR ''?'' \<notin> set l"
  shows "list_all (\<lambda>w. piece_ok w \<and> CHR ''?'' \<notin> set w) (map (seg_text enc given) segs)"
  using assms(2-)
proof (induction segs)
  case (Cons s segs)
  have enc: "piece_ok (enc PATH_SEGMENT v) \<and> CHR ''?'' \<notin> set (enc PATH_SEGMENT v)" if "v \<noteq> []" for v
    using that percent_lawsD(3) [OF assms(1) escapable_sets(1)]
      enc_free [OF assms(1) escapable_sets(1), of "CHR ''/''"] enc_free [OF assms(1) escapable_sets(1), of "CHR ''?''"]
    by (simp add: piece_ok_def PATH_SEGMENT_def)
  have "piece_ok (seg_text enc given s) \<and> CHR ''?'' \<notin> set (seg_text enc given s)"
    using Cons.prems enc by (cases s) (auto simp: no_wildcard_def value_ok_def split: option.splits)
  then show ?case using Cons by (auto simp: no_wildcard_def)
qed simp

lemma compile_static: "Static l \<in> set (compile u) \<Longrightarrow> piece_ok l"
proof -
  assume "Static l \<in> set (compile u)"
  then obtain w where w: "w \<in> set (split_path u)" "compile_piece w = Static l"
    by (auto simp: compile_def)
  then have "l = w" by (auto simp: compile_piece_def split: option.splits)
  then show ?thesis using w(1) split_path_pieces [of u] by (simp add: list_all_iff)
qed

definition static_ok :: "segment list \<Rightarrow> bool" where
  "static_ok segs \<longleftrightarrow> list_all (\<lambda>s. case s of Static l \<Rightarrow> CHR ''?'' \<notin> set l | _ \<Rightarrow> True) segs"

lemma static_okD: "static_ok segs \<Longrightarrow> Static l \<in> set segs \<Longrightarrow> CHR ''?'' \<notin> set l"
  by (auto simp: static_ok_def list_all_iff)

lemma slashed_chars: "list_all (\<lambda>w. c \<notin> set w) ws \<Longrightarrow> c \<noteq> CHR ''/'' \<Longrightarrow> c \<notin> set (slashed ws)"
  by (induction ws) auto

lemma split_url_plain: "CHR ''?'' \<notin> set p \<Longrightarrow> split_url p = (p, [])"
  by (simp add: split_url_def split_once_skip)

lemma split_url_query: "CHR ''?'' \<notin> set p \<Longrightarrow> split_url (p @ CHR ''?'' # q) = (p, q)"
  by (simp add: split_url_def split_once_append)

text \<open>
  A generated URL leads back. For a named route whose pattern has no wildcard and whose
  parameters are all supplied with non-empty values its constraints allow, the path of the URL
  is one the route matches, capturing exactly the values that were given, and the query decodes
  to the remaining parameters, sorted.
\<close>

lemma url_route_leads_back:
  assumes laws: "percent_laws enc dec"
    and route: "hm_get name (ug_routes g) = Some pattern" "rt_segments r = compile pattern"
    and pat: "no_wildcard (compile pattern)" "distinct (seg_names (compile pattern))" "static_ok (compile pattern)"
    and vals: "\<forall>n \<in> set (seg_names (compile pattern)). value_ok r (hm_of params) n"
    and params: "\<forall>(k, v) \<in> set params. utf8_valid k \<and> utf8_valid v"
  shows "\<exists>url m extras. url_route enc g name params = Inr url
    \<and> match_path dec r (fst (split_url url)) = Some m
    \<and> (\<forall>n. hm_get n m = (if n \<in> set (seg_names (compile pattern)) then hm_get n (hm_of params) else None))
    \<and> parse_query dec (snd (split_url url)) = extras \<and> sorted extras
    \<and> (\<forall>k. map_of extras k = (if k \<in> set (seg_names (compile pattern)) then None else hm_get k (hm_of params)))"
proof -
  let ?segs = "compile pattern" and ?given = "hm_of params"
  let ?ws = "map (seg_text enc ?given) ?segs" and ?rest = "fold hm_remove (seg_names ?segs) ?given"
  let ?path = "if slashed ?ws = [] then ''/'' else slashed ?ws" and ?q = "url_query enc (sort ?rest)"
  have "supplies ?given ?segs" using vals pat(2) by (auto simp: supplies_def value_ok_def split: option.splits)
  note path = url_path_eq [OF pat(1) this, of enc name "[]", unfolded append_Nil]
  have pieces: "list_all (\<lambda>w. piece_ok w \<and> CHR ''?'' \<notin> set w) ?ws"
    using seg_text_piece [OF laws pat(1) vals] compile_static static_okD [OF pat(3)] by blast
  then have free: "CHR ''?'' \<notin> set ?path"
    using slashed_chars [of "CHR ''?''" ?ws] by (auto simp: list_all_iff)
  have "split_path ?path = ?ws"
    using split_path_slashed [of ?ws] pieces by (auto simp: list_all_iff)
  then obtain m where m: "match_path dec r ?path = Some m"
    "\<forall>n. hm_get n m = (if n \<in> set (seg_names ?segs) then hm_get n ?given else None)"
    using match_segments_generated [OF laws pat(1,2) vals, of "[]"] by (auto simp: match_path_def route(2))
  have "\<forall>(k, v) \<in> set (sort ?rest). utf8_valid k \<and> utf8_valid v"
    using params set_fold_remove [of "seg_names ?segs" ?given] set_hm_of [of params] by auto
  note q = parse_query_url_query(1) [OF laws this]
  have get: "map_of (sort ?rest) k = (if k \<in> set (seg_names ?segs) then None else hm_get k ?given)" for k
    by (simp add: map_of_sort hm_wf_fold_remove hm_wf_hm_of hm_get_fold_remove)
  let ?url = "if ?rest = [] then ?path else ?path @ ''?'' @ ?q"
  have url: "url_route enc g name params = Inr ?url"
    using path by (simp add: url_route_def route(1) Let_def)
  have split: "split_url ?url = (?path, if ?rest = [] then [] else ?q)"
    using split_url_plain [OF free] split_url_query [OF free] by simp
  have "parse_query dec (snd (split_url ?url)) = sort ?rest"
    unfolding split using q by (auto simp: parse_query_def)
  then have "url_route enc g name params = Inr ?url \<and> match_path dec r (fst (split_url ?url)) = Some m
      \<and> parse_query dec (snd (split_url ?url)) = sort ?rest \<and> sorted (sort ?rest)"
    using url m(1) split by (simp only: fst_conv sorted_sort)
  then show ?thesis using m(2) get by blast
qed

section \<open>The named routes of a compiled router\<close>

lemma hm_get_hm_of: "hm_get k (hm_of kvs) = map_of (rev kvs) k"
  by (induction kvs rule: rev_induct) (auto simp: hm_of_def)

lemma compiled_routes: "router_compile pick c rt = Inr cd \<Longrightarrow> map cr_route (cd_routes cd) = r_routes rt"
  using compile_routes_exact [of c "r_routes rt" "cd_routes cd"]
  by (fastforce simp: router_compile_def and_then_Inr split: if_splits)

lemma compiled_names:
  "router_compile pick c rt = Inr cd \<Longrightarrow> map fst (compiled_named_routes cd) = route_names rt"
proof -
  assume cd: "router_compile pick c rt = Inr cd"
  have "map fst (List.map_filter (\<lambda>cr. map_option (\<lambda>n. (n, rt_uri (cr_route cr))) (rt_name (cr_route cr))) crs)
      = List.map_filter rt_name (map cr_route crs)" for crs :: "('a, 'b) compiled_route list"
    by (induction crs) (auto simp: map_filter_simps split: option.split)
  then have "map fst (compiled_named_routes cd) = List.map_filter rt_name (map cr_route (cd_routes cd))"
    by (simp only: compiled_named_routes_def)
  then show ?thesis using compiled_routes [OF cd] by (simp add: route_names_def)
qed

lemma compiled_distinct: "router_compile pick c rt = Inr cd \<Longrightarrow> distinct (route_names rt)"
  by (auto simp: router_compile_def duplicated_Nil split: if_splits)

lemma compiled_url:
  assumes "router_compile pick c rt = Inr cd" "cr \<in> set (cd_routes cd)" "rt_name (cr_route cr) = Some n"
  shows "hm_get n (ug_routes (from_routes (compiled_named_routes cd))) = Some (rt_uri (cr_route cr))"
proof -
  have "(n, rt_uri (cr_route cr)) \<in> set (compiled_named_routes cd)"
    using assms(2,3) by (force simp: compiled_named_routes_def List.map_filter_def)
  then show ?thesis
    using compiled_names [OF assms(1)] compiled_distinct [OF assms(1)]
    by (simp add: from_routes_def hm_get_hm_of rev_map [symmetric])
qed

lemma find_skip: "\<forall>x \<in> set xs. \<not> P x \<Longrightarrow> P y \<Longrightarrow> find P (xs @ y # ys) = Some y"
  by (induction xs) auto

lemma dispatch_reaches:
  assumes "cd_routes cd = xs @ cr # ys" "\<forall>x \<in> set xs. \<not> takes dec rq x"
    "match_path dec (cr_route cr) (rq_path rq) = Some m" "accepts (cr_route cr) (rq_method rq)"
  shows "dispatch dec valid cd rq s = serve dec cr rq s"
proof -
  have "takes dec rq cr" using assms(3,4) by (simp add: takes_def matches_path_only_def)
  then show ?thesis by (simp add: dispatch_def dispatch_loop_eq assms(1) find_skip [OF assms(2)])
qed

end
