(* ===== verification/Trust_Proxies.thy ===== *)
theory Trust_Proxies
  imports Pipeline
begin

text \<open>
  Deciding which client address to believe, \<^verbatim>\<open>rainier-middleware/src/proxy.rs\<close>: networks in CIDR
  notation, which peers are trusted, and the address a request is credited to. The warning that
  is logged for an entry that does not parse is left out.
\<close>

unbundle bit_operations_syntax

section \<open>The code\<close>

record cidr =
  cd_address :: ip_addr
  cd_prefix :: nat

definition cidr_parse :: "string \<Rightarrow> cidr option" where
  "cidr_parse v =
     (let v = trim v;
          (address, pre) = (case split_once CHR ''/'' v of Some (a, p) \<Rightarrow> (a, Some p) | None \<Rightarrow> (v, None))
      in case ip_parse address of
           None \<Rightarrow> None
         | Some a \<Rightarrow>
             let full = (if is_ipv4 a then 32 else 128)
             in (case pre of
                   Some p \<Rightarrow>
                     (case parse_uint 255 p of
                        None \<Rightarrow> None
                      | Some n \<Rightarrow> if n > full then None else Some \<lparr>cd_address = a, cd_prefix = n\<rparr>)
                 | None \<Rightarrow> Some \<lparr>cd_address = a, cd_prefix = full\<rparr>))"

definition prefix_matches :: "octet list \<Rightarrow> octet list \<Rightarrow> nat \<Rightarrow> bool" where
  "prefix_matches network candidate pre =
     (let whole = pre div 8 in
      if take whole network \<noteq> take whole candidate then False
      else let remaining = pre mod 8 in
        if remaining = 0 then True
        else let mask = push_bit (8 - remaining) (0xFF :: octet)
             in (network ! whole) AND mask = (candidate ! whole) AND mask)"

fun same_family :: "ip_addr \<Rightarrow> ip_addr \<Rightarrow> bool" where
  "same_family (V4 _) (V4 _) = True"
| "same_family (V6 _) (V6 _) = True"
| "same_family _ _ = False"

definition cidr_contains :: "cidr \<Rightarrow> ip_addr \<Rightarrow> bool" where
  "cidr_contains n candidate =
     (if same_family (cd_address n) candidate
      then prefix_matches (ip_octets (cd_address n)) (ip_octets candidate) (cd_prefix n) else False)"

datatype trusted = TrustNone | TrustAll | These "cidr list"

fun trusted_accepts :: "trusted \<Rightarrow> ip_addr \<Rightarrow> bool" where
  "trusted_accepts TrustNone peer = False"
| "trusted_accepts TrustAll peer = True"
| "trusted_accepts (These networks) peer = list_ex (\<lambda>n. cidr_contains n peer) networks"

fun is_known_hop :: "trusted \<Rightarrow> ip_addr \<Rightarrow> bool" where
  "is_known_hop TrustNone a = False"
| "is_known_hop TrustAll a = False"
| "is_known_hop (These networks) a = list_ex (\<lambda>n. cidr_contains n a) networks"

record trust_proxies =
  tp_trusted :: trusted
  tp_header :: string

definition trust_new :: trust_proxies where
  "trust_new = \<lparr>tp_trusted = TrustNone, tp_header = ''x-forwarded-for''\<rparr>"

definition trust_all :: trust_proxies where
  "trust_all = trust_new\<lparr>tp_trusted := TrustAll\<rparr>"

definition trust_these :: "string list \<Rightarrow> trust_proxies" where
  "trust_these networks = trust_new\<lparr>tp_trusted := These (List.map_filter cidr_parse networks)\<rparr>"

definition trust_header :: "string \<Rightarrow> trust_proxies \<Rightarrow> trust_proxies" where
  "trust_header h tp = tp\<lparr>tp_header := to_ascii_lowercase h\<rparr>"

definition trusts_anything :: "trust_proxies \<Rightarrow> bool" where
  "trusts_anything tp \<longleftrightarrow> tp_trusted tp \<noteq> TrustNone"

definition chain_addresses :: "string \<Rightarrow> ip_addr list" where
  "chain_addresses h = List.map_filter (\<lambda>e. ip_parse (trim e)) (rev (split_on CHR '','' h))"

definition resolve_client :: "trust_proxies \<Rightarrow> 'a request_scheme \<Rightarrow> ip_addr \<Rightarrow> ip_addr" where
  "resolve_client tp rq peer =
     (if \<not> trusted_accepts (tp_trusted tp) peer then peer
      else case request_header (tp_header tp) rq of
             None \<Rightarrow> peer
           | Some h \<Rightarrow>
               (case find (\<lambda>a. \<not> is_known_hop (tp_trusted tp) a) (chain_addresses h) of
                  Some a \<Rightarrow> a
                | None \<Rightarrow> peer))"

definition trust_handle :: "trust_proxies \<Rightarrow> routed \<Rightarrow> 's destination \<Rightarrow> 's \<Rightarrow> 's \<times> response" where
  "trust_handle tp rq k s =
     (case rq_ip rq of
        Some peer \<Rightarrow>
          (let client = resolve_client tp rq peer
           in k (if client \<noteq> peer then rq\<lparr>rq_ip := Some client\<rparr> else rq) s)
      | None \<Rightarrow> k rq s)"

section \<open>Networks as bit strings\<close>

definition octet_bits :: "octet \<Rightarrow> bool list" where
  "octet_bits w = map (bit w) [7, 6, 5, 4, 3, 2, 1, 0]"

definition ip_bits :: "octet list \<Rightarrow> bool list" where
  "ip_bits os = concat (map octet_bits os)"

lemma octet_bits_upt: "octet_bits w = map (\<lambda>i. bit w (7 - i)) [0..<8]"
  by (simp add: octet_bits_def upt_rec numeral_eq_Suc)

lemma length_octet_bits [simp]: "length (octet_bits w) = 8"
  by (simp add: octet_bits_def)

lemma length_ip_bits [simp]: "length (ip_bits os) = 8 * length os"
  by (induction os) (simp_all add: ip_bits_def)

lemma octet_bits_inject: "octet_bits w = octet_bits v \<longleftrightarrow> w = v"
proof
  assume eq: "octet_bits w = octet_bits v"
  show "w = v"
  proof (rule bit_word_eqI)
    fix n assume "n < LENGTH(8)"
    then have "n \<in> {0, 1, 2, 3, 4, 5, 6, 7}" by auto
    then show "bit w n = bit v n" using eq by (auto simp: octet_bits_def)
  qed
qed simp

text \<open>The masked comparison of one octet is the comparison of its leading bits.\<close>

lemma masked_octet:
  assumes "0 < r" "r < 8"
  shows "w AND push_bit (8 - r) 0xFF = v AND push_bit (8 - r) (0xFF :: octet)
    \<longleftrightarrow> take r (octet_bits w) = take r (octet_bits v)"
proof -
  have masked: "w AND push_bit k 0xFF = v AND push_bit k (0xFF :: octet)
      \<longleftrightarrow> (\<forall>n < 8. k \<le> n \<longrightarrow> bit w n = bit v n)" for k
  proof -
    have "(0xFF :: octet) = - 1" by simp
    then show ?thesis by (auto simp: bit_eq_iff bit_simps)
  qed
  have taken: "take r (octet_bits x) = map (\<lambda>i. bit x (7 - i)) [0..<r]" for x
    using assms by (simp add: octet_bits_upt take_map)
  have "(\<forall>n < 8. 8 - r \<le> n \<longrightarrow> bit w n = bit v n) \<longleftrightarrow> (\<forall>i < r. bit w (7 - i) = bit v (7 - i))"
  proof
    assume all: "\<forall>i < r. bit w (7 - i) = bit v (7 - i)"
    have "bit w n = bit v n" if "n < 8" "8 - r \<le> n" for n
      using all [rule_format, of "7 - n"] that assms by simp
    then show "\<forall>n < 8. 8 - r \<le> n \<longrightarrow> bit w n = bit v n" by blast
  qed (use assms in auto)
  then show ?thesis unfolding masked taken by (simp add: Ball_def)
qed

lemma prefix_matches_Cons:
  "prefix_matches (a # as) (b # bs) p =
     (if 8 \<le> p then a = b \<and> prefix_matches as bs (p - 8)
      else p = 0 \<or> a AND push_bit (8 - p) 0xFF = b AND push_bit (8 - p) 0xFF)"
proof (cases "8 \<le> p")
  case True
  then obtain q where "p = q + 8" by (metis le_add_diff_inverse2)
  moreover have "(q + 8) div 8 = Suc (q div 8)" "(q + 8) mod 8 = q mod 8" by simp_all
  ultimately show ?thesis by (simp add: prefix_matches_def Let_def)
qed (auto simp: prefix_matches_def Let_def)

lemma prefix_matches_bits:
  "length as = length bs \<Longrightarrow> p \<le> 8 * length as \<Longrightarrow>
   prefix_matches as bs p \<longleftrightarrow> take p (ip_bits as) = take p (ip_bits bs)"
proof (induction as bs arbitrary: p rule: list_induct2)
  case (Cons a as b bs)
  show ?case
  proof (cases "8 \<le> p")
    case True
    then show ?thesis using Cons
      by (auto simp: prefix_matches_Cons ip_bits_def octet_bits_inject [symmetric])
  next
    case False
    then show ?thesis using masked_octet [of p a b]
      by (cases "p = 0") (auto simp: prefix_matches_Cons ip_bits_def)
  qed
qed (simp add: prefix_matches_def ip_bits_def)

lemma cidr_parse_ok:
  "cidr_parse t = Some n \<Longrightarrow> ip_ok (cd_address n) \<and> cd_prefix n \<le> 8 * length (ip_octets (cd_address n))"
  by (auto simp: cidr_parse_def Let_def ip_ok_def dest!: ip_parse_ok split: option.splits prod.splits if_splits)

text \<open>
  A network is a bit prefix. For every text that \<^verbatim>\<open>Cidr::parse\<close> accepts, \<^verbatim>\<open>contains\<close> holds of
  an address exactly when it is of the same family and its first \<open>prefix\<close> bits are those of the
  network's address; the octets compared are always within bounds.
\<close>

theorem cidr_contains_prefix:
  assumes "cidr_parse t = Some n" and "ip_ok a"
  shows "(cidr_contains n a \<longleftrightarrow> same_family (cd_address n) a
      \<and> take (cd_prefix n) (ip_bits (ip_octets a)) = take (cd_prefix n) (ip_bits (ip_octets (cd_address n))))
    \<and> cd_prefix n \<le> length (ip_bits (ip_octets (cd_address n)))"
proof -
  have ok: "ip_ok (cd_address n)" "cd_prefix n \<le> 8 * length (ip_octets (cd_address n))"
    using cidr_parse_ok [OF assms(1)] by auto
  have "length (ip_octets (cd_address n)) = length (ip_octets a)" if "same_family (cd_address n) a"
    using that ok(1) assms(2) by (cases "cd_address n"; cases a) (auto simp: ip_ok_def)
  then show ?thesis using ok prefix_matches_bits [of "ip_octets (cd_address n)" "ip_octets a" "cd_prefix n"]
    by (auto simp: cidr_contains_def)
qed

theorem cidr_contains_prefix_witness:
  "cidr_contains (the (cidr_parse ''172.16.0.0/12'')) (V4 [172, 31, 255, 255])
   \<and> \<not> cidr_contains (the (cidr_parse ''172.16.0.0/12'')) (V4 [172, 32, 0, 0])"
proof -
  have n: "cidr_parse ''172.16.0.0/12'' = Some \<lparr>cd_address = V4 [172, 16, 0, 0], cd_prefix = 12\<rparr>"
    by code_simp
  have "ip_ok (V4 [172, 31, 255, 255])" "ip_ok (V4 [172, 32, 0, 0])" by (simp_all add: ip_ok_def)
  from this [THEN cidr_contains_prefix [OF n]] show ?thesis
    unfolding n by (simp add: ip_bits_def octet_bits_def bit_numeral_rec)
qed

section \<open>Who the client is\<close>

lemma chain_addresses_append:
  "chain_addresses (f @ CHR '','' # a) = chain_addresses a @ chain_addresses f"
  by (simp add: chain_addresses_def split_on_append_many List.map_filter_def)

lemma find_append: "find P (xs @ ys) = (case find P xs of Some x \<Rightarrow> Some x | None \<Rightarrow> find P ys)"
  by (induction xs) auto

lemma find_SomeD: "find P xs = Some x \<Longrightarrow> P x"
  by (induction xs) (auto split: if_splits)



end
