(* ===== verification/Request_Input.thy ===== *)
theory Request_Input
  imports Pipeline
begin

text \<open>
  The inputs of a request: \<^verbatim>\<open>rainier-http/src/input.rs\<close> (query strings and forms as a JSON tree with
  PHP's bracket notation), \<^verbatim>\<open>upload.rs\<close> (multipart bodies) and the accessors of \<^verbatim>\<open>request.rs\<close>. The
  parsers of the packages \<^verbatim>\<open>form_urlencoded\<close> and \<^verbatim>\<open>serde_json\<close> are the parameters \<open>form\<close> (the pairs of
  a query string) and \<open>json\<close> (the value of a text, if it is one). A JSON object is the list of its
  fields with distinct keys.
\<close>

section \<open>Trees\<close>

datatype key_segment = Key string | Append

lemma split_once_length: "split_once c s = Some (a, b) \<Longrightarrow> length b < length s"
  by (auto dest!: split_once_Some)

function bracket_segments :: "string \<Rightarrow> key_segment list" where
  "bracket_segments s =
     (case strip_prefix_char CHR ''['' s of
        None \<Rightarrow> []
      | Some stripped \<Rightarrow>
          (case split_once CHR '']'' stripped of
             None \<Rightarrow> [Key stripped]
           | Some (name, r) \<Rightarrow> (if name = [] then Append else Key name) # bracket_segments r))"
  by pat_completeness auto
termination
  by (relation "measure length")
    (auto simp: strip_prefix_char_def dest!: split_once_length split: if_splits)

declare bracket_segments.simps [simp del]

definition parse_segments :: "string \<Rightarrow> key_segment list" where
  "parse_segments key =
     (case split_once CHR ''['' key of
        None \<Rightarrow> [Key key]
      | Some (name, r) \<Rightarrow> Key name # bracket_segments (CHR ''['' # r))"

fun as_object :: "json \<Rightarrow> (string, json) hmap" where
  "as_object (JObject m) = m"
| "as_object _ = []"

fun as_array :: "json \<Rightarrow> json list" where
  "as_array (JArray xs) = xs"
| "as_array _ = []"

text \<open>A repeated key becomes an array.\<close>

fun put_repeated :: "json option \<Rightarrow> json \<Rightarrow> json" where
  "put_repeated None v = v"
| "put_repeated (Some (JArray xs)) v = JArray (xs @ [v])"
| "put_repeated (Some e) v = JArray [e, v]"

fun insert_segments :: "json \<Rightarrow> key_segment list \<Rightarrow> json \<Rightarrow> json" where
  "insert_segments target [] v = v"
| "insert_segments target [Key name] v =
     (let m = as_object target in JObject (hm_insert name (put_repeated (hm_get name m) v) m))"
| "insert_segments target [Append] v = JArray (as_array target @ [v])"
| "insert_segments target (Key name # r) v =
     (let m = as_object target;
          child = (case hm_get name m of Some c \<Rightarrow> c | None \<Rightarrow> JNull)
      in JObject (hm_insert name (insert_segments child r v) m))"
| "insert_segments target (Append # r) v = JArray (as_array target @ [insert_segments JNull r v])"

definition insert_input :: "json \<Rightarrow> string \<Rightarrow> json \<Rightarrow> json" where
  "insert_input target key v =
     (let segments = parse_segments key in if segments \<noteq> [] then insert_segments target segments v else target)"

definition parse_urlencoded :: "(string \<Rightarrow> (string \<times> string) list) \<Rightarrow> string \<Rightarrow> json" where
  "parse_urlencoded form raw = fold (\<lambda>(k, v) root. insert_input root k (JString v)) (form raw) (JObject [])"

definition lookup_step :: "json \<Rightarrow> string \<Rightarrow> json option" where
  "lookup_step cursor seg =
     (case cursor of
        JObject m \<Rightarrow> hm_get seg m
      | JArray xs \<Rightarrow>
          (case parse_uint u64_max seg of
             Some i \<Rightarrow> if i < length xs then Some (xs ! i) else None
           | None \<Rightarrow> None)
      | _ \<Rightarrow> None)"

fun lookup_path :: "json \<Rightarrow> string list \<Rightarrow> json option" where
  "lookup_path cursor [] = Some cursor"
| "lookup_path cursor (seg # segs) = Option.bind (lookup_step cursor seg) (\<lambda>c. lookup_path c segs)"

definition lookup_input :: "json \<Rightarrow> string \<Rightarrow> json option" where
  "lookup_input root path = lookup_path root (split_on CHR ''.'' path)"

fun scalar_to_string :: "json \<Rightarrow> string option" where
  "scalar_to_string (JString s) = Some s"
| "scalar_to_string (JNumber n) = Some n"
| "scalar_to_string (JBool b) = Some (if b then ''true'' else ''false'')"
| "scalar_to_string _ = None"

fun merge :: "json \<Rightarrow> json \<Rightarrow> json"
  and merge_fields :: "(string, json) hmap \<Rightarrow> (string \<times> json) list \<Rightarrow> (string, json) hmap"
where
  "merge base overlay =
     (case (base, overlay) of
        (JObject b, JObject fs) \<Rightarrow> JObject (merge_fields b fs)
      | _ \<Rightarrow> overlay)"
| "merge_fields b [] = b"
| "merge_fields b ((k, v) # fs) =
     merge_fields
       (hm_insert k (case hm_get k b of Some existing \<Rightarrow> merge existing v | None \<Rightarrow> v) (hm_remove k b)) fs"

section \<open>Multipart bodies\<close>

fun find_sub :: "string \<Rightarrow> string \<Rightarrow> nat option" where
  "find_sub needle [] = None"
| "find_sub needle (c # s) =
     (if needle = [] \<or> length (c # s) < length needle then None
      else if prefix needle (c # s) then Some 0
      else map_option Suc (find_sub needle s))"

lemma find_sub_Some: "find_sub needle s = Some i \<Longrightarrow> needle \<noteq> [] \<and> i + length needle \<le> length s"
  by (induction s arbitrary: i) (auto split: if_splits)

function split_sub :: "string \<Rightarrow> string \<Rightarrow> string list" where
  "split_sub needle s =
     (case find_sub needle s of
        None \<Rightarrow> [s]
      | Some at \<Rightarrow> take at s # split_sub needle (drop (at + length needle) s))"
  by pat_completeness auto
termination
  by (relation "measure (\<lambda>(needle, s). length s)")
    (auto dest!: find_sub_Some simp flip: length_greater_0_conv)

declare split_sub.simps [simp del]

definition split_once_sub :: "string \<Rightarrow> string \<Rightarrow> (string \<times> string) option" where
  "split_once_sub needle s = map_option (\<lambda>at. (take at s, drop (at + length needle) s)) (find_sub needle s)"

definition CRLF :: string where "CRLF = [CHR 0x0D, CHR 0x0A]"

text \<open>\<^verbatim>\<open>str::lines\<close>: split at newlines, without a final empty line, each without its carriage return.\<close>

definition text_lines :: "string \<Rightarrow> string list" where
  "text_lines s =
     (let ls = split_on CHR 0x0A s; ls = (if last ls = [] then butlast ls else ls)
      in map (\<lambda>l. case strip_suffix_char CHR 0x0D l of Some t \<Rightarrow> t | None \<Rightarrow> l) ls)"

definition unquote :: "string \<Rightarrow> string" where
  "unquote v = (case Option.bind (strip_prefix_char CHR 0x22 v) (strip_suffix_char CHR 0x22) of
                  Some t \<Rightarrow> t | None \<Rightarrow> v)"

text \<open>The parameter of a header value; a piece without an equals sign ends the search.\<close>

fun find_param :: "string \<Rightarrow> string list \<Rightarrow> string option" where
  "find_param param [] = None"
| "find_param param (piece # pieces) =
     (case split_once CHR ''='' piece of
        None \<Rightarrow> None
      | Some (name, v) \<Rightarrow>
          if eq_ignore_ascii_case (trim name) param then Some (unquote (trim v)) else find_param param pieces)"

definition boundary_of :: "string \<Rightarrow> string option" where
  "boundary_of content_type =
     (case split_once CHR '';'' content_type of
        None \<Rightarrow> None
      | Some (_, params) \<Rightarrow> find_param ''boundary'' (split_on CHR '';'' params))"

definition header_param :: "string \<Rightarrow> string \<Rightarrow> string option" where
  "header_param header param = find_param param (tl (split_on CHR '';'' header))"

definition parse_headers :: "string \<Rightarrow> (string, string) hmap" where
  "parse_headers head =
     fold (\<lambda>line m. case split_once CHR '':'' line of
                      Some (name, v) \<Rightarrow> hm_insert (to_ascii_lowercase (trim name)) (trim v) m
                    | None \<Rightarrow> m) (text_lines (from_utf8_lossy head)) []"

record uploaded_file =
  uf_field :: string
  uf_file_name :: "string option"
  uf_content_type :: "string option"
  uf_bytes :: string

definition uf_size :: "uploaded_file \<Rightarrow> nat" where
  "uf_size f = length (uf_bytes f)"

definition uf_is_empty :: "uploaded_file \<Rightarrow> bool" where
  "uf_is_empty f \<longleftrightarrow> uf_bytes f = []"

definition uf_extension :: "uploaded_file \<Rightarrow> string option" where
  "uf_extension f =
     (case uf_file_name f of
        None \<Rightarrow> None
      | Some name \<Rightarrow>
          (case split_once CHR ''.'' (rev name) of
             None \<Rightarrow> None
           | Some (txe, _) \<Rightarrow>
               let ext = rev txe
               in if ext = [] \<or> \<not> list_all (\<lambda>c. byte_in 65 90 c \<or> byte_in 97 122 c \<or> is_digit c) ext then None
                  else Some (to_ascii_lowercase ext)))"

record multipart =
  mp_fields :: json
  mp_files :: "(string, uploaded_file list) hmap"

definition strip_brackets :: "string \<Rightarrow> string" where
  "strip_brackets field = (if suffix ''[]'' field then take (length field - 2) field else field)"

definition multipart_part :: "string \<Rightarrow> multipart \<Rightarrow> multipart" where
  "multipart_part part acc =
     (if \<not> prefix CRLF part then acc
      else case split_once_sub (CRLF @ CRLF) (drop 2 part) of
        None \<Rightarrow> acc
      | Some (head, content) \<Rightarrow>
          (let headers = parse_headers head in
           case hm_get ''content-disposition'' headers of
             None \<Rightarrow> acc
           | Some disposition \<Rightarrow>
               (case header_param disposition ''name'' of
                  None \<Rightarrow> acc
                | Some field \<Rightarrow>
                    (let content = (if suffix CRLF content then take (length content - 2) content else content) in
                     case header_param disposition ''filename'' of
                       Some file_name \<Rightarrow>
                         (let file = \<lparr>uf_field = field, uf_file_name = Some file_name,
                                uf_content_type = hm_get ''content-type'' headers, uf_bytes = content\<rparr>;
                              key = strip_brackets field;
                              old = (case hm_get key (mp_files acc) of Some fs \<Rightarrow> fs | None \<Rightarrow> [])
                          in acc\<lparr>mp_files := hm_insert key (old @ [file]) (mp_files acc)\<rparr>)
                     | None \<Rightarrow>
                         acc\<lparr>mp_fields := insert_input (mp_fields acc) field (JString (from_utf8_lossy content))\<rparr>))))"

definition multipart_parse :: "string \<Rightarrow> string \<Rightarrow> multipart" where
  "multipart_parse content boundary =
     fold multipart_part (split_sub (''--'' @ boundary) content) \<lparr>mp_fields = JObject [], mp_files = []\<rparr>"

section \<open>Requests\<close>

record parsers =
  pa_form :: "string \<Rightarrow> (string \<times> string) list"
  pa_json :: "string \<Rightarrow> json option"

datatype parsed_body = PJson json | PForm json | PMultipart multipart | POpaque

definition content_type :: "'a request_scheme \<Rightarrow> string option" where
  "content_type rq =
     map_option (\<lambda>raw. to_ascii_lowercase (trim (hd (split_on CHR '';'' raw)))) (request_header ''content-type'' rq)"

definition json_type :: "string \<Rightarrow> bool" where
  "json_type ct \<longleftrightarrow> ct = ''application/json'' \<or> suffix ''+json'' ct"

definition is_json :: "'a request_scheme \<Rightarrow> bool" where
  "is_json rq = (case content_type rq of Some ct \<Rightarrow> json_type ct | None \<Rightarrow> False)"

definition expects_json :: "'a request_scheme \<Rightarrow> bool" where
  "expects_json rq =
     (if is_json rq then True
      else if (case request_header ''x-requested-with'' rq of
                 Some v \<Rightarrow> eq_ignore_ascii_case v ''XMLHttpRequest'' | None \<Rightarrow> False) then True
      else case request_header ''accept'' rq of
             Some accept \<Rightarrow> list_ex (\<lambda>p. json_type (trim (hd (split_on CHR '';'' p)))) (split_on CHR '','' accept)
           | None \<Rightarrow> False)"

definition parse_body :: "parsers \<Rightarrow> routed \<Rightarrow> parsed_body" where
  "parse_body pa rq =
     (if rq_body rq = [] then POpaque
      else case content_type rq of
        None \<Rightarrow> POpaque
      | Some ct \<Rightarrow>
          if json_type ct then (case pa_json pa (rq_body rq) of Some v \<Rightarrow> PJson v | None \<Rightarrow> POpaque)
          else if ct = ''application/x-www-form-urlencoded'' then PForm (parse_urlencoded (pa_form pa) (rq_body rq))
          else if ct = ''multipart/form-data'' then
            (case Option.bind (request_header ''content-type'' rq) boundary_of of
               Some b \<Rightarrow> PMultipart (multipart_parse (rq_body rq) b)
             | None \<Rightarrow> POpaque)
          else POpaque)"

definition query_input :: "parsers \<Rightarrow> routed \<Rightarrow> json" where
  "query_input pa rq = parse_urlencoded (pa_form pa) (rq_query rq)"

definition body_input :: "parsers \<Rightarrow> routed \<Rightarrow> json" where
  "body_input pa rq =
     (case rq_override rq of
        Some v \<Rightarrow> v
      | None \<Rightarrow>
          (case parse_body pa rq of
             PJson v \<Rightarrow> v | PForm v \<Rightarrow> v | PMultipart m \<Rightarrow> mp_fields m | POpaque \<Rightarrow> JObject []))"

definition all_input :: "parsers \<Rightarrow> routed \<Rightarrow> json" where
  "all_input pa rq =
     (case rq_override rq of Some v \<Rightarrow> v | None \<Rightarrow> merge (query_input pa rq) (body_input pa rq))"

definition input_value :: "parsers \<Rightarrow> routed \<Rightarrow> string \<Rightarrow> json option" where
  "input_value pa rq key =
     (case rq_override rq of
        Some v \<Rightarrow> lookup_input v key
      | None \<Rightarrow>
          (case lookup_input (body_input pa rq) key of
             Some v \<Rightarrow> Some v
           | None \<Rightarrow> lookup_input (query_input pa rq) key))"

definition input :: "parsers \<Rightarrow> routed \<Rightarrow> string \<Rightarrow> string option" where
  "input pa rq key = Option.bind (input_value pa rq key) scalar_to_string"

definition set_input :: "json \<Rightarrow> routed \<Rightarrow> routed" where
  "set_input v rq = rq\<lparr>rq_override := Some v\<rparr>"

definition transform_input :: "parsers \<Rightarrow> (json \<Rightarrow> json) \<Rightarrow> routed \<Rightarrow> routed" where
  "transform_input pa f rq = rq\<lparr>rq_override := Some (f (all_input pa rq))\<rparr>"

definition merge_input :: "parsers \<Rightarrow> json \<Rightarrow> routed \<Rightarrow> routed" where
  "merge_input pa extra rq = transform_input pa (\<lambda>current. merge current extra) rq"

definition has_input :: "parsers \<Rightarrow> routed \<Rightarrow> string \<Rightarrow> bool" where
  "has_input pa rq key \<longleftrightarrow> input_value pa rq key \<noteq> None"

definition filled :: "parsers \<Rightarrow> routed \<Rightarrow> string \<Rightarrow> bool" where
  "filled pa rq key =
     (case input_value pa rq key of
        Some (JString s) \<Rightarrow> trim s \<noteq> []
      | Some JNull \<Rightarrow> False
      | None \<Rightarrow> False
      | Some (JArray xs) \<Rightarrow> xs \<noteq> []
      | Some (JObject m) \<Rightarrow> m \<noteq> []
      | Some _ \<Rightarrow> True)"

definition files :: "parsers \<Rightarrow> routed \<Rightarrow> string \<Rightarrow> uploaded_file list" where
  "files pa rq field =
     (case parse_body pa rq of
        PMultipart m \<Rightarrow> (case hm_get field (mp_files m) of Some fs \<Rightarrow> fs | None \<Rightarrow> [])
      | _ \<Rightarrow> [])"

definition has_file :: "parsers \<Rightarrow> routed \<Rightarrow> string \<Rightarrow> bool" where
  "has_file pa rq field = (case files pa rq field of [] \<Rightarrow> False | f # _ \<Rightarrow> \<not> uf_is_empty f)"

section \<open>Bracketed keys\<close>

text \<open>The name of a field nested in objects, as a form writes it: \<^verbatim>\<open>user[address][city]\<close>.\<close>

definition bracket_key :: "string list \<Rightarrow> string" where
  "bracket_key ks = hd ks @ concat (map (\<lambda>k. ''['' @ k @ '']'') (tl ks))"

definition name_ok :: "string \<Rightarrow> bool" where
  "name_ok k \<longleftrightarrow> k \<noteq> [] \<and> set k \<inter> set ''[].'' = {}"

text \<open>The value at a path through objects only.\<close>

fun tree_get :: "json \<Rightarrow> string list \<Rightarrow> json option" where
  "tree_get t [] = Some t"
| "tree_get t (k # ks) = Option.bind (hm_get k (as_object t)) (\<lambda>c. tree_get c ks)"

lemma bracket_segments_keys:
  "list_all name_ok ks \<Longrightarrow> bracket_segments (concat (map (\<lambda>k. ''['' @ k @ '']'') ks)) = map Key ks"
proof (induction ks)
  case Nil
  then show ?case by (subst bracket_segments.simps) (simp add: strip_prefix_char_def)
next
  case (Cons k ks)
  have "CHR '']'' \<notin> set k" "k \<noteq> []" using Cons.prems by (auto simp: name_ok_def)
  then show ?case using Cons split_once_append [of "CHR '']''" k]
    by (subst bracket_segments.simps) (simp add: strip_prefix_char_def)
qed

lemma parse_segments_bracket_key:
  assumes "list_all name_ok (k # ks)"
  shows "parse_segments (bracket_key (k # ks)) = map Key (k # ks)"
proof -
  have k: "CHR ''['' \<notin> set k" using assms by (auto simp: name_ok_def)
  show ?thesis
  proof (cases ks)
    case Nil
    then show ?thesis using k by (simp add: parse_segments_def bracket_key_def split_once_skip)
  next
    case (Cons x xs)
    have "split_once CHR ''['' (bracket_key (k # ks))
        = Some (k, x @ '']'' @ concat (map (\<lambda>k. ''['' @ k @ '']'') xs))"
      using split_once_append [OF k] by (simp add: bracket_key_def Cons)
    moreover have "CHR ''['' # x @ '']'' @ concat (map (\<lambda>k. ''['' @ k @ '']'') xs)
        = concat (map (\<lambda>k. ''['' @ k @ '']'') ks)" by (simp add: Cons)
    ultimately show ?thesis
      using bracket_segments_keys [of ks] assms by (simp add: parse_segments_def)
  qed
qed

lemma object_get_Null [simp]: "ks \<noteq> [] \<Longrightarrow> tree_get JNull ks = None"
  by (cases ks) simp_all

lemma insert_segments_lookup:
  "ks \<noteq> [] \<Longrightarrow> lookup_path (insert_segments t (map Key ks) v) ks = Some (put_repeated (tree_get t ks) v)"
proof (induction t "map Key ks" v arbitrary: ks rule: insert_segments.induct)
  case (2 t k v)
  then obtain "ks = [k]" by auto
  then show ?case by (simp add: Let_def lookup_step_def)
next
  case (4 t k x xs v)
  then obtain k2 ks2 where ks: "ks = k # k2 # ks2" "x # xs = map Key (k2 # ks2)" by auto
  show ?case using 4(1) [OF refl refl ks(2)] ks
    by (auto simp: Let_def lookup_step_def split: option.splits)
qed auto

lemma insert_segments_other:
  "n \<noteq> k \<Longrightarrow> hm_get n (as_object (insert_segments t (Key k # r) v)) = hm_get n (as_object t)"
  by (cases r) (simp_all add: Let_def)

text \<open>
  What a form names is found under its dotted name. Inserting a value under a bracketed key
  \<^verbatim>\<open>a[b][c]\<close> whose names hold no brackets or dots makes it the value at \<^verbatim>\<open>a.b.c\<close>, on its own if
  nothing was there, appended to the array that was there, or in an array with the one value
  that was there; other top-level fields are not affected.
\<close>

theorem bracket_key_round_trip:
  assumes "list_all name_ok (k # ks)"
  shows "lookup_input (insert_input t (bracket_key (k # ks)) v) (join ''.'' (k # ks))
      = Some (put_repeated (tree_get t (k # ks)) v)
    \<and> (n \<noteq> k \<longrightarrow> hm_get n (as_object (insert_input t (bracket_key (k # ks)) v)) = hm_get n (as_object t))"
proof -
  have "\<forall>w \<in> set (k # ks). CHR ''.'' \<notin> set w" using assms by (auto simp: list_all_iff name_ok_def)
  then have "split_on CHR ''.'' (join ''.'' (k # ks)) = k # ks" by (intro split_on_join) auto
  moreover have "insert_input t (bracket_key (k # ks)) v = insert_segments t (map Key (k # ks)) v"
    using parse_segments_bracket_key [OF assms] by (simp add: insert_input_def)
  ultimately show ?thesis
    using insert_segments_lookup [of "k # ks" t v] insert_segments_other [of n k t "map Key ks" v]
    by (simp add: lookup_input_def)
qed

theorem bracket_key_round_trip_witness:
  "lookup_input (insert_input (JObject [(''page'', JString ''2'')]) ''user[name]'' (JString ''ada'')) ''user.name''
     = Some (JString ''ada'')"
proof -
  have "list_all name_ok [''user'', ''name'']" by (simp add: name_ok_def)
  from bracket_key_round_trip [OF this, of "JObject [(''page'', JString ''2'')]" "JString ''ada''"]
  show ?thesis by (simp add: bracket_key_def hm_get_def)
qed

section \<open>One view of the inputs\<close>

fun json_wf :: "json \<Rightarrow> bool" where
  "json_wf (JObject m) \<longleftrightarrow> hm_wf m \<and> list_all (\<lambda>p. json_wf (snd p)) m"
| "json_wf (JArray xs) \<longleftrightarrow> list_all json_wf xs"
| "json_wf _ \<longleftrightarrow> True"

lemma json_wf_get: "json_wf (JObject m) \<Longrightarrow> hm_get k m = Some v \<Longrightarrow> json_wf v"
  by (drule hm_get_in_set) (fastforce simp: list_all_iff)

lemma set_hm_insert: "set (hm_insert k v m) \<subseteq> insert (k, v) (set m)"
  by (induction m) (auto simp: hm_insert_def)

lemma json_wf_insert:
  assumes "json_wf (JObject m)" "json_wf v"
  shows "json_wf (JObject (hm_insert k v m))"
proof -
  have "json_wf (snd p)" if "p \<in> set (hm_insert k v m)" for p
    using that set_hm_insert [of k v m] assms by (auto simp: list_all_iff)
  then show ?thesis using assms by (auto simp: list_all_iff)
qed

lemma json_wf_as [simp]: "json_wf t \<Longrightarrow> json_wf (JObject (as_object t))" "json_wf t \<Longrightarrow> list_all json_wf (as_array t)"
  by (cases t; simp)+

lemma json_wf_repeated:
  "json_wf v \<Longrightarrow> (\<And>e. old = Some e \<Longrightarrow> json_wf e) \<Longrightarrow> json_wf (put_repeated old v)"
  by (cases "(old, v)" rule: put_repeated.cases) auto

lemma json_wf_insert_segments: "json_wf t \<Longrightarrow> json_wf v \<Longrightarrow> json_wf (insert_segments t segs v)"
proof (induction t segs v rule: insert_segments.induct)
  case (2 t k v)
  have "json_wf (put_repeated (hm_get k (as_object t)) v)"
    using 2 by (auto intro!: json_wf_repeated dest: json_wf_get [OF json_wf_as(1)])
  then show ?case using json_wf_insert [OF json_wf_as(1) [OF 2(1)]] by (simp add: Let_def del: json_wf.simps)
next
  case (4 t k x xs v)
  have "json_wf (case hm_get k (as_object t) of Some c \<Rightarrow> c | None \<Rightarrow> JNull)"
    using 4 by (auto dest: json_wf_get [OF json_wf_as(1)] split: option.splits)
  then show ?case using 4 json_wf_insert [OF json_wf_as(1) [OF 4(2)]] by (simp add: Let_def del: json_wf.simps)
qed (auto simp del: json_wf.simps(1))

lemma json_wf_insert_input: "json_wf t \<Longrightarrow> json_wf v \<Longrightarrow> json_wf (insert_input t k v)"
  by (simp add: insert_input_def Let_def json_wf_insert_segments)

lemma json_wf_urlencoded: "json_wf (parse_urlencoded form raw)"
proof -
  have "json_wf t \<Longrightarrow> json_wf (fold (\<lambda>(k, v) root. insert_input root k (JString v)) kvs t)" for kvs t
    by (induction kvs arbitrary: t) (auto simp: json_wf_insert_input)
  then show ?thesis by (simp add: parse_urlencoded_def)
qed

lemma json_wf_multipart: "json_wf (mp_fields (multipart_parse content b))"
proof -
  have part: "json_wf (mp_fields (multipart_part p acc))" if "json_wf (mp_fields acc)" for p acc
    using that by (auto simp: multipart_part_def Let_def json_wf_insert_input split: option.split)
  have "json_wf (mp_fields acc) \<Longrightarrow> json_wf (mp_fields (fold multipart_part ps acc))" for ps acc
    by (induction ps arbitrary: acc) (simp_all add: part)
  then show ?thesis by (simp add: multipart_parse_def)
qed

lemma merge_fields_get:
  "hm_wf fs \<Longrightarrow> hm_get k (merge_fields b fs) =
     (case hm_get k fs of
        None \<Rightarrow> hm_get k b
      | Some v \<Rightarrow> Some (case hm_get k b of Some e \<Rightarrow> merge e v | None \<Rightarrow> v))"
proof (induction fs arbitrary: b)
  case (Cons p fs)
  obtain k' v where p: "p = (k', v)" by (cases p)
  have wf: "hm_wf fs" and fresh: "hm_get k' fs = None"
    using Cons.prems by (auto simp: p hm_wf_def hm_get_def map_of_eq_None_iff)
  have get: "hm_get k (p # fs) = (if k = k' then Some v else hm_get k fs)" by (simp add: p hm_get_def)
  show ?case using Cons.IH [OF wf] fresh by (auto simp: p get [unfolded p] simp del: merge.simps split: option.split)
qed simp

declare merge.simps [simp del]

lemma merge_objects [simp]: "merge (JObject b) (JObject fs) = JObject (merge_fields b fs)"
  by (simp add: merge.simps)

definition is_scalar :: "json \<Rightarrow> bool" where
  "is_scalar v = (case v of JObject _ \<Rightarrow> False | JArray _ \<Rightarrow> False | _ \<Rightarrow> True)"

lemma merge_body_wins:
  "json_wf body \<Longrightarrow> lookup_path body ps = Some v \<Longrightarrow> is_scalar v \<Longrightarrow> lookup_path (merge q body) ps = Some v"
proof (induction ps arbitrary: q body)
  case Nil
  then show ?case by (cases v) (auto simp: is_scalar_def merge.simps split: json.splits)
next
  case (Cons p ps)
  show ?case
  proof (cases "(\<exists>fs. body = JObject fs) \<and> (\<exists>b. q = JObject b)")
    case True
    then obtain fs b where bq: "body = JObject fs" "q = JObject b" by blast
    then obtain c where c: "hm_get p fs = Some c" "lookup_path c ps = Some v"
      using Cons.prems(2) by (auto simp: lookup_step_def split: Option.bind_splits)
    have wf: "hm_wf fs" "json_wf c" using Cons.prems(1) json_wf_get [OF _ c(1)] bq by auto
    show ?thesis using Cons.IH [OF wf(2) c(2) Cons.prems(3)] c
      by (simp add: bq lookup_step_def merge_fields_get [OF wf(1)] split: option.split)
  next
    case False
    then have "merge q body = body" by (cases body; cases q; simp add: merge.simps)
    then show ?thesis using Cons.prems by simp
  qed
qed

lemma merge_scalar_source:
  "json_wf body \<Longrightarrow> lookup_path (merge q body) ps = Some v \<Longrightarrow> is_scalar v \<Longrightarrow>
   lookup_path body ps = Some v \<or> lookup_path body ps = None \<and> lookup_path q ps = Some v"
proof (induction ps arbitrary: q body)
  case Nil
  then show ?case by (cases body; cases q) (auto simp: is_scalar_def merge.simps)
next
  case (Cons p ps)
  show ?case
  proof (cases "(\<exists>fs. body = JObject fs) \<and> (\<exists>b. q = JObject b)")
    case True
    then obtain fs b where bq: "body = JObject fs" "q = JObject b" by blast
    have wf: "hm_wf fs" using Cons.prems(1) bq by simp
    show ?thesis
    proof (cases "hm_get p fs")
      case None
      then show ?thesis using Cons.prems(2) by (auto simp: bq lookup_step_def merge_fields_get [OF wf])
    next
      case (Some c)
      have c: "json_wf c" using Cons.prems(1) json_wf_get [OF _ Some] bq by auto
      show ?thesis using Cons.prems(2,3) Cons.IH [OF c] Some
        by (auto simp: bq lookup_step_def merge_fields_get [OF wf] split: option.splits)
    qed
  next
    case False
    then have "merge q body = body" by (cases body; cases q; simp add: merge.simps)
    then show ?thesis using Cons.prems by simp
  qed
qed

lemma body_input_wf:
  assumes "\<forall>t v. pa_json pa t = Some v \<longrightarrow> json_wf v" "rq_override rq = None"
  shows "json_wf (body_input pa rq)"
  using assms
  by (auto simp: body_input_def parse_body_def json_wf_urlencoded json_wf_multipart
      split: option.split parsed_body.split)

text \<open>
  The merged view agrees with the accessor. Whenever no middleware replaced the inputs and
  the JSON parser gives objects with distinct keys, a scalar that \<^verbatim>\<open>all\<close> holds at a key is exactly
  what \<^verbatim>\<open>input\<close> reads there, and a scalar of the body is what both give, whatever the query
  string says.
\<close>

theorem all_agrees_with_input:
  assumes "\<forall>t v. pa_json pa t = Some v \<longrightarrow> json_wf v" and "rq_override rq = None" and "is_scalar v"
  shows "(lookup_input (all_input pa rq) key = Some v \<longrightarrow> input_value pa rq key = Some v)
    \<and> (lookup_input (body_input pa rq) key = Some v \<longrightarrow>
        lookup_input (all_input pa rq) key = Some v \<and> input pa rq key = scalar_to_string v)"
proof -
  note wf = body_input_wf [OF assms(1,2)]
  have all: "all_input pa rq = merge (query_input pa rq) (body_input pa rq)"
    by (simp add: all_input_def assms(2))
  show ?thesis
    using merge_body_wins [OF wf _ assms(3), of "split_on CHR ''.'' key" "query_input pa rq"]
      merge_scalar_source [OF wf _ assms(3), of "query_input pa rq" "split_on CHR ''.'' key"]
    by (auto simp: all lookup_input_def input_value_def input_def assms(2))
qed

text \<open>A request whose body holds a scalar where its query holds an object.\<close>

definition two_views :: routed where
  "two_views = (bare_request ''POST'' ''/'')\<lparr>rq_headers := [(''content-type'', ''application/json'')],
     rq_query := ''user[role]=admin'', rq_body := ''{..}''\<rparr>"

definition two_parsers :: parsers where
  "two_parsers = \<lparr>pa_form = (\<lambda>_. [(''user[role]'', ''admin'')]),
     pa_json = (\<lambda>_. Some (JObject [(''user'', JString ''guest'')]))\<rparr>"

lemma two_views_body: "body_input two_parsers two_views = JObject [(''user'', JString ''guest'')]"
  by (simp add: body_input_def parse_body_def two_views_def two_parsers_def bare_request_def content_type_def
      request_header_def header_to_str_def byte_in_def header_get_def json_type_def) code_simp

theorem all_agrees_with_input_witness:
  "lookup_input (all_input two_parsers two_views) ''user'' = Some (JString ''guest'')
   \<and> input two_parsers two_views ''user'' = Some ''guest''"
proof -
  have "\<forall>t v. pa_json two_parsers t = Some v \<longrightarrow> json_wf v" by (simp add: two_parsers_def hm_wf_def)
  moreover have "rq_override two_views = None" by (simp add: two_views_def bare_request_def)
  ultimately show ?thesis
    using all_agrees_with_input [of two_parsers two_views "JString ''guest''" "''user''"]
    by (simp add: two_views_body is_scalar_def lookup_input_def lookup_step_def hm_get_def)
qed

text \<open>
  The converse fails for the query: \<^verbatim>\<open>input\<close> reads through to a value of the query that \<^verbatim>\<open>all\<close>, which
  validation works on, does not hold.
\<close>

lemma input_sees_shadowed_query:
  "input two_parsers two_views ''user.role'' = Some ''admin''
   \<and> lookup_input (all_input two_parsers two_views) ''user.role'' = None"
  by code_simp

end
