(* ===== verification/Cookie.thy ===== *)
theory Cookie
  imports Percent Http Hash_Map
begin

text \<open>
  Cookies, \<^verbatim>\<open>rainier-http/src/cookie.rs\<close>, and the two response builders that attach them. The
  encoder and decoder of the \<^verbatim>\<open>percent_encoding\<close> package are parameters (theory \<open>Percent\<close>), the
  rendering of a date is the parameter \<open>fmt\<close> on some type of instants \<^typ>\<open>'d\<close>.
\<close>

section \<open>The code\<close>

definition COOKIE_VALUE :: "char \<Rightarrow> bool" where
  "COOKIE_VALUE c \<longleftrightarrow> CONTROLS c \<or> c = CHR 0x22 \<or> c = CHR 0x5C \<or> c \<in> set '' ,;%''"

datatype same_site = Lax | Strict | SameSiteNone

fun same_site_str :: "same_site \<Rightarrow> string" where
  "same_site_str Lax = ''Lax''"
| "same_site_str Strict = ''Strict''"
| "same_site_str SameSiteNone = ''None''"

record 'd cookie =
  ck_name :: string
  ck_value :: string
  ck_path :: "string option"
  ck_domain :: "string option"
  ck_max_age :: "int option"
  ck_expires :: "'d option"
  ck_secure :: bool
  ck_http_only :: bool
  ck_same_site :: "same_site option"

definition cookie_new :: "string \<Rightarrow> string \<Rightarrow> 'd cookie" where
  "cookie_new name v = \<lparr>ck_name = name, ck_value = v, ck_path = Some ''/'', ck_domain = None,
     ck_max_age = None, ck_expires = None, ck_secure = False, ck_http_only = True, ck_same_site = Some Lax\<rparr>"

definition cookie_path :: "string \<Rightarrow> 'd cookie \<Rightarrow> 'd cookie" where
  "cookie_path p c = c\<lparr>ck_path := Some p\<rparr>"

definition cookie_domain :: "string \<Rightarrow> 'd cookie \<Rightarrow> 'd cookie" where
  "cookie_domain d c = c\<lparr>ck_domain := Some d\<rparr>"

definition cookie_max_age :: "int \<Rightarrow> 'd cookie \<Rightarrow> 'd cookie" where
  "cookie_max_age seconds c = c\<lparr>ck_max_age := Some seconds\<rparr>"

definition cookie_expires :: "'d \<Rightarrow> 'd cookie \<Rightarrow> 'd cookie" where
  "cookie_expires at c = c\<lparr>ck_expires := Some at\<rparr>"

definition cookie_secure :: "bool \<Rightarrow> 'd cookie \<Rightarrow> 'd cookie" where
  "cookie_secure b c = c\<lparr>ck_secure := b\<rparr>"

definition cookie_http_only :: "bool \<Rightarrow> 'd cookie \<Rightarrow> 'd cookie" where
  "cookie_http_only b c = c\<lparr>ck_http_only := b\<rparr>"

definition cookie_same_site :: "same_site \<Rightarrow> 'd cookie \<Rightarrow> 'd cookie" where
  "cookie_same_site ss c =
     (if ss = SameSiteNone then c\<lparr>ck_secure := True\<rparr> else c)\<lparr>ck_same_site := Some ss\<rparr>"

definition removal :: "'d \<Rightarrow> string \<Rightarrow> 'd cookie" where
  "removal epoch name = cookie_expires epoch (cookie_max_age 0 (cookie_new name []))"

definition opt_text :: "'a option \<Rightarrow> ('a \<Rightarrow> string) \<Rightarrow> string" where
  "opt_text x f = (case x of None \<Rightarrow> [] | Some a \<Rightarrow> f a)"

definition to_set_cookie :: "encoder \<Rightarrow> ('d \<Rightarrow> string) \<Rightarrow> 'd cookie \<Rightarrow> string" where
  "to_set_cookie enc fmt c =
     enc COOKIE_VALUE (ck_name c) @ ''='' @ enc COOKIE_VALUE (ck_value c)
     @ opt_text (ck_path c) (\<lambda>p. ''; Path='' @ p)
     @ opt_text (ck_domain c) (\<lambda>d. ''; Domain='' @ d)
     @ opt_text (ck_max_age c) (\<lambda>n. ''; Max-Age='' @ int_dec n)
     @ opt_text (ck_expires c) (\<lambda>e. ''; Expires='' @ fmt e)
     @ (if ck_secure c then ''; Secure'' else [])
     @ (if ck_http_only c then ''; HttpOnly'' else [])
     @ opt_text (ck_same_site c) (\<lambda>ss. ''; SameSite='' @ same_site_str ss)"

definition decode_cookie :: "(string \<Rightarrow> string) \<Rightarrow> string \<Rightarrow> string" where
  "decode_cookie dec raw =
     dec (case Option.bind (strip_prefix_char CHR 0x22 raw) (strip_suffix_char CHR 0x22) of
            Some trimmed \<Rightarrow> trimmed | None \<Rightarrow> raw)"

definition cookie_pair :: "string \<Rightarrow> string \<times> string" where
  "cookie_pair p = (case split_once CHR ''='' p of Some (n, v) \<Rightarrow> (trim n, trim v) | None \<Rightarrow> (p, []))"

fun parse_cookie_pairs ::
  "(string \<Rightarrow> string) \<Rightarrow> string list \<Rightarrow> (string, string) hmap \<Rightarrow> (string, string) hmap"
where
  "parse_cookie_pairs dec [] cookies = cookies"
| "parse_cookie_pairs dec (pair # pairs) cookies =
     (let p = trim pair in
      if p = [] then parse_cookie_pairs dec pairs cookies
      else let (n, v) = cookie_pair p
           in parse_cookie_pairs dec pairs (hm_insert (decode_cookie dec n) (decode_cookie dec v) cookies))"

definition parse_cookie_header :: "(string \<Rightarrow> string) \<Rightarrow> string \<Rightarrow> (string, string) hmap" where
  "parse_cookie_header dec header = parse_cookie_pairs dec (split_on CHR '';'' header) []"

definition with_cookie :: "encoder \<Rightarrow> ('d \<Rightarrow> string) \<Rightarrow> header_check \<Rightarrow> 'd cookie \<Rightarrow> response \<Rightarrow> response" where
  "with_cookie enc fmt valid c r = with_added_header valid ''set-cookie'' (to_set_cookie enc fmt c) r"

definition without_cookie ::
  "encoder \<Rightarrow> ('d \<Rightarrow> string) \<Rightarrow> 'd \<Rightarrow> header_check \<Rightarrow> string \<Rightarrow> response \<Rightarrow> response"
where
  "without_cookie enc fmt epoch valid name r = with_cookie enc fmt valid (removal epoch name) r"

section \<open>Encoded text\<close>

lemma escapable_cookie: "escapable COOKIE_VALUE"
proof -
  have "list_all (\<lambda>c. \<not> COOKIE_VALUE c) ''0123456789ABCDEF''"
    by (simp add: COOKIE_VALUE_def CONTROLS_def)
  then have "\<not> COOKIE_VALUE (hex_upper d)" if "d < 16" for d
    using less_16 [OF that] unfolding list_all_iff by blast
  then show ?thesis by (simp add: escapable_def) (simp add: COOKIE_VALUE_def)
qed

lemma encoded_graphic:
  assumes "percent_laws enc dec"
  shows "\<forall>c \<in> set (enc COOKIE_VALUE s). graphic c"
proof
  fix c assume c: "c \<in> set (enc COOKIE_VALUE s)"
  note laws = percent_lawsD(2,4) [OF assms escapable_cookie c]
  have "c \<noteq> CHR '' ''" using laws by (auto simp: COOKIE_VALUE_def)
  then have "(of_char c :: nat) \<noteq> of_char (CHR '' '')" by (simp only: of_char_eq_iff not_False_eq_True)
  with laws show "graphic c" by (auto simp: COOKIE_VALUE_def CONTROLS_def graphic_def)
qed

lemma encoded_trim: "percent_laws enc dec \<Longrightarrow> trim (enc COOKIE_VALUE s) = enc COOKIE_VALUE s"
  by (simp add: trim_graphic encoded_graphic)

lemma encoded_free:
  assumes "percent_laws enc dec" "c \<in> set [CHR 0x22, CHR '';'']"
  shows "c \<notin> set (enc COOKIE_VALUE s)"
  using assms(2) by (intro enc_free [OF assms(1) escapable_cookie]) (auto simp: COOKIE_VALUE_def)

lemma decode_encoded:
  assumes "percent_laws enc dec" "utf8_valid s"
  shows "decode_cookie dec (enc COOKIE_VALUE s) = s"
proof -
  have "strip_prefix_char CHR 0x22 (enc COOKIE_VALUE s) = None"
    using encoded_free [OF assms(1), of "CHR 0x22" s]
    by (cases "enc COOKIE_VALUE s") (auto simp: strip_prefix_char_def)
  then show ?thesis
    using percent_lawsD(1) [OF assms(1) escapable_cookie assms(2)] by (simp add: decode_cookie_def)
qed

section \<open>From \<open>Set-Cookie\<close> to \<open>Cookie\<close>\<close>

text \<open>
  What a user agent keeps of a \<^verbatim>\<open>Set-Cookie\<close> value and sends back: the text before the first
  semicolon, joined by \<^verbatim>\<open>"; "\<close> (RFC 6265, sections 5.2 and 5.4).
\<close>

definition kept_pair :: "string \<Rightarrow> string" where
  "kept_pair s = takeWhile (\<lambda>c. c \<noteq> CHR '';'') s"

definition cookie_header :: "string list \<Rightarrow> string" where
  "cookie_header sets = join ''; '' (map kept_pair sets)"

definition cookie_text :: "encoder \<Rightarrow> 'd cookie \<Rightarrow> string" where
  "cookie_text enc c = enc COOKIE_VALUE (ck_name c) @ ''='' @ enc COOKIE_VALUE (ck_value c)"

definition attributes :: "('d \<Rightarrow> string) \<Rightarrow> 'd cookie \<Rightarrow> string" where
  "attributes fmt c =
     opt_text (ck_path c) (\<lambda>p. ''; Path='' @ p) @ opt_text (ck_domain c) (\<lambda>d. ''; Domain='' @ d)
     @ opt_text (ck_max_age c) (\<lambda>n. ''; Max-Age='' @ int_dec n)
     @ opt_text (ck_expires c) (\<lambda>e. ''; Expires='' @ fmt e)
     @ (if ck_secure c then ''; Secure'' else []) @ (if ck_http_only c then ''; HttpOnly'' else [])
     @ opt_text (ck_same_site c) (\<lambda>ss. ''; SameSite='' @ same_site_str ss)"

lemma to_set_cookie_split: "to_set_cookie enc fmt c = cookie_text enc c @ attributes fmt c"
  by (simp add: to_set_cookie_def cookie_text_def attributes_def)

lemma attributes_semicolon: "attributes fmt c = [] \<or> hd (attributes fmt c) = CHR '';''"
  by (simp add: attributes_def opt_text_def split: option.split)

lemma cookie_text_free: "percent_laws enc dec \<Longrightarrow> CHR '';'' \<notin> set (cookie_text enc c)"
  using encoded_free [of enc dec "CHR '';''"] by (simp add: cookie_text_def)

lemma kept_pair_set_cookie:
  assumes "percent_laws enc dec"
  shows "kept_pair (to_set_cookie enc fmt c) = cookie_text enc c"
proof -
  have "takeWhile (\<lambda>x. x \<noteq> CHR '';'') (cookie_text enc c @ attributes fmt c)
      = cookie_text enc c @ takeWhile (\<lambda>x. x \<noteq> CHR '';'') (attributes fmt c)"
    using cookie_text_free [OF assms] by (intro takeWhile_append2) auto
  moreover have "takeWhile (\<lambda>x. x \<noteq> CHR '';'') (attributes fmt c) = []"
    using attributes_semicolon [of fmt c] by (cases "attributes fmt c") auto
  ultimately show ?thesis by (simp add: kept_pair_def to_set_cookie_split)
qed

text \<open>Splitting the header at semicolons leaves a space in front of all but the first pair.\<close>

lemma split_on_join_spaced:
  assumes "\<forall>w \<in> set (w # ws). CHR '';'' \<notin> set w"
  shows "split_on CHR '';'' (join ''; '' (w # ws)) = w # map (\<lambda>x. CHR '' '' # x) ws"
  using assms
proof (induction ws arbitrary: w)
  case (Cons x xs)
  have "split_on CHR '';'' (join ''; '' (w # x # xs)) = w # split_on CHR '';'' (CHR '' '' # join ''; '' (x # xs))"
    using Cons.prems split_on_append_sep [of "CHR '';''" w] by simp
  then show ?case using Cons.IH [of x] Cons.prems by simp
qed (simp add: split_on_single)

definition cookie_ok :: "'d cookie \<Rightarrow> bool" where
  "cookie_ok c \<longleftrightarrow> utf8_valid (ck_name c) \<and> utf8_valid (ck_value c)"

lemma cookie_text_trim:
  assumes "percent_laws enc dec"
  shows "trim (cookie_text enc c) = cookie_text enc c" "trim (CHR '' '' # cookie_text enc c) = cookie_text enc c"
proof -
  have "\<forall>x \<in> set (cookie_text enc c). graphic x"
    using encoded_graphic [OF assms] by (auto simp: cookie_text_def graphic_def [of "CHR ''=''"])
  then show "trim (cookie_text enc c) = cookie_text enc c" "trim (CHR '' '' # cookie_text enc c) = cookie_text enc c"
    by (simp_all add: trim_graphic trim_space)
qed

lemma cookie_pair_text:
  assumes "percent_laws enc dec" "CHR ''='' \<notin> set (ck_name c)"
  shows "cookie_pair (cookie_text enc c) = (enc COOKIE_VALUE (ck_name c), enc COOKIE_VALUE (ck_value c))"
proof -
  have "CHR ''='' \<notin> set (enc COOKIE_VALUE (ck_name c))"
    using percent_lawsD(5) [OF assms(1) escapable_cookie, of "CHR ''=''" "ck_name c"] assms(2) by (auto simp: escape_chars_def)
  from split_once_append [OF this] show ?thesis
    by (simp add: cookie_pair_def cookie_text_def encoded_trim [OF assms(1)])
qed

lemma parse_cookie_pairs_texts:
  assumes "percent_laws enc dec"
    and "\<forall>(p, c) \<in> set ps. trim p = cookie_text enc c \<and> cookie_ok c \<and> CHR ''='' \<notin> set (ck_name c)"
  shows "parse_cookie_pairs dec (map fst ps) m =
    fold (\<lambda>c. hm_insert (ck_name c) (ck_value c)) (map snd ps) m"
  using assms(2)
proof (induction ps arbitrary: m)
  case (Cons pc ps)
  obtain p c where pc: "pc = (p, c)" by (cases pc)
  have c: "trim p = cookie_text enc c" "cookie_ok c" "CHR ''='' \<notin> set (ck_name c)"
    using Cons.prems by (auto simp: pc)
  have "decode_cookie dec (enc COOKIE_VALUE (ck_name c)) = ck_name c"
    "decode_cookie dec (enc COOKIE_VALUE (ck_value c)) = ck_value c"
    using c(2) by (simp_all add: decode_encoded [OF assms(1)] cookie_ok_def)
  moreover have "cookie_text enc c \<noteq> []" by (simp add: cookie_text_def)
  ultimately show ?case using Cons by (simp add: pc c(1) cookie_pair_text [OF assms(1) c(3)])
qed simp

text \<open>
  C36. Cookies come back as they were set. Take cookies with any attributes, whose names hold no
  equals sign, and let a user agent send back what it keeps of their \<^verbatim>\<open>Set-Cookie\<close> values: then
  \<^verbatim>\<open>parse_cookie_header\<close> gives for each name the value of the last cookie set under it, and
  nothing else, whatever semicolons, quotes, spaces or control characters names and values hold.
\<close>

theorem cookies_come_back:
  assumes "percent_laws enc dec" and "\<forall>c \<in> set cs. cookie_ok c"
    and "\<forall>c \<in> set cs. CHR ''='' \<notin> set (ck_name c)"
  shows "hm_get n (parse_cookie_header dec (cookie_header (map (to_set_cookie enc fmt) cs)))
    = map_of (rev (map (\<lambda>c. (ck_name c, ck_value c)) cs)) n"
proof (cases cs)
  case Nil
  then show ?thesis by (simp add: cookie_header_def parse_cookie_header_def)
next
  case (Cons c0 cs')
  let ?ps = "(cookie_text enc c0, c0) # map (\<lambda>c. (CHR '' '' # cookie_text enc c, c)) cs'"
  have "cookie_header (map (to_set_cookie enc fmt) cs) = join ''; '' (map (cookie_text enc) cs)"
    by (simp add: cookie_header_def o_def kept_pair_set_cookie [OF assms(1)])
  then have "split_on CHR '';'' (cookie_header (map (to_set_cookie enc fmt) cs)) = map fst ?ps"
    using split_on_join_spaced [of "cookie_text enc c0" "map (cookie_text enc) cs'"]
    by (simp add: Cons o_def cookie_text_free [OF assms(1)])
  moreover have "map snd ?ps = cs" by (simp add: Cons o_def)
  moreover have "\<forall>(p, c) \<in> set ?ps. trim p = cookie_text enc c \<and> cookie_ok c
      \<and> CHR ''='' \<notin> set (ck_name c)"
    using assms(2,3) cookie_text_trim [OF assms(1)] by (auto simp: Cons)
  moreover have "hm_get n (fold (\<lambda>c. hm_insert (ck_name c) (ck_value c)) xs [])
      = map_of (rev (map (\<lambda>c. (ck_name c, ck_value c)) xs)) n" for xs :: "'c cookie list"
    by (induction xs rule: rev_induct) auto
  ultimately show ?thesis
    using parse_cookie_pairs_texts [OF assms(1), of ?ps "[]"] by (simp only: parse_cookie_header_def)
qed

theorem cookies_come_back_witness:
  "hm_get ''theme'' (parse_cookie_header pct_decode (cookie_header (map (to_set_cookie pct_encode (\<lambda>d :: nat. []))
     [cookie_new ''session'' ''a;b'', cookie_secure True (cookie_new ''theme'' ''dark, x=1'')])))
   = Some ''dark, x=1''"
  using cookies_come_back [OF pct_laws, of "[cookie_new ''session'' ''a;b'',
      cookie_secure True (cookie_new ''theme'' ''dark, x=1'')]" "''theme''" "\<lambda>d :: nat. []"]
  by (simp add: cookie_ok_def cookie_new_def cookie_secure_def)

end
