(* ===== verification/Session.thy ===== *)
theory Session
  imports Request_Input Cookie
begin

text \<open>
  Sessions: the bag of one request (\<^verbatim>\<open>rainier-session/src/session.rs\<close>) and where bags are kept between
  requests (\<^verbatim>\<open>store.rs\<close>: the port with its default codec, and the in-process store). The random
  bytes of a new id are an argument; instants are milliseconds. Values are JSON; a value to store
  has been serialised already, which may have failed.
\<close>

section \<open>The bag\<close>

definition TOKEN_KEY :: string where "TOKEN_KEY = ''_token''"

definition generate_session_id :: "string \<Rightarrow> string" where
  "generate_session_id random =
     concat (map (\<lambda>b. let n = (of_char b :: nat) in [hex_digit (n div 16), hex_digit (n mod 16)]) random)"

record session_data =
  sd_values :: "(string, json) hmap"
  sd_flash :: "string list"

record session =
  ss_id :: string
  ss_values :: "(string, json) hmap"
  ss_flash_old :: "string list"
  ss_flash_new :: "string list"
  ss_dirty :: bool
  ss_superseded :: "string list"

definition restore :: "string \<Rightarrow> session_data \<Rightarrow> session" where
  "restore i data = \<lparr>ss_id = i, ss_values = sd_values data, ss_flash_old = sd_flash data,
     ss_flash_new = [], ss_dirty = False, ss_superseded = []\<rparr>"

definition data_default :: session_data where
  "data_default = \<lparr>sd_values = [], sd_flash = []\<rparr>"

definition session_new :: "string \<Rightarrow> session" where
  "session_new random = restore (generate_session_id random) data_default"

definition session_get :: "(json \<Rightarrow> 'a option) \<Rightarrow> string \<Rightarrow> session \<Rightarrow> 'a option" where
  "session_get from_value key s = Option.bind (hm_get key (ss_values s)) from_value"

text \<open>\<^verbatim>\<open>string\<close> renders a value that is not a text with \<^verbatim>\<open>serde_json\<close>, the parameter \<open>render\<close>.\<close>

definition session_string :: "(json \<Rightarrow> string) \<Rightarrow> string \<Rightarrow> session \<Rightarrow> string option" where
  "session_string render key s =
     map_option (\<lambda>v. case v of JString t \<Rightarrow> t | other \<Rightarrow> render other) (hm_get key (ss_values s))"

definition session_has :: "string \<Rightarrow> session \<Rightarrow> bool" where
  "session_has key s = (case hm_get key (ss_values s) of Some v \<Rightarrow> v \<noteq> JNull | None \<Rightarrow> False)"

definition session_is_empty :: "session \<Rightarrow> bool" where
  "session_is_empty s \<longleftrightarrow> hm_len (ss_values s) = 0"

definition session_put :: "string \<Rightarrow> json result \<Rightarrow> session \<Rightarrow> session \<times> unit result" where
  "session_put key v s =
     (case v of
        Inl e \<Rightarrow> (s, Inl e)
      | Inr j \<Rightarrow> (s\<lparr>ss_values := hm_insert key j (ss_values s), ss_dirty := True\<rparr>, Inr ()))"

definition session_pull :: "(json \<Rightarrow> 'a option) \<Rightarrow> string \<Rightarrow> session \<Rightarrow> session \<times> 'a option" where
  "session_pull from_value key s =
     (case hm_get key (ss_values s) of
        None \<Rightarrow> (s, None)
      | Some v \<Rightarrow> (s\<lparr>ss_values := hm_remove key (ss_values s), ss_dirty := True\<rparr>, from_value v))"

definition session_forget :: "string \<Rightarrow> session \<Rightarrow> session" where
  "session_forget key s =
     (if hm_contains key (ss_values s)
      then s\<lparr>ss_values := hm_remove key (ss_values s), ss_dirty := True\<rparr> else s)"

definition session_flush :: "session \<Rightarrow> session" where
  "session_flush s = s\<lparr>ss_values := [], ss_flash_new := [], ss_flash_old := [], ss_dirty := True\<rparr>"

definition session_flash :: "string \<Rightarrow> json result \<Rightarrow> session \<Rightarrow> session \<times> unit result" where
  "session_flash key v s =
     (case v of
        Inl e \<Rightarrow> (s, Inl e)
      | Inr j \<Rightarrow>
          (s\<lparr>ss_values := hm_insert key j (ss_values s),
             ss_flash_new := (if key \<in> set (ss_flash_new s) then ss_flash_new s else ss_flash_new s @ [key]),
             ss_dirty := True\<rparr>, Inr ()))"

fun session_keep :: "string list \<Rightarrow> session \<Rightarrow> session" where
  "session_keep [] s = s"
| "session_keep (key # keys) s =
     session_keep keys
       (if key \<in> set (ss_flash_old s) \<and> key \<notin> set (ss_flash_new s)
        then s\<lparr>ss_flash_new := ss_flash_new s @ [key], ss_dirty := True\<rparr> else s)"

definition session_reflash :: "session \<Rightarrow> session" where
  "session_reflash s =
     (let carried = filter (\<lambda>key. key \<notin> set (ss_flash_new s)) (ss_flash_old s)
      in if carried \<noteq> [] then s\<lparr>ss_flash_new := ss_flash_new s @ carried, ss_dirty := True\<rparr> else s)"

text \<open>\<^verbatim>\<open>token\<close>: the random bytes are used only when there is no token yet.\<close>

definition has_token :: "session \<Rightarrow> bool" where
  "has_token s = (case hm_get TOKEN_KEY (ss_values s) of Some (JString _) \<Rightarrow> True | _ \<Rightarrow> False)"

definition session_token :: "string \<Rightarrow> session \<Rightarrow> session \<times> string" where
  "session_token random s =
     (case hm_get TOKEN_KEY (ss_values s) of
        Some (JString t) \<Rightarrow> (s, t)
      | _ \<Rightarrow>
          (let t = generate_session_id random
           in (s\<lparr>ss_values := hm_insert TOKEN_KEY (JString t) (ss_values s), ss_dirty := True\<rparr>, t)))"

definition regenerate :: "string \<Rightarrow> session \<Rightarrow> session" where
  "regenerate random s =
     s\<lparr>ss_id := generate_session_id random, ss_superseded := ss_superseded s @ [ss_id s], ss_dirty := True\<rparr>"

definition invalidate :: "string \<Rightarrow> session \<Rightarrow> session" where
  "invalidate random s = regenerate random (session_flush s)"

definition age_and_take :: "session \<Rightarrow> session \<times> session_data" where
  "age_and_take s =
     (let expired = filter (\<lambda>key. key \<notin> set (ss_flash_new s)) (ss_flash_old s);
          vals = fold hm_remove expired (ss_values s);
          flash = ss_flash_new s
      in (s\<lparr>ss_values := vals, ss_flash_new := [], ss_flash_old := flash\<rparr>,
          \<lparr>sd_values = vals, sd_flash = flash\<rparr>))"

section \<open>Stores\<close>

record 'st session_store =
  so_read :: "int \<Rightarrow> string \<Rightarrow> 'st \<Rightarrow> 'st \<times> session_data option result"
  so_write :: "int \<Rightarrow> string \<Rightarrow> session_data \<Rightarrow> 'st \<Rightarrow> 'st \<times> unit result"
  so_destroy :: "string \<Rightarrow> 'st \<Rightarrow> 'st \<times> unit result"
  so_gc :: "int \<Rightarrow> 'st \<Rightarrow> 'st \<times> nat result"
  so_client_side :: bool
  so_encode :: "string \<Rightarrow> session_data \<Rightarrow> string result"
  so_decode :: "string \<Rightarrow> (string \<times> session_data option) result"

definition is_hexdigit :: "char \<Rightarrow> bool" where
  "is_hexdigit c \<longleftrightarrow> hex_value c \<noteq> None"

definition is_well_formed :: "string \<Rightarrow> bool" where
  "is_well_formed i \<longleftrightarrow> length i = 64 \<and> list_all is_hexdigit i"

definition encode_default :: "string \<Rightarrow> session_data \<Rightarrow> string result" where
  "encode_default i data = Inr i"

definition decode_default :: "string \<Rightarrow> (string \<times> session_data option) result" where
  "decode_default v =
     (if is_well_formed v then Inr (v, None)
      else Inl (err_bad_request ''that is not a session id this application issued''))"

record session_entry =
  en_data :: session_data
  en_expires_at :: int

type_synonym session_entries = "(string, session_entry) hmap"

definition memory_read :: "int \<Rightarrow> string \<Rightarrow> session_entries \<Rightarrow> session_entries \<times> session_data option result" where
  "memory_read now i es =
     (case hm_get i es of
        Some e \<Rightarrow> if en_expires_at e > now then (es, Inr (Some (en_data e))) else (hm_remove i es, Inr None)
      | None \<Rightarrow> (es, Inr None))"

definition memory_write ::
  "int \<Rightarrow> int \<Rightarrow> string \<Rightarrow> session_data \<Rightarrow> session_entries \<Rightarrow> session_entries \<times> unit result"
where
  "memory_write lifetime now i data es =
     (hm_insert i \<lparr>en_data = data, en_expires_at = now + lifetime\<rparr> es, Inr ())"

definition memory_destroy :: "string \<Rightarrow> session_entries \<Rightarrow> session_entries \<times> unit result" where
  "memory_destroy i es = (hm_remove i es, Inr ())"

definition memory_gc :: "int \<Rightarrow> session_entries \<Rightarrow> session_entries \<times> nat result" where
  "memory_gc now es =
     (let kept = hm_retain (\<lambda>_ e. en_expires_at e > now) es in (kept, Inr (hm_len es - hm_len kept)))"

definition memory_session_store :: "int \<Rightarrow> session_entries session_store" where
  "memory_session_store lifetime =
     \<lparr>so_read = memory_read, so_write = memory_write lifetime, so_destroy = memory_destroy, so_gc = memory_gc,
      so_client_side = False, so_encode = encode_default, so_decode = decode_default\<rparr>"

section \<open>The contract of a server-side store\<close>

text \<open>
  \<open>vis now i st\<close> is the data a reader finds at an instant. Reading may drop what has expired, so
  only later instants are kept.
\<close>

locale server_store =
  fixes store :: "'st session_store" and life :: int and vis :: "int \<Rightarrow> string \<Rightarrow> 'st \<Rightarrow> session_data option"
  assumes read_vis: "snd (so_read store now i st) = Inr (vis now i st)"
    and read_keeps: "now \<le> now' \<Longrightarrow> vis now' j (fst (so_read store now i st)) = vis now' j st"
    and write_ok: "snd (so_write store now i data st) = Inr ()"
    and write_vis: "vis now' j (fst (so_write store now i data st))
      = (if j = i then if now' < now + life then Some data else None else vis now' j st)"
    and destroy_ok: "snd (so_destroy store i st) = Inr ()"
    and destroy_vis: "vis now' j (fst (so_destroy store i st)) = (if j = i then None else vis now' j st)"
    and server_side: "\<not> so_client_side store"
    and encode_id: "so_encode store i data = Inr i"
    and decode_id: "so_decode store v = decode_default v"

definition memory_vis :: "int \<Rightarrow> string \<Rightarrow> session_entries \<Rightarrow> session_data option" where
  "memory_vis now i es =
     (case hm_get i es of Some e \<Rightarrow> if en_expires_at e > now then Some (en_data e) else None | None \<Rightarrow> None)"

interpretation mss: server_store "memory_session_store lifetime" lifetime memory_vis
  by unfold_locales
    (auto simp: memory_session_store_def memory_read_def memory_write_def memory_destroy_def memory_vis_def
      encode_default_def split: option.splits)

lemma hex_digit_list: "map hex_digit [0..<16] = ''0123456789abcdef''"
  by code_simp

lemma hex_value_lower_list: "map hex_value ''0123456789abcdef'' = map Some [0..<16]"
  by code_simp

lemma is_hexdigit_hex_digit: "d < 16 \<Longrightarrow> is_hexdigit (hex_digit d)"
  using arg_cong [OF hex_value_lower_list [unfolded hex_digit_list [symmetric]], of "\<lambda>xs. xs ! d"]
  by (simp add: is_hexdigit_def)

text \<open>An id the framework mints has the form the stores accept.\<close>

lemma generated_well_formed:
  assumes "length random = 32"
  shows "is_well_formed (generate_session_id random)"
proof -
  note hex = is_hexdigit_hex_digit
  have "(of_char b :: nat) div 16 < 16" for b
    using of_char_less_256 [of b] by (simp add: less_mult_imp_div_less)
  then have "list_all is_hexdigit (generate_session_id bs) \<and> length (generate_session_id bs) = 2 * length bs" for bs
    by (induction bs) (simp_all add: generate_session_id_def Let_def hex)
  then show ?thesis using assms by (simp add: is_well_formed_def)
qed

section \<open>The life of a flashed value\<close>

datatype session_op =
    OpPut string json | OpPull string | OpForget string | OpFlush | OpFlash string json
  | OpKeep "string list" | OpReflash | OpToken string | OpRegenerate string | OpInvalidate string

fun apply_op :: "session_op \<Rightarrow> session \<Rightarrow> session" where
  "apply_op (OpPut k v) s = fst (session_put k (Inr v) s)"
| "apply_op (OpPull k) s = fst (session_pull Some k s)"
| "apply_op (OpForget k) s = session_forget k s"
| "apply_op OpFlush s = session_flush s"
| "apply_op (OpFlash k v) s = fst (session_flash k (Inr v) s)"
| "apply_op (OpKeep ks) s = session_keep ks s"
| "apply_op OpReflash s = session_reflash s"
| "apply_op (OpToken r) s = fst (session_token r s)"
| "apply_op (OpRegenerate r) s = regenerate r s"
| "apply_op (OpInvalidate r) s = invalidate r s"

text \<open>Whether an operation may change the value of a key, and whether it keeps a flashed one.\<close>

fun writes :: "string \<Rightarrow> session_op \<Rightarrow> bool" where
  "writes k (OpPut k' v) = (k' = k)"
| "writes k (OpPull k') = (k' = k)"
| "writes k (OpForget k') = (k' = k)"
| "writes k OpFlush = True"
| "writes k (OpFlash k' v) = (k' = k)"
| "writes k (OpToken r) = (k = TOKEN_KEY)"
| "writes k (OpInvalidate r) = True"
| "writes k _ = False"

fun keeps :: "string \<Rightarrow> session_op \<Rightarrow> bool" where
  "keeps k (OpKeep ks) = (k \<in> set ks)"
| "keeps k OpReflash = True"
| "keeps k _ = False"

definition next_request :: "session \<Rightarrow> session" where
  "next_request s = restore (ss_id s) (snd (age_and_take s))"

lemma hm_get_fold_removes: "hm_get k (fold hm_remove ks m) = (if k \<in> set ks then None else hm_get k m)"
  by (induction ks arbitrary: m) auto

lemma next_request_get:
  "hm_get k (ss_values (next_request s)) =
     (if k \<in> set (ss_flash_old s) \<and> k \<notin> set (ss_flash_new s) then None else hm_get k (ss_values s))"
  by (simp add: next_request_def age_and_take_def restore_def Let_def hm_get_fold_removes)

lemma next_request_flash [simp]:
  "ss_flash_old (next_request s) = ss_flash_new s" "ss_flash_new (next_request s) = []"
  by (simp_all add: next_request_def age_and_take_def restore_def Let_def)

lemma session_keep_get [simp]: "ss_values (session_keep ks s) = ss_values s"
  "ss_flash_old (session_keep ks s) = ss_flash_old s"
  by (induction ks s rule: session_keep.induct) simp_all

lemma session_keep_new:
  "k \<in> set (ss_flash_new (session_keep ks s)) \<longleftrightarrow> k \<in> set (ss_flash_new s) \<or> k \<in> set ks \<and> k \<in> set (ss_flash_old s)"
  by (induction ks s rule: session_keep.induct) auto

text \<open>What an operation that does not write a key does to the value, the old and the new mark.\<close>

lemma session_token_frame:
  "ss_flash_old (fst (session_token r s)) = ss_flash_old s" "ss_flash_new (fst (session_token r s)) = ss_flash_new s"
  "k \<noteq> TOKEN_KEY \<Longrightarrow> hm_get k (ss_values (fst (session_token r s))) = hm_get k (ss_values s)"
  by (simp_all add: session_token_def Let_def split: option.split json.split)

lemma session_put_frame [simp]:
  "ss_flash_old (fst (session_put k (Inr v) s)) = ss_flash_old s"
  "ss_flash_new (fst (session_put k (Inr v) s)) = ss_flash_new s"
  "hm_get k' (ss_values (fst (session_put k (Inr v) s))) = (if k' = k then Some v else hm_get k' (ss_values s))"
  by (simp_all add: session_put_def)

lemma apply_op_value: "\<not> writes k op \<Longrightarrow> hm_get k (ss_values (apply_op op s)) = hm_get k (ss_values s)"
  by (cases op) (simp_all add: session_pull_def session_forget_def session_flash_def session_reflash_def
      session_token_frame regenerate_def Let_def split: option.split)

lemma apply_op_old:
  "\<not> writes k op \<Longrightarrow> k \<in> set (ss_flash_old (apply_op op s)) \<longleftrightarrow> k \<in> set (ss_flash_old s)"
  by (cases op) (simp_all add: session_pull_def session_forget_def session_flash_def session_reflash_def
      session_token_frame regenerate_def Let_def split: option.split)

lemma apply_op_new:
  "\<not> writes k op \<Longrightarrow> k \<in> set (ss_flash_new (apply_op op s)) \<longleftrightarrow>
     k \<in> set (ss_flash_new s) \<or> keeps k op \<and> k \<in> set (ss_flash_old s)"
  by (cases op) (auto simp: session_pull_def session_forget_def session_flash_def session_reflash_def
      session_token_frame regenerate_def Let_def session_keep_new filter_empty_conv split: option.split)

lemmas apply_op_frame = apply_op_value apply_op_old apply_op_new

lemma ops_frame:
  assumes "list_all (\<lambda>op. \<not> writes k op) ops"
  shows "hm_get k (ss_values (fold apply_op ops s)) = hm_get k (ss_values s)"
    and "k \<in> set (ss_flash_old (fold apply_op ops s)) \<longleftrightarrow> k \<in> set (ss_flash_old s)"
    and "k \<in> set (ss_flash_new (fold apply_op ops s)) \<longleftrightarrow>
           k \<in> set (ss_flash_new s) \<or> list_ex (keeps k) ops \<and> k \<in> set (ss_flash_old s)"
  using assms by (induction ops arbitrary: s) (auto simp: apply_op_frame)

lemma flash_get:
  "hm_get k (ss_values (fst (session_flash k (Inr v) s))) = Some v"
  "k \<in> set (ss_flash_new (fst (session_flash k (Inr v) s)))"
  by (simp_all add: session_flash_def)

text \<open>
  C37. A flashed value lives for exactly one further request. Flash a value and do anything after
  it that does not write its key: the next request finds the value, throughout, as long as it
  does not write the key itself; the request after that finds it exactly when the next request
  kept it (by \<^verbatim>\<open>keep\<close> or \<^verbatim>\<open>reflash\<close>). A value that is put and was not flashed before stays.
\<close>

theorem flash_lives_one_request:
  assumes "list_all (\<lambda>op. \<not> writes k op) ops1" and "list_all (\<lambda>op. \<not> writes k op) ops2"
  shows "let s1 = fold apply_op ops1 (fst (session_flash k (Inr v) s0));
             s2 = fold apply_op ops2 (next_request s1)
         in hm_get k (ss_values (next_request s1)) = Some v \<and> hm_get k (ss_values s2) = Some v
           \<and> hm_get k (ss_values (next_request s2)) = (if list_ex (keeps k) ops2 then Some v else None)
           \<and> (k \<notin> set (ss_flash_old s0) \<longrightarrow>
                hm_get k (ss_values (next_request (fold apply_op ops1 (fst (session_put k (Inr v) s0))))) = Some v)"
  using ops_frame [OF assms(1)] ops_frame [OF assms(2)]
  by (simp add: Let_def next_request_get flash_get)

theorem flash_lives_one_request_witness:
  "let s1 = fold apply_op [OpPut ''other'' JNull] (fst (session_flash ''status'' (Inr (JString ''saved'')) (session_new [])));
       s2 = fold apply_op [OpForget ''other''] (next_request s1)
   in hm_get ''status'' (ss_values s2) = Some (JString ''saved'')
     \<and> hm_get ''status'' (ss_values (next_request s2)) = None"
  using flash_lives_one_request [of "''status''" "[OpPut ''other'' JNull]" "[OpForget ''other'']"
      "JString ''saved''" "session_new []"]
  by (simp add: Let_def)

text \<open>
  A value put under a key that the previous request flashed is dropped with the flash at the
  end of the request.
\<close>

lemma put_on_flashed_key_is_lost:
  assumes "k \<in> set (ss_flash_old s)" "k \<notin> set (ss_flash_new s)" "list_all (\<lambda>op. \<not> writes k op \<and> \<not> keeps k op) ops"
  shows "hm_get k (ss_values (next_request (fold apply_op ops (fst (session_put k (Inr v) s))))) = None"
proof -
  have "list_all (\<lambda>op. \<not> writes k op) ops" "\<not> list_ex (keeps k) ops"
    using assms(3) by (auto simp: list_all_iff list_ex_iff)
  then show ?thesis using assms(1,2) by (simp add: next_request_get ops_frame)
qed

end
