(* ===== verification/Start_Session.thy ===== *)
theory Start_Session
  imports Session
begin

text \<open>
  The middleware that loads a session and writes it back, \<^verbatim>\<open>rainier-session/src/middleware.rs\<close>, with the
  settings of \<^verbatim>\<open>manager.rs\<close>. The state of the application holds the bag of the current request
  (what \<^verbatim>\<open>request.session()\<close> refers to: every clone is the same bag, so the middleware reads after
  the handler what the handler wrote), the state of the store, the random draws to come and the
  clock. Telemetry spans and log lines are left out.
\<close>

section \<open>The code\<close>

record ('st, 'a) web =
  w_bag :: "session option"
  w_store :: 'st
  w_random :: "nat \<Rightarrow> string"
  w_drawn :: nat
  w_now :: int
  w_app :: 'a

definition draw :: "('st, 'a) web \<Rightarrow> string \<times> ('st, 'a) web" where
  "draw s = (w_random s (w_drawn s), s\<lparr>w_drawn := w_drawn s + 1\<rparr>)"

record session_config =
  sc_cookie :: string
  sc_path :: string
  sc_domain :: "string option"
  sc_secure :: bool
  sc_same_site :: same_site
  sc_lifetime :: int

definition session_config_default :: session_config where
  "session_config_default = \<lparr>sc_cookie = ''rainier_session'', sc_path = ''/'', sc_domain = None,
     sc_secure = False, sc_same_site = Lax, sc_lifetime = 2 * 60 * 60\<rparr>"

record 'st start_session =
  sx_store :: "'st session_store"
  sx_config :: session_config

definition start_session_new :: "'st session_store \<Rightarrow> 'st start_session" where
  "start_session_new store = \<lparr>sx_store = store, sx_config = session_config_default\<rparr>"

definition start_session_with_config :: "'st session_store \<Rightarrow> session_config \<Rightarrow> 'st start_session" where
  "start_session_with_config store cfg = \<lparr>sx_store = store, sx_config = cfg\<rparr>"

definition session_cookie :: "session_config \<Rightarrow> string \<Rightarrow> 'd cookie" where
  "session_cookie cfg v =
     (let c = cookie_max_age (sc_lifetime cfg) (cookie_same_site (sc_same_site cfg)
                (cookie_secure (sc_secure cfg) (cookie_http_only True
                  (cookie_path (sc_path cfg) (cookie_new (sc_cookie cfg) v)))))
      in case sc_domain cfg of Some d \<Rightarrow> cookie_domain d c | None \<Rightarrow> c)"

definition request_cookie :: "(string \<Rightarrow> string) \<Rightarrow> 'b request_scheme \<Rightarrow> string \<Rightarrow> string option" where
  "request_cookie dec rq name =
     hm_get name (case request_header ''cookie'' rq of Some h \<Rightarrow> parse_cookie_header dec h | None \<Rightarrow> [])"

record loaded =
  ld_session :: session
  ld_detached :: bool

definition attached :: "session \<Rightarrow> loaded" where
  "attached b = \<lparr>ld_session = b, ld_detached = False\<rparr>"

definition detached :: "session \<Rightarrow> loaded" where
  "detached b = \<lparr>ld_session = b, ld_detached = True\<rparr>"

text \<open>\<^verbatim>\<open>Session::new()\<close> draws the bytes of its id.\<close>

definition fresh :: "('st, 'a) web \<Rightarrow> loaded \<times> ('st, 'a) web" where
  "fresh s = (let (r, s') = draw s in (attached (session_new r), s'))"

definition load ::
  "(string \<Rightarrow> string) \<Rightarrow> 'st start_session \<Rightarrow> 'b request_scheme \<Rightarrow> ('st, 'a) web \<Rightarrow> loaded \<times> ('st, 'a) web"
where
  "load dec sx rq s =
     (case request_cookie dec rq (sc_cookie (sx_config sx)) of
        None \<Rightarrow> fresh s
      | Some v \<Rightarrow>
          (case so_decode (sx_store sx) v of
             Inl _ \<Rightarrow> fresh s
           | Inr (i, Some data) \<Rightarrow> (attached (restore i data), s)
           | Inr (i, None) \<Rightarrow>
               (let (st, r) = so_read (sx_store sx) (w_now s) i (w_store s); s = s\<lparr>w_store := st\<rparr>
                in case r of
                     Inr (Some data) \<Rightarrow> (attached (restore i data), s)
                   | Inr None \<Rightarrow> fresh s
                   | Inl _ \<Rightarrow> (detached (restore i data_default), s))))"

fun destroy_all :: "'st session_store \<Rightarrow> string list \<Rightarrow> 'st \<Rightarrow> 'st \<times> unit result" where
  "destroy_all store [] st = (st, Inr ())"
| "destroy_all store (i # is) st =
     (case so_destroy store i st of
        (st', Inr _) \<Rightarrow> destroy_all store is st'
      | (st', Inl e) \<Rightarrow> (st', Inl e))"

definition save :: "'st start_session \<Rightarrow> session \<Rightarrow> ('st, 'a) web \<Rightarrow> ('st, 'a) web \<times> string result" where
  "save sx b s =
     (let store = sx_store sx;
          (st1, r1) = (if so_client_side store then (w_store s, Inr ()) else destroy_all store (ss_superseded b) (w_store s))
      in case r1 of
           Inl e \<Rightarrow> (s\<lparr>w_store := st1\<rparr>, Inl e)
         | Inr _ \<Rightarrow>
             (let data = snd (age_and_take b);
                  (st2, r2) = (if so_client_side store then (st1, Inr ()) else so_write store (w_now s) (ss_id b) data st1)
              in case r2 of
                   Inl e \<Rightarrow> (s\<lparr>w_store := st2\<rparr>, Inl e)
                 | Inr _ \<Rightarrow> (s\<lparr>w_store := st2\<rparr>, so_encode store (ss_id b) data)))"

text \<open>
  The handler. Outside the middleware the request refers to whatever bag it referred to before.
\<close>

definition start_handle ::
  "encoder \<Rightarrow> (string \<Rightarrow> string) \<Rightarrow> ('d \<Rightarrow> string) \<Rightarrow> header_check \<Rightarrow> 'st start_session \<Rightarrow> routed
    \<Rightarrow> ('st, 'a) web destination \<Rightarrow> ('st, 'a) web \<Rightarrow> ('st, 'a) web \<times> response"
where
  "start_handle enc dec fmt valid sx rq k s =
     (let outer = w_bag s;
          (ld, s1) = load dec sx rq s;
          started_empty = session_is_empty (ld_session ld);
          (s2, response) = k rq (s1\<lparr>w_bag := Some (ld_session ld)\<rparr>);
          bag = (case w_bag s2 of Some b \<Rightarrow> b | None \<Rightarrow> ld_session ld)
      in if ld_detached ld then (s2\<lparr>w_bag := outer\<rparr>, response)
         else if started_empty \<and> \<not> ss_dirty bag then (s2\<lparr>w_bag := outer\<rparr>, response)
         else case save sx bag s2 of
                (s3, Inr v) \<Rightarrow>
                  (s3\<lparr>w_bag := outer\<rparr>, with_cookie enc fmt valid (session_cookie (sx_config sx) v :: 'd cookie) response)
              | (s3, Inl _) \<Rightarrow> (s3\<lparr>w_bag := outer\<rparr>, response))"

section \<open>Over any server-side store\<close>

context server_store
begin

lemma destroy_all_vis:
  "snd (destroy_all store is st) = Inr ()"
  "vis now j (fst (destroy_all store is st)) = (if j \<in> set is then None else vis now j st)"
proof -
  have "snd (destroy_all store is st) = Inr ()
      \<and> vis now j (fst (destroy_all store is st)) = (if j \<in> set is then None else vis now j st)"
  proof (induction "is" arbitrary: st)
    case (Cons i "is")
    obtain st' where d: "so_destroy store i st = (st', Inr ())"
      using destroy_ok [of i st] by (cases "so_destroy store i st") auto
    then show ?case using Cons [of st'] destroy_vis [of now j i st] by auto
  qed simp
  then show "snd (destroy_all store is st) = Inr ()"
    "vis now j (fst (destroy_all store is st)) = (if j \<in> set is then None else vis now j st)" by auto
qed

lemma save_vis:
  assumes "sx_store sx = store"
  shows "\<exists>st. save sx b s = (s\<lparr>w_store := st\<rparr>, Inr (ss_id b))
    \<and> (\<forall>now j. vis now j st =
         (if j = ss_id b then if now < w_now s + life then Some (snd (age_and_take b)) else None
          else if j \<in> set (ss_superseded b) then None else vis now j (w_store s)))"
proof -
  obtain st1 where d: "destroy_all store (ss_superseded b) (w_store s) = (st1, Inr ())"
    using destroy_all_vis(1) by (metis prod.collapse)
  obtain st2 where w: "so_write store (w_now s) (ss_id b) (snd (age_and_take b)) st1 = (st2, Inr ())"
    using write_ok by (metis prod.collapse)
  have "save sx b s = (s\<lparr>w_store := st2\<rparr>, Inr (ss_id b))"
    by (simp add: save_def assms server_side encode_id Let_def d w)
  moreover have "vis now j st2 = (if j = ss_id b then if now < w_now s + life then Some (snd (age_and_take b)) else None
      else if j \<in> set (ss_superseded b) then None else vis now j (w_store s))" for now j
    using write_vis [of now j "w_now s" "ss_id b" "snd (age_and_take b)" st1]
      destroy_all_vis(2) [of now j "ss_superseded b" "w_store s"] by (simp add: d w)
  ultimately show ?thesis by blast
qed

lemma load_found:
  assumes "sx_store sx = store" "request_cookie dec rq (sc_cookie (sx_config sx)) = Some i" "is_well_formed i"
  shows "fst (load dec sx rq s) = (case vis (w_now s) i (w_store s) of
      Some data \<Rightarrow> attached (restore i data)
    | None \<Rightarrow> attached (session_new (w_random s (w_drawn s))))"
proof -
  obtain st where "so_read store (w_now s) i (w_store s) = (st, Inr (vis (w_now s) i (w_store s)))"
    using read_vis [of "w_now s" i "w_store s"] by (cases "so_read store (w_now s) i (w_store s)") auto
  then show ?thesis
    by (simp add: load_def assms decode_id decode_default_def fresh_def draw_def split: option.split)
qed

text \<open>
  One request after another: what the handler left is what the next request with the cookie
  finds, and an id that was given up finds nothing.
\<close>

lemma session_carries_over:
  assumes sx: "sx_store sx = store"
    and attached: "load dec sx rq s = (attached b0, s1)"
    and handler: "k rq (s1\<lparr>w_bag := Some b0\<rparr>) = (s2, response)" "w_bag s2 = Some b" "ss_dirty b"
    and later: "w_store s' = w_store s3" "w_now s' < w_now s2 + life"
    and handled: "start_handle enc dec fmt valid sx rq k s = (s3, response3)"
  shows "response3 = with_cookie enc fmt valid (session_cookie (sx_config sx) (ss_id b)) response
    \<and> (request_cookie dec rq' (sc_cookie (sx_config sx)) = Some (ss_id b) \<and> is_well_formed (ss_id b) \<longrightarrow>
        fst (load dec sx rq' s') = attached (restore (ss_id b) (snd (age_and_take b))))
    \<and> (\<forall>i \<in> set (ss_superseded b). i \<noteq> ss_id b \<and> is_well_formed i
          \<and> request_cookie dec rq' (sc_cookie (sx_config sx)) = Some i \<longrightarrow>
        fst (load dec sx rq' s') = attached (session_new (w_random s' (w_drawn s'))))"
proof -
  obtain st where save: "save sx b s2 = (s2\<lparr>w_store := st\<rparr>, Inr (ss_id b))"
    and vis: "\<forall>now j. vis now j st =
         (if j = ss_id b then if now < w_now s2 + life then Some (snd (age_and_take b)) else None
          else if j \<in> set (ss_superseded b) then None else vis now j (w_store s2))"
    using save_vis [OF sx, of b s2] by blast
  have "start_handle enc dec fmt valid sx rq k s =
      ((s2\<lparr>w_store := st\<rparr>)\<lparr>w_bag := w_bag s\<rparr>, with_cookie enc fmt valid (session_cookie (sx_config sx) (ss_id b)) response)"
    using attached handler save by (simp add: start_handle_def Let_def attached_def)
  then have s3: "w_store s3 = st" "response3 = with_cookie enc fmt valid (session_cookie (sx_config sx) (ss_id b)) response"
    using handled by auto
  show ?thesis
  proof (intro conjI impI ballI)
    show "fst (load dec sx rq' s') = attached (restore (ss_id b) (snd (age_and_take b)))"
      if "request_cookie dec rq' (sc_cookie (sx_config sx)) = Some (ss_id b) \<and> is_well_formed (ss_id b)"
      using load_found [OF sx, of dec rq' "ss_id b" s'] that vis later s3(1) by simp
    show "fst (load dec sx rq' s') = attached (session_new (w_random s' (w_drawn s')))"
      if "i \<in> set (ss_superseded b)" "i \<noteq> ss_id b \<and> is_well_formed i
          \<and> request_cookie dec rq' (sc_cookie (sx_config sx)) = Some i" for i
      using load_found [OF sx, of dec rq' i s'] that vis later(1) s3(1) by simp
  qed (rule s3(2))
qed

end

section \<open>Over the in-process store\<close>

text \<open>
  C4. A session survives its request, and an id that was given up dies. Take a request over the
  in-process store whose handler changed its bag. The response carries a cookie with the id of
  the bag; a later request with that cookie, within the lifetime, starts with exactly what the
  handler left, aged by one request. A request that still carries an id the handler gave up (on
  login, with \<^verbatim>\<open>regenerate\<close>, or on logout, with \<^verbatim>\<open>invalidate\<close>) starts with a fresh, empty session.
\<close>

theorem session_survives_and_old_ids_die:
  assumes "sx_store sx = memory_session_store lifetime"
    and "load dec sx rq s = (attached b0, s1)"
    and "k rq (s1\<lparr>w_bag := Some b0\<rparr>) = (s2, response)" "w_bag s2 = Some b" "ss_dirty b"
    and "w_store s' = w_store s3" "w_now s' < w_now s2 + lifetime"
    and "start_handle enc dec fmt valid sx rq k s = (s3, response3)"
  shows "response3 = with_cookie enc fmt valid (session_cookie (sx_config sx) (ss_id b)) response
    \<and> (request_cookie dec rq' (sc_cookie (sx_config sx)) = Some (ss_id b) \<and> is_well_formed (ss_id b) \<longrightarrow>
        fst (load dec sx rq' s') = attached (restore (ss_id b) (snd (age_and_take b))))
    \<and> (\<forall>i \<in> set (ss_superseded b). i \<noteq> ss_id b \<and> is_well_formed i
          \<and> request_cookie dec rq' (sc_cookie (sx_config sx)) = Some i \<longrightarrow>
        fst (load dec sx rq' s') = attached (session_new (w_random s' (w_drawn s'))))"
  using assms by (rule mss.session_carries_over)

text \<open>
  C39. An outage of the store is ridden out. When the session of a request cannot be read, the
  handler runs with an empty bag under the id the cookie carries, and the middleware then leaves
  everything alone: the response is the handler's own, with no cookie, and the store is as the
  handler left it, whatever was put into the bag. Likewise a request that starts with an empty
  session and does not change it gets neither a stored session nor a cookie.
\<close>

theorem start_session_leaves_alone:
  assumes "load dec sx rq s = (ld, s1)"
    and "k rq (s1\<lparr>w_bag := Some (ld_session ld)\<rparr>) = (s2, response)" "w_bag s2 = Some b"
    and "ld_detached ld \<or> session_is_empty (ld_session ld) \<and> \<not> ss_dirty b"
  shows "start_handle enc dec fmt valid sx rq k s = (s2\<lparr>w_bag := w_bag s\<rparr>, response)
    \<and> (request_cookie dec rq (sc_cookie (sx_config sx)) = Some v \<and> so_decode (sx_store sx) v = Inr (i, None)
        \<and> snd (so_read (sx_store sx) (w_now s) i (w_store s)) = Inl e \<longrightarrow>
        ld = detached (restore i data_default))"
proof
  show "start_handle enc dec fmt valid sx rq k s = (s2\<lparr>w_bag := w_bag s\<rparr>, response)"
    using assms by (auto simp: start_handle_def Let_def)
  show "request_cookie dec rq (sc_cookie (sx_config sx)) = Some v \<and> so_decode (sx_store sx) v = Inr (i, None)
        \<and> snd (so_read (sx_store sx) (w_now s) i (w_store s)) = Inl e \<longrightarrow>
        ld = detached (restore i data_default)"
    using assms(1) by (auto simp: load_def Let_def split: prod.splits)
qed

section \<open>Examples\<close>

definition demo_web :: "(session_entries, unit) web" where
  "demo_web = \<lparr>w_bag = None, w_store = [], w_random = (\<lambda>_. replicate 32 (CHR 0x01)), w_drawn = 0,
     w_now = 0, w_app = ()\<rparr>"

definition demo_session :: "session_entries start_session" where
  "demo_session = start_session_new (memory_session_store 7200000)"

text \<open>A login: remember the user and change the id.\<close>

definition log_in :: "session \<Rightarrow> session" where
  "log_in b = regenerate (replicate 32 (CHR 0x02)) (fst (session_put ''user'' (Inr (JNumber ''7'')) b))"

definition login :: "(session_entries, unit) web destination" where
  "login rq s = (s\<lparr>w_bag := map_option log_in (w_bag s)\<rparr>, response_new 200)"

definition with_session_cookie :: "string \<Rightarrow> routed" where
  "with_session_cookie i = (bare_request ''GET'' ''/'')\<lparr>rq_headers := [(''cookie'', ''rainier_session='' @ i)]\<rparr>"

definition old_id :: string where "old_id = generate_session_id (replicate 32 (CHR 0x01))"
definition new_id :: string where "new_id = generate_session_id (replicate 32 (CHR 0x02))"

lemma hexdigit_graphic: "is_hexdigit c \<Longrightarrow> graphic c \<and> c \<noteq> CHR '';'' \<and> c \<noteq> CHR 0x22"
  by (auto simp: is_hexdigit_def hex_value_def is_digit_def byte_in_def graphic_def Let_def split: if_splits)

lemma hex_cookie:
  assumes "is_well_formed i"
  shows "request_cookie (\<lambda>t. t) (with_session_cookie i) ''rainier_session'' = Some i"
proof -
  have i: "\<forall>c \<in> set i. graphic c \<and> c \<noteq> CHR '';'' \<and> c \<noteq> CHR 0x22"
    using assms hexdigit_graphic by (auto simp: is_well_formed_def list_all_iff)
  have printable: "list_all (\<lambda>c. 32 \<le> (of_char c :: nat) \<and> (of_char c :: nat) \<le> 126 \<or> c = CHR 0x09) i"
    using i by (force simp: list_all_iff graphic_def)
  let ?h = "''rainier_session'' @ CHR ''='' # i"
  have "CHR '';'' \<notin> set ?h" using i by auto
  then have "split_on CHR '';'' ?h = [?h]" by (rule split_on_single)
  moreover have "trim ?h = ?h" by (rule trim_graphic) (use i in \<open>simp add: graphic_def\<close>)
  moreover have "trim i = i" by (rule trim_graphic) (use i in simp)
  moreover have "trim ''rainier_session'' = ''rainier_session''" by (rule trim_graphic) (simp add: graphic_def)
  moreover have "split_once CHR ''='' ?h = Some (''rainier_session'', i)" by (rule split_once_append) simp
  moreover have "strip_prefix_char CHR 0x22 i = None" using i by (cases i) (auto simp: strip_prefix_char_def)
  ultimately show ?thesis
    by (simp add: request_cookie_def with_session_cookie_def bare_request_def request_header_def header_to_str_def byte_in_def header_get_def
        parse_cookie_header_def cookie_pair_def decode_cookie_def strip_prefix_char_def printable)
qed

lemma demo_ids: "is_well_formed old_id" "is_well_formed new_id" "old_id \<noteq> new_id"
proof -
  show "is_well_formed old_id" "is_well_formed new_id"
    by (simp_all add: old_id_def new_id_def generated_well_formed)
  have "generate_session_id (replicate 32 c) ! 1 = hex_digit ((of_char c :: nat) mod 16)" for c
    using replicate_Suc [of 31 c] by (simp add: generate_session_id_def Let_def)
  from this [of "CHR 0x01"] this [of "CHR 0x02"] have "old_id ! 1 \<noteq> new_id ! 1"
    by (simp add: old_id_def new_id_def hex_digit_def)
  then show "old_id \<noteq> new_id" by metis
qed

lemmas demo_facts = hex_cookie [OF demo_ids(1)] hex_cookie [OF demo_ids(2)] demo_ids

theorem session_survives_and_old_ids_die_witness:
  "\<exists>s3 response3. start_handle pct_encode (\<lambda>t. t) (\<lambda>d :: nat. []) (\<lambda>_ _. True) demo_session
       (bare_request ''POST'' ''/login'') login demo_web = (s3, response3)
   \<and> fst (load (\<lambda>t. t) demo_session (with_session_cookie new_id) (s3\<lparr>w_now := 1000\<rparr>))
       = attached (restore new_id \<lparr>sd_values = [(''user'', JNumber ''7'')], sd_flash = []\<rparr>)
   \<and> session_is_empty (ld_session (fst (load (\<lambda>t. t) demo_session (with_session_cookie old_id) (s3\<lparr>w_now := 1000\<rparr>))))"
proof -
  let ?rq = "bare_request ''POST'' ''/login''" and ?fresh = "session_new (replicate 32 (CHR 0x01))"
  let ?s1 = "demo_web\<lparr>w_drawn := 1\<rparr>" and ?s2 = "demo_web\<lparr>w_drawn := 1, w_bag := Some (log_in ?fresh)\<rparr>"
    and ?left = "log_in ?fresh"
  obtain s3 response3 where h: "start_handle pct_encode (\<lambda>t. t) (\<lambda>d :: nat. []) (\<lambda>_ _. True) demo_session
       ?rq login demo_web = (s3, response3)" by (metis prod.collapse)
  have store: "sx_store demo_session = memory_session_store 7200000"
    and name: "sc_cookie (sx_config demo_session) = ''rainier_session''"
    by (simp_all add: demo_session_def start_session_new_def session_config_default_def)
  have load: "load (\<lambda>t. t) demo_session ?rq demo_web = (attached ?fresh, ?s1)"
    by (simp add: load_def request_cookie_def request_header_def header_to_str_def byte_in_def header_get_def bare_request_def fresh_def
        draw_def demo_web_def)
  have run: "login ?rq (?s1\<lparr>w_bag := Some ?fresh\<rparr>) = (?s2, response_new 200)"
    "w_bag ?s2 = Some ?left" "ss_dirty ?left"
    by (simp_all add: login_def demo_web_def log_in_def regenerate_def)
  have b: "ss_id ?left = new_id" "ss_superseded ?left = [old_id]"
    "snd (age_and_take ?left) = \<lparr>sd_values = [(''user'', JNumber ''7'')], sd_flash = []\<rparr>"
    by (simp_all add: log_in_def regenerate_def new_id_def old_id_def session_put_def session_new_def
        restore_def data_default_def age_and_take_def hm_insert_def Let_def)
  have now: "w_now (s3\<lparr>w_now := 1000\<rparr>) < w_now ?s2 + 7200000" by (simp add: demo_web_def)
  note next_req = session_survives_and_old_ids_die [OF store load run _ now h]
  show ?thesis
    using h next_req [of "with_session_cookie new_id"] next_req [of "with_session_cookie old_id"] demo_facts
    by (simp add: b name) (simp add: attached_def session_new_def restore_def data_default_def
        session_is_empty_def hm_len_def)
qed

theorem start_session_leaves_alone_witness:
  "start_handle pct_encode (\<lambda>t. t) (\<lambda>d :: nat. []) (\<lambda>_ _. True) demo_session
     (bare_request ''GET'' ''/'') (\<lambda>rq s. (s, response_new 200)) demo_web
   = (demo_web\<lparr>w_drawn := 1\<rparr>, response_new 200)"
proof -
  let ?fresh = "session_new (replicate 32 (CHR 0x01))"
  have load: "load (\<lambda>t. t) demo_session (bare_request ''GET'' ''/'') demo_web
      = (attached ?fresh, demo_web\<lparr>w_drawn := 1\<rparr>)"
    by (simp add: load_def request_cookie_def request_header_def header_to_str_def byte_in_def header_get_def bare_request_def fresh_def
        draw_def demo_web_def)
  have "ld_detached (attached ?fresh) \<or> session_is_empty (ld_session (attached ?fresh)) \<and> \<not> ss_dirty ?fresh"
    by (simp add: attached_def session_new_def restore_def data_default_def session_is_empty_def hm_len_def)
  then show ?thesis
    using start_session_leaves_alone [OF load, of "\<lambda>rq s. (s, response_new 200)"
        "demo_web\<lparr>w_drawn := 1, w_bag := Some ?fresh\<rparr>" "response_new 200" ?fresh
        pct_encode "\<lambda>d :: nat. []" "\<lambda>_ _. True"]
    by (simp add: attached_def demo_web_def)
qed

end
