(* ===== verification/Csrf.thy ===== *)
theory Csrf
  imports Start_Session "HOL-Library.Monad_Syntax"
begin

text \<open>
  Protection against forged requests, \<^verbatim>\<open>rainier-session/src/csrf.rs\<close>: the wildcard matcher of the
  except-list, the comparison of tokens, what a request presents, and the whole middleware. The
  loop of the matcher keeps the indices of the code; it is a partial function whose result is
  proved to exist. Log lines are left out.
\<close>

unbundle bit_operations_syntax

section \<open>The code\<close>

partial_function (option) wildcard_loop ::
  "string \<Rightarrow> string \<Rightarrow> nat \<Rightarrow> nat \<Rightarrow> nat option \<Rightarrow> nat \<Rightarrow> nat option option"
where
  "wildcard_loop p t pi ti star mark =
     (if ti < length t
      then if pi < length p \<and> p ! pi = CHR ''*'' then wildcard_loop p t (pi + 1) ti (Some pi) ti
           else if pi < length p \<and> p ! pi = t ! ti then wildcard_loop p t (pi + 1) (ti + 1) star mark
           else (case star of
                   Some s \<Rightarrow> wildcard_loop p t (s + 1) (mark + 1) star (mark + 1)
                 | None \<Rightarrow> Some None)
      else Some (Some pi))"

function skip_stars :: "string \<Rightarrow> nat \<Rightarrow> nat" where
  "skip_stars p pi = (if pi < length p \<and> p ! pi = CHR ''*'' then skip_stars p (pi + 1) else pi)"
  by pat_completeness auto
termination
  by (relation "measure (\<lambda>(p, pi). length p - pi)") auto

declare skip_stars.simps [simp del]

text \<open>The loop returns early with \<^verbatim>\<open>false\<close>, or leaves an index into the pattern.\<close>

definition wildcard :: "string \<Rightarrow> string \<Rightarrow> bool option" where
  "wildcard p t =
     map_option (\<lambda>r. case r of None \<Rightarrow> False | Some pi \<Rightarrow> skip_stars p pi = length p)
       (wildcard_loop p t 0 0 None 0)"

definition constant_time_eq :: "string \<Rightarrow> string \<Rightarrow> bool" where
  "constant_time_eq a b =
     (if length a \<noteq> length b then False
      else fold (\<lambda>(x, y) acc. acc OR ((of_char x :: octet) XOR of_char y)) (zip a b) (0 :: octet) = 0)"

definition XSRF_COOKIE :: string where "XSRF_COOKIE = ''XSRF-TOKEN''"

record xsrf_codec =
  xc_seal :: "string \<Rightarrow> string result"
  xc_open :: "string \<Rightarrow> string option"

definition plain_xsrf :: xsrf_codec where
  "plain_xsrf = \<lparr>xc_seal = Inr, xc_open = Some\<rparr>"

record csrf =
  cs_except :: "string list"
  cs_codec :: xsrf_codec
  cs_cookie :: bool
  cs_path :: string
  cs_domain :: "string option"
  cs_secure :: bool
  cs_same_site :: same_site
  cs_fetch_metadata :: bool
  cs_allow_same_site :: bool
  cs_mint_on_read :: bool

definition csrf_new :: csrf where
  "csrf_new = \<lparr>cs_except = [], cs_codec = plain_xsrf, cs_cookie = True, cs_path = ''/'', cs_domain = None,
     cs_secure = False, cs_same_site = Lax, cs_fetch_metadata = True, cs_allow_same_site = False,
     cs_mint_on_read = True\<rparr>"

definition csrf_except :: "string list \<Rightarrow> csrf \<Rightarrow> csrf" where
  "csrf_except paths c = c\<lparr>cs_except := cs_except c @ paths\<rparr>"

definition csrf_codec :: "xsrf_codec \<Rightarrow> csrf \<Rightarrow> csrf" where
  "csrf_codec codec c = c\<lparr>cs_codec := codec\<rparr>"

definition csrf_cookie :: "bool \<Rightarrow> csrf \<Rightarrow> csrf" where
  "csrf_cookie enabled c = c\<lparr>cs_cookie := enabled\<rparr>"

definition cookie_attributes :: "string \<Rightarrow> string option \<Rightarrow> bool \<Rightarrow> same_site \<Rightarrow> csrf \<Rightarrow> csrf" where
  "cookie_attributes path domain secure ss c =
     c\<lparr>cs_path := path, cs_domain := domain, cs_secure := secure, cs_same_site := ss\<rparr>"

definition trust_fetch_metadata :: "bool \<Rightarrow> csrf \<Rightarrow> csrf" where
  "trust_fetch_metadata trust c = c\<lparr>cs_fetch_metadata := trust\<rparr>"

definition allow_same_site :: "bool \<Rightarrow> csrf \<Rightarrow> csrf" where
  "allow_same_site allow c = c\<lparr>cs_allow_same_site := allow\<rparr>"

definition mint_on_read :: "bool \<Rightarrow> csrf \<Rightarrow> csrf" where
  "mint_on_read mint c = c\<lparr>cs_mint_on_read := mint\<rparr>"

definition is_reading :: "'b request_scheme \<Rightarrow> bool" where
  "is_reading rq \<longleftrightarrow> rq_method rq \<in> set [''GET'', ''HEAD'', ''OPTIONS'']"

definition excepts :: "string \<Rightarrow> string \<Rightarrow> bool" where
  "excepts path pattern =
     (let pattern = (if pattern = ''/'' then pattern else trim_start_char CHR ''/'' pattern)
      in if pattern = ''/'' then path = [] else wildcard pattern path = Some True)"

definition is_excepted :: "csrf \<Rightarrow> 'b request_scheme \<Rightarrow> bool" where
  "is_excepted c rq = list_ex (excepts (trim_start_char CHR ''/'' (rq_path rq))) (cs_except c)"

definition fetch_metadata_passes :: "csrf \<Rightarrow> 'b request_scheme \<Rightarrow> bool" where
  "fetch_metadata_passes c rq =
     (if \<not> cs_fetch_metadata c then False
      else case request_header ''sec-fetch-site'' rq of
             None \<Rightarrow> False
           | Some v \<Rightarrow> if v = ''same-origin'' then True else if v = ''same-site'' then cs_allow_same_site c else False)"

definition non_empty :: "string option \<Rightarrow> string option" where
  "non_empty x = (case x of Some t \<Rightarrow> if t = [] then None else Some t | None \<Rightarrow> None)"

definition presented :: "parsers \<Rightarrow> csrf \<Rightarrow> routed \<Rightarrow> string option" where
  "presented pa c rq =
     (case non_empty (input pa rq ''_token'') of
        Some t \<Rightarrow> Some t
      | None \<Rightarrow>
          (case non_empty (request_header ''x-csrf-token'' rq) of
             Some t \<Rightarrow> Some t
           | None \<Rightarrow> Option.bind (non_empty (request_header ''x-xsrf-token'' rq)) (xc_open (cs_codec c))))"

definition tokens_match :: "parsers \<Rightarrow> (json \<Rightarrow> string) \<Rightarrow> csrf \<Rightarrow> routed \<Rightarrow> session option \<Rightarrow> bool" where
  "tokens_match pa render c rq bag =
     (case bag of
        None \<Rightarrow> False
      | Some b \<Rightarrow>
          (case presented pa c rq of
             None \<Rightarrow> False
           | Some p \<Rightarrow>
               (case session_string render TOKEN_KEY b of
                  Some t \<Rightarrow> constant_time_eq t p
                | None \<Rightarrow> False)))"

definition xsrf_cookie :: "csrf \<Rightarrow> string \<Rightarrow> 'd cookie" where
  "xsrf_cookie c v =
     (let k = cookie_same_site (cs_same_site c) (cookie_secure (cs_secure c) (cookie_http_only False
                (cookie_path (cs_path c) (cookie_new XSRF_COOKIE v))))
      in case cs_domain c of Some d \<Rightarrow> cookie_domain d k | None \<Rightarrow> k)"

text \<open>Attaching the cookie mints a token in the bag when there is none; only then bytes are drawn.\<close>

definition csrf_with_cookie ::
  "encoder \<Rightarrow> ('d \<Rightarrow> string) \<Rightarrow> header_check \<Rightarrow> csrf \<Rightarrow> session \<Rightarrow> response \<Rightarrow> ('st, 'a) web
    \<Rightarrow> ('st, 'a) web \<times> response"
where
  "csrf_with_cookie enc fmt valid c b response s =
     (if \<not> cs_cookie c then (s, response)
      else if \<not> cs_mint_on_read c \<and> \<not> session_has TOKEN_KEY b then (s, response)
      else let (random, s') = (if has_token b then ([], s) else draw s);
               (b', token) = session_token random b;
               s2 = s'\<lparr>w_bag := Some b'\<rparr>
           in case xc_seal (cs_codec c) token of
                Inl _ \<Rightarrow> (s2, response)
              | Inr v \<Rightarrow> (s2, with_cookie enc fmt valid (xsrf_cookie c v :: 'd cookie) response))"

definition mismatch :: "header_check \<Rightarrow> routed \<Rightarrow> response" where
  "mismatch valid rq =
     (if expects_json rq
      then with_status 419 (response_json valid (JObject [(''message'', JString ''CSRF token mismatch.'')]))
      else with_status 419 (response_text valid ''CSRF token mismatch.''))"

definition csrf_handle ::
  "encoder \<Rightarrow> ('d \<Rightarrow> string) \<Rightarrow> header_check \<Rightarrow> parsers \<Rightarrow> (json \<Rightarrow> string) \<Rightarrow> csrf \<Rightarrow> routed
    \<Rightarrow> ('st, 'a) web destination \<Rightarrow> ('st, 'a) web \<Rightarrow> ('st, 'a) web \<times> response"
where
  "csrf_handle enc fmt valid pa render c rq k s =
     (if \<not> (is_reading rq \<or> is_excepted c rq \<or> fetch_metadata_passes c rq \<or> tokens_match pa render c rq (w_bag s))
      then (s, mismatch valid rq)
      else let (s2, response) = k rq s
           in case w_bag s of
                None \<Rightarrow> (s2, response)
              | Some b \<Rightarrow>
                  csrf_with_cookie enc fmt valid c (case w_bag s2 of Some b' \<Rightarrow> b' | None \<Rightarrow> b) response s2)"

section \<open>The matcher\<close>

fun glob :: "string \<Rightarrow> string \<Rightarrow> bool" where
  "glob [] t \<longleftrightarrow> t = []"
| "glob (c # p) t \<longleftrightarrow>
     (if c = CHR ''*'' then glob p t \<or> (case t of [] \<Rightarrow> False | _ # t' \<Rightarrow> glob (c # p) t')
      else (case t of [] \<Rightarrow> False | d # t' \<Rightarrow> c = d \<and> glob p t'))"

declare glob.simps(2) [simp del]

lemma glob_char [simp]:
  "c \<noteq> CHR ''*'' \<Longrightarrow> glob (c # p) [] = False"
  "c \<noteq> CHR ''*'' \<Longrightarrow> glob (c # p) (d # t) \<longleftrightarrow> c = d \<and> glob p t"
  "glob (CHR ''*'' # p) [] \<longleftrightarrow> glob p []"
  "glob (CHR ''*'' # p) (d # t) \<longleftrightarrow> glob p (d # t) \<or> glob (CHR ''*'' # p) t"
  by (simp_all add: glob.simps(2))

lemma glob_star: "glob (CHR ''*'' # p) t \<longleftrightarrow> (\<exists>n \<le> length t. glob p (drop n t))"
proof (induction t)
  case Nil
  then show ?case by simp
next
  case (Cons d t)
  have "(\<exists>n \<le> length (d # t). glob p (drop n (d # t))) \<longleftrightarrow> glob p (d # t) \<or> (\<exists>n \<le> length t. glob p (drop n t))"
    (is "?l \<longleftrightarrow> ?r")
  proof
    assume ?l
    then obtain n where "n \<le> length (d # t)" "glob p (drop n (d # t))" by blast
    then show ?r by (cases n) auto
  next
    assume ?r
    then show ?l by (metis drop0 drop_Suc_Cons le0 length_Cons not_less_eq_eq)
  qed
  then show ?case using Cons by simp
qed

lemma glob_literal: "CHR ''*'' \<notin> set w \<Longrightarrow> glob (w @ p) t \<longleftrightarrow> (\<exists>t'. t = w @ t' \<and> glob p t')"
proof (induction w arbitrary: t)
  case (Cons c w)
  then show ?case by (cases t) auto
qed simp

lemma glob_Nil: "glob p [] \<longleftrightarrow> list_all (\<lambda>c. c = CHR ''*'') p"
proof (induction p)
  case (Cons c p)
  then show ?case by (cases "c = CHR ''*''") simp_all
qed simp

lemma skip_stars_eq: "pi \<le> length p \<Longrightarrow> skip_stars p pi = length p \<longleftrightarrow> glob (drop pi p) []"
proof (induction p pi rule: skip_stars.induct)
  case (1 p pi)
  show ?case
  proof (cases "pi < length p")
    case True
    then have "drop pi p = p ! pi # drop (pi + 1) p" by (simp add: Cons_nth_drop_Suc)
    then show ?thesis using 1 True by (subst skip_stars.simps) auto
  next
    case False
    then show ?thesis using 1 by (subst skip_stars.simps) simp
  qed
qed

text \<open>
  The state of the loop. After a star at \<open>s\<close>, the pattern between the star and \<open>pi\<close> is a literal
  that matches the text between the mark and \<open>ti\<close>; what is left to try are the later marks.
\<close>

definition loop_inv :: "string \<Rightarrow> string \<Rightarrow> nat \<Rightarrow> nat \<Rightarrow> nat option \<Rightarrow> nat \<Rightarrow> bool" where
  "loop_inv p t pi ti star mark \<longleftrightarrow> pi \<le> length p \<and> ti \<le> length t \<and> mark \<le> ti
     \<and> (\<forall>s. star = Some s \<longrightarrow> s < length p \<and> (\<exists>w. drop (s + 1) p = w @ drop pi p
          \<and> drop mark t = w @ drop ti t \<and> CHR ''*'' \<notin> set w))"

definition later_marks :: "string \<Rightarrow> string \<Rightarrow> nat option \<Rightarrow> nat \<Rightarrow> bool" where
  "later_marks p t star mark \<longleftrightarrow>
     (\<exists>s j. star = Some s \<and> mark < j \<and> j \<le> length t \<and> glob (drop (s + 1) p) (drop j t))"

text \<open>A later mark moves the literal to the right of where it matched.\<close>

lemma later_marks_shift:
  assumes "loop_inv p t pi ti star mark" "later_marks p t star mark"
  shows "\<exists>n. 0 < n \<and> n \<le> length (drop ti t) \<and> glob (drop pi p) (drop n (drop ti t))"
proof -
  obtain s j where s: "star = Some s" and j: "mark < j" "j \<le> length t" "glob (drop (s + 1) p) (drop j t)"
    using assms(2) by (auto simp: later_marks_def)
  obtain w where w: "drop (s + 1) p = w @ drop pi p" "drop mark t = w @ drop ti t" "CHR ''*'' \<notin> set w"
    and le: "mark \<le> ti" "ti \<le> length t"
    using assms(1) s by (auto simp: loop_inv_def)
  obtain t' where t': "drop j t = w @ t'" "glob (drop pi p) t'"
    using j(3) unfolding w(1) glob_literal [OF w(3)] by blast
  have "length t - mark = length w + (length t - ti)" using arg_cong [OF w(2), of length] by simp
  then have ti: "ti = mark + length w" using le by simp
  have "length t - j = length w + length t'" using arg_cong [OF t'(1), of length] by simp
  then have j_le: "j + length w \<le> length t" using j(2) by simp
  have "t' = drop (j + length w) t" using arg_cong [OF t'(1), of "drop (length w)"] by (simp add: add.commute)
  also have "\<dots> = drop (j - mark) (drop ti t)" using j(1) by (simp add: ti)
  finally have "glob (drop pi p) (drop (j - mark) (drop ti t))" using t'(2) by simp
  moreover have "0 < j - mark" "j - mark \<le> length (drop ti t)" using j(1) j_le ti by auto
  ultimately show ?thesis by blast
qed

lemma glob_star_drop: "n \<le> length t \<Longrightarrow> glob (CHR ''*'' # p) (drop n t) \<Longrightarrow> glob (CHR ''*'' # p) t"
proof -
  assume n: "n \<le> length t" and "glob (CHR ''*'' # p) (drop n t)"
  then obtain m where "m \<le> length t - n" "glob p (drop (m + n) t)" by (auto simp: glob_star)
  then show ?thesis using n by (auto simp: glob_star intro!: exI [of _ "m + n"])
qed

lemma drop_glob_split:
  "pi < length p \<Longrightarrow> drop pi p = p ! pi # drop (pi + 1) p"
  by (simp add: Cons_nth_drop_Suc)

definition finish :: "string \<Rightarrow> nat option \<Rightarrow> bool" where
  "finish p r = (case r of None \<Rightarrow> False | Some q \<Rightarrow> skip_stars p q = length p)"

definition todo :: "string \<Rightarrow> string \<Rightarrow> nat \<Rightarrow> nat \<Rightarrow> nat option \<Rightarrow> nat \<Rightarrow> bool" where
  "todo p t pi ti star mark \<longleftrightarrow> glob (drop pi p) (drop ti t) \<or> later_marks p t star mark"

text \<open>The four branches.\<close>

lemma loop_end: "loop_inv p t pi (length t) star mark \<Longrightarrow> todo p t pi (length t) star mark \<longleftrightarrow> skip_stars p pi = length p"
  using later_marks_shift [of p t pi "length t" star mark] skip_stars_eq [of pi p]
  by (auto simp: todo_def loop_inv_def)

lemma loop_star:
  assumes "loop_inv p t pi ti star mark" "ti < length t" "pi < length p" "p ! pi = CHR ''*''"
  shows "todo p t pi ti star mark \<longleftrightarrow> todo p t (pi + 1) ti (Some pi) ti" "loop_inv p t (pi + 1) ti (Some pi) ti"
proof -
  have d: "drop pi p = CHR ''*'' # drop (pi + 1) p" using drop_glob_split [OF assms(3)] assms(4) by simp
  have "later_marks p t star mark \<Longrightarrow> glob (drop pi p) (drop ti t)"
    using later_marks_shift [OF assms(1)] glob_star_drop unfolding d by blast
  then have "todo p t pi ti star mark \<longleftrightarrow> glob (CHR ''*'' # drop (pi + 1) p) (drop ti t)"
    using d by (auto simp: todo_def)
  also have "\<dots> \<longleftrightarrow> (\<exists>j. ti \<le> j \<and> j \<le> length t \<and> glob (drop (pi + 1) p) (drop j t))"
    unfolding glob_star
  proof
    assume "\<exists>n \<le> length (drop ti t). glob (drop (pi + 1) p) (drop n (drop ti t))"
    then obtain n where "n \<le> length t - ti" "glob (drop (pi + 1) p) (drop (n + ti) t)" by auto
    then show "\<exists>j. ti \<le> j \<and> j \<le> length t \<and> glob (drop (pi + 1) p) (drop j t)"
      using assms(2) by (intro exI [of _ "n + ti"]) auto
  next
    assume "\<exists>j. ti \<le> j \<and> j \<le> length t \<and> glob (drop (pi + 1) p) (drop j t)"
    then obtain j where "ti \<le> j" "j \<le> length t" "glob (drop (pi + 1) p) (drop j t)" by blast
    then show "\<exists>n \<le> length (drop ti t). glob (drop (pi + 1) p) (drop n (drop ti t))"
      by (intro exI [of _ "j - ti"]) auto
  qed
  also have "\<dots> \<longleftrightarrow> todo p t (pi + 1) ti (Some pi) ti"
    using assms(2) by (auto simp: todo_def later_marks_def le_less)
  finally show "todo p t pi ti star mark \<longleftrightarrow> todo p t (pi + 1) ti (Some pi) ti" .
  show "loop_inv p t (pi + 1) ti (Some pi) ti" using assms by (simp add: loop_inv_def)
qed

lemma loop_char:
  assumes "loop_inv p t pi ti star mark" "ti < length t" "pi < length p" "p ! pi \<noteq> CHR ''*''" "p ! pi = t ! ti"
  shows "todo p t pi ti star mark \<longleftrightarrow> todo p t (pi + 1) (ti + 1) star mark" "loop_inv p t (pi + 1) (ti + 1) star mark"
proof -
  note d = drop_glob_split [OF assms(3)] drop_glob_split [OF assms(2)]
  show "todo p t pi ti star mark \<longleftrightarrow> todo p t (pi + 1) (ti + 1) star mark"
    using assms(4,5) by (simp add: todo_def d)
  have "\<exists>w. drop (s + 1) p = w @ drop (pi + 1) p \<and> drop mark t = w @ drop (ti + 1) t \<and> CHR ''*'' \<notin> set w"
    if s: "star = Some s" for s
  proof -
    obtain w where "drop (s + 1) p = w @ drop pi p" "drop mark t = w @ drop ti t" "CHR ''*'' \<notin> set w"
      using assms(1) s by (auto simp: loop_inv_def)
    then show ?thesis using d assms(4,5) by (intro exI [of _ "w @ [p ! pi]"]) simp
  qed
  then show "loop_inv p t (pi + 1) (ti + 1) star mark" using assms(1-3) by (auto simp: loop_inv_def)
qed

lemma later_from:
  fixes P :: "nat \<Rightarrow> bool"
  assumes "mark + 1 \<le> n"
  shows "(\<exists>j. mark < j \<and> j \<le> n \<and> P j) \<longleftrightarrow> P (mark + 1) \<or> (\<exists>j. mark + 1 < j \<and> j \<le> n \<and> P j)"
  using assms by (metis Suc_eq_plus1 Suc_lessD Suc_lessI lessI)

lemma loop_back:
  assumes "loop_inv p t pi ti star mark" "ti < length t" "\<not> (pi < length p \<and> p ! pi = CHR ''*'')"
    "\<not> (pi < length p \<and> p ! pi = t ! ti)"
  shows "star = None \<Longrightarrow> \<not> todo p t pi ti star mark"
    and "star = Some s \<Longrightarrow> todo p t pi ti star mark \<longleftrightarrow> todo p t (s + 1) (mark + 1) star (mark + 1)"
    and "star = Some s \<Longrightarrow> loop_inv p t (s + 1) (mark + 1) star (mark + 1)"
proof -
  have no: "\<not> glob (drop pi p) (drop ti t)"
    using assms(2-4) drop_glob_split [of pi p] drop_glob_split [of ti t]
    by (cases "pi < length p") auto
  then show "star = None \<Longrightarrow> \<not> todo p t pi ti star mark" by (simp add: todo_def later_marks_def)
  have "mark + 1 \<le> length t" using assms(1,2) by (simp add: loop_inv_def)
  then show "star = Some s \<Longrightarrow> todo p t pi ti star mark \<longleftrightarrow> todo p t (s + 1) (mark + 1) star (mark + 1)"
    using no later_from [of mark "length t" "\<lambda>j. glob (drop (s + 1) p) (drop j t)"]
    by (auto simp: todo_def later_marks_def)
  show "star = Some s \<Longrightarrow> loop_inv p t (s + 1) (mark + 1) star (mark + 1)"
    using assms(1,2) by (auto simp: loop_inv_def)
qed

lemma wildcard_loop_correct:
  "loop_inv p t pi ti star mark \<Longrightarrow>
   \<exists>r. wildcard_loop p t pi ti star mark = Some r \<and> (finish p r \<longleftrightarrow> todo p t pi ti star mark)"
proof (induction "(length t - mark) * (length p + 1) + (length p - pi)" arbitrary: pi ti star mark rule: less_induct)
  case less
  note inv = less.prems
  consider "ti = length t" | "ti < length t" "pi < length p" "p ! pi = CHR ''*''"
    | "ti < length t" "pi < length p" "p ! pi \<noteq> CHR ''*''" "p ! pi = t ! ti"
    | "ti < length t" "\<not> (pi < length p \<and> p ! pi = CHR ''*'')" "\<not> (pi < length p \<and> p ! pi = t ! ti)"
    using inv by (fastforce simp: loop_inv_def)
  then show ?case
  proof cases
    case 1
    then show ?thesis using loop_end inv by (subst wildcard_loop.simps) (simp add: finish_def)
  next
    case 2
    have "(length t - ti) * (length p + 1) \<le> (length t - mark) * (length p + 1)"
      using inv by (intro mult_le_mono1) (auto simp: loop_inv_def)
    then have "(length t - ti) * (length p + 1) + (length p - (pi + 1))
        < (length t - mark) * (length p + 1) + (length p - pi)" using 2 by linarith
    from less.hyps [OF this loop_star(2) [OF inv 2]] show ?thesis
      using loop_star(1) [OF inv 2] 2 by (subst wildcard_loop.simps) simp
  next
    case 3
    have "(length t - mark) * (length p + 1) + (length p - (pi + 1))
        < (length t - mark) * (length p + 1) + (length p - pi)" using 3 by linarith
    from less.hyps [OF this loop_char(2) [OF inv 3]] show ?thesis
      using loop_char(1) [OF inv 3] 3 by (subst wildcard_loop.simps) simp
  next
    case 4
    note retry = loop_back [OF inv 4]
    show ?thesis
    proof (cases star)
      case None
      then show ?thesis using retry(1) 4 by (subst wildcard_loop.simps) (auto simp: finish_def)
    next
      case (Some s)
      have "length t - mark = Suc (length t - (mark + 1))" using inv 4 by (auto simp: loop_inv_def)
      then have "(length t - (mark + 1)) * (length p + 1) + (length p - (s + 1))
          < (length t - mark) * (length p + 1) + (length p - pi)" by simp
      from less.hyps [OF this retry(3) [OF Some]] show ?thesis
        using retry(2) [OF Some] 4 Some by (subst wildcard_loop.simps) auto
    qed
  qed
qed

lemma wildcard_glob: "wildcard p t = Some (glob p t)"
proof -
  have "loop_inv p t 0 0 None 0" by (simp add: loop_inv_def)
  from wildcard_loop_correct [OF this] show ?thesis
    by (auto simp: wildcard_def finish_def todo_def later_marks_def)
qed

text \<open>
  C24. The matcher terminates and means what its documentation says. For every pattern and text
  the backtracking loop ends, and its answer is that of the reference matcher, in which a star
  stands for any run of characters and every other character for itself; so a pattern without a
  star matches itself only.
\<close>

theorem wildcard_is_glob:
  "wildcard p t = Some (glob p t) \<and> (CHR ''*'' \<notin> set p \<longrightarrow> wildcard p t = Some (p = t))"
  using glob_literal [of p "[]" t] by (auto simp: wildcard_glob)

theorem wildcard_is_glob_witness:
  "wildcard ''stripe/webhook'' ''stripe/webhook/x'' = Some False"
  using wildcard_is_glob [of "''stripe/webhook''" "''stripe/webhook/x''"] by simp

section \<open>Tokens\<close>

lemma octet_of_char_inject: "(of_char x :: octet) = of_char y \<longleftrightarrow> x = y"
proof
  assume eq: "(of_char x :: octet) = of_char y"
  have "unat (of_char c :: octet) = (of_char c :: nat)" for c
  proof -
    have "unat (of_nat (of_char c :: nat) :: octet) = (of_char c :: nat)"
      using of_char_less_256 [of c] by (simp add: unsigned_of_nat take_bit_nat_eq_self)
    then show ?thesis by (simp only: of_nat_of_char)
  qed
  then have "(of_char x :: nat) = of_char y" using eq by metis
  then show "x = y" by (simp only: of_char_eq_iff)
qed simp

lemma or_zero_octet: "(a OR b = (0 :: octet)) \<longleftrightarrow> a = 0 \<and> b = 0"
  by (auto simp: bit_eq_iff bit_simps)

lemma xor_zero_octet: "(a XOR b = (0 :: octet)) \<longleftrightarrow> a = b"
  by (auto simp: bit_eq_iff bit_simps)

lemma constant_time_eq_eq: "constant_time_eq a b \<longleftrightarrow> a = b"
proof -
  have "fold (\<lambda>(x, y) acc. acc OR ((of_char x :: octet) XOR of_char y)) (zip a b) acc = 0 \<longleftrightarrow> acc = 0 \<and> a = b"
    if "length a = length b" for acc
    using that
    by (induction a b arbitrary: acc rule: list_induct2)
      (auto simp: or_zero_octet xor_zero_octet octet_of_char_inject)
  then show ?thesis by (auto simp: constant_time_eq_def)
qed

text \<open>What the except-list means: a pattern covers a path, both without leading slashes.\<close>

definition covers :: "string \<Rightarrow> string \<Rightarrow> bool" where
  "covers path pattern \<longleftrightarrow>
     (if pattern = ''/'' then trim_start_char CHR ''/'' path = []
      else glob (trim_start_char CHR ''/'' pattern) (trim_start_char CHR ''/'' path))"

lemma trim_start_not_slash: "trim_start_char CHR ''/'' p \<noteq> ''/''"
  by (induction p) (auto simp: trim_start_char_def)

lemma is_excepted_covers: "is_excepted c rq \<longleftrightarrow> list_ex (covers (rq_path rq)) (cs_except c)"
  by (simp add: is_excepted_def list_ex_iff excepts_def covers_def Let_def wildcard_glob trim_start_not_slash)

lemma mismatch_status: "r_status (mismatch valid rq) = 419"
  by (simp add: mismatch_def with_status_def)

text \<open>
  C1. A forged request does not reach the handler. Take a request that changes something, that no
  pattern of the except-list covers, and that the browser does not vouch for. It is answered 419
  with no effect at all, unless there is a session that holds a token and the request presents
  exactly that token, as form field or header; then the handler runs.
\<close>

theorem csrf_guards:
  assumes "\<not> is_reading rq" and "\<not> list_ex (covers (rq_path rq)) (cs_except c)"
    and "request_header ''sec-fetch-site'' rq \<noteq> Some ''same-origin''"
    and "request_header ''sec-fetch-site'' rq = Some ''same-site'' \<longrightarrow> \<not> cs_allow_same_site c"
  shows "csrf_handle enc fmt valid pa render c rq k s =
      (case w_bag s of
         None \<Rightarrow> (s, mismatch valid rq)
       | Some b \<Rightarrow>
           if presented pa c rq \<noteq> None \<and> presented pa c rq = session_string render TOKEN_KEY b
           then let (s2, response) = k rq s
                in csrf_with_cookie enc fmt valid c (case w_bag s2 of Some b' \<Rightarrow> b' | None \<Rightarrow> b) response s2
           else (s, mismatch valid rq))
    \<and> r_status (mismatch valid rq) = 419"
proof -
  have "\<not> is_excepted c rq" using assms(2) by (simp add: is_excepted_covers)
  moreover have "\<not> fetch_metadata_passes c rq"
    using assms(3,4) by (auto simp: fetch_metadata_passes_def split: option.split)
  moreover have "tokens_match pa render c rq (w_bag s) \<longleftrightarrow> (\<exists>b. w_bag s = Some b \<and> presented pa c rq \<noteq> None
      \<and> presented pa c rq = session_string render TOKEN_KEY b)"
    by (auto simp: tokens_match_def constant_time_eq_eq split: option.splits)
  ultimately show ?thesis using assms(1)
    by (auto simp: csrf_handle_def mismatch_status split: option.split)
qed

definition forged :: routed where
  "forged = (bare_request ''POST'' ''/transfer'')\<lparr>rq_headers := [(''x-csrf-token'', ''guess'')]\<rparr>"

theorem csrf_guards_witness:
  "r_status (snd (csrf_handle pct_encode (\<lambda>d :: nat. []) (\<lambda>_ _. True) two_parsers (\<lambda>_. [])
      (csrf_except [''webhooks/*''] csrf_new) forged
      (\<lambda>rq s. (s, response_new 200)) (demo_web\<lparr>w_bag := Some (fst (session_token [CHR 0x01] (session_new [])))\<rparr>))) = 419"
proof -
  let ?b = "fst (session_token [CHR 0x01] (session_new []))"
  have "\<not> list_ex (covers (rq_path forged)) (cs_except (csrf_except [''webhooks/*''] csrf_new))"
    by (simp add: covers_def forged_def bare_request_def csrf_except_def csrf_new_def trim_start_char_def)
  moreover have "request_header ''sec-fetch-site'' forged = None" "\<not> is_reading forged"
    by (simp_all add: forged_def bare_request_def request_header_def header_to_str_def byte_in_def header_get_def is_reading_def)
  moreover have "presented two_parsers (csrf_except [''webhooks/*''] csrf_new) forged
      \<noteq> session_string (\<lambda>_. []) TOKEN_KEY ?b"
    by code_simp
  ultimately show ?thesis
    using csrf_guards [of forged "csrf_except [''webhooks/*''] csrf_new" pct_encode "\<lambda>d :: nat. []" "\<lambda>_ _. True"
        two_parsers "\<lambda>_. []" "\<lambda>rq s. (s, response_new 200)" "demo_web\<lparr>w_bag := Some ?b\<rparr>"]
    by simp
qed

end
