(* ===== verification/Queue_Job.thy ===== *)
theory Queue_Job
  imports Cache_Lock "HOL-Library.Char_ord" "HOL-Library.List_Lexorder"
begin

text \<open>
  Jobs, \<^verbatim>\<open>rainier-queue/src/job.rs\<close>: the envelope a job travels in, the context a handler sees,
  the trait a job type implements (the record \<open>job_type\<close>, whose codec stands for serde), and the
  registry that turns a name and a payload back into something to run.

  A handler runs in time and may return, panic or never end. A \<open>running\<close> is such an execution:
  when and how it ends, and what the world is after each length of time, so that a caller which
  drops it half way (a timeout) finds the effects made so far.
\<close>

record queued_job =
  qj_id :: string
  qj_name :: string
  qj_payload :: json
  qj_queue :: string
  qj_attempts :: nat
  qj_max_attempts :: nat
  qj_available_at :: time
  qj_created_at :: time
  qj_unique_key :: "string option"
  qj_delivery_handle :: "string option"
  qj_traceparent :: "string option"

record job_context =
  jc_attempt :: nat
  jc_max_attempts :: nat
  jc_id :: string
  jc_queue :: string

definition job_context_new :: "string \<Rightarrow> string \<Rightarrow> nat \<Rightarrow> nat \<Rightarrow> job_context" where
  "job_context_new i queue attempt max_attempts =
     \<lparr>jc_attempt = attempt, jc_max_attempts = max_attempts, jc_id = i, jc_queue = queue\<rparr>"

definition is_last_attempt :: "job_context \<Rightarrow> bool" where
  "is_last_attempt c \<longleftrightarrow> jc_attempt c \<ge> jc_max_attempts c"

section \<open>Running in time\<close>

datatype panic = PStr string | PString string | POther

datatype ran = Returned "unit result" | Panicked panic

record 'w running =
  r_ends :: "(duration \<times> ran) option"
  r_world :: "duration \<Rightarrow> 'w"

definition run_at_once :: "ran \<Rightarrow> 'w \<Rightarrow> 'w running" where
  "run_at_once r w = \<lparr>r_ends = Some (0, r), r_world = (\<lambda>_. w)\<rparr>"

text \<open>Go on with \<open>k\<close> where the first execution returned an error, and keep that error.\<close>

definition after_error :: "'w running \<Rightarrow> (error \<Rightarrow> 'w \<Rightarrow> 'w running) \<Rightarrow> 'w running" where
  "after_error r k =
     (case r_ends r of
        Some (t, Returned (Inl e)) \<Rightarrow>
          (let r' = k e (r_world r t) in
           \<lparr>r_ends = map_option (\<lambda>(t', z). (t + t', case z of Returned _ \<Rightarrow> Returned (Inl e) | Panicked p \<Rightarrow> Panicked p))
                       (r_ends r'),
            r_world = (\<lambda>d. if d < t then r_world r d else r_world r' (d - t))\<rparr>)
      | _ \<Rightarrow> r)"

section \<open>Job types\<close>

record ('j, 'w) job_type =
  jt_name :: string
  jt_tries :: nat
  jt_queue :: string
  jt_queue_of :: "'j \<Rightarrow> string"
  jt_timeout :: "duration option"
  jt_encode :: "'j \<Rightarrow> json result"
  jt_decode :: "json \<Rightarrow> string + 'j"
  jt_handle :: "'j \<Rightarrow> job_context \<Rightarrow> 'w \<Rightarrow> 'w running"
  jt_failed :: "'j \<Rightarrow> job_context \<Rightarrow> error \<Rightarrow> 'w \<Rightarrow> 'w running"
  jt_unique_id :: "'j \<Rightarrow> string option"
  jt_unique_for :: duration

definition secs :: "nat \<Rightarrow> duration" where "secs n = n * 1000000000"

text \<open>The trait's defaults.\<close>

definition DEFAULT_TRIES :: nat where "DEFAULT_TRIES = 3"
definition DEFAULT_QUEUE :: string where "DEFAULT_QUEUE = ''default''"
definition UNIQUE_FOR :: duration where "UNIQUE_FOR = secs 3600"

definition job_backoff :: "nat \<Rightarrow> duration" where
  "job_backoff attempt = secs (2 ^ min attempt 6)"

section \<open>Envelopes\<close>

text \<open>\<^verbatim>\<open>{micros:x}-{sequence:x}\<close>; \<^verbatim>\<open>{:x}\<close> prints an \<^verbatim>\<open>i64\<close> as its two's complement.\<close>

definition generate_id :: "int \<Rightarrow> nat \<Rightarrow> string" where
  "generate_id micros n = nat_hex (nat (micros mod 2 ^ 64)) @ ''-'' @ nat_hex n"

definition from_job ::
  "('j, 'w) job_type \<Rightarrow> 'j \<Rightarrow> string \<Rightarrow> time \<Rightarrow> queued_job result"
where
  "from_job J job i now =
     and_then (jt_encode J job) (\<lambda>payload.
       Inr \<lparr>qj_id = i, qj_name = jt_name J, qj_payload = payload, qj_queue = jt_queue_of J job,
            qj_attempts = 0, qj_max_attempts = jt_tries J, qj_available_at = now,
            qj_created_at = now, qj_unique_key = None, qj_delivery_handle = None,
            qj_traceparent = None\<rparr>)"

definition foreign :: "string \<Rightarrow> string \<Rightarrow> json \<Rightarrow> string \<Rightarrow> time \<Rightarrow> queued_job" where
  "foreign queue name payload i now =
     \<lparr>qj_id = i, qj_name = name, qj_payload = payload, qj_queue = queue, qj_attempts = 0,
      qj_max_attempts = 1, qj_available_at = now, qj_created_at = now, qj_unique_key = None,
      qj_delivery_handle = None, qj_traceparent = None\<rparr>"

definition on_queue :: "string \<Rightarrow> queued_job \<Rightarrow> queued_job" where
  "on_queue queue j = j\<lparr>qj_queue := queue\<rparr>"

text \<open>\<open>from_std\<close> is \<^verbatim>\<open>chrono::Duration::from_std\<close>; a delay it refuses is no delay.\<close>

definition delayed_by :: "(duration \<Rightarrow> int option) \<Rightarrow> time \<Rightarrow> duration \<Rightarrow> queued_job \<Rightarrow> queued_job" where
  "delayed_by from_std now delay j =
     j\<lparr>qj_available_at := now + (case from_std delay of Some d \<Rightarrow> d | None \<Rightarrow> 0)\<rparr>"

definition set_available_at :: "time \<Rightarrow> queued_job \<Rightarrow> queued_job" where
  "set_available_at at j = j\<lparr>qj_available_at := at\<rparr>"

definition is_available :: "time \<Rightarrow> queued_job \<Rightarrow> bool" where
  "is_available now j \<longleftrightarrow> qj_available_at j \<le> now"

definition is_exhausted :: "queued_job \<Rightarrow> bool" where
  "is_exhausted j \<longleftrightarrow> qj_attempts j \<ge> qj_max_attempts j"

text \<open>\<^verbatim>\<open>attempts += 1\<close> on a \<^verbatim>\<open>u32\<close>, in a build that wraps.\<close>

definition attempted :: "queued_job \<Rightarrow> queued_job" where
  "attempted j = j\<lparr>qj_attempts := as_u32 (qj_attempts j + 1)\<rparr>"

section \<open>The registry\<close>

type_synonym 'w runner = "json \<Rightarrow> job_context \<Rightarrow> 'w \<Rightarrow> 'w running"

record 'w job_registry =
  jr_runners :: "(string, 'w runner) hmap"
  jr_timeouts :: "(string, duration) hmap"
  jr_queues :: "string list"

definition registry_new :: "'w job_registry" where
  "registry_new = \<lparr>jr_runners = [], jr_timeouts = [], jr_queues = []\<rparr>"

definition job_runner :: "('j, 'w) job_type \<Rightarrow> 'w runner" where
  "job_runner J payload ctx w =
     (case jt_decode J payload of
        Inl e \<Rightarrow> run_at_once (Returned (Inl (err_internal (''could not deserialise a `'' @ jt_name J
                   @ ''` job '' @ EM_DASH @ '' its payload and its type have diverged: '' @ e)))) w
      | Inr job \<Rightarrow>
          after_error (jt_handle J job ctx w) (\<lambda>e w'.
            if is_last_attempt ctx then jt_failed J job ctx e w'
            else run_at_once (Returned (Inl e)) w'))"

definition register :: "('j, 'w) job_type \<Rightarrow> 'w job_registry \<Rightarrow> 'w job_registry" where
  "register J r =
     r\<lparr>jr_runners := hm_insert (jt_name J) (job_runner J) (jr_runners r),
       jr_timeouts := (case jt_timeout J of
          Some t \<Rightarrow> hm_insert (jt_name J) t (jr_timeouts r) | None \<Rightarrow> jr_timeouts r),
       jr_queues := (if jt_queue J \<in> set (jr_queues r) then jr_queues r
                     else jr_queues r @ [jt_queue J])\<rparr>"

definition timeout_for :: "string \<Rightarrow> 'w job_registry \<Rightarrow> duration option" where
  "timeout_for name r = hm_get name (jr_timeouts r)"

definition knows :: "string \<Rightarrow> 'w job_registry \<Rightarrow> bool" where
  "knows name r = hm_contains name (jr_runners r)"

definition registry_names :: "'w job_registry \<Rightarrow> string list" where
  "registry_names r = sort (map fst (jr_runners r))"

text \<open>The message of an unknown job lists the known ones; \<open>known\<close> is how they are printed.\<close>

definition registry_run ::
  "(string list \<Rightarrow> string) \<Rightarrow> 'w job_registry \<Rightarrow> queued_job \<Rightarrow> job_context \<Rightarrow> 'w \<Rightarrow> 'w running"
where
  "registry_run known r job ctx w =
     (case hm_get (qj_name job) (jr_runners r) of
        None \<Rightarrow> run_at_once (Returned (Inl (err_internal (''no job is registered as `'' @ qj_name job
            @ ''` '' @ EM_DASH @ '' register it on the JobRegistry, or the worker cannot run it. Known jobs: ''
            @ known (registry_names r))))) w
      | Some runner \<Rightarrow> runner (qj_payload job) ctx w)"

section \<open>Identifiers\<close>

lemma nat_hex_ne [simp]: "nat_hex n \<noteq> []"
  by (subst nat_hex.simps) simp

lemma nat_hex_inject: "nat_hex m = nat_hex n \<longleftrightarrow> m = n"
proof (induction m arbitrary: n rule: nat_hex.induct)
  case (1 m)
  show ?case
  proof (cases "m < 16 \<or> n < 16")
    case True
    then show ?thesis
      by (subst (1 2) nat_hex.simps) (auto simp: hex_digit_inject append_eq_Cons_conv dest: sym [of "[]"])
  next
    case False
    have "m = n" if "m div 16 = n div 16" "m mod 16 = n mod 16"
      using that by (metis div_mult_mod_eq)
    then show ?thesis using 1 False
      by (subst (1 2) nat_hex.simps) (auto simp: hex_digit_inject)
  qed
qed

lemma hex_digit_no_dash: "d < 16 \<Longrightarrow> hex_digit d \<noteq> CHR ''-''"
  using of_char_hex_digit [of d] by (auto split: if_splits)

lemma nat_hex_no_dash: "CHR ''-'' \<notin> set (nat_hex n)"
proof (induction n rule: nat_hex.induct)
  case (1 n)
  then show ?case
    using hex_digit_no_dash [of n] hex_digit_no_dash [of "n mod 16"]
    by (subst nat_hex.simps) auto
qed

text \<open>Two jobs minted by one process have different ids, also in the same microsecond.\<close>

lemma generate_id_distinct: "generate_id a m = generate_id b n \<Longrightarrow> m = n"
proof -
  have "takeWhile (\<lambda>c. c \<noteq> CHR ''-'') (rev (nat_hex n) @ CHR ''-'' # xs) = rev (nat_hex n)" for n xs
    using nat_hex_no_dash [of n] by (subst takeWhile_append2) auto
  then have "takeWhile (\<lambda>c. c \<noteq> CHR ''-'') (rev (generate_id a n)) = rev (nat_hex n)" for a n
    by (simp add: generate_id_def)
  then show "generate_id a m = generate_id b n \<Longrightarrow> m = n"
    by (metis nat_hex_inject rev_rev_ident)
qed

end
