(* ===== verification/Queue_Port.thy ===== *)
theory Queue_Port
  imports Queue_Job "HOL-Library.Multiset"
begin

text \<open>
  The queue port of \<^verbatim>\<open>rainier-queue/src/queue.rs\<close> and its in-process driver. A \<^verbatim>\<open>dyn Queue\<close> is the
  record of its methods over a store; a method takes the readings it makes of the clock
  (\<open>\<lambda>i. clk i\<close> is the \<open>i\<close>-th of a method that reads it several times), its arguments and the store.

  The locale \<open>job_queue\<close> is the contract of the trait: "reserve, then acknowledge". It sees a
  store as three bags of jobs: waiting, held by a worker, and failed. No method of a driver
  loses a job: it moves one between the bags, or takes it out because its holder said that it
  is done.
\<close>

record 's queue =
  q_name :: string
  q_push :: "queued_job \<Rightarrow> 's \<Rightarrow> 's \<times> string result"
  q_reserve :: "(nat \<Rightarrow> time) \<Rightarrow> string \<Rightarrow> 's \<Rightarrow> 's \<times> queued_job option result"
  q_acknowledge :: "queued_job \<Rightarrow> 's \<Rightarrow> 's \<times> unit result"
  q_release :: "time \<Rightarrow> queued_job \<Rightarrow> duration \<Rightarrow> 's \<Rightarrow> 's \<times> unit result"
  q_fail :: "time \<Rightarrow> queued_job \<Rightarrow> string \<Rightarrow> 's \<Rightarrow> 's \<times> unit result"
  q_size :: "string \<Rightarrow> 's \<Rightarrow> 's \<times> nat result"
  q_clear :: "string \<Rightarrow> 's \<Rightarrow> 's \<times> nat result"

definition push_raw_default :: "'s queue \<Rightarrow> string \<Rightarrow> string \<Rightarrow> 's \<Rightarrow> 's \<times> unit result" where
  "push_raw_default q queue payload s =
     (s, Inl (err_internal (''the `'' @ q_name q @ ''` queue driver cannot push a raw payload; a consumer outside this''
        @ ''                  framework needs one that can'')))"

definition renew_default :: "queued_job \<Rightarrow> 's \<Rightarrow> 's \<times> unit result" where
  "renew_default job s = (s, Inr ())"

definition not_id :: "queued_job \<Rightarrow> queued_job \<Rightarrow> bool" where
  "not_id job reserved \<longleftrightarrow> qj_id reserved \<noteq> qj_id job"

section \<open>The configured drivers\<close>

datatype queue_driver = QSync | QMemory | QDatabase | QRedis | QRedisCluster | QSqs | QKafka

definition is_deferred :: "queue_driver \<Rightarrow> bool" where
  "is_deferred d \<longleftrightarrow> d \<noteq> QSync"

definition survives_a_restart :: "queue_driver \<Rightarrow> bool" where
  "survives_a_restart d \<longleftrightarrow> d \<in> {QDatabase, QRedis, QRedisCluster, QSqs, QKafka}"

definition may_lose_an_accepted_job :: "queue_driver \<Rightarrow> bool" where
  "may_lose_an_accepted_job d \<longleftrightarrow> d \<in> {QRedis, QRedisCluster}"

definition needs_a_worker :: "queue_driver \<Rightarrow> bool" where
  "needs_a_worker d = is_deferred d"

section \<open>The contract\<close>

locale job_queue =
  fixes q :: "'s queue"
    and inv :: "'s \<Rightarrow> bool"
    and waiting :: "'s \<Rightarrow> queued_job multiset"
    and held :: "'s \<Rightarrow> queued_job multiset"
    and dead :: "'s \<Rightarrow> ('d \<times> string) multiset"
    and until :: "time \<Rightarrow> duration \<Rightarrow> time"
    and accepts :: "'s \<Rightarrow> queued_job \<Rightarrow> bool"
    and mark :: "queued_job \<Rightarrow> 'd"
    and mark_id :: "'d \<Rightarrow> string"
  assumes mark_id: "mark_id (mark j) = qj_id j"
    and push_ok: "inv s \<Longrightarrow> accepts s j \<Longrightarrow> \<exists>s'. q_push q j s = (s', Inr (qj_id j)) \<and> inv s' \<and>
        waiting s' = add_mset j (waiting s) \<and> held s' = held s \<and> dead s' = dead s"
    and reserve_ok: "inv s \<Longrightarrow>
        (\<exists>s'. q_reserve q clk name s = (s', Inr None) \<and> inv s' \<and> waiting s' = waiting s \<and>
              held s' = held s \<and> dead s' = dead s \<and>
              (\<forall>j \<in># waiting s. qj_queue j = name \<longrightarrow> (\<exists>i. clk i < qj_available_at j))) \<or>
        (\<exists>s' j. q_reserve q clk name s = (s', Inr (Some (attempted j))) \<and> inv s' \<and>
              j \<in># waiting s \<and> qj_queue j = name \<and> (\<exists>i. is_available (clk i) j) \<and>
              waiting s' = waiting s - {#j#} \<and> held s' = add_mset (attempted j) (held s) \<and>
              dead s' = dead s)"
    and ack_ok: "inv s \<Longrightarrow> j \<in># held s \<Longrightarrow>
        \<exists>s'. q_acknowledge q j s = (s', Inr ()) \<and> inv s' \<and> waiting s' = waiting s \<and>
             held s' = filter_mset (not_id j) (held s) \<and> dead s' = dead s"
    and release_ok: "inv s \<Longrightarrow> j \<in># held s \<Longrightarrow>
        \<exists>s'. q_release q t j d s = (s', Inr ()) \<and> inv s' \<and>
             waiting s' = add_mset (set_available_at (until t d) j) (waiting s) \<and>
             held s' = filter_mset (not_id j) (held s) \<and> dead s' = dead s"
    and fail_ok: "inv s \<Longrightarrow> j \<in># held s \<Longrightarrow>
        \<exists>s'. q_fail q t j e s = (s', Inr ()) \<and> inv s' \<and> waiting s' = waiting s \<and>
             held s' = filter_mset (not_id j) (held s) \<and> dead s' = add_mset (mark j, e) (dead s)"

section \<open>The in-process driver\<close>

record failed_job =
  fj_job :: queued_job
  fj_error :: string
  fj_failed_at :: time

record memory_queue =
  mq_pending :: "(string, queued_job list) hmap"
  mq_reserved :: "queued_job list"
  mq_failed :: "failed_job list"

definition memory_queue_new :: memory_queue where
  "memory_queue_new = \<lparr>mq_pending = [], mq_reserved = [], mq_failed = []\<rparr>"

definition failed_jobs :: "memory_queue \<Rightarrow> failed_job list" where
  "failed_jobs m = mq_failed m"

definition reserved_count :: "memory_queue \<Rightarrow> nat" where
  "reserved_count m = length (mq_reserved m)"

definition pending_on :: "string \<Rightarrow> memory_queue \<Rightarrow> queued_job list" where
  "pending_on queue m = (case hm_get queue (mq_pending m) of Some js \<Rightarrow> js | None \<Rightarrow> [])"

definition enqueue :: "queued_job \<Rightarrow> memory_queue \<Rightarrow> memory_queue" where
  "enqueue j m =
     m\<lparr>mq_pending := hm_insert (qj_queue j) (pending_on (qj_queue j) m @ [j]) (mq_pending m)\<rparr>"

definition memory_push :: "queued_job \<Rightarrow> memory_queue \<Rightarrow> memory_queue \<times> string result" where
  "memory_push j m = (enqueue j m, Inr (qj_id j))"

text \<open>The position of the first job that is available, the clock being read for each in turn.\<close>

fun first_available :: "(nat \<Rightarrow> time) \<Rightarrow> nat \<Rightarrow> queued_job list \<Rightarrow> nat option" where
  "first_available clk i [] = None"
| "first_available clk i (j # js) =
     (if is_available (clk i) j then Some i else first_available clk (Suc i) js)"

definition memory_reserve ::
  "(nat \<Rightarrow> time) \<Rightarrow> string \<Rightarrow> memory_queue \<Rightarrow> memory_queue \<times> queued_job option result"
where
  "memory_reserve clk queue m =
     (case hm_get queue (mq_pending m) of
        None \<Rightarrow> (m, Inr None)
      | Some jobs \<Rightarrow>
          (case first_available clk 0 jobs of
             None \<Rightarrow> (m, Inr None)
           | Some index \<Rightarrow>
               (let job = attempted (jobs ! index) in
                (m\<lparr>mq_pending := hm_insert queue (take index jobs @ drop (Suc index) jobs) (mq_pending m),
                   mq_reserved := mq_reserved m @ [job]\<rparr>, Inr (Some job)))))"

definition memory_acknowledge :: "queued_job \<Rightarrow> memory_queue \<Rightarrow> memory_queue \<times> unit result" where
  "memory_acknowledge j m = (m\<lparr>mq_reserved := filter (not_id j) (mq_reserved m)\<rparr>, Inr ())"

definition memory_release ::
  "(duration \<Rightarrow> int option) \<Rightarrow> time \<Rightarrow> queued_job \<Rightarrow> duration \<Rightarrow> memory_queue \<Rightarrow> memory_queue \<times> unit result"
where
  "memory_release from_std now j delay m =
     (let m' = m\<lparr>mq_reserved := filter (not_id j) (mq_reserved m)\<rparr>
      in (enqueue (delayed_by from_std now delay j) m', Inr ()))"

definition memory_fail :: "time \<Rightarrow> queued_job \<Rightarrow> string \<Rightarrow> memory_queue \<Rightarrow> memory_queue \<times> unit result" where
  "memory_fail now j e m =
     (m\<lparr>mq_reserved := filter (not_id j) (mq_reserved m),
        mq_failed := mq_failed m @ [\<lparr>fj_job = j, fj_error = e, fj_failed_at = now\<rparr>]\<rparr>, Inr ())"

definition memory_size :: "string \<Rightarrow> memory_queue \<Rightarrow> memory_queue \<times> nat result" where
  "memory_size queue m = (m, Inr (case hm_get queue (mq_pending m) of Some js \<Rightarrow> length js | None \<Rightarrow> 0))"

definition memory_clear :: "string \<Rightarrow> memory_queue \<Rightarrow> memory_queue \<times> nat result" where
  "memory_clear queue m =
     (m\<lparr>mq_pending := hm_remove queue (mq_pending m)\<rparr>,
      Inr (case hm_get queue (mq_pending m) of Some js \<Rightarrow> length js | None \<Rightarrow> 0))"

definition memory_driver :: "(duration \<Rightarrow> int option) \<Rightarrow> memory_queue queue" where
  "memory_driver from_std =
     \<lparr>q_name = ''memory'', q_push = memory_push, q_reserve = memory_reserve,
      q_acknowledge = memory_acknowledge, q_release = memory_release from_std,
      q_fail = memory_fail, q_size = memory_size, q_clear = memory_clear\<rparr>"

section \<open>The in-process driver keeps the contract\<close>

definition mq_inv :: "memory_queue \<Rightarrow> bool" where
  "mq_inv m \<longleftrightarrow> hm_wf (mq_pending m) \<and> (\<forall>(k, js) \<in> set (mq_pending m). \<forall>j \<in> set js. qj_queue j = k)"

definition mq_waiting :: "memory_queue \<Rightarrow> queued_job multiset" where
  "mq_waiting m = mset (concat (map snd (mq_pending m)))"

definition mq_held :: "memory_queue \<Rightarrow> queued_job multiset" where
  "mq_held m = mset (mq_reserved m)"

definition mq_dead :: "memory_queue \<Rightarrow> (queued_job \<times> string) multiset" where
  "mq_dead m = mset (map (\<lambda>f. (fj_job f, fj_error f)) (mq_failed m))"

definition memory_until :: "(duration \<Rightarrow> int option) \<Rightarrow> time \<Rightarrow> duration \<Rightarrow> time" where
  "memory_until from_std t d = t + (case from_std d of Some x \<Rightarrow> x | None \<Rightarrow> 0)"

text \<open>Replacing one entry of a map changes the bag of all the entries by the difference.\<close>

lemma concat_insert:
  "hm_wf m \<Longrightarrow>
   mset (concat (map snd (hm_insert k js m))) + mset (case hm_get k m of Some o' \<Rightarrow> o' | None \<Rightarrow> []) =
   mset (concat (map snd m)) + mset js"
proof (induction m)
  case (Cons p m)
  then show ?case
    by (cases p) (auto simp: hm_wf_def hm_insert_def hm_get_def ac_simps)
qed (simp add: hm_insert_def)

lemma set_insert_subset: "set (hm_insert k v m) \<subseteq> insert (k, v) (set m)"
  by (induction m) (auto simp: hm_insert_def)

lemma mq_inv_pending:
  "mq_inv m \<Longrightarrow> hm_get k (mq_pending m) = Some js \<Longrightarrow> j \<in> set js \<Longrightarrow> qj_queue j = k"
  by (auto simp: mq_inv_def dest!: hm_get_in_set)

lemma mq_inv_insert:
  "mq_inv m \<Longrightarrow> \<forall>j \<in> set js. qj_queue j = k \<Longrightarrow>
   hm_wf (hm_insert k js (mq_pending m)) \<and>
   (\<forall>(k', js') \<in> set (hm_insert k js (mq_pending m)). \<forall>j \<in> set js'. qj_queue j = k')"
  using set_insert_subset [of k js "mq_pending m"] by (fastforce simp: mq_inv_def)

lemma enqueue_props:
  assumes "mq_inv m"
  shows "mq_inv (enqueue j m)" "mq_waiting (enqueue j m) = add_mset j (mq_waiting m)"
    "mq_held (enqueue j m) = mq_held m" "mq_dead (enqueue j m) = mq_dead m"
proof -
  have "\<forall>x \<in> set (pending_on (qj_queue j) m). qj_queue x = qj_queue j"
    using mq_inv_pending [OF assms, of "qj_queue j"]
    by (cases "hm_get (qj_queue j) (mq_pending m)") (auto simp: pending_on_def)
  then show "mq_inv (enqueue j m)"
    using mq_inv_insert [OF assms, of "pending_on (qj_queue j) m @ [j]" "qj_queue j"]
    by (simp add: mq_inv_def enqueue_def)
  show "mq_waiting (enqueue j m) = add_mset j (mq_waiting m)"
    using concat_insert [of "mq_pending m" "qj_queue j" "pending_on (qj_queue j) m @ [j]"] assms
    by (simp add: mq_waiting_def enqueue_def pending_on_def mq_inv_def)
qed (simp_all add: enqueue_def mq_held_def mq_dead_def)

lemma mq_inv_new [simp]: "mq_inv memory_queue_new"
  by (simp add: mq_inv_def memory_queue_new_def)

lemma first_available_None:
  "first_available clk i js = None \<Longrightarrow> j \<in> set js \<Longrightarrow> \<exists>n. clk n < qj_available_at j"
  by (induction js arbitrary: i) (auto simp: is_available_def not_le split: if_splits)

lemma first_available_Some:
  "first_available clk i js = Some n \<Longrightarrow>
     i \<le> n \<and> n - i < length js \<and> is_available (clk n) (js ! (n - i)) \<and>
     (\<forall>k < n - i. \<not> is_available (clk (i + k)) (js ! k))"
proof (induction js arbitrary: i)
  case (Cons j js)
  show ?case
  proof (cases "is_available (clk i) j")
    case True
    then show ?thesis using Cons.prems by simp
  next
    case False
    then have IH: "Suc i \<le> n \<and> n - Suc i < length js \<and> is_available (clk n) (js ! (n - Suc i)) \<and>
        (\<forall>k < n - Suc i. \<not> is_available (clk (Suc i + k)) (js ! k))"
      using Cons.IH [of "Suc i"] Cons.prems by simp
    then have "n - i = Suc (n - Suc i)" by linarith
    with IH False show ?thesis by (auto simp: less_Suc_eq_0_disj nth_Cons')
  qed
qed simp

lemma memory_reserve_None:
  assumes "mq_inv m" "memory_reserve clk name m = (m', Inr None)"
  shows "m' = m" "\<And>j. j \<in># mq_waiting m \<Longrightarrow> qj_queue j = name \<Longrightarrow> \<exists>i. clk i < qj_available_at j"
proof -
  show "m' = m" using assms(2)
    by (auto simp: memory_reserve_def Let_def split: option.splits)
  fix j assume "j \<in># mq_waiting m" "qj_queue j = name"
  then obtain js where "(name, js) \<in> set (mq_pending m)" "j \<in> set js"
    using assms(1) by (auto simp: mq_waiting_def mq_inv_def)
  then have "hm_get name (mq_pending m) = Some js"
    using assms(1) by (simp add: mq_inv_def hm_get_eq)
  then have "first_available clk 0 js = None"
    using assms(2) by (simp add: memory_reserve_def Let_def split: option.splits)
  with \<open>j \<in> set js\<close> show "\<exists>i. clk i < qj_available_at j" by (rule first_available_None [rotated])
qed

text \<open>A reservation takes the first available job of the queue, the ones before it being delayed.\<close>

lemma memory_reserve_Some:
  assumes inv: "mq_inv m" and "memory_reserve clk name m = (m', Inr (Some j'))"
  obtains js n where "hm_get name (mq_pending m) = Some js" "n < length js" "j' = attempted (js ! n)"
    "is_available (clk n) (js ! n)" "\<forall>k < n. \<not> is_available (clk k) (js ! k)"
    "qj_queue (js ! n) = name" "mq_inv m'"
    "add_mset (js ! n) (mq_waiting m') = mq_waiting m" "mq_held m' = add_mset j' (mq_held m)"
    "mq_failed m' = mq_failed m"
proof -
  obtain js n where js: "hm_get name (mq_pending m) = Some js" and n: "first_available clk 0 js = Some n"
    and m': "m' = m\<lparr>mq_pending := hm_insert name (take n js @ drop (Suc n) js) (mq_pending m),
                   mq_reserved := mq_reserved m @ [attempted (js ! n)]\<rparr>"
    and j': "j' = attempted (js ! n)"
    using assms(2) by (auto simp: memory_reserve_def Let_def split: option.splits)
  have avail: "n < length js" "is_available (clk n) (js ! n)" "\<forall>k < n. \<not> is_available (clk k) (js ! k)"
    using first_available_Some [OF n] by auto
  have name: "\<forall>j \<in> set js. qj_queue j = name" using mq_inv_pending [OF inv js] by blast
  have inv': "mq_inv m'"
    using mq_inv_insert [OF inv, of "take n js @ drop (Suc n) js" name] name
    by (auto simp: m' mq_inv_def dest: in_set_takeD in_set_dropD)
  have "mset js = add_mset (js ! n) (mset (take n js @ drop (Suc n) js))"
    by (subst id_take_nth_drop [OF avail(1)]) simp
  then have "add_mset (js ! n) (mq_waiting m') = mq_waiting m"
    using concat_insert [of "mq_pending m" name "take n js @ drop (Suc n) js"] inv
    by (simp add: mq_waiting_def m' js mq_inv_def)
  then show thesis
    using avail name inv' by (intro that [OF js]) (auto simp: j' m' mq_held_def)
qed

interpretation mq: job_queue "memory_driver from_std" mq_inv mq_waiting mq_held mq_dead
  "memory_until from_std" "\<lambda>_ _. True" "\<lambda>j. j" qj_id for from_std
proof (unfold_locales, goal_cases)
  case (1 j)
  show ?case by (rule refl)
next
  case (2 s j)
  then show ?case
    by (intro exI [of _ "enqueue j s"]) (simp add: memory_driver_def memory_push_def enqueue_props)
next
  case (3 s clk name)
  show ?case
  proof (cases "memory_reserve clk name s")
    case (Pair s' r)
    then consider "r = Inr None" | j' where "r = Inr (Some j')"
      by (auto simp: memory_reserve_def Let_def split: option.splits)
    then show ?thesis
    proof cases
      case 1
      with Pair memory_reserve_None [OF 3, of clk name] show ?thesis
        using 3 by (auto simp: memory_driver_def)
    next
      case (2 j')
      with Pair have "memory_reserve clk name s = (s', Inr (Some j'))" by simp
      then show ?thesis
      proof (rule memory_reserve_Some [OF \<open>mq_inv s\<close>], goal_cases)
        case (1 js n)
        then show ?case
          using \<open>r = _\<close> Pair
          by (intro disjI2 exI [of _ s'] exI [of _ "js ! n"])
            (auto simp: memory_driver_def mq_dead_def simp flip: 1(8))
      qed
    qed
  qed
next
  case (4 s j)
  then show ?case
    by (auto simp: memory_driver_def memory_acknowledge_def mq_inv_def mq_waiting_def mq_held_def
        mq_dead_def)
next
  case (5 s j t d)
  let ?m = "s\<lparr>mq_reserved := filter (not_id j) (mq_reserved s)\<rparr>"
  have "mq_inv ?m" "mq_waiting ?m = mq_waiting s" "mq_dead ?m = mq_dead s"
    "mq_held ?m = filter_mset (not_id j) (mq_held s)"
    using 5 by (simp_all add: mq_inv_def mq_waiting_def mq_held_def mq_dead_def)
  then show ?case
    by (simp add: memory_driver_def memory_release_def enqueue_props delayed_by_def
        set_available_at_def memory_until_def Let_def)
next
  case (6 s j t e)
  then show ?case
    by (auto simp: memory_driver_def memory_fail_def mq_inv_def mq_waiting_def mq_held_def mq_dead_def)
qed

section \<open>No job is lost or handed out twice\<close>

text \<open>
  A run of a queue: producers push jobs the driver accepts under ids not used before, workers reserve, and whoever
  holds a job acknowledges, releases or fails it. \<open>P\<close> collects the ids that were pushed, \<open>D\<close> the
  ids that were acknowledged.
\<close>

inductive queue_run ::
  "'s queue \<Rightarrow> ('s \<Rightarrow> queued_job multiset) \<Rightarrow> ('s \<Rightarrow> queued_job \<Rightarrow> bool) \<Rightarrow> 's
    \<Rightarrow> string multiset \<Rightarrow> string multiset \<Rightarrow> 's \<Rightarrow> bool"
  for q held accepts s0
where
  run_start: "queue_run q held accepts s0 {#} {#} s0"
| run_push: "queue_run q held accepts s0 P D s \<Longrightarrow> accepts s j \<Longrightarrow> qj_id j \<notin># P \<Longrightarrow>
    queue_run q held accepts s0 (add_mset (qj_id j) P) D (fst (q_push q j s))"
| run_reserve: "queue_run q held accepts s0 P D s \<Longrightarrow> queue_run q held accepts s0 P D (fst (q_reserve q clk name s))"
| run_acknowledge: "queue_run q held accepts s0 P D s \<Longrightarrow> j \<in># held s \<Longrightarrow>
    queue_run q held accepts s0 P (add_mset (qj_id j) D) (fst (q_acknowledge q j s))"
| run_release: "queue_run q held accepts s0 P D s \<Longrightarrow> j \<in># held s \<Longrightarrow>
    queue_run q held accepts s0 P D (fst (q_release q t j d s))"
| run_fail: "queue_run q held accepts s0 P D s \<Longrightarrow> j \<in># held s \<Longrightarrow>
    queue_run q held accepts s0 P D (fst (q_fail q t j e s))"

lemma qj_id_updates [simp]:
  "qj_id (attempted j) = qj_id j" "qj_id (set_available_at t j) = qj_id j"
  "qj_queue (attempted j) = qj_queue j" "qj_queue (set_available_at t j) = qj_queue j"
  by (simp_all add: attempted_def set_available_at_def)

lemma settle_ids:
  assumes "j \<in># H" "\<And>i. count (image_mset qj_id H) i \<le> 1"
  shows "filter_mset (not_id j) H = H - {#j#}"
proof -
  obtain H' where H: "H = add_mset j H'" using assms(1) by (meson mset_add)
  have "count (image_mset qj_id H') (qj_id j) = 0"
    using assms(2) [of "qj_id j"] by (simp add: H)
  then have "qj_id j \<notin># image_mset qj_id H'" by (simp only: not_in_iff)
  then have "filter_mset (not_id j) H' = H'"
    by (simp add: filter_mset_eq_conv not_id_def image_iff) metis
  then show ?thesis by (simp add: H not_id_def)
qed

context job_queue
begin

definition ids :: "'s \<Rightarrow> string multiset" where
  "ids s = image_mset qj_id (waiting s) + image_mset qj_id (held s) + image_mset (\<lambda>d. mark_id (fst d)) (dead s)"

lemma settled:
  assumes "j \<in># held s" "\<And>i. count (ids s) i \<le> 1"
  shows "image_mset qj_id (held s) = add_mset (qj_id j) (image_mset qj_id (filter_mset (not_id j) (held s)))"
proof -
  have "count (image_mset qj_id (held s)) i \<le> 1" for i
    using assms(2) [of i] by (simp add: ids_def)
  then have "filter_mset (not_id j) (held s) = held s - {#j#}" by (rule settle_ids [OF assms(1)])
  then show ?thesis using assms(1) by (metis image_mset_add_mset insert_DiffM)
qed

lemma reserve_ids:
  assumes "inv s"
  shows "inv (fst (q_reserve q clk name s)) \<and> ids (fst (q_reserve q clk name s)) = ids s"
  using reserve_ok [OF assms, of clk name]
proof (elim disjE exE conjE, goal_cases)
  case (1 s')
  then show ?case by (simp add: ids_def)
next
  case (2 s' j)
  then show ?case by (simp add: ids_def image_mset_Diff)
qed

lemma settle_inv_ids:
  assumes "inv s" "j \<in># held s" "\<And>i. count (ids s) i \<le> 1"
  shows "inv (fst (q_acknowledge q j s)) \<and> add_mset (qj_id j) (ids (fst (q_acknowledge q j s))) = ids s"
    and "inv (fst (q_release q t j d s)) \<and> ids (fst (q_release q t j d s)) = ids s"
    and "inv (fst (q_fail q t j e s)) \<and> ids (fst (q_fail q t j e s)) = ids s"
proof -
  note held = settled [OF assms(2,3)]
  obtain s' where "q_acknowledge q j s = (s', Inr ())" "inv s'" "waiting s' = waiting s"
    "held s' = filter_mset (not_id j) (held s)" "dead s' = dead s"
    using ack_ok [OF assms(1,2)] by auto
  then show "inv (fst (q_acknowledge q j s)) \<and>
      add_mset (qj_id j) (ids (fst (q_acknowledge q j s))) = ids s"
    by (simp add: ids_def held)
  obtain s' where "q_release q t j d s = (s', Inr ())" "inv s'"
    "waiting s' = add_mset (set_available_at (until t d) j) (waiting s)"
    "held s' = filter_mset (not_id j) (held s)" "dead s' = dead s"
    using release_ok [OF assms(1,2)] by auto
  then show "inv (fst (q_release q t j d s)) \<and> ids (fst (q_release q t j d s)) = ids s"
    by (simp add: ids_def held)
  obtain s' where "q_fail q t j e s = (s', Inr ())" "inv s'" "waiting s' = waiting s"
    "held s' = filter_mset (not_id j) (held s)" "dead s' = add_mset (mark j, e) (dead s)"
    using fail_ok [OF assms(1,2)] by auto
  then show "inv (fst (q_fail q t j e s)) \<and> ids (fst (q_fail q t j e s)) = ids s"
    by (simp add: ids_def held mark_id)
qed

lemma push_ids: "inv s \<Longrightarrow> accepts s j \<Longrightarrow> inv (fst (q_push q j s)) \<and> ids (fst (q_push q j s)) = add_mset (qj_id j) (ids s)"
  using push_ok [of s j] by (auto simp: ids_def)

lemma count_part: "A + B = P \<Longrightarrow> \<forall>i. count P i \<le> 1 \<Longrightarrow> count A i \<le> 1"
  by (auto dest: spec [of _ i])

lemma run_conserves:
  assumes "queue_run q held accepts s0 P D s" "inv s0" "ids s0 = {#}"
  shows "inv s \<and> ids s + D = P \<and> (\<forall>i. count P i \<le> 1)"
  using assms
proof (induction rule: queue_run.induct)
  case (run_push P D s j)
  then show ?case using push_ids [of s j] by (auto simp: not_in_iff)
next
  case (run_reserve P D s clk name)
  then show ?case using reserve_ids [of s clk name] by simp
next
  case (run_acknowledge P D s j)
  then have "inv s" "\<And>i. count (ids s) i \<le> 1" using count_part [of "ids s" D P] by simp_all
  from settle_inv_ids(1) [OF this(1) run_acknowledge.hyps(2) this(2)] run_acknowledge
  show ?case by (metis union_mset_add_mset_left union_mset_add_mset_right)
next
  case (run_release P D s j t d)
  then have "inv s" "\<And>i. count (ids s) i \<le> 1" using count_part [of "ids s" D P] by simp_all
  from settle_inv_ids(2) [OF this(1) run_release.hyps(2) this(2)] run_release show ?case by simp
next
  case (run_fail P D s j t e)
  then have "inv s" "\<And>i. count (ids s) i \<le> 1" using count_part [of "ids s" D P] by simp_all
  from settle_inv_ids(3) [OF this(1) run_fail.hyps(2) this(2)] run_fail show ?case by simp
qed simp

text \<open>What one worker holds is not waiting, so no other worker is given it.\<close>

lemma held_not_waiting:
  assumes "count (ids s) (qj_id j) \<le> 1" "j \<in># held s" "j' \<in># waiting s"
  shows "qj_id j' \<noteq> qj_id j"
proof
  assume eq: "qj_id j' = qj_id j"
  have "qj_id j \<in># image_mset qj_id (held s)" "qj_id j \<in># image_mset qj_id (waiting s)"
    using assms(2,3) eq by (auto intro: image_eqI [of _ _ j'])
  then have "count (image_mset qj_id (held s)) (qj_id j) > 0"
    "count (image_mset qj_id (waiting s)) (qj_id j) > 0"
    by (simp_all only: count_greater_zero_iff)
  with assms(1) show False by (simp add: ids_def)
qed

lemma reserve_not_held:
  assumes "inv s" "\<And>i. count (ids s) i \<le> 1" "q_reserve q clk name s = (s', Inr (Some j'))" "j \<in># held s"
  shows "qj_id j' \<noteq> qj_id j"
  using reserve_ok [OF assms(1), of clk name] assms held_not_waiting [OF assms(2) assms(4)] by auto

end

text \<open>
  C9. The in-process queue never loses a job and never hands one out twice. In every state a
  run from the empty queue reaches, the ids that were pushed are exactly those waiting, held by
  a worker, in the failed store or acknowledged, each once; and a reservation never gives a job
  that a worker holds.
\<close>

theorem queue_conserves_jobs:
  assumes "queue_run (memory_driver from_std) mq_held (\<lambda>_ _. True) memory_queue_new P D m"
  shows "image_mset qj_id (mq_waiting m) + image_mset qj_id (mq_held m) +
           image_mset (\<lambda>d. qj_id (fst d)) (mq_dead m) + D = P \<and> (\<forall>i. count P i \<le> 1) \<and>
         (\<forall>clk name m' j j'. q_reserve (memory_driver from_std) clk name m = (m', Inr (Some j')) \<and>
             j \<in># mq_held m \<longrightarrow> qj_id j' \<noteq> qj_id j)"
proof -
  have "mq_inv memory_queue_new" "mq.ids memory_queue_new = {#}"
    by (simp_all add: mq.ids_def memory_queue_new_def mq_inv_def mq_waiting_def mq_held_def mq_dead_def)
  from mq.run_conserves [OF assms this] have
    run: "mq_inv m" "mq.ids m + D = P" "\<forall>i. count P i \<le> 1" by auto
  then have "count (mq.ids m) i \<le> 1" for i using mq.count_part [of "mq.ids m" D P] by simp
  with run mq.reserve_not_held [of m] show ?thesis by (simp add: mq.ids_def) blast
qed

definition sample_job :: "string \<Rightarrow> time \<Rightarrow> queued_job" where
  "sample_job i at = foreign ''mail'' ''mail.welcome'' JNull i at"

theorem queue_conserves_jobs_witness:
  "\<exists>m. queue_run (memory_driver (\<lambda>d. Some (int d))) mq_held (\<lambda>_ _. True) memory_queue_new {#''b'', ''a''#} {#''a''#} m \<and>
     image_mset qj_id (mq_waiting m) + image_mset qj_id (mq_held m) +
       image_mset (\<lambda>d. qj_id (fst d)) (mq_dead m) + {#''a''#} = {#''b'', ''a''#}"
proof -
  let ?q = "memory_driver (\<lambda>d. Some (int d))"
  let ?m1 = "fst (q_push ?q (sample_job ''a'' 3) memory_queue_new)"
  let ?m2 = "fst (q_push ?q (sample_job ''b'' 9) ?m1)"
  let ?m3 = "fst (q_reserve ?q (\<lambda>_. 5) ''mail'' ?m2)"
  let ?m4 = "fst (q_acknowledge ?q (attempted (sample_job ''a'' 3)) ?m3)"
  have "queue_run ?q mq_held (\<lambda>_ _. True) memory_queue_new {#''a''#} {#} ?m1"
    using run_push [OF run_start, of "\<lambda>_ _. True" _ "sample_job ''a'' 3"] by (simp add: sample_job_def foreign_def)
  then have "queue_run ?q mq_held (\<lambda>_ _. True) memory_queue_new {#''b'', ''a''#} {#} ?m2"
    using run_push [of ?q mq_held "\<lambda>_ _. True" memory_queue_new "{#''a''#}" "{#}" ?m1 "sample_job ''b'' 9"]
    by (simp add: sample_job_def foreign_def)
  then have "queue_run ?q mq_held (\<lambda>_ _. True) memory_queue_new {#''b'', ''a''#} {#} ?m3" by (rule run_reserve)
  moreover have "mq_held ?m3 = {#attempted (sample_job ''a'' 3)#}"
    by (simp add: mq_held_def memory_driver_def memory_push_def memory_reserve_def memory_queue_new_def
        enqueue_def pending_on_def sample_job_def foreign_def is_available_def Let_def)
  ultimately have "queue_run ?q mq_held (\<lambda>_ _. True) memory_queue_new {#''b'', ''a''#} {#''a''#} ?m4"
    using run_acknowledge [of ?q mq_held "\<lambda>_ _. True" memory_queue_new _ "{#}" ?m3 "attempted (sample_job ''a'' 3)"]
    by (simp add: sample_job_def foreign_def attempted_def)
  with queue_conserves_jobs [OF this] show ?thesis by blast
qed

end
