(* ===== verification/Events.thy ===== *)
theory Events
  imports Hash_Map Support_Error "HOL-Library.Product_Lexorder"
begin

text \<open>
  The event dispatcher of \<^verbatim>\<open>rainier-events/src/dispatcher.rs\<close>. An event type is its \<^verbatim>\<open>TypeId\<close> with
  the name \<^verbatim>\<open>std::any::type_name\<close> gives it (the blanket implementation of \<^verbatim>\<open>Event\<close> lets no type
  choose another one); an \<^verbatim>\<open>Arc<dyn Any>\<close> is a payload tagged with its type. A listener is a
  function on the world outside the dispatcher with a \<^verbatim>\<open>Result\<close>. The list of handlers is cloned
  before the first one runs, so a listener that registers others does not change the delivery
  it is part of. Telemetry spans and log lines are left out.
\<close>

record event_type =
  et_id :: nat
  et_name :: string

record 'p any_event =
  any_type :: event_type
  any_payload :: 'p

type_synonym ('p, 'w) stored_handler = "'p any_event \<Rightarrow> 'w \<Rightarrow> 'w \<times> unit result"

record ('p, 'w) registration =
  reg_handler :: "('p, 'w) stored_handler"
  reg_priority :: int
  reg_sequence :: nat

type_synonym ('p, 'w) wildcard_registration =
  "(string \<Rightarrow> 'p any_event \<Rightarrow> 'w \<Rightarrow> 'w \<times> unit result) \<times> int \<times> nat"

record 'p recorded =
  rec_type :: nat
  rec_name :: string
  rec_payload :: "'p any_event"

record ('p, 'w) dispatcher =
  d_listeners :: "(nat, ('p, 'w) registration list) hmap"
  d_wildcards :: "('p, 'w) wildcard_registration list"
  d_sequence :: nat
  d_recorder :: "'p recorded list option"

definition dispatcher_new :: "('p, 'w) dispatcher" where
  "dispatcher_new = \<lparr>d_listeners = [], d_wildcards = [], d_sequence = 0, d_recorder = None\<rparr>"

definition dispatcher_fake :: "('p, 'w) dispatcher" where
  "dispatcher_fake = dispatcher_new\<lparr>d_recorder := Some []\<rparr>"

definition dispatcher_is_faking :: "('p, 'w) dispatcher \<Rightarrow> bool" where
  "dispatcher_is_faking d \<longleftrightarrow> d_recorder d \<noteq> None"

section \<open>Registering\<close>

text \<open>\<^verbatim>\<open>AtomicUsize::fetch_add\<close> wraps.\<close>

definition next_sequence :: "('p, 'w) dispatcher \<Rightarrow> ('p, 'w) dispatcher \<times> nat" where
  "next_sequence d = (d\<lparr>d_sequence := as_u64 (d_sequence d + 1)\<rparr>, d_sequence d)"

definition erase_listener ::
  "event_type \<Rightarrow> ('p \<Rightarrow> 'w \<Rightarrow> 'w \<times> unit result) \<Rightarrow> ('p, 'w) stored_handler"
where
  "erase_listener ty listener erased w =
     (if et_id (any_type erased) = et_id ty then listener (any_payload erased) w
      else (w, Inl (err_internal
             (''listener for `'' @ et_name ty @ ''` received a different event type''))))"

definition listen_with_priority ::
  "event_type \<Rightarrow> ('p \<Rightarrow> 'w \<Rightarrow> 'w \<times> unit result) \<Rightarrow> int \<Rightarrow> ('p, 'w) dispatcher \<Rightarrow> ('p, 'w) dispatcher"
where
  "listen_with_priority ty listener prio d =
     (let (d', n) = next_sequence d;
          r = \<lparr>reg_handler = erase_listener ty listener, reg_priority = prio, reg_sequence = n\<rparr>;
          old = (case hm_get (et_id ty) (d_listeners d') of Some rs \<Rightarrow> rs | None \<Rightarrow> [])
      in d'\<lparr>d_listeners := hm_insert (et_id ty) (old @ [r]) (d_listeners d')\<rparr>)"

definition listen ::
  "event_type \<Rightarrow> ('p \<Rightarrow> 'w \<Rightarrow> 'w \<times> unit result) \<Rightarrow> ('p, 'w) dispatcher \<Rightarrow> ('p, 'w) dispatcher"
where
  "listen ty listener = listen_with_priority ty listener 0"

definition listen_any_with_priority ::
  "(string \<Rightarrow> 'p any_event \<Rightarrow> 'w \<Rightarrow> 'w \<times> unit result) \<Rightarrow> int \<Rightarrow> ('p, 'w) dispatcher
    \<Rightarrow> ('p, 'w) dispatcher"
where
  "listen_any_with_priority listener prio d =
     (let (d', n) = next_sequence d
      in d'\<lparr>d_wildcards := d_wildcards d' @ [(listener, prio, n)]\<rparr>)"

definition listen_any ::
  "(string \<Rightarrow> 'p any_event \<Rightarrow> 'w \<Rightarrow> 'w \<times> unit result) \<Rightarrow> ('p, 'w) dispatcher \<Rightarrow> ('p, 'w) dispatcher"
where
  "listen_any listener = listen_any_with_priority listener 0"

definition has_listeners :: "event_type \<Rightarrow> ('p, 'w) dispatcher \<Rightarrow> bool" where
  "has_listeners ty d =
     (case hm_get (et_id ty) (d_listeners d) of Some rs \<Rightarrow> rs \<noteq> [] | None \<Rightarrow> False)"

definition forget_listeners :: "event_type \<Rightarrow> ('p, 'w) dispatcher \<Rightarrow> ('p, 'w) dispatcher" where
  "forget_listeners ty d = d\<lparr>d_listeners := hm_remove (et_id ty) (d_listeners d)\<rparr>"

definition forget_all :: "('p, 'w) dispatcher \<Rightarrow> ('p, 'w) dispatcher" where
  "forget_all d = d\<lparr>d_listeners := [], d_wildcards := []\<rparr>"

section \<open>Dispatching\<close>

text \<open>\<^verbatim>\<open>sort_by\<close> is stable; the comparison is by priority, the higher first, then by sequence.\<close>

definition handlers_for :: "event_type \<Rightarrow> ('p, 'w) dispatcher \<Rightarrow> ('p, 'w) stored_handler list" where
  "handlers_for ty d =
     (case hm_get (et_id ty) (d_listeners d) of
        None \<Rightarrow> []
      | Some rs \<Rightarrow> map reg_handler (sort_key (\<lambda>r. (- reg_priority r, reg_sequence r)) rs))"

definition wildcard_handlers ::
  "('p, 'w) dispatcher \<Rightarrow> (string \<Rightarrow> 'p any_event \<Rightarrow> 'w \<Rightarrow> 'w \<times> unit result) list"
where
  "wildcard_handlers d = map fst (sort_key (\<lambda>(_, p, n). (- p, n)) (d_wildcards d))"

fun deliver :: "('w \<Rightarrow> 'w \<times> unit result) list \<Rightarrow> 'w \<Rightarrow> 'w \<times> unit result" where
  "deliver [] w = (w, Inr ())"
| "deliver (h # hs) w =
     (case h w of (w', Inl e) \<Rightarrow> (w', Inl e) | (w', Inr _) \<Rightarrow> deliver hs w')"

fun deliver_quietly :: "('w \<Rightarrow> 'w \<times> unit result) list \<Rightarrow> nat \<Rightarrow> 'w \<Rightarrow> 'w \<times> nat" where
  "deliver_quietly [] failures w = (w, failures)"
| "deliver_quietly (h # hs) failures w =
     (case h w of (w', Inl e) \<Rightarrow> deliver_quietly hs (failures + 1) w'
      | (w', Inr _) \<Rightarrow> deliver_quietly hs failures w')"

definition deliveries ::
  "event_type \<Rightarrow> string \<Rightarrow> 'p \<Rightarrow> ('p, 'w) dispatcher \<Rightarrow> ('w \<Rightarrow> 'w \<times> unit result) list"
where
  "deliveries ty name event d =
     (let payload = \<lparr>any_type = ty, any_payload = event\<rparr>
      in map (\<lambda>h. h payload) (handlers_for ty d) @ map (\<lambda>h. h name payload) (wildcard_handlers d))"

definition record_event ::
  "event_type \<Rightarrow> string \<Rightarrow> 'p \<Rightarrow> 'p recorded list \<Rightarrow> 'p recorded list"
where
  "record_event ty name event rs =
     rs @ [\<lparr>rec_type = et_id ty, rec_name = name,
            rec_payload = \<lparr>any_type = ty, any_payload = event\<rparr>\<rparr>]"

definition dispatch_as ::
  "event_type \<Rightarrow> string \<Rightarrow> 'p \<Rightarrow> ('p, 'w) dispatcher \<Rightarrow> 'w \<Rightarrow> ('p, 'w) dispatcher \<times> 'w \<times> unit result"
where
  "dispatch_as ty name event d w =
     (case d_recorder d of
        Some rs \<Rightarrow> (d\<lparr>d_recorder := Some (record_event ty name event rs)\<rparr>, w, Inr ())
      | None \<Rightarrow> (d, deliver (deliveries ty name event d) w))"

definition dispatch_event ::
  "event_type \<Rightarrow> 'p \<Rightarrow> ('p, 'w) dispatcher \<Rightarrow> 'w \<Rightarrow> ('p, 'w) dispatcher \<times> 'w \<times> unit result"
where
  "dispatch_event ty event = dispatch_as ty (et_name ty) event"

definition dispatch_quietly ::
  "event_type \<Rightarrow> 'p \<Rightarrow> ('p, 'w) dispatcher \<Rightarrow> 'w \<Rightarrow> ('p, 'w) dispatcher \<times> 'w \<times> nat"
where
  "dispatch_quietly ty event d w =
     (case d_recorder d of
        Some rs \<Rightarrow> (d\<lparr>d_recorder := Some (record_event ty (et_name ty) event rs)\<rparr>, w, 0)
      | None \<Rightarrow> (d, deliver_quietly (deliveries ty (et_name ty) event d) 0 w))"

section \<open>What a faking dispatcher recorded\<close>

definition dispatched :: "event_type \<Rightarrow> ('p, 'w) dispatcher \<Rightarrow> 'p list" where
  "dispatched ty d =
     (case d_recorder d of
        None \<Rightarrow> []
      | Some rs \<Rightarrow>
          map (\<lambda>r. any_payload (rec_payload r))
            (filter (\<lambda>r. et_id (any_type (rec_payload r)) = et_id ty)
              (filter (\<lambda>r. rec_type r = et_id ty) rs)))"

definition dispatched_names :: "('p, 'w) dispatcher \<Rightarrow> string list" where
  "dispatched_names d = (case d_recorder d of None \<Rightarrow> [] | Some rs \<Rightarrow> map rec_name rs)"

text \<open>The assertions panic: \<open>None\<close> is a panic.\<close>

definition require_faking :: "('p, 'w) dispatcher \<Rightarrow> unit option" where
  "require_faking d = (if dispatcher_is_faking d then Some () else None)"

definition assert_dispatched :: "event_type \<Rightarrow> ('p, 'w) dispatcher \<Rightarrow> unit option" where
  "assert_dispatched ty d =
     Option.bind (require_faking d) (\<lambda>_. if dispatched ty d \<noteq> [] then Some () else None)"

definition assert_dispatched_times :: "event_type \<Rightarrow> nat \<Rightarrow> ('p, 'w) dispatcher \<Rightarrow> unit option" where
  "assert_dispatched_times ty n d =
     Option.bind (require_faking d) (\<lambda>_. if length (dispatched ty d) = n then Some () else None)"

definition assert_not_dispatched :: "event_type \<Rightarrow> ('p, 'w) dispatcher \<Rightarrow> unit option" where
  "assert_not_dispatched ty d =
     Option.bind (require_faking d) (\<lambda>_. if dispatched ty d = [] then Some () else None)"

section \<open>The order of delivery\<close>

text \<open>A registration as the caller makes it, and the listeners a list of them gives a type.\<close>

datatype ('p, 'w) listen_call =
  On event_type "'p \<Rightarrow> 'w \<Rightarrow> 'w \<times> unit result" int
| OnAny "string \<Rightarrow> 'p any_event \<Rightarrow> 'w \<Rightarrow> 'w \<times> unit result" int

fun make_call :: "('p, 'w) listen_call \<Rightarrow> ('p, 'w) dispatcher \<Rightarrow> ('p, 'w) dispatcher" where
  "make_call (On ty l p) = listen_with_priority ty l p"
| "make_call (OnAny l p) = listen_any_with_priority l p"

definition make_calls :: "('p, 'w) listen_call list \<Rightarrow> ('p, 'w) dispatcher \<Rightarrow> ('p, 'w) dispatcher" where
  "make_calls cs d = fold make_call cs d"

fun calls_on :: "nat \<Rightarrow> ('p, 'w) listen_call list \<Rightarrow> (('p, 'w) stored_handler \<times> int) list" where
  "calls_on i [] = []"
| "calls_on i (On ty l p # cs) =
     (if et_id ty = i then (erase_listener ty l, p) # calls_on i cs else calls_on i cs)"
| "calls_on i (OnAny l p # cs) = calls_on i cs"

fun calls_any ::
  "('p, 'w) listen_call list \<Rightarrow> ((string \<Rightarrow> 'p any_event \<Rightarrow> 'w \<Rightarrow> 'w \<times> unit result) \<times> int) list"
where
  "calls_any [] = []"
| "calls_any (OnAny l p # cs) = (l, p) # calls_any cs"
| "calls_any (On ty l p # cs) = calls_any cs"

definition by_priority :: "('h \<times> int) list \<Rightarrow> 'h list" where
  "by_priority ls = map fst (sort_key (\<lambda>(h, p). - p) ls)"

lemma insort_key_map:
  "map g (insort_key (\<lambda>x. f (g x)) x xs) = insort_key f (g x) (map g xs)"
  by (induction xs) auto

lemma sort_key_map: "map g (sort_key (\<lambda>x. f (g x)) xs) = sort_key f (map g xs)"
  by (induction xs) (simp_all add: insort_key_map)

lemma insort_key_lex:
  fixes f :: "'a \<Rightarrow> 'k::linorder" and n :: "'a \<Rightarrow> nat"
  assumes "\<forall>y \<in> set ys. n x \<le> n y"
  shows "insort_key (\<lambda>r. (f r, n r)) x ys = insort_key f x ys"
  using assms by (induction ys) (auto simp: less_eq_prod_def)

lemma sort_key_lex:
  fixes f :: "'a \<Rightarrow> 'k::linorder" and n :: "'a \<Rightarrow> nat"
  assumes "sorted (map n xs)"
  shows "sort_key (\<lambda>r. (f r, n r)) xs = sort_key f xs"
  using assms by (induction xs) (simp_all add: insort_key_lex)

text \<open>What the dispatcher holds, against the calls made so far.\<close>

definition holds_calls :: "('p, 'w) listen_call list \<Rightarrow> ('p, 'w) dispatcher \<Rightarrow> bool" where
  "holds_calls cs d \<longleftrightarrow>
     d_sequence d = length cs \<and> d_recorder d = None \<and>
     (\<forall>i. let rs = (case hm_get i (d_listeners d) of Some rs \<Rightarrow> rs | None \<Rightarrow> []) in
          map (\<lambda>r. (reg_handler r, reg_priority r)) rs = calls_on i cs \<and>
          sorted (map reg_sequence rs) \<and> (\<forall>r \<in> set rs. reg_sequence r < length cs)) \<and>
     map (\<lambda>(l, p, n). (l, p)) (d_wildcards d) = calls_any cs \<and>
     sorted (map (\<lambda>(l, p, n). n) (d_wildcards d)) \<and> (\<forall>(l, p, n) \<in> set (d_wildcards d). n < length cs)"

lemma calls_on_append [simp]: "calls_on i (cs @ ds) = calls_on i cs @ calls_on i ds"
  by (induction i cs rule: calls_on.induct) auto

lemma calls_any_append [simp]: "calls_any (cs @ ds) = calls_any cs @ calls_any ds"
  by (induction cs rule: calls_any.induct) auto

lemma holds_calls_on:
  assumes "holds_calls cs d" "length cs + 1 < 2 ^ 64"
  shows "holds_calls (cs @ [On ty l p]) (listen_with_priority ty l p d)"
proof -
  have *: "sorted (map reg_sequence rs)" "\<forall>r \<in> set rs. reg_sequence r < length cs"
    if "hm_get (et_id ty) (d_listeners d) = Some rs" for rs
    using assms(1) that by (auto simp: holds_calls_def Let_def dest!: spec [of _ "et_id ty"])
  show ?thesis using assms
    by (simp add: holds_calls_def listen_with_priority_def next_sequence_def as_u64_def Let_def)
       (auto simp: sorted_append less_Suc_eq_le less_imp_le * split: option.splits dest: less_imp_le)
qed

lemma holds_calls_any:
  assumes "holds_calls cs d" "length cs + 1 < 2 ^ 64"
  shows "holds_calls (cs @ [OnAny l p]) (listen_any_with_priority l p d)"
  using assms
  by (simp add: holds_calls_def listen_any_with_priority_def next_sequence_def as_u64_def Let_def)
     (fastforce simp: sorted_append less_Suc_eq_le split: option.splits)

lemma holds_calls_step:
  assumes "holds_calls cs d" "length cs + 1 < 2 ^ 64"
  shows "holds_calls (cs @ [c]) (make_call c d)"
  using assms by (cases c) (simp_all add: holds_calls_on holds_calls_any)

lemma holds_calls_make: "length cs < 2 ^ 64 \<Longrightarrow> holds_calls cs (make_calls cs dispatcher_new)"
proof (induction cs rule: rev_induct)
  case (snoc c cs)
  then show ?case using holds_calls_step [of cs "make_calls cs dispatcher_new" c]
    by (simp add: make_calls_def)
qed (simp add: make_calls_def holds_calls_def dispatcher_new_def)

lemma handlers_by_priority:
  assumes "holds_calls cs d" shows "handlers_for ty d = by_priority (calls_on (et_id ty) cs)"
proof -
  define rs where "rs = (case hm_get (et_id ty) (d_listeners d) of Some rs \<Rightarrow> rs | None \<Rightarrow> [])"
  then have rs: "calls_on (et_id ty) cs = map (\<lambda>r. (reg_handler r, reg_priority r)) rs"
    "sorted (map reg_sequence rs)"
    using assms by (simp_all add: holds_calls_def Let_def)
  have "handlers_for ty d = map reg_handler (sort_key (\<lambda>r. - reg_priority r) rs)"
    using sort_key_lex [OF rs(2), of "\<lambda>r. - reg_priority r"]
    by (simp add: handlers_for_def rs_def split: option.splits)
  also have "\<dots> = map fst (map (\<lambda>r. (reg_handler r, reg_priority r)) (sort_key (\<lambda>r. - reg_priority r) rs))"
    by (simp add: comp_def)
  finally show ?thesis
    using sort_key_map [of "\<lambda>r. (reg_handler r, reg_priority r)" "\<lambda>(h, p). - p" rs]
    by (simp add: by_priority_def rs(1) del: map_map)
qed

lemma wildcards_by_priority:
  assumes "holds_calls cs d" shows "wildcard_handlers d = by_priority (calls_any cs)"
proof -
  let ?ws = "d_wildcards d"
  have ws: "calls_any cs = map (\<lambda>(l, p, n). (l, p)) ?ws" "sorted (map (\<lambda>(l, p, n). n) ?ws)"
    using assms by (simp_all add: holds_calls_def)
  have "wildcard_handlers d = map fst (sort_key (\<lambda>w. - fst (snd w)) ?ws)"
    using sort_key_lex [OF ws(2), of "\<lambda>w. - fst (snd w)"]
    by (simp add: wildcard_handlers_def case_prod_unfold)
  also have "\<dots> = map fst (map (\<lambda>(l, p, n). (l, p)) (sort_key (\<lambda>w. - fst (snd w)) ?ws))"
    by (simp add: comp_def case_prod_unfold)
  finally show ?thesis
    using sort_key_map [of "\<lambda>(l, p, n). (l, p)" "\<lambda>(h, p). - p" ?ws]
    by (simp add: by_priority_def ws(1) case_prod_unfold del: map_map)
qed

text \<open>The reference: run every listener, and list their results.\<close>

fun run_all :: "('w \<Rightarrow> 'w \<times> unit result) list \<Rightarrow> 'w \<Rightarrow> 'w \<times> unit result list" where
  "run_all [] w = (w, [])"
| "run_all (h # hs) w = (let (w', r) = h w; (w'', rs) = run_all hs w' in (w'', r # rs))"

definition failed_at :: "('w \<Rightarrow> 'w \<times> unit result) list \<Rightarrow> 'w \<Rightarrow> nat" where
  "failed_at hs w = length (takeWhile (\<lambda>r. \<not> isl r) (snd (run_all hs w)))"

lemma length_run_all: "length (snd (run_all hs w)) = length hs"
  by (induction hs arbitrary: w) (auto simp: split_beta Let_def)

lemma deliver_run_all:
  "deliver hs w =
     (fst (run_all (take (Suc (failed_at hs w)) hs) w),
      if failed_at hs w < length hs then snd (run_all hs w) ! failed_at hs w else Inr ())"
proof (induction hs arbitrary: w)
  case (Cons h hs)
  then show ?case
    by (cases "h w"; cases "snd (h w)") (auto simp: failed_at_def split_beta Let_def)
qed (simp add: failed_at_def)

lemma deliver_quietly_run_all:
  "deliver_quietly hs n w =
     (fst (run_all hs w), n + length (filter isl (snd (run_all hs w))))"
proof (induction hs arbitrary: n w)
  case (Cons h hs)
  then show ?case by (cases "h w"; cases "snd (h w)") (auto simp: split_beta Let_def)
qed simp

text \<open>
  C34. Whatever listeners were registered and in whatever order, an event reaches exactly the
  listeners of its type and then the wildcard listeners, each group the higher priority first
  and, within one priority, in the order of registration. \<^verbatim>\<open>dispatch\<close> stops after the first
  listener that fails and answers its error; \<^verbatim>\<open>dispatch_quietly\<close> runs every one of them and
  answers how many failed.
\<close>

theorem events_delivered_in_order:
  fixes calls :: "('p, 'w) listen_call list" and ty :: event_type and event :: 'p and w :: 'w
  assumes "length calls < 2 ^ 64"
  defines "d \<equiv> make_calls calls dispatcher_new"
    and "payload \<equiv> \<lparr>any_type = ty, any_payload = event\<rparr>"
  defines "hs \<equiv> map (\<lambda>h. h payload) (by_priority (calls_on (et_id ty) calls)) @
                 map (\<lambda>h. h (et_name ty) payload) (by_priority (calls_any calls))"
  shows "dispatch_event ty event d w =
           (d, fst (run_all (take (Suc (failed_at hs w)) hs) w),
            if failed_at hs w < length hs then snd (run_all hs w) ! failed_at hs w else Inr ()) \<and>
         dispatch_quietly ty event d w =
           (d, fst (run_all hs w), length (filter isl (snd (run_all hs w))))"
proof -
  have d: "holds_calls calls d" using holds_calls_make [OF assms(1)] by (simp add: d_def)
  then have "deliveries ty (et_name ty) event d = hs"
    by (simp add: deliveries_def hs_def payload_def handlers_by_priority [OF d]
        wildcards_by_priority [OF d] Let_def)
  moreover have "d_recorder d = None" using d by (simp add: holds_calls_def)
  ultimately show ?thesis
    by (simp add: dispatch_event_def dispatch_as_def dispatch_quietly_def deliver_run_all
        deliver_quietly_run_all)
qed

definition jot :: "string \<Rightarrow> unit result \<Rightarrow> 'p \<Rightarrow> string list \<Rightarrow> string list \<times> unit result" where
  "jot what r _ w = (w @ [what], r)"

definition sample_event :: event_type where
  "sample_event = \<lparr>et_id = 7, et_name = ''JobFailed''\<rparr>"

definition sample_calls :: "(nat, string list) listen_call list" where
  "sample_calls =
     [On sample_event (jot ''audit'' (Inr ())) 0,
      OnAny (\<lambda>_. jot ''log'' (Inr ())) 5,
      On sample_event (jot ''page'' (Inl (err_internal ''no pager''))) 10,
      On \<lparr>et_id = 8, et_name = ''Other''\<rparr> (jot ''other'' (Inr ())) 99,
      On sample_event (jot ''count'' (Inr ())) 0]"

theorem events_delivered_in_order_witness:
  "dispatch_event sample_event 3 (make_calls sample_calls dispatcher_new) [] =
     (make_calls sample_calls dispatcher_new, [''page''], Inl (err_internal ''no pager'')) \<and>
   dispatch_quietly sample_event 3 (make_calls sample_calls dispatcher_new) [] =
     (make_calls sample_calls dispatcher_new, [''page'', ''audit'', ''count'', ''log''], 1)"
  using events_delivered_in_order [of sample_calls sample_event 3 "[]"]
  by (simp add: sample_calls_def sample_event_def by_priority_def erase_listener_def jot_def
      failed_at_def)

section \<open>Faking\<close>

text \<open>A faking dispatcher runs nothing and remembers every event of the type, in order.\<close>

lemma fake_records_all:
  "dispatched ty (fold (\<lambda>(ty, ev) d. fst (dispatch_event ty ev d w)) evs dispatcher_fake) =
     map snd (filter (\<lambda>(ty', ev). et_id ty' = et_id ty) evs)"
proof -
  have "d_recorder d = Some rs \<Longrightarrow>
    dispatched ty (fold (\<lambda>(ty, ev) d. fst (dispatch_event ty ev d w)) evs d) =
      dispatched ty d @ map snd (filter (\<lambda>(ty', ev). et_id ty' = et_id ty) evs)" for rs d
    by (induction evs arbitrary: d rs)
       (auto simp: dispatch_event_def dispatch_as_def dispatched_def record_event_def)
  then show ?thesis by (simp add: dispatcher_fake_def dispatched_def)
qed

end
