(* ===== verification/Worker.thy ===== *)
theory Worker
  imports Queue_Port Events
begin

text \<open>
  The queue worker, \<^verbatim>\<open>rainier-queue/src/worker.rs\<close>: reserving under per-queue limits, running one
  job with its timeout and its panics caught, settling it, and the loop that keeps several jobs
  in flight. The build without the features \<^verbatim>\<open>kubernetes\<close> and \<^verbatim>\<open>telemetry\<close> is modelled, so a job
  runs in the process; log lines are left out.

  The worker's surroundings are a record: the store of the queue driver, the store of the cache
  the uniqueness locks are in, the world the handlers and the event listeners act on, and the
  dispatcher. How the standard library prints a duration and a list of names is a parameter of
  the worker, and so is the container's \<^verbatim>\<open>flush_scoped\<close>, an effect on the world.
\<close>

section \<open>Events and options\<close>

datatype worker_event =
  JobProcessing queued_job
| JobProcessed queued_job duration
| JobReleased queued_job duration string
| JobFailed queued_job string

fun worker_event_type :: "worker_event \<Rightarrow> event_type" where
  "worker_event_type (JobProcessing _) = \<lparr>et_id = 1, et_name = ''rainier_queue::worker::JobProcessing''\<rparr>"
| "worker_event_type (JobProcessed _ _) = \<lparr>et_id = 2, et_name = ''rainier_queue::worker::JobProcessed''\<rparr>"
| "worker_event_type (JobReleased _ _ _) = \<lparr>et_id = 3, et_name = ''rainier_queue::worker::JobReleased''\<rparr>"
| "worker_event_type (JobFailed _ _) = \<lparr>et_id = 4, et_name = ''rainier_queue::worker::JobFailed''\<rparr>"

datatype job_outcome = Idle | Processed | Released | FailedForGood

record worker_options =
  wo_queues :: "string list"
  wo_sleep :: duration
  wo_max_jobs :: "nat option"
  wo_stop_when_empty :: bool
  wo_timeout :: "duration option"
  wo_timeout_override :: "duration option option"
  wo_queue_timeouts :: "(string, duration) hmap"
  wo_max_time :: "duration option"
  wo_tries :: "nat option"
  wo_max_consecutive_errors :: nat
  wo_max_error_backoff :: duration
  wo_concurrency :: nat
  wo_queue_limits :: "(string, nat) hmap"

definition worker_options_default :: worker_options where
  "worker_options_default =
     \<lparr>wo_queues = [''default''], wo_sleep = secs 1, wo_max_jobs = None, wo_stop_when_empty = False,
      wo_timeout = Some (secs 60), wo_timeout_override = None, wo_queue_timeouts = [],
      wo_max_time = None, wo_tries = None, wo_max_consecutive_errors = 20,
      wo_max_error_backoff = secs 30, wo_concurrency = 1, wo_queue_limits = []\<rparr>"

definition set_queues :: "string list \<Rightarrow> worker_options \<Rightarrow> worker_options" where
  "set_queues qs opts = opts\<lparr>wo_queues := qs\<rparr>"
definition set_sleep :: "duration \<Rightarrow> worker_options \<Rightarrow> worker_options" where
  "set_sleep d opts = opts\<lparr>wo_sleep := d\<rparr>"
definition set_max_jobs :: "nat \<Rightarrow> worker_options \<Rightarrow> worker_options" where
  "set_max_jobs n opts = opts\<lparr>wo_max_jobs := Some n\<rparr>"
definition set_concurrency :: "nat \<Rightarrow> worker_options \<Rightarrow> worker_options" where
  "set_concurrency n opts = opts\<lparr>wo_concurrency := max n 1\<rparr>"
definition set_queue_limit :: "string \<Rightarrow> nat \<Rightarrow> worker_options \<Rightarrow> worker_options" where
  "set_queue_limit q n opts = opts\<lparr>wo_queue_limits := hm_insert q (max n 1) (wo_queue_limits opts)\<rparr>"
definition set_stop_when_empty :: "worker_options \<Rightarrow> worker_options" where
  "set_stop_when_empty opts = opts\<lparr>wo_stop_when_empty := True\<rparr>"
definition set_timeout :: "duration option \<Rightarrow> worker_options \<Rightarrow> worker_options" where
  "set_timeout t opts = opts\<lparr>wo_timeout := t\<rparr>"
definition override_timeout :: "duration option \<Rightarrow> worker_options \<Rightarrow> worker_options" where
  "override_timeout t opts = opts\<lparr>wo_timeout_override := Some t\<rparr>"
definition set_queue_timeout :: "string \<Rightarrow> duration \<Rightarrow> worker_options \<Rightarrow> worker_options" where
  "set_queue_timeout q t opts = opts\<lparr>wo_queue_timeouts := hm_insert q t (wo_queue_timeouts opts)\<rparr>"
definition set_max_time :: "duration \<Rightarrow> worker_options \<Rightarrow> worker_options" where
  "set_max_time t opts = opts\<lparr>wo_max_time := Some t\<rparr>"
definition set_tries :: "nat \<Rightarrow> worker_options \<Rightarrow> worker_options" where
  "set_tries n opts = opts\<lparr>wo_tries := Some n\<rparr>"
definition set_max_consecutive_errors :: "nat \<Rightarrow> worker_options \<Rightarrow> worker_options" where
  "set_max_consecutive_errors n opts = opts\<lparr>wo_max_consecutive_errors := max n 1\<rparr>"
definition set_max_error_backoff :: "duration \<Rightarrow> worker_options \<Rightarrow> worker_options" where
  "set_max_error_backoff d opts = opts\<lparr>wo_max_error_backoff := d\<rparr>"

definition attempts_for :: "worker_options \<Rightarrow> nat \<Rightarrow> nat" where
  "attempts_for opts job_max_attempts =
     max (max job_max_attempts (case wo_tries opts of Some n \<Rightarrow> n | None \<Rightarrow> 0)) 1"

text \<open>\<^verbatim>\<open>Duration::MAX\<close>, in nanoseconds.\<close>

definition DURATION_MAX :: duration where "DURATION_MAX = u64_max * 1000000000 + 999999999"

definition error_backoff :: "worker_options \<Rightarrow> nat \<Rightarrow> duration" where
  "error_backoff opts consecutive =
     (let doublings = min (consecutive - 1) 16
      in min (min (wo_sleep opts * 2 ^ doublings) DURATION_MAX) (wo_max_error_backoff opts))"

record worker_stats =
  n_processed :: nat
  n_released :: nat
  n_failed :: nat
  n_idles :: nat
  n_errors :: nat

definition stats_default :: worker_stats where
  "stats_default = \<lparr>n_processed = 0, n_released = 0, n_failed = 0, n_idles = 0, n_errors = 0\<rparr>"

definition stats_total :: "worker_stats \<Rightarrow> nat" where
  "stats_total st = n_processed st + n_failed st"

definition tally :: "worker_stats \<Rightarrow> job_outcome result \<Rightarrow> worker_stats" where
  "tally st out =
     (case out of
        Inr Idle \<Rightarrow> st\<lparr>n_idles := n_idles st + 1\<rparr>
      | Inr Processed \<Rightarrow> st\<lparr>n_processed := n_processed st + 1\<rparr>
      | Inr Released \<Rightarrow> st\<lparr>n_released := n_released st + 1\<rparr>
      | Inr FailedForGood \<Rightarrow> st\<lparr>n_failed := n_failed st + 1\<rparr>
      | Inl _ \<Rightarrow> st\<lparr>n_errors := n_errors st + 1\<rparr>)"

definition finished :: "string \<Rightarrow> (string, nat) hmap \<Rightarrow> (string, nat) hmap" where
  "finished queue running =
     (case hm_get queue running of
        None \<Rightarrow> running
      | Some n \<Rightarrow> if n - 1 = 0 then hm_remove queue running
                  else hm_insert queue (n - 1) running)"

section \<open>Running and settling one job\<close>

record ('q, 'c, 'w) worker =
  wk_queue :: "'q queue"
  wk_registry :: "'w job_registry"
  wk_locks :: "'c lock_manager option"
  wk_options :: worker_options
  wk_flush :: "'w \<Rightarrow> 'w"
  wk_print_names :: "string list \<Rightarrow> string"
  wk_print_duration :: "duration \<Rightarrow> string"

record ('q, 'c, 'w) surroundings =
  ws_queue :: 'q
  ws_cache :: 'c
  ws_world :: 'w
  ws_events :: "(worker_event, 'w) dispatcher option"

text \<open>What a job's processing reads of the clocks: at its settling, and the time it took.\<close>

record ticks =
  tk_settle :: time
  tk_duration :: duration

definition worker_dispatch ::
  "worker_event \<Rightarrow> ('q, 'c, 'w) surroundings \<Rightarrow> ('q, 'c, 'w) surroundings"
where
  "worker_dispatch ev ws =
     (case ws_events ws of
        None \<Rightarrow> ws
      | Some d \<Rightarrow>
          (let (d', w', _) = dispatch_quietly (worker_event_type ev) ev d (ws_world ws)
           in ws\<lparr>ws_events := Some d', ws_world := w'\<rparr>))"

definition job_timeout :: "('q, 'c, 'w) worker \<Rightarrow> queued_job \<Rightarrow> duration option" where
  "job_timeout wk job =
     (case wo_timeout_override (wk_options wk) of
        Some explicit \<Rightarrow> explicit
      | None \<Rightarrow>
          (case timeout_for (qj_name job) (wk_registry wk) of
             Some t \<Rightarrow> Some t
           | None \<Rightarrow>
               (case hm_get (qj_queue job) (wo_queue_timeouts (wk_options wk)) of
                  Some t \<Rightarrow> Some t
                | None \<Rightarrow> wo_timeout (wk_options wk))))"

fun panic_message :: "panic \<Rightarrow> string" where
  "panic_message (PStr s) = s"
| "panic_message (PString s) = s"
| "panic_message POther = ''a panic with a payload this worker cannot render''"

text \<open>\<^verbatim>\<open>CatchPanic\<close> gives the payload of a panic back as an error.\<close>

fun catch_panic :: "ran \<Rightarrow> panic + unit result" where
  "catch_panic (Returned r) = Inr r"
| "catch_panic (Panicked p) = Inl p"

text \<open>\<^verbatim>\<open>run_handler\<close>; \<open>None\<close>: it never returns, which takes a job that never ends and no timeout.\<close>

definition run_handler ::
  "('q, 'c, 'w) worker \<Rightarrow> queued_job \<Rightarrow> job_context \<Rightarrow> duration option \<Rightarrow> 'w \<Rightarrow> ('w \<times> unit result) option"
where
  "run_handler wk job ctx timeout w =
     (let r = registry_run (wk_print_names wk) (wk_registry wk) job ctx w;
          outcome =
            (case timeout of
               Some limit \<Rightarrow>
                 (case r_ends r of
                    Some (t, z) \<Rightarrow>
                      if t \<le> limit then Some (r_world r t, catch_panic z)
                      else Some (r_world r limit, Inr (Inl (err_internal
                             (''the job exceeded its '' @ wk_print_duration wk limit @ '' timeout''))))
                  | None \<Rightarrow>
                      Some (r_world r limit, Inr (Inl (err_internal
                        (''the job exceeded its '' @ wk_print_duration wk limit @ '' timeout'')))))
             | None \<Rightarrow>
                 (case r_ends r of
                    Some (t, z) \<Rightarrow> Some (r_world r t, catch_panic z) | None \<Rightarrow> None))
      in case outcome of
           None \<Rightarrow> None
         | Some (w', Inr result) \<Rightarrow> Some (w', result)
         | Some (w', Inl panic) \<Rightarrow>
             Some (w', Inl (err_internal (''the job panicked: '' @ panic_message panic))))"

definition worker_release_uniqueness ::
  "('q, 'c, 'w) worker \<Rightarrow> queued_job \<Rightarrow> ('q, 'c, 'w) surroundings \<Rightarrow> ('q, 'c, 'w) surroundings"
where
  "worker_release_uniqueness wk job ws =
     (case (qj_unique_key job, wk_locks wk) of
        (Some key, Some locks) \<Rightarrow>
          ws\<lparr>ws_cache := fst (force_release (lm_lock locks key (secs 1)) (ws_cache ws))\<rparr>
      | _ \<Rightarrow> ws)"

definition backoff_for :: "nat \<Rightarrow> duration" where
  "backoff_for attempts = secs (2 ^ min (max attempts 1) 6)"

definition handle_failure ::
  "('q, 'c, 'w) worker \<Rightarrow> ticks \<Rightarrow> queued_job \<Rightarrow> error \<Rightarrow> ('q, 'c, 'w) surroundings
    \<Rightarrow> ('q, 'c, 'w) surroundings \<times> job_outcome result"
where
  "handle_failure wk tk job e ws =
     (let msg = error_display e in
      if attempts_for (wk_options wk) (qj_max_attempts job) \<le> qj_attempts job
      then (case q_fail (wk_queue wk) (tk_settle tk) job msg (ws_queue ws) of
              (q', Inl err) \<Rightarrow> (ws\<lparr>ws_queue := q'\<rparr>, Inl err)
            | (q', Inr _) \<Rightarrow>
                (worker_dispatch (JobFailed job msg)
                   (worker_release_uniqueness wk job (ws\<lparr>ws_queue := q'\<rparr>)), Inr FailedForGood))
      else (let delay = backoff_for (qj_attempts job) in
            case q_release (wk_queue wk) (tk_settle tk) job delay (ws_queue ws) of
              (q', Inl err) \<Rightarrow> (ws\<lparr>ws_queue := q'\<rparr>, Inl err)
            | (q', Inr _) \<Rightarrow>
                (worker_dispatch (JobReleased job delay msg) (ws\<lparr>ws_queue := q'\<rparr>), Inr Released)))"

definition worker_process ::
  "('q, 'c, 'w) worker \<Rightarrow> ticks \<Rightarrow> queued_job \<Rightarrow> ('q, 'c, 'w) surroundings
    \<Rightarrow> (('q, 'c, 'w) surroundings \<times> job_outcome result) option"
where
  "worker_process wk tk job ws =
     (let ws1 = worker_dispatch (JobProcessing job) ws;
          ctx = job_context_new (qj_id job) (qj_queue job) (qj_attempts job) (qj_max_attempts job)
      in case run_handler wk job ctx (job_timeout wk job) (ws_world ws1) of
           None \<Rightarrow> None
         | Some (w', Inr _) \<Rightarrow>
             (let ws2 = ws1\<lparr>ws_world := w'\<rparr> in
              case q_acknowledge (wk_queue wk) job (ws_queue ws2) of
                (q', Inl err) \<Rightarrow> Some (ws2\<lparr>ws_queue := q'\<rparr>, Inl err)
              | (q', Inr _) \<Rightarrow>
                  Some (worker_dispatch (JobProcessed job (tk_duration tk))
                          (worker_release_uniqueness wk job (ws2\<lparr>ws_queue := q'\<rparr>)), Inr Processed))
         | Some (w', Inl e) \<Rightarrow> Some (handle_failure wk tk job e (ws1\<lparr>ws_world := w'\<rparr>)))"

section \<open>Reserving\<close>

text \<open>\<open>clk n\<close> are the readings of the clock while the \<open>n\<close>-th queue of the list is tried.\<close>

fun reserve_within ::
  "'q queue \<Rightarrow> (string, nat) hmap \<Rightarrow> (string, nat) hmap \<Rightarrow> (nat \<Rightarrow> nat \<Rightarrow> time) \<Rightarrow> string list \<Rightarrow> 'q
    \<Rightarrow> 'q \<times> queued_job option result"
where
  "reserve_within q limits in_flight clk [] s = (s, Inr None)"
| "reserve_within q limits in_flight clk (queue # queues) s =
     (if (case hm_get queue limits of
            Some limit \<Rightarrow> limit \<le> (case hm_get queue in_flight of Some n \<Rightarrow> n | None \<Rightarrow> 0)
          | None \<Rightarrow> False)
      then reserve_within q limits in_flight (\<lambda>n. clk (Suc n)) queues s
      else case q_reserve q (clk 0) queue s of
             (s', Inl e) \<Rightarrow> (s', Inl e)
           | (s', Inr (Some job)) \<Rightarrow> (s', Inr (Some job))
           | (s', Inr None) \<Rightarrow> reserve_within q limits in_flight (\<lambda>n. clk (Suc n)) queues s')"

definition worker_reserve ::
  "('q, 'c, 'w) worker \<Rightarrow> (string, nat) hmap \<Rightarrow> (nat \<Rightarrow> nat \<Rightarrow> time) \<Rightarrow> 'q \<Rightarrow> 'q \<times> queued_job option result"
where
  "worker_reserve wk in_flight clk s =
     reserve_within (wk_queue wk) (wo_queue_limits (wk_options wk)) in_flight clk
       (wo_queues (wk_options wk)) s"

definition worker_run_next ::
  "('q, 'c, 'w) worker \<Rightarrow> (nat \<Rightarrow> nat \<Rightarrow> time) \<Rightarrow> ticks \<Rightarrow> ('q, 'c, 'w) surroundings
    \<Rightarrow> (('q, 'c, 'w) surroundings \<times> job_outcome result) option"
where
  "worker_run_next wk clk tk ws =
     (case worker_reserve wk [] clk (ws_queue ws) of
        (q', Inl e) \<Rightarrow> Some (ws\<lparr>ws_queue := q'\<rparr>, Inl e)
      | (q', Inr (Some job)) \<Rightarrow> worker_process wk tk job (ws\<lparr>ws_queue := q'\<rparr>)
      | (q', Inr None) \<Rightarrow> Some (ws\<lparr>ws_queue := q'\<rparr>, Inr Idle))"

section \<open>The loop\<close>

record ('q, 'c, 'w) loop_state =
  ls_stats :: worker_stats
  ls_consecutive :: nat
  ls_in_flight :: "(string \<times> queued_job) list"
  ls_running :: "(string, nat) hmap"
  ls_ws :: "('q, 'c, 'w) surroundings"

text \<open>
  What the outside decides in one turn of the loop: whether the worker was told to stop, the
  time since the start, the clock, which job in flight is the next to end, whether the back-off
  timer fires before that, and what other processes did to the surroundings before the turn.
  The jobs in flight interleave at their awaits; here a job's processing takes effect in one
  piece at the turn in which it ends.
\<close>

record ('q, 'c, 'w) turn =
  it_stop :: bool
  it_elapsed :: duration
  it_clk :: "nat \<Rightarrow> nat \<Rightarrow> time"
  it_pick :: nat
  it_ticks :: ticks
  it_timer_first :: bool
  it_env :: "('q, 'c, 'w) surroundings \<Rightarrow> ('q, 'c, 'w) surroundings"

datatype ('q, 'c, 'w) loop_next =
  Continue "('q, 'c, 'w) loop_state"
| Exit "worker_stats result" "('q, 'c, 'w) loop_state"

definition loop_start :: "('q, 'c, 'w) surroundings \<Rightarrow> ('q, 'c, 'w) loop_state" where
  "loop_start ws =
     \<lparr>ls_stats = stats_default, ls_consecutive = 0, ls_in_flight = [], ls_running = [], ls_ws = ws\<rparr>"

definition finishing :: "worker_options \<Rightarrow> ('q, 'c, 'w) turn \<Rightarrow> ('q, 'c, 'w) loop_state \<Rightarrow> bool" where
  "finishing opts it ls \<longleftrightarrow>
     it_stop it \<or>
     (case wo_max_jobs opts of
        Some m \<Rightarrow> stats_total (ls_stats ls) + length (ls_in_flight ls) \<ge> m | None \<Rightarrow> False) \<or>
     (case wo_max_time opts of Some m \<Rightarrow> it_elapsed it \<ge> m | None \<Rightarrow> False)"

definition flush_scoped ::
  "('q, 'c, 'w) worker \<Rightarrow> ('q, 'c, 'w) loop_state \<Rightarrow> ('q, 'c, 'w) loop_state"
where
  "flush_scoped wk ls = ls\<lparr>ls_ws := (ls_ws ls)\<lparr>ws_world := wk_flush wk (ws_world (ls_ws ls))\<rparr>\<rparr>"

text \<open>\<^verbatim>\<open>in_flight.next()\<close> with \<^verbatim>\<open>finished\<close> and \<^verbatim>\<open>tally\<close>; \<open>None\<close> where the picked job never ends.\<close>

definition land ::
  "('q, 'c, 'w) worker \<Rightarrow> ('q, 'c, 'w) turn \<Rightarrow> ('q, 'c, 'w) loop_state \<Rightarrow> ('q, 'c, 'w) loop_state option"
where
  "land wk it ls =
     (if ls_in_flight ls = [] then Some ls
      else let i = it_pick it mod length (ls_in_flight ls);
               (queue, job) = ls_in_flight ls ! i
           in case worker_process wk (it_ticks it) job (ls_ws ls) of
                None \<Rightarrow> None
              | Some (ws', out) \<Rightarrow>
                  Some (ls\<lparr>ls_in_flight := take i (ls_in_flight ls) @ drop (Suc i) (ls_in_flight ls),
                           ls_running := finished queue (ls_running ls),
                           ls_stats := tally (ls_stats ls) out, ls_ws := ws'\<rparr>))"

definition collect ::
  "('q, 'c, 'w) worker \<Rightarrow> ('q, 'c, 'w) turn \<Rightarrow> ('q, 'c, 'w) loop_state \<Rightarrow> ('q, 'c, 'w) loop_next option"
where
  "collect wk it ls =
     map_option (\<lambda>ls'. Continue (if ls_in_flight ls' = [] then flush_scoped wk ls' else ls')) (land wk it ls)"

definition loop_turn ::
  "('q, 'c, 'w) worker \<Rightarrow> ('q, 'c, 'w) turn \<Rightarrow> ('q, 'c, 'w) loop_state \<Rightarrow> ('q, 'c, 'w) loop_next option"
where
  "loop_turn wk it ls0 =
     (let opts = wk_options wk; ls = ls0\<lparr>ls_ws := it_env it (ls_ws ls0)\<rparr> in
      if finishing opts it ls \<and> ls_in_flight ls = [] then Some (Exit (Inr (ls_stats ls)) ls)
      else if \<not> finishing opts it ls \<and> length (ls_in_flight ls) < max (wo_concurrency opts) 1
      then (case worker_reserve wk (ls_running ls) (it_clk it) (ws_queue (ls_ws ls)) of
              (q', r) \<Rightarrow>
                (let ls1 = ls\<lparr>ls_ws := (ls_ws ls)\<lparr>ws_queue := q'\<rparr>\<rparr> in
                 case r of
                   Inr (Some job) \<Rightarrow>
                     (let queue = qj_queue job;
                          n = (case hm_get queue (ls_running ls1) of Some n \<Rightarrow> n | None \<Rightarrow> 0)
                      in Some (Continue (ls1\<lparr>ls_consecutive := 0,
                           ls_running := hm_insert queue (n + 1) (ls_running ls1),
                           ls_in_flight := ls_in_flight ls1 @ [(queue, job)]\<rparr>)))
                 | Inr None \<Rightarrow>
                     (let ls2 = ls1\<lparr>ls_consecutive := 0\<rparr> in
                      if ls_in_flight ls2 = []
                      then (let ls3 = ls2\<lparr>ls_stats := (ls_stats ls2)\<lparr>n_idles := n_idles (ls_stats ls2) + 1\<rparr>\<rparr> in
                            if wo_stop_when_empty opts then Some (Exit (Inr (ls_stats ls3)) ls3)
                            else Some (Continue (flush_scoped wk ls3)))
                      else collect wk it ls2)
                 | Inl e \<Rightarrow>
                     (let ls2 = ls1\<lparr>ls_stats := (ls_stats ls1)\<lparr>n_errors := n_errors (ls_stats ls1) + 1\<rparr>,
                                    ls_consecutive := ls_consecutive ls1 + 1\<rparr> in
                      if wo_max_consecutive_errors opts \<le> ls_consecutive ls2 then Some (Exit (Inl e) ls2)
                      else if ls_in_flight ls2 = [] then Some (Continue (flush_scoped wk ls2))
                      else if it_timer_first it then Some (Continue ls2)
                      else map_option Continue (land wk it ls2))))
      else collect wk it ls)"

section \<open>Limits of a run\<close>

text \<open>A driver whose reservations give jobs of the queue that was asked for, in every state it keeps.\<close>

locale routed_queue =
  fixes q :: "'q queue"
    and inv :: "'q \<Rightarrow> bool"
  assumes reserve_inv: "inv s \<Longrightarrow> inv (fst (q_reserve q clk name s))"
    and reserve_queue: "inv s \<Longrightarrow> q_reserve q clk name s = (s', Inr (Some j)) \<Longrightarrow> qj_queue j = name"
    and ack_inv: "inv s \<Longrightarrow> inv (fst (q_acknowledge q j s))"
    and release_inv: "inv s \<Longrightarrow> inv (fst (q_release q t j d s))"
    and fail_inv: "inv s \<Longrightarrow> inv (fst (q_fail q t j e s))"

definition load_of :: "string \<Rightarrow> (string \<times> 'j) list \<Rightarrow> nat" where
  "load_of queue js = length (filter (\<lambda>p. fst p = queue) js)"

definition within_limits :: "worker_options \<Rightarrow> ('q, 'c, 'w) loop_state \<Rightarrow> bool" where
  "within_limits opts ls \<longleftrightarrow>
     length (ls_in_flight ls) \<le> max (wo_concurrency opts) 1 \<and>
     (\<forall>queue. hm_get queue (ls_running ls) =
        (if load_of queue (ls_in_flight ls) = 0 then None else Some (load_of queue (ls_in_flight ls)))) \<and>
     (\<forall>queue limit. hm_get queue (wo_queue_limits opts) = Some limit \<longrightarrow>
        load_of queue (ls_in_flight ls) \<le> limit) \<and>
     (\<forall>m. wo_max_jobs opts = Some m \<longrightarrow> stats_total (ls_stats ls) + length (ls_in_flight ls) \<le> m) \<and>
     (wo_max_consecutive_errors opts > 0 \<longrightarrow> ls_consecutive ls < wo_max_consecutive_errors opts)"

text \<open>The states a run goes through, other processes keeping the invariant of the driver.\<close>

inductive worker_reaches ::
  "('q, 'c, 'w) worker \<Rightarrow> ('q \<Rightarrow> bool) \<Rightarrow> ('q, 'c, 'w) loop_state \<Rightarrow> bool" for wk inv
where
  reach_start: "inv (ws_queue ws) \<Longrightarrow> worker_reaches wk inv (loop_start ws)"
| reach_turn: "worker_reaches wk inv ls \<Longrightarrow>
    (\<And>ws. inv (ws_queue ws) \<Longrightarrow> inv (ws_queue (it_env it ws))) \<Longrightarrow>
    loop_turn wk it ls = Some (Continue ls') \<Longrightarrow> worker_reaches wk inv ls'"

lemma queue_frame [simp]:
  "ws_queue (worker_dispatch ev ws) = ws_queue ws"
  "ws_queue (worker_release_uniqueness wk job ws) = ws_queue ws"
  by (auto simp: worker_dispatch_def worker_release_uniqueness_def split: option.splits prod.splits)

lemma handle_failure_queue:
  "ws_queue (fst (handle_failure wk tk job e ws)) =
     (if attempts_for (wk_options wk) (qj_max_attempts job) \<le> qj_attempts job
      then fst (q_fail (wk_queue wk) (tk_settle tk) job (error_display e) (ws_queue ws))
      else fst (q_release (wk_queue wk) (tk_settle tk) job (backoff_for (qj_attempts job)) (ws_queue ws)))"
  by (auto simp: handle_failure_def Let_def split: prod.splits sum.splits)

lemma worker_process_queue:
  assumes "worker_process wk tk job ws = Some (ws', out)"
  shows "ws_queue ws' = fst (q_acknowledge (wk_queue wk) job (ws_queue ws)) \<or>
    (\<exists>msg. ws_queue ws' = fst (q_fail (wk_queue wk) (tk_settle tk) job msg (ws_queue ws))) \<or>
    (\<exists>d. ws_queue ws' = fst (q_release (wk_queue wk) (tk_settle tk) job d (ws_queue ws)))"
proof -
  let ?ws1 = "worker_dispatch (JobProcessing job) ws"
  consider w' u where "ws_queue ws' = fst (q_acknowledge (wk_queue wk) job (ws_queue ws))"
    | w' e where "handle_failure wk tk job e (?ws1\<lparr>ws_world := w'\<rparr>) = (ws', out)"
    using assms by (auto simp: worker_process_def Let_def split: option.splits prod.splits sum.splits)
  then show ?thesis
  proof cases
    case (2 w' e)
    then show ?thesis using handle_failure_queue [of wk tk job e "?ws1\<lparr>ws_world := w'\<rparr>"]
      by (auto simp: 2 split: if_splits)
  qed simp
qed

lemma tally_total:
  "stats_total (tally st r) \<le> stats_total st + 1"
  by (cases r; cases "projr r") (auto simp: tally_def stats_total_def split: job_outcome.splits)

lemma load_of_remove:
  assumes "i < length js"
  shows "load_of queue js = load_of queue (take i js @ drop (Suc i) js) + (if fst (js ! i) = queue then 1 else 0)"
  by (subst (1) id_take_nth_drop [OF assms]) (simp add: load_of_def)

text \<open>Landing a job takes it out of both books, and the total grows by at most one.\<close>

lemma within_limits_land:
  assumes lim: "within_limits opts ls" and i: "i < length (ls_in_flight ls)"
    and fl: "ls_in_flight ls' = take i (ls_in_flight ls) @ drop (Suc i) (ls_in_flight ls)"
    and ru: "ls_running ls' = finished (fst (ls_in_flight ls ! i)) (ls_running ls)"
    and st: "stats_total (ls_stats ls') \<le> stats_total (ls_stats ls) + 1"
    and co: "ls_consecutive ls' = ls_consecutive ls"
  shows "within_limits opts ls'"
proof -
  note load = load_of_remove [OF i, folded fl]
  have len: "length (ls_in_flight ls) = Suc (length (ls_in_flight ls'))"
    using i by (simp add: fl)
  have get: "hm_get queue (ls_running ls) =
      (if load_of queue (ls_in_flight ls) = 0 then None else Some (load_of queue (ls_in_flight ls)))" for queue
    using lim by (simp add: within_limits_def)
  have "hm_get queue (ls_running ls') =
      (if load_of queue (ls_in_flight ls') = 0 then None else Some (load_of queue (ls_in_flight ls')))" for queue
    using load [of queue] load [of "fst (ls_in_flight ls ! i)"] get [of queue]
      get [of "fst (ls_in_flight ls ! i)"]
    by (auto simp: ru finished_def)
  moreover have "load_of queue (ls_in_flight ls') \<le> limit"
    if "hm_get queue (wo_queue_limits opts) = Some limit" for queue limit
    using lim load [of queue] that by (auto simp: within_limits_def dest!: spec [of _ queue])
  ultimately show ?thesis using lim len st co by (auto simp: within_limits_def)
qed

context routed_queue
begin

lemma process_inv:
  assumes "wk_queue wk = q" "inv (ws_queue ws)" "worker_process wk tk job ws = Some (ws', out)"
  shows "inv (ws_queue ws')"
  using worker_process_queue [OF assms(3)] assms(1,2) ack_inv release_inv fail_inv by auto

lemma reserve_within_ok:
  assumes "inv s" "reserve_within q limits in_flight clk queues s = (s', r)"
  shows "inv s' \<and> (\<forall>job. r = Inr (Some job) \<longrightarrow>
     (\<forall>limit. hm_get (qj_queue job) limits = Some limit \<longrightarrow>
        (case hm_get (qj_queue job) in_flight of Some n \<Rightarrow> n | None \<Rightarrow> 0) < limit))"
  using assms
proof (induction queues arbitrary: clk s)
  case (Cons queue queues)
  let ?full = "case hm_get queue limits of
      Some limit \<Rightarrow> limit \<le> (case hm_get queue in_flight of Some n \<Rightarrow> n | None \<Rightarrow> 0) | None \<Rightarrow> False"
  show ?case
  proof (cases ?full)
    case True
    then show ?thesis using Cons.IH [OF Cons.prems(1), of "\<lambda>n. clk (Suc n)"] Cons.prems(2) by simp
  next
    case False
    obtain s1 r1 where res: "q_reserve q (clk 0) queue s = (s1, r1)" by fastforce
    have inv1: "inv s1" using reserve_inv [OF Cons.prems(1), of "clk 0" queue] res by simp
    show ?thesis
    proof (cases "r1 = Inr None")
      case True
      then show ?thesis using Cons.IH [OF inv1, of "\<lambda>n. clk (Suc n)"] Cons.prems(2) False res by simp
    next
      case nn: False
      then have "s' = s1" "r = r1" using Cons.prems(2) False res
        by (auto split: sum.splits option.splits)
      moreover have "qj_queue job = queue" if "r1 = Inr (Some job)" for job
        using reserve_queue [OF Cons.prems(1), of "clk 0" queue s1 job] res that by simp
      ultimately show ?thesis using inv1 False by (auto simp: not_le)
    qed
  qed
qed auto

lemma land_ok:
  assumes "wk_queue wk = q" "land wk it ls = Some ls'" "within_limits (wk_options wk) ls"
    "inv (ws_queue (ls_ws ls))"
  shows "within_limits (wk_options wk) ls' \<and> inv (ws_queue (ls_ws ls'))"
proof (cases "ls_in_flight ls = []")
  case False
  define i where "i = it_pick it mod length (ls_in_flight ls)"
  then have i: "i < length (ls_in_flight ls)" using False by simp
  obtain queue job where qj: "ls_in_flight ls ! i = (queue, job)" by fastforce
  obtain ws' out where p: "worker_process wk (it_ticks it) job (ls_ws ls) = Some (ws', out)"
    and ls': "ls' = ls\<lparr>ls_in_flight := take i (ls_in_flight ls) @ drop (Suc i) (ls_in_flight ls),
               ls_running := finished queue (ls_running ls),
               ls_stats := tally (ls_stats ls) out, ls_ws := ws'\<rparr>"
    using assms(2) False qj unfolding land_def i_def [symmetric]
    by (auto simp: Let_def split: option.splits)
  have "within_limits (wk_options wk) ls'"
    by (rule within_limits_land [OF assms(3) i]) (simp_all add: ls' qj tally_total [simplified])
  then show ?thesis using process_inv [OF assms(1,4) p] by (simp add: ls')
qed (use assms in \<open>simp add: land_def\<close>)

lemma within_limits_frame:
  "within_limits opts (ls\<lparr>ls_ws := ws\<rparr>) = within_limits opts ls"
  "within_limits opts (flush_scoped wk ls) = within_limits opts ls"
  "ws_queue (ls_ws (flush_scoped wk ls)) = ws_queue (ls_ws ls)"
  by (simp_all add: within_limits_def flush_scoped_def)

lemma collect_ok:
  assumes "wk_queue wk = q" "collect wk it ls = Some (Continue ls')" "within_limits (wk_options wk) ls"
    "inv (ws_queue (ls_ws ls))"
  shows "within_limits (wk_options wk) ls' \<and> inv (ws_queue (ls_ws ls'))"
  using assms(2) land_ok [OF assms(1) _ assms(3,4)]
  by (auto simp: collect_def within_limits_frame split: if_splits)

lemma reserved_ok:
  assumes lim: "within_limits opts ls" and "\<not> finishing opts it ls"
    and "length (ls_in_flight ls) < max (wo_concurrency opts) 1"
    and room: "\<And>limit. hm_get queue (wo_queue_limits opts) = Some limit \<Longrightarrow>
       (case hm_get queue (ls_running ls) of Some n \<Rightarrow> n | None \<Rightarrow> 0) < limit"
    and ls': "ls' = ls\<lparr>ls_consecutive := 0, ls_ws := ws, ls_in_flight := ls_in_flight ls @ [(queue, job)],
       ls_running := hm_insert queue ((case hm_get queue (ls_running ls) of Some n \<Rightarrow> n | None \<Rightarrow> 0) + 1)
         (ls_running ls)\<rparr>"
  shows "within_limits opts ls'"
proof -
  have load: "load_of k (ls_in_flight ls') = load_of k (ls_in_flight ls) + (if k = queue then 1 else 0)" for k
    by (simp add: ls' load_of_def)
  have now: "(case hm_get queue (ls_running ls) of Some n \<Rightarrow> n | None \<Rightarrow> 0) = load_of queue (ls_in_flight ls)"
    using lim by (simp add: within_limits_def)
  have "hm_get k (ls_running ls') =
      (if load_of k (ls_in_flight ls') = 0 then None else Some (load_of k (ls_in_flight ls')))" for k
    using lim unfolding load by (simp add: within_limits_def ls' now)
  moreover have "load_of k (ls_in_flight ls') \<le> limit" if "hm_get k (wo_queue_limits opts) = Some limit" for k limit
  proof (cases "k = queue")
    case True
    then show ?thesis using room [of limit] that by (simp add: load now)
  next
    case False
    then show ?thesis using lim that by (simp add: load within_limits_def)
  qed
  moreover have "stats_total (ls_stats ls) + length (ls_in_flight ls) < m" if "wo_max_jobs opts = Some m" for m
    using assms(2) that by (simp add: finishing_def)
  ultimately show ?thesis using assms(3)
    by (auto simp: within_limits_def ls')
qed

lemma turn_ok:
  assumes wq: "wk_queue wk = q" and lim: "within_limits (wk_options wk) ls"
    and i: "inv (ws_queue (ls_ws ls))" and env: "\<And>ws. inv (ws_queue ws) \<Longrightarrow> inv (ws_queue (it_env it ws))"
    and turn: "loop_turn wk it ls = Some (Continue ls')"
  shows "within_limits (wk_options wk) ls' \<and> inv (ws_queue (ls_ws ls'))"
proof -
  let ?o = "wk_options wk"
  define ls0 where "ls0 = ls\<lparr>ls_ws := it_env it (ls_ws ls)\<rparr>"
  have l0: "within_limits ?o ls0" "inv (ws_queue (ls_ws ls0))"
    using lim env [OF i] by (simp_all add: ls0_def within_limits_frame)
  obtain q' r where res: "worker_reserve wk (ls_running ls0) (it_clk it) (ws_queue (ls_ws ls0)) = (q', r)"
    by fastforce
  have q': "inv q'" and room: "\<And>job limit. r = Inr (Some job) \<Longrightarrow>
      hm_get (qj_queue job) (wo_queue_limits ?o) = Some limit \<Longrightarrow>
      (case hm_get (qj_queue job) (ls_running ls0) of Some n \<Rightarrow> n | None \<Rightarrow> 0) < limit"
    using reserve_within_ok [OF l0(2)] res wq by (auto simp: worker_reserve_def)
  define ls1 where "ls1 = ls0\<lparr>ls_ws := (ls_ws ls0)\<lparr>ws_queue := q'\<rparr>\<rparr>"
  have l1: "within_limits ?o ls1" "inv (ws_queue (ls_ws ls1))"
    using l0 q' by (simp_all add: ls1_def within_limits_frame)
  note [simp] = within_limits_frame
  consider (collect) "collect wk it ls0 = Some (Continue ls')"
    | (reserve) "\<not> finishing ?o it ls0" "length (ls_in_flight ls0) < max (wo_concurrency ?o) 1"
    using turn by (auto simp: loop_turn_def Let_def ls0_def [symmetric] split: if_splits)
  then show ?thesis
  proof cases
    case collect
    then show ?thesis using collect_ok [OF wq _ l0] by blast
  next
    case reserve
    consider (err) e where "r = Inl e" | (none) "r = Inr None" | (job) job where "r = Inr (Some job)"
      by (cases r) auto
    then show ?thesis
    proof cases
      case err
      let ?ls2 = "ls1\<lparr>ls_stats := (ls_stats ls1)\<lparr>n_errors := n_errors (ls_stats ls1) + 1\<rparr>,
                      ls_consecutive := ls_consecutive ls1 + 1\<rparr>"
      have few: "\<not> wo_max_consecutive_errors ?o \<le> ls_consecutive ls1 + 1"
        using turn reserve res err
        by (auto simp: loop_turn_def Let_def ls0_def [symmetric] ls1_def split: if_splits)
      then have l2: "within_limits ?o ?ls2" "inv (ws_queue (ls_ws ?ls2))"
        using l1 by (simp_all add: within_limits_def stats_total_def)
      have "ls' = flush_scoped wk ?ls2 \<or> ls' = ?ls2 \<or> land wk it ?ls2 = Some ls'"
        using turn reserve res err few
        by (auto simp: loop_turn_def Let_def ls0_def [symmetric] ls1_def split: if_splits)
      then show ?thesis using l2 land_ok [OF wq _ l2] by auto
    next
      case none
      let ?ls2 = "ls1\<lparr>ls_consecutive := 0\<rparr>"
      let ?ls3 = "?ls2\<lparr>ls_stats := (ls_stats ?ls2)\<lparr>n_idles := n_idles (ls_stats ?ls2) + 1\<rparr>\<rparr>"
      have l2: "within_limits ?o ?ls2" "inv (ws_queue (ls_ws ?ls2))" "within_limits ?o ?ls3"
        using l1 by (simp_all add: within_limits_def stats_total_def)
      have "ls' = flush_scoped wk ?ls3 \<or> collect wk it ?ls2 = Some (Continue ls')"
        using turn reserve res none
        by (auto simp: loop_turn_def Let_def ls0_def [symmetric] ls1_def split: if_splits)
      then show ?thesis using l2 collect_ok [OF wq _ l2(1,2)] by auto
    next
      case (job job)
      have "ls' = ls0\<lparr>ls_consecutive := 0, ls_ws := ls_ws ls1,
          ls_in_flight := ls_in_flight ls0 @ [(qj_queue job, job)],
          ls_running := hm_insert (qj_queue job)
            ((case hm_get (qj_queue job) (ls_running ls0) of Some n \<Rightarrow> n | None \<Rightarrow> 0) + 1) (ls_running ls0)\<rparr>"
        using turn reserve res job
        by (auto simp: loop_turn_def Let_def ls0_def [symmetric] ls1_def)
      with reserved_ok [OF l0(1) reserve room [OF job] this] show ?thesis
        using l1(2) by simp
    qed
  qed
qed

lemma reaches_within_limits:
  assumes "worker_reaches wk inv ls" "wk_queue wk = q" "wo_max_consecutive_errors (wk_options wk) > 0"
  shows "within_limits (wk_options wk) ls \<and> inv (ws_queue (ls_ws ls))"
  using assms
proof (induction rule: worker_reaches.induct)
  case (reach_start ws)
  then show ?case by (simp add: within_limits_def loop_start_def load_of_def stats_total_def stats_default_def)
next
  case (reach_turn ls it ls')
  then show ?case using turn_ok [of wk ls it ls'] by blast
qed

end

interpretation mr: routed_queue "memory_driver from_std" mq_inv for from_std
proof (unfold_locales, goal_cases)
  case (1 s clk name)
  then show ?case using mq.reserve_ids [of s] by simp
next
  case (2 s clk name s' j)
  then show ?case using mq.reserve_ok [of s from_std clk name] by auto
next
  case (3 s j)
  then show ?case by (simp add: memory_driver_def memory_acknowledge_def mq_inv_def)
next
  case (4 s t j d)
  have "mq_inv (s\<lparr>mq_reserved := filter (not_id j) (mq_reserved s)\<rparr>)" using 4 by (simp add: mq_inv_def)
  then show ?case by (simp add: memory_driver_def memory_release_def Let_def enqueue_props(1))
next
  case (5 s t j e)
  then show ?case by (simp add: memory_driver_def memory_fail_def mq_inv_def)
qed

text \<open>
  C32. In every state a worker's loop goes through, whatever order the jobs end in, whenever the
  broker fails and whatever other processes do: at most \<^verbatim>\<open>concurrency\<close> jobs are in flight, a queue
  with a limit never has more than its limit in flight, a run with \<^verbatim>\<open>max_jobs\<close> never finishes
  or holds more than that, and the count per queue is exact, so no slot leaks.
\<close>

theorem worker_within_limits:
  assumes "worker_reaches wk mq_inv ls" and "wk_queue wk = memory_driver from_std"
    and "wo_max_consecutive_errors (wk_options wk) > 0"
  shows "length (ls_in_flight ls) \<le> max (wo_concurrency (wk_options wk)) 1 \<and>
     (\<forall>queue. hm_get queue (ls_running ls) =
        (if load_of queue (ls_in_flight ls) = 0 then None else Some (load_of queue (ls_in_flight ls)))) \<and>
     (\<forall>queue limit. hm_get queue (wo_queue_limits (wk_options wk)) = Some limit \<longrightarrow>
        load_of queue (ls_in_flight ls) \<le> limit) \<and>
     (\<forall>m. wo_max_jobs (wk_options wk) = Some m \<longrightarrow>
        stats_total (ls_stats ls) + length (ls_in_flight ls) \<le> m)"
  using mr.reaches_within_limits [OF assms] by (simp add: within_limits_def)

section \<open>A worker to try things on\<close>

text \<open>A job that always fails, in a world that logs what ran.\<close>

definition demo_type :: "(unit, string list) job_type" where
  "demo_type =
     \<lparr>jt_name = ''mail.welcome'', jt_tries = 1, jt_queue = ''mail'', jt_queue_of = (\<lambda>_. ''mail''),
      jt_timeout = None, jt_encode = (\<lambda>_. Inr JNull), jt_decode = (\<lambda>_. Inr ()),
      jt_handle = (\<lambda>_ _ w. run_at_once (Returned (Inl (err_internal ''smtp is down''))) (w @ [''handle''])),
      jt_failed = (\<lambda>_ _ _ w. run_at_once (Returned (Inr ())) (w @ [''failed''])),
      jt_unique_id = (\<lambda>_. None), jt_unique_for = UNIQUE_FOR\<rparr>"

definition demo_worker :: "worker_options \<Rightarrow> (memory_queue, 'c, string list) worker" where
  "demo_worker opts =
     \<lparr>wk_queue = memory_driver (\<lambda>d. Some (int d)), wk_registry = register demo_type registry_new,
      wk_locks = None, wk_options = opts, wk_flush = id, wk_print_names = concat,
      wk_print_duration = nat_dec\<rparr>"

definition demo_surroundings :: "(memory_queue, unit, string list) surroundings" where
  "demo_surroundings =
     \<lparr>ws_queue = enqueue (sample_job ''a'' 3) memory_queue_new, ws_cache = (), ws_world = [],
      ws_events = None\<rparr>"

definition demo_turn :: "(memory_queue, unit, string list) turn" where
  "demo_turn = \<lparr>it_stop = False, it_elapsed = 0, it_clk = (\<lambda>_ _. 5), it_pick = 0,
     it_ticks = \<lparr>tk_settle = 5, tk_duration = 0\<rparr>, it_timer_first = False, it_env = id\<rparr>"

lemmas demo_defs = demo_type_def demo_worker_def demo_surroundings_def demo_turn_def
  sample_job_def foreign_def register_def registry_new_def worker_options_default_def

theorem worker_within_limits_witness:
  "\<exists>ls :: (memory_queue, unit, string list) loop_state.
     worker_reaches (demo_worker (set_queues [''mail''] worker_options_default)) mq_inv ls \<and>
     length (ls_in_flight ls) = 1 \<and> length (ls_in_flight ls) \<le> 1 \<and>
     hm_get ''mail'' (ls_running ls) = Some 1"
proof -
  let ?wk = "demo_worker (set_queues [''mail''] worker_options_default)
    :: (memory_queue, unit, string list) worker"
  let ?ls = "case loop_turn ?wk demo_turn (loop_start demo_surroundings) of Some (Continue ls) \<Rightarrow> ls"
  have turn: "loop_turn ?wk demo_turn (loop_start demo_surroundings) = Some (Continue ?ls)" and
    fl: "length (ls_in_flight ?ls) = 1" and load: "load_of ''mail'' (ls_in_flight ?ls) = 1"
    by (simp_all add: loop_turn_def loop_start_def demo_defs finishing_def worker_reserve_def set_queues_def
        memory_driver_def memory_reserve_def enqueue_def pending_on_def memory_queue_new_def hm_insert_def
        hm_get_def is_available_def Let_def attempted_def load_of_def)
  have "mq_inv (ws_queue demo_surroundings)"
    using enqueue_props(1) [of memory_queue_new "sample_job ''a'' 3"] mq_inv_new
    by (simp add: demo_surroundings_def)
  then have "worker_reaches ?wk mq_inv (loop_start demo_surroundings)" by (rule reach_start)
  from reach_turn [OF this _ turn] have reach: "worker_reaches ?wk mq_inv ?ls"
    by (simp add: demo_turn_def)
  have "wk_queue ?wk = memory_driver (\<lambda>d. Some (int d))" "wo_max_consecutive_errors (wk_options ?wk) > 0"
    by (simp_all add: demo_worker_def set_queues_def worker_options_default_def)
  from worker_within_limits [OF reach this] reach fl load show ?thesis
    by (intro exI [of _ ?ls]) simp
qed

section \<open>What becomes of a job\<close>

lemma dispatch_frame [simp]:
  "ws_cache (worker_dispatch ev ws) = ws_cache ws"
  by (auto simp: worker_dispatch_def split: option.splits prod.splits)

definition handler_result ::
  "('q, 'c, 'w) worker \<Rightarrow> queued_job \<Rightarrow> ('q, 'c, 'w) surroundings \<Rightarrow> ('w \<times> unit result) option"
where
  "handler_result wk job ws =
     run_handler wk job
       (job_context_new (qj_id job) (qj_queue job) (qj_attempts job) (qj_max_attempts job))
       (job_timeout wk job) (ws_world (worker_dispatch (JobProcessing job) ws))"

definition uniqueness_released :: "('q, 'c, 'w) worker \<Rightarrow> queued_job \<Rightarrow> 'c \<Rightarrow> 'c" where
  "uniqueness_released wk job c =
     (case (qj_unique_key job, wk_locks wk) of
        (Some key, Some locks) \<Rightarrow> fst (c_forget (lm_cache locks) (lm_prefix locks @ key) c)
      | _ \<Rightarrow> c)"

lemma release_uniqueness_cache [simp]:
  "ws_cache (worker_release_uniqueness wk job ws) = uniqueness_released wk job (ws_cache ws)"
  by (auto simp: worker_release_uniqueness_def uniqueness_released_def force_release_def lm_lock_def
      split: option.splits)

lemma worker_process_eq:
  "worker_process wk tk job ws =
     (case handler_result wk job ws of
        None \<Rightarrow> None
      | Some (w', Inr _) \<Rightarrow>
          (let ws2 = (worker_dispatch (JobProcessing job) ws)\<lparr>ws_world := w'\<rparr> in
           case q_acknowledge (wk_queue wk) job (ws_queue ws) of
             (q', Inl err) \<Rightarrow> Some (ws2\<lparr>ws_queue := q'\<rparr>, Inl err)
           | (q', Inr _) \<Rightarrow>
               Some (worker_dispatch (JobProcessed job (tk_duration tk))
                       (worker_release_uniqueness wk job (ws2\<lparr>ws_queue := q'\<rparr>)), Inr Processed))
      | Some (w', Inl e) \<Rightarrow>
          Some (handle_failure wk tk job e ((worker_dispatch (JobProcessing job) ws)\<lparr>ws_world := w'\<rparr>)))"
  by (auto simp: worker_process_def handler_result_def Let_def split: option.split sum.split)

lemma run_handler_timed: "run_handler wk job ctx (Some limit) w \<noteq> None"
  by (auto simp: run_handler_def Let_def split: option.splits prod.splits sum.splits if_splits)

context job_queue
begin

lemma process_settles:
  assumes "wk_queue wk = q" "inv (ws_queue ws)" "job \<in># held (ws_queue ws)"
    "handler_result wk job ws = Some (w', res)"
  shows "\<exists>ws'. inv (ws_queue ws') \<and> held (ws_queue ws') = filter_mset (not_id job) (held (ws_queue ws)) \<and>
    (case res of
       Inr _ \<Rightarrow>
         worker_process wk tk job ws = Some (ws', Inr Processed) \<and>
         waiting (ws_queue ws') = waiting (ws_queue ws) \<and> dead (ws_queue ws') = dead (ws_queue ws) \<and>
         ws_cache ws' = uniqueness_released wk job (ws_cache ws)
     | Inl e \<Rightarrow>
         if attempts_for (wk_options wk) (qj_max_attempts job) \<le> qj_attempts job
         then worker_process wk tk job ws = Some (ws', Inr FailedForGood) \<and>
              waiting (ws_queue ws') = waiting (ws_queue ws) \<and>
              dead (ws_queue ws') = add_mset (mark job, error_display e) (dead (ws_queue ws)) \<and>
              ws_cache ws' = uniqueness_released wk job (ws_cache ws)
         else worker_process wk tk job ws = Some (ws', Inr Released) \<and>
              waiting (ws_queue ws') =
                add_mset (set_available_at (until (tk_settle tk) (backoff_for (qj_attempts job))) job)
                  (waiting (ws_queue ws)) \<and>
              dead (ws_queue ws') = dead (ws_queue ws) \<and> ws_cache ws' = ws_cache ws)"
proof (cases res)
  case (Inr u)
  obtain s' where "q_acknowledge q job (ws_queue ws) = (s', Inr ())" "inv s'"
    "waiting s' = waiting (ws_queue ws)" "held s' = filter_mset (not_id job) (held (ws_queue ws))"
    "dead s' = dead (ws_queue ws)"
    using ack_ok [OF assms(2,3)] by auto
  then show ?thesis using assms(1,4) Inr by (simp add: worker_process_eq Let_def)
next
  case (Inl e)
  obtain s' where f: "q_fail q (tk_settle tk) job (error_display e) (ws_queue ws) = (s', Inr ())" "inv s'"
    "waiting s' = waiting (ws_queue ws)" "held s' = filter_mset (not_id job) (held (ws_queue ws))"
    "dead s' = add_mset (mark job, error_display e) (dead (ws_queue ws))"
    using fail_ok [OF assms(2,3), of "tk_settle tk" "error_display e"] by auto
  obtain s'' where r: "q_release q (tk_settle tk) job (backoff_for (qj_attempts job)) (ws_queue ws) = (s'', Inr ())"
    "inv s''" "waiting s'' = add_mset (set_available_at (until (tk_settle tk) (backoff_for (qj_attempts job))) job)
       (waiting (ws_queue ws))"
    "held s'' = filter_mset (not_id job) (held (ws_queue ws))" "dead s'' = dead (ws_queue ws)"
    using release_ok [OF assms(2,3), of "tk_settle tk" "backoff_for (qj_attempts job)"] by auto
  show ?thesis
    using assms(1,4) Inl f r
    by (cases "attempts_for (wk_options wk) (qj_max_attempts job) \<le> qj_attempts job")
      (simp_all add: worker_process_eq handle_failure_def Let_def)
qed

end


lemma attempted_job_held:
  "mq_held (fst (memory_reserve (\<lambda>_. 5) ''mail'' (enqueue (sample_job ''a'' 3) memory_queue_new))) =
     {#attempted (sample_job ''a'' 3)#}"
  by (simp add: mq_held_def memory_reserve_def memory_queue_new_def enqueue_def pending_on_def
      sample_job_def foreign_def is_available_def Let_def)


section \<open>Retrying ends\<close>

text \<open>A worker that runs one job at each of the given instants, and what came of each.\<close>

fun run_times ::
  "('q, 'c, 'w) worker \<Rightarrow> time list \<Rightarrow> ('q, 'c, 'w) surroundings
    \<Rightarrow> (('q, 'c, 'w) surroundings \<times> job_outcome result list) option"
where
  "run_times wk [] ws = Some (ws, [])"
| "run_times wk (t # ts) ws =
     (case worker_run_next wk (\<lambda>_ _. t) \<lparr>tk_settle = t, tk_duration = 0\<rparr> ws of
        None \<Rightarrow> None
      | Some (ws', r) \<Rightarrow> map_option (\<lambda>(ws'', rs). (ws'', r # rs)) (run_times wk ts ws'))"

text \<open>From \<open>t\<close> on, each instant at least 64 seconds after the one before.\<close>

fun spaced :: "time \<Rightarrow> time list \<Rightarrow> bool" where
  "spaced t [] = True"
| "spaced t (u # us) \<longleftrightarrow> t \<le> u \<and> spaced (u + int (secs 64)) us"

definition always_fails :: "('q, 'c, 'w) worker \<Rightarrow> queued_job \<Rightarrow> bool" where
  "always_fails wk j \<longleftrightarrow>
     (\<forall>job ctx w. qj_name job = qj_name j \<longrightarrow> qj_payload job = qj_payload j \<longrightarrow>
        (\<exists>w' e. run_handler wk job ctx (job_timeout wk job) w = Some (w', Inl e)))"

lemma backoff_bound: "backoff_for n \<le> secs 64"
proof -
  have "(2::nat) ^ min (max n 1) 6 \<le> 2 ^ 6" by (rule power_increasing) simp_all
  then show ?thesis by (simp add: backoff_for_def secs_def)
qed

lemma always_fails_result:
  assumes "always_fails wk j" "qj_name job = qj_name j" "qj_payload job = qj_payload j"
  obtains w' e where "handler_result wk job ws = Some (w', Inl e)"
  using assms unfolding always_fails_def handler_result_def by blast

context job_queue
begin

lemma retry_step:
  assumes wk: "wk_queue wk = q" "always_fails wk j" "wo_queues (wk_options wk) = [qj_queue j]"
      "hm_get (qj_queue j) (wo_queue_limits (wk_options wk)) = None"
    and ws: "inv (ws_queue ws)" "waiting (ws_queue ws) = {#j#}" "held (ws_queue ws) = {#}"
    and t: "qj_available_at j \<le> t" and n: "qj_attempts j + 1 < 2 ^ 32"
  obtains ws' msg where "inv (ws_queue ws')" "held (ws_queue ws') = {#}"
    "if attempts_for (wk_options wk) (qj_max_attempts j) \<le> qj_attempts j + 1
     then worker_run_next wk (\<lambda>_ _. t) \<lparr>tk_settle = t, tk_duration = 0\<rparr> ws = Some (ws', Inr FailedForGood) \<and>
       waiting (ws_queue ws') = {#} \<and> dead (ws_queue ws') = add_mset (mark (attempted j), msg) (dead (ws_queue ws))
     else worker_run_next wk (\<lambda>_ _. t) \<lparr>tk_settle = t, tk_duration = 0\<rparr> ws = Some (ws', Inr Released) \<and>
       waiting (ws_queue ws') =
         {#set_available_at (until t (backoff_for (qj_attempts j + 1))) (attempted j)#} \<and>
       dead (ws_queue ws') = dead (ws_queue ws)"
proof -
  let ?job = "attempted j"
  have att: "qj_attempts ?job = qj_attempts j + 1" "qj_max_attempts ?job = qj_max_attempts j"
    "qj_name ?job = qj_name j" "qj_payload ?job = qj_payload j"
    using n by (simp_all add: attempted_def as_u32_def)
  obtain s1 where s1: "q_reserve q (\<lambda>_. t) (qj_queue j) (ws_queue ws) = (s1, Inr (Some ?job))" "inv s1"
    "waiting s1 = {#}" "held s1 = {#?job#}" "dead s1 = dead (ws_queue ws)"
    using reserve_ok [OF ws(1), of "\<lambda>_. t" "qj_queue j"] t by (auto simp: ws(2,3))
  define ws1 where "ws1 = ws\<lparr>ws_queue := s1\<rparr>"
  have run: "worker_run_next wk (\<lambda>_ _. t) tk ws = worker_process wk tk ?job ws1" for tk
    by (simp add: worker_run_next_def worker_reserve_def wk s1(1) ws1_def)
  obtain w' e where h: "handler_result wk ?job ws1 = Some (w', Inl e)"
    using always_fails_result [OF wk(2) att(3,4)] by blast
  have f: "filter_mset (not_id ?job) {#?job#} = {#}" by (simp add: not_id_def)
  show thesis
  proof (cases "attempts_for (wk_options wk) (qj_max_attempts j) \<le> qj_attempts j + 1")
    case True
    then show thesis
      using process_settles [OF wk(1) _ _ h, of "\<lparr>tk_settle = t, tk_duration = 0\<rparr>"] s1 f
      by (auto simp: run ws1_def att intro: that [of _ "error_display e"])
  next
    case False
    then show thesis
      using process_settles [OF wk(1) _ _ h, of "\<lparr>tk_settle = t, tk_duration = 0\<rparr>"] s1 f
      by (auto simp: run ws1_def att intro: that [of _ "error_display e"])
  qed
qed

lemma retries_end:
  assumes until: "\<And>t n. until t (backoff_for n) \<le> t + int (secs 64)"
    and "wk_queue wk = q" "always_fails wk j" "wo_queues (wk_options wk) = [qj_queue j]"
      "hm_get (qj_queue j) (wo_queue_limits (wk_options wk)) = None"
    and "inv (ws_queue ws)" "waiting (ws_queue ws) = {#j#}" "held (ws_queue ws) = {#}"
    and "spaced (qj_available_at j) ts" "length ts = Suc n"
    and "qj_attempts j + Suc n = attempts_for (wk_options wk) (qj_max_attempts j)"
    and "qj_attempts j + Suc n < 2 ^ 32"
  shows "\<exists>ws' j' msg. run_times wk ts ws = Some (ws', replicate n (Inr Released) @ [Inr FailedForGood]) \<and>
     waiting (ws_queue ws') = {#} \<and> held (ws_queue ws') = {#} \<and>
     dead (ws_queue ws') = add_mset (mark j', msg) (dead (ws_queue ws)) \<and>
     qj_id j' = qj_id j \<and> qj_attempts j' = attempts_for (wk_options wk) (qj_max_attempts j)"
  using assms(2-)
proof (induction n arbitrary: j ws ts)
  case 0
  then obtain t where ts: "ts = [t]" by (cases ts) auto
  obtain ws' msg where "inv (ws_queue ws')" "held (ws_queue ws') = {#}"
    "worker_run_next wk (\<lambda>_ _. t) \<lparr>tk_settle = t, tk_duration = 0\<rparr> ws = Some (ws', Inr FailedForGood)"
    "waiting (ws_queue ws') = {#}" "dead (ws_queue ws') = add_mset (mark (attempted j), msg) (dead (ws_queue ws))"
    by (rule retry_step [OF 0(1-7), of t]) (use 0(8-) ts in \<open>auto split: if_splits\<close>)
  then show ?case using 0 ts by (auto simp: attempted_def as_u32_def)
next
  case (Suc n)
  from Suc.prems(9) obtain t us where ts: "ts = t # us" by (cases ts) auto
  let ?j = "set_available_at (until t (backoff_for (qj_attempts j + 1))) (attempted j)"
  obtain ws' where ws': "inv (ws_queue ws')" "held (ws_queue ws') = {#}"
    "worker_run_next wk (\<lambda>_ _. t) \<lparr>tk_settle = t, tk_duration = 0\<rparr> ws = Some (ws', Inr Released)"
    "waiting (ws_queue ws') = {#?j#}" "dead (ws_queue ws') = dead (ws_queue ws)"
    by (rule retry_step [OF Suc.prems(1-7), of t])
      (use Suc.prems(8-) ts in \<open>auto split: if_splits\<close>)
  have j: "qj_queue ?j = qj_queue j" "qj_max_attempts ?j = qj_max_attempts j"
    "qj_attempts ?j = qj_attempts j + 1" "qj_id ?j = qj_id j" "qj_name ?j = qj_name j"
    "qj_payload ?j = qj_payload j" "qj_available_at ?j = until t (backoff_for (qj_attempts j + 1))"
    using Suc.prems(11) by (simp_all add: set_available_at_def attempted_def as_u32_def)
  have "spaced (qj_available_at ?j) us"
    using Suc.prems(8) ts until [of t "qj_attempts j + 1"]
    by (cases us) (auto simp: set_available_at_def)
  then have "\<exists>ws'' j' msg. run_times wk us ws' = Some (ws'', replicate n (Inr Released) @ [Inr FailedForGood]) \<and>
     waiting (ws_queue ws'') = {#} \<and> held (ws_queue ws'') = {#} \<and>
     dead (ws_queue ws'') = add_mset (mark j', msg) (dead (ws_queue ws')) \<and>
     qj_id j' = qj_id ?j \<and> qj_attempts j' = attempts_for (wk_options wk) (qj_max_attempts ?j)"
    by (intro Suc.IH) (use Suc.prems ws' ts j in \<open>simp_all add: always_fails_def\<close>)
  then show ?case using ws' ts j by auto
qed

end

text \<open>
  C33. Retrying ends. A job whose handler fails every time, alone on its queue, is run exactly
  as often as the worker's options allow it: every run but the last puts it back, the last one
  moves it to the failed store with its count of attempts, and the queue is empty, once the
  worker polls it at instants 64 seconds apart (the longest back-off).
\<close>

theorem failing_job_gives_up:
  assumes "wk_queue wk = memory_driver from_std" and "always_fails wk j"
    and "wo_queues (wk_options wk) = [qj_queue j]"
    and "hm_get (qj_queue j) (wo_queue_limits (wk_options wk)) = None"
    and "\<And>d. d \<le> secs 64 \<Longrightarrow> from_std d = Some (int d)"
    and "mq_inv (ws_queue ws)" "mq_waiting (ws_queue ws) = {#j#}" "mq_held (ws_queue ws) = {#}"
    and "qj_attempts j = 0" and "attempts_for (wk_options wk) (qj_max_attempts j) < 2 ^ 32"
    and "spaced (qj_available_at j) ts" "length ts = attempts_for (wk_options wk) (qj_max_attempts j)"
  shows "\<exists>ws' j' msg.
     run_times wk ts ws = Some (ws', replicate (length ts - 1) (Inr Released) @ [Inr FailedForGood]) \<and>
     mq_waiting (ws_queue ws') = {#} \<and> mq_held (ws_queue ws') = {#} \<and>
     mq_dead (ws_queue ws') = add_mset (j', msg) (mq_dead (ws_queue ws)) \<and>
     qj_id j' = qj_id j \<and> qj_attempts j' = length ts"
proof -
  have "memory_until from_std t (backoff_for n) \<le> t + int (secs 64)" for t n
    using assms(5) [OF backoff_bound] backoff_bound [of n] by (simp add: memory_until_def)
  moreover have "length ts = Suc (length ts - 1)" using assms(12) by (simp add: attempts_for_def)
  ultimately show ?thesis
    using mq.retries_end [of from_std wk j ws ts "length ts - 1"] assms by simp
qed

lemma demo_always_fails: "always_fails (demo_worker opts) (sample_job i at)"
  by (auto simp: always_fails_def demo_defs run_handler_def registry_run_def job_runner_def
      after_error_def run_at_once_def Let_def split: option.splits)

lemma demo_solo:
  "mq_inv (ws_queue demo_surroundings)" "mq_waiting (ws_queue demo_surroundings) = {#sample_job ''a'' 3#}"
  "mq_held (ws_queue demo_surroundings) = {#}" "mq_dead (ws_queue demo_surroundings) = {#}"
  by (simp_all add: demo_surroundings_def enqueue_props)
     (simp_all add: mq_waiting_def mq_held_def mq_dead_def memory_queue_new_def)

theorem failing_job_gives_up_witness:
  "\<exists>ws' j' msg.
     run_times (demo_worker (set_tries 3 (set_queues [''mail''] worker_options_default)))
       [5, 64000000005, 128000000005] demo_surroundings
       = Some (ws', [Inr Released, Inr Released, Inr FailedForGood]) \<and>
     mq_waiting (ws_queue ws') = {#} \<and> mq_dead (ws_queue ws') = {#(j', msg)#} \<and> qj_attempts j' = 3"
proof -
  let ?opts = "set_tries 3 (set_queues [''mail''] worker_options_default)"
  have opts: "wo_queues ?opts = [''mail'']" "wo_queue_limits ?opts = []" "attempts_for ?opts 1 = 3"
    by (simp_all add: set_tries_def set_queues_def worker_options_default_def attempts_for_def)
  have job: "qj_queue (sample_job ''a'' 3) = ''mail''" "qj_max_attempts (sample_job ''a'' 3) = 1"
    "qj_attempts (sample_job ''a'' 3) = 0" "qj_available_at (sample_job ''a'' 3) = 3"
    by (simp_all add: sample_job_def foreign_def)
  define ts :: "time list" where "ts = [5, 64000000005, 128000000005]"
  have ts: "length ts = 3" "spaced 3 ts" "attempts_for ?opts (Suc 0) = 3"
    using opts(3) by (simp_all add: ts_def secs_def)
  have two: "replicate 2 x = [x, x]" for x :: "job_outcome result" by (simp add: numeral_2_eq_2)
  have wk: "wk_queue (demo_worker ?opts) = memory_driver (\<lambda>d. Some (int d))"
    "wk_options (demo_worker ?opts) = ?opts" by (simp_all add: demo_worker_def)
  show ?thesis
    using failing_job_gives_up [of "demo_worker ?opts" "\<lambda>d. Some (int d)" "sample_job ''a'' 3"
        demo_surroundings ts, OF wk(1) demo_always_fails]
    by (simp add: wk opts job ts demo_solo two flip: ts_def) blast
qed

lemmas demo_eval = demo_defs worker_run_next_def worker_reserve_def worker_process_def handle_failure_def
  run_handler_def registry_run_def job_runner_def after_error_def run_at_once_def worker_dispatch_def
  job_timeout_def timeout_for_def job_context_new_def is_last_attempt_def attempts_for_def
  worker_release_uniqueness_def memory_driver_def memory_reserve_def memory_release_def memory_fail_def
  memory_queue_new_def enqueue_def pending_on_def delayed_by_def is_available_def attempted_def
  as_u32_def set_tries_def set_queues_def hm_insert_def hm_get_def backoff_for_def secs_def Let_def

section \<open>Where the code departs from its documentation\<close>

text \<open>
  \<^verbatim>\<open>Job::failed\<close> is documented as called after the final attempt. The context carries the
  job's own limit, not the worker's: under a worker that grants three tries, the hook of a job
  that asked for one runs after each of the three attempts.
\<close>

lemma failed_hook_runs_every_attempt:
  "map_option (\<lambda>(ws, rs). (ws_world ws, rs))
     (run_times (demo_worker (set_tries 3 (set_queues [''mail''] worker_options_default)))
       [5, 64000000005, 128000000005] demo_surroundings) =
   Some ([''handle'', ''failed'', ''handle'', ''failed'', ''handle'', ''failed''],
         [Inr Released, Inr Released, Inr FailedForGood])"
  by (simp add: demo_eval)

text \<open>
  The loop says that a job dropped in flight is the slowest way to fail and drains what it has
  reserved before it leaves. When the broker has failed too often it leaves at once instead,
  with the jobs in flight.
\<close>

lemma giving_up_abandons_jobs:
  assumes "worker_reserve wk (ls_running ls) (it_clk it) (ws_queue (it_env it (ls_ws ls))) = (q', Inl e)"
    and "\<not> finishing (wk_options wk) it (ls\<lparr>ls_ws := it_env it (ls_ws ls)\<rparr>)"
    and "length (ls_in_flight ls) < max (wo_concurrency (wk_options wk)) 1"
    and "wo_max_consecutive_errors (wk_options wk) \<le> ls_consecutive ls + 1"
  shows "\<exists>ls'. loop_turn wk it ls = Some (Exit (Inl e) ls') \<and> ls_in_flight ls' = ls_in_flight ls"
  using assms by (simp add: loop_turn_def Let_def)

end
