(* ===== verification/Queue_Manager.thy ===== *)
theory Queue_Manager
  imports Worker
begin

text \<open>
  Dispatching jobs, \<^verbatim>\<open>rainier-queue/src/manager.rs\<close>: the driver that runs a job inline, pending
  dispatches with their builders, uniqueness claims on the lock manager, named connections and
  the faking manager. The connections of one manager are queues over one store that holds the
  stores of all of them. A lock's clock readings and random numbers come from the \<open>world\<close> of
  \<^theory_text>\<open>Cache_Lock\<close>; a claim never waits, so one attempt is all \<^verbatim>\<open>acquire\<close> makes.
\<close>

section \<open>The inline driver\<close>

text \<open>\<open>None\<close>: the job never ends. A panic is not caught here: it unwinds into the dispatcher.\<close>

definition sync_push ::
  "(string list \<Rightarrow> string) \<Rightarrow> 'w job_registry \<Rightarrow> queued_job \<Rightarrow> 'w \<Rightarrow> ('w \<times> (panic + string result)) option"
where
  "sync_push known r job w =
     (let job' = job\<lparr>qj_attempts := 1\<rparr>;
          x = registry_run known r job' (job_context_new (qj_id job) (qj_queue job) 1 1) w
      in map_option (\<lambda>(t, z). (r_world x t,
             case z of Panicked p \<Rightarrow> Inl p
                     | Returned res \<Rightarrow> Inr (and_then res (\<lambda>_. Inr (qj_id job)))))
           (r_ends x))"

definition sync_reserve :: "string \<Rightarrow> queued_job option result" where
  "sync_reserve queue = Inr None"
definition sync_size :: "string \<Rightarrow> nat result" where
  "sync_size queue = Inr 0"
definition sync_clear :: "string \<Rightarrow> nat result" where
  "sync_clear queue = Inr 0"

section \<open>The manager\<close>

record ('q, 'c, 'w) queue_manager =
  qm_queue :: "'q queue"
  qm_connections :: "(string, 'q queue) hmap"
  qm_registry :: "'w job_registry"
  qm_faking :: bool
  qm_locks :: "'c lock_manager option"
  qm_default_queues :: "string list option"

record ('q, 'c) manager_state =
  qs_store :: 'q
  qs_cache :: 'c
  qs_recorded :: "queued_job list"

definition queue_manager_new :: "'q queue \<Rightarrow> 'w job_registry \<Rightarrow> ('q, 'c, 'w) queue_manager" where
  "queue_manager_new q r =
     \<lparr>qm_queue = q, qm_connections = [], qm_registry = r, qm_faking = False, qm_locks = None,
      qm_default_queues = None\<rparr>"

definition with_default_queues ::
  "string list \<Rightarrow> ('q, 'c, 'w) queue_manager \<Rightarrow> ('q, 'c, 'w) queue_manager"
where
  "with_default_queues queues m =
     (let qs = filter (\<lambda>n. n \<noteq> []) (map trim queues)
      in if qs \<noteq> [] then m\<lparr>qm_default_queues := Some qs\<rparr> else m)"

definition default_queues :: "('q, 'c, 'w) queue_manager \<Rightarrow> string list" where
  "default_queues m =
     (case qm_default_queues m of
        Some declared \<Rightarrow> declared
      | None \<Rightarrow> if jr_queues (qm_registry m) = [] then [''default''] else jr_queues (qm_registry m))"

definition with_connection ::
  "string \<Rightarrow> 'q queue \<Rightarrow> ('q, 'c, 'w) queue_manager \<Rightarrow> ('q, 'c, 'w) queue_manager"
where
  "with_connection name q m = m\<lparr>qm_connections := hm_insert name q (qm_connections m)\<rparr>"

definition connection :: "string \<Rightarrow> ('q, 'c, 'w) queue_manager \<Rightarrow> 'q queue option" where
  "connection name m = hm_get name (qm_connections m)"

definition has_connection :: "string \<Rightarrow> ('q, 'c, 'w) queue_manager \<Rightarrow> bool" where
  "has_connection name m = hm_contains name (qm_connections m)"

text \<open>The keys of the \<^verbatim>\<open>BTreeMap\<close>, in their order.\<close>

definition connection_names :: "('q, 'c, 'w) queue_manager \<Rightarrow> string list" where
  "connection_names m = sort (map fst (qm_connections m))"

definition declared_connections :: "('q, 'c, 'w) queue_manager \<Rightarrow> string" where
  "declared_connections m =
     (if qm_connections m = []
      then if qm_faking m
           then ''none '' @ EM_DASH @ '' this manager is faking, and a fake declares no connections until one is added with `QueueManager::fake().with_connection('' @ [CHR 0xE2, CHR 0x80, CHR 0xA6] @ '')`''
           else ''none''
      else join '', '' (map (\<lambda>n. ''`'' @ n @ ''`'') (connection_names m)))"

definition resolve_connection ::
  "('q, 'c, 'w) queue_manager \<Rightarrow> string option \<Rightarrow> 'q queue result"
where
  "resolve_connection m c =
     (case c of
        None \<Rightarrow> Inr (qm_queue m)
      | Some name \<Rightarrow>
          (case connection name m of
             Some q \<Rightarrow> Inr q
           | None \<Rightarrow> Inl (err_internal (''no queue connection named `'' @ name
               @ ''` is declared; declared connections are '' @ declared_connections m
               @ ''. Dispatching to the default instead would store the job in a backend nobody drains, which is accepted, never run, and reported nowhere''))))"

definition qm_with_locks ::
  "'c lock_manager \<Rightarrow> ('q, 'c, 'w) queue_manager \<Rightarrow> ('q, 'c, 'w) queue_manager"
where
  "qm_with_locks locks m = m\<lparr>qm_locks := Some locks\<rparr>"

section \<open>Dispatching\<close>

record pending_dispatch =
  pd_job :: queued_job
  pd_connection :: "string option"
  pd_unique :: "(string \<times> duration) option"

definition pd_on_queue :: "string \<Rightarrow> pending_dispatch \<Rightarrow> pending_dispatch" where
  "pd_on_queue queue pd = pd\<lparr>pd_job := on_queue queue (pd_job pd)\<rparr>"
definition pd_on_connection :: "string \<Rightarrow> pending_dispatch \<Rightarrow> pending_dispatch" where
  "pd_on_connection name pd = pd\<lparr>pd_connection := Some name\<rparr>"
definition pd_delay ::
  "(duration \<Rightarrow> int option) \<Rightarrow> time \<Rightarrow> duration \<Rightarrow> pending_dispatch \<Rightarrow> pending_dispatch"
where
  "pd_delay from_std now delay pd = pd\<lparr>pd_job := delayed_by from_std now delay (pd_job pd)\<rparr>"
definition pd_tries :: "nat \<Rightarrow> pending_dispatch \<Rightarrow> pending_dispatch" where
  "pd_tries n pd = pd\<lparr>pd_job := (pd_job pd)\<lparr>qj_max_attempts := max n 1\<rparr>\<rparr>"

definition unique_key :: "('j, 'w) job_type \<Rightarrow> 'j \<Rightarrow> (string \<times> duration) option" where
  "unique_key J job =
     map_option (\<lambda>i. (''queue:unique:'' @ jt_name J @ '':'' @ i, jt_unique_for J)) (jt_unique_id J job)"

definition pending_job ::
  "('j, 'w) job_type \<Rightarrow> 'j \<Rightarrow> string \<Rightarrow> time \<Rightarrow> pending_dispatch result"
where
  "pending_job J job i now =
     and_then (from_job J job i now)
       (\<lambda>q. Inr \<lparr>pd_job = q, pd_connection = None, pd_unique = unique_key J job\<rparr>)"

datatype 'c claim = Held "'c lock_guard" | AlreadyQueued | NotEnforced

definition claim_key ::
  "('q, 'c, 'w) queue_manager \<Rightarrow> string \<Rightarrow> duration \<Rightarrow> 'c world \<Rightarrow> 'c \<Rightarrow> 'c \<times> 'c claim result"
where
  "claim_key m key ttl w c =
     (case qm_locks m of
        None \<Rightarrow> (c, Inr NotEnforced)
      | Some locks \<Rightarrow>
          (case the (acquire 1 (lm_lock locks key ttl) w c) of
             (c', Inl e) \<Rightarrow> (c', Inl e)
           | (c', Inr (Some g)) \<Rightarrow> (c', Inr (Held g))
           | (c', Inr None) \<Rightarrow> (c', Inr AlreadyQueued)))"

definition push_to ::
  "('q, 'c, 'w) queue_manager \<Rightarrow> 'q queue \<Rightarrow> queued_job \<Rightarrow> ('q, 'c) manager_state
    \<Rightarrow> ('q, 'c) manager_state \<times> string result"
where
  "push_to m q job st =
     (if qm_faking m then (st\<lparr>qs_recorded := qs_recorded st @ [job]\<rparr>, Inr (qj_id job))
      else case q_push q job (qs_store st) of (s', r) \<Rightarrow> (st\<lparr>qs_store := s'\<rparr>, r))"

text \<open>
  A guard that goes out of scope without \<^verbatim>\<open>keep\<close> only writes a log line, so neither way of
  leaving \<^verbatim>\<open>send\<close> touches the lock it holds.
\<close>

definition send ::
  "('q, 'c, 'w) queue_manager \<Rightarrow> pending_dispatch \<Rightarrow> 'c world \<Rightarrow> ('q, 'c) manager_state
    \<Rightarrow> ('q, 'c) manager_state \<times> string option result"
where
  "send m pd w st =
     (case resolve_connection m (pd_connection pd) of
        Inl e \<Rightarrow> (st, Inl e)
      | Inr destination \<Rightarrow>
          (let (c', claim) =
                 (case pd_unique pd of
                    Some (key, ttl) \<Rightarrow> claim_key m key ttl w (qs_cache st)
                  | None \<Rightarrow> (qs_cache st, Inr NotEnforced));
               st' = st\<lparr>qs_cache := c'\<rparr>
           in case claim of
                Inl e \<Rightarrow> (st', Inl e)
              | Inr AlreadyQueued \<Rightarrow> (st', Inr None)
              | Inr cl \<Rightarrow>
                  (let job = (case cl of
                         Held _ \<Rightarrow> (pd_job pd)\<lparr>qj_unique_key := map_option fst (pd_unique pd)\<rparr>
                       | _ \<Rightarrow> pd_job pd)
                   in case push_to m destination job st' of
                        (st'', Inl e) \<Rightarrow> (st'', Inl e)
                      | (st'', Inr i) \<Rightarrow> (st'', Inr (Some i)))))"

definition manager_dispatch ::
  "('q, 'c, 'w) queue_manager \<Rightarrow> ('j, 'w) job_type \<Rightarrow> 'j \<Rightarrow> string \<Rightarrow> time \<Rightarrow> 'c world
    \<Rightarrow> ('q, 'c) manager_state \<Rightarrow> ('q, 'c) manager_state \<times> string option result"
where
  "manager_dispatch m J job i now w st =
     (case pending_job J job i now of Inl e \<Rightarrow> (st, Inl e) | Inr pd \<Rightarrow> send m pd w st)"

definition dispatch_on ::
  "('q, 'c, 'w) queue_manager \<Rightarrow> string \<Rightarrow> ('j, 'w) job_type \<Rightarrow> 'j \<Rightarrow> string \<Rightarrow> time \<Rightarrow> 'c world
    \<Rightarrow> ('q, 'c) manager_state \<Rightarrow> ('q, 'c) manager_state \<times> string option result"
where
  "dispatch_on m queue J job i now w st =
     (case pending_job J job i now of Inl e \<Rightarrow> (st, Inl e) | Inr pd \<Rightarrow> send m (pd_on_queue queue pd) w st)"

definition dispatch_after ::
  "('q, 'c, 'w) queue_manager \<Rightarrow> (duration \<Rightarrow> int option) \<Rightarrow> time \<Rightarrow> duration \<Rightarrow> ('j, 'w) job_type \<Rightarrow> 'j
    \<Rightarrow> string \<Rightarrow> time \<Rightarrow> 'c world \<Rightarrow> ('q, 'c) manager_state
    \<Rightarrow> ('q, 'c) manager_state \<times> string option result"
where
  "dispatch_after m from_std now' delay J job i now w st =
     (case pending_job J job i now of
        Inl e \<Rightarrow> (st, Inl e) | Inr pd \<Rightarrow> send m (pd_delay from_std now' delay pd) w st)"

definition dispatch_now ::
  "('q, 'c, 'w) queue_manager \<Rightarrow> (string list \<Rightarrow> string) \<Rightarrow> ('j, 'w) job_type \<Rightarrow> 'j \<Rightarrow> string \<Rightarrow> time
    \<Rightarrow> 'w \<Rightarrow> 'w running"
where
  "dispatch_now m known J job i now w =
     (case from_job J job i now of
        Inl e \<Rightarrow> run_at_once (Returned (Inl e)) w
      | Inr q \<Rightarrow> registry_run known (qm_registry m) q (job_context_new (qj_id q) (qj_queue q) 1 1) w)"

definition manager_release_uniqueness ::
  "('q, 'c, 'w) queue_manager \<Rightarrow> string \<Rightarrow> 'c \<Rightarrow> 'c \<times> bool result"
where
  "manager_release_uniqueness m key c =
     (case qm_locks m of
        None \<Rightarrow> (c, Inr False)
      | Some locks \<Rightarrow> force_release (lm_lock locks key (secs 1)) c)"

definition pushed :: "('q, 'c, 'w) queue_manager \<Rightarrow> string \<Rightarrow> ('q, 'c) manager_state \<Rightarrow> queued_job list" where
  "pushed m name st = (if qm_faking m then filter (\<lambda>j. qj_name j = name) (qs_recorded st) else [])"

definition all_pushed :: "('q, 'c, 'w) queue_manager \<Rightarrow> ('q, 'c) manager_state \<Rightarrow> queued_job list" where
  "all_pushed m st = (if qm_faking m then qs_recorded st else [])"

section \<open>Uniqueness\<close>

context cache_port
begin

lemma acquire_once:
  assumes "inv s" "l_cache l = c" "l_wait l = None"
  shows "acquire 1 l w s =
    (let owner = mint_owner (w_hash w 0) (w_pid w) in
     Some (fst (c_add c (w_check w 0) (w_write w 0) (l_key l) owner (Some (l_ttl l)) s),
       Inr (if vis s (l_key l) (w_check w 0) = None
            then Some \<lparr>g_cache = c, g_key = l_key l, g_owner = owner, g_released = False\<rparr> else None)))"
proof -
  let ?o = "mint_owner (w_hash w 0) (w_pid w)"
  obtain s1 where "c_add c (w_check w 0) (w_write w 0) (l_key l) ?o (Some (l_ttl l)) s =
      (s1, Inr (vis s (l_key l) (w_check w 0) = None))"
    by (rule addE [OF assms(1)])
  then show ?thesis using assms(2,3)
    by (cases "vis s (l_key l) (w_check w 0) = None") (simp_all add: acquire_def Let_def)
qed

lemma claim_eq:
  assumes "inv s" "qm_locks m = Some locks" "lm_cache locks = c"
  shows "claim_key m key ttl w s =
    (let owner = mint_owner (w_hash w 0) (w_pid w); k = lm_prefix locks @ key in
     (fst (c_add c (w_check w 0) (w_write w 0) k owner (Some ttl) s),
      Inr (if vis s k (w_check w 0) = None
           then Held \<lparr>g_cache = c, g_key = k, g_owner = owner, g_released = False\<rparr> else AlreadyQueued)))"
  using assms by (simp add: claim_key_def acquire_once [unfolded One_nat_def] lm_lock_def Let_def)

lemma send_claimed:
  assumes "inv (qs_cache st)" "qm_locks m = Some locks" "lm_cache locks = c"
    and "pd_unique pd = Some (key, ttl)" "resolve_connection m (pd_connection pd) = Inr dest"
    and "vis (qs_cache st) (lm_prefix locks @ key) (w_check w 0) \<noteq> None"
  shows "\<exists>c'. send m pd w st = (st\<lparr>qs_cache := c'\<rparr>, Inr None)"
  using assms by (auto simp: send_def claim_eq Let_def)

lemma send_free:
  assumes "inv (qs_cache st)" "qm_locks m = Some locks" "lm_cache locks = c"
    and "pd_unique pd = Some (key, ttl)" "resolve_connection m (pd_connection pd) = Inr dest"
    and "vis (qs_cache st) (lm_prefix locks @ key) (w_check w 0) = None"
  shows "send m pd w st =
    (case push_to m dest ((pd_job pd)\<lparr>qj_unique_key := Some key\<rparr>)
       (st\<lparr>qs_cache := fst (c_add c (w_check w 0) (w_write w 0) (lm_prefix locks @ key)
                            (mint_owner (w_hash w 0) (w_pid w)) (Some ttl) (qs_cache st))\<rparr>) of
       (st', Inl e) \<Rightarrow> (st', Inl e) | (st', Inr i) \<Rightarrow> (st', Inr (Some i)))"
  using assms by (simp add: send_def claim_eq Let_def)

end

lemma push_to_cache: "qs_cache (fst (push_to m q job st)) = qs_cache st"
  by (simp add: push_to_def split: prod.splits)

text \<open>The lease a successful claim leaves behind, whether the job was pushed or not.\<close>

lemma claim_leased:
  assumes "hm_wf (qs_cache st)" "qm_locks m = Some locks" "lm_cache locks = memory_cache from_std"
    and "pd_unique pd = Some (key, ttl)" "resolve_connection m (pd_connection pd) = Inr dest"
    and "from_std ttl = Some d" "w_check w 0 \<le> w_write w 0"
    and "mem_vis (qs_cache st) (lm_prefix locks @ key) (w_check w 0) = None"
  shows "hm_wf (qs_cache (fst (send m pd w st))) \<and>
    mem.leased (qs_cache (fst (send m pd w st))) (lm_prefix locks @ key)
      (mint_owner (w_hash w 0) (w_pid w)) (w_write w 0) (w_write w 0 + d)"
proof -
  let ?k = "lm_prefix locks @ key" and ?o = "mint_owner (w_hash w 0) (w_pid w)"
  let ?c = "fst (c_add (memory_cache from_std) (w_check w 0) (w_write w 0) ?k ?o (Some ttl) (qs_cache st))"
  have c: "qs_cache (fst (send m pd w st)) = ?c"
    unfolding mem.send_free [OF assms(1-5,8)]
    using push_to_cache [of m dest "(pd_job pd)\<lparr>qj_unique_key := Some key\<rparr>" "st\<lparr>qs_cache := ?c\<rparr>"]
    by (auto split: prod.splits sum.splits)
  have "mem_vis ?c ?k t = Some ?o" if "w_write w 0 \<le> t" "t < w_write w 0 + d" for t
    using assms(6-8) that by (simp add: mem.add_vis [OF assms(1)] live_at_def expiry_def)
  then show ?thesis by (simp add: c mem.leased_def mem.inv_add [OF assms(1)])
qed


definition demo_locks :: "memory lock_manager" where
  "demo_locks = lock_manager_new (memory_cache (\<lambda>d. Some (int d)))"

definition demo_manager :: "(memory_queue, memory, string list) queue_manager" where
  "demo_manager = qm_with_locks demo_locks
     (queue_manager_new (memory_driver (\<lambda>d. Some (int d))) (register demo_type registry_new))"

definition demo_pending :: "string \<Rightarrow> pending_dispatch" where
  "demo_pending i =
     \<lparr>pd_job = sample_job i 3, pd_connection = None,
      pd_unique = Some (''queue:unique:mail.welcome:7'', secs 3600)\<rparr>"

definition demo_state :: "(memory_queue, memory) manager_state" where
  "demo_state = \<lparr>qs_store = memory_queue_new, qs_cache = [], qs_recorded = []\<rparr>"


text \<open>
  The claim is not given up when the push fails, although nothing was queued: until it expires
  every later dispatch of the job is dropped as a duplicate. \<^verbatim>\<open>send\<close> resolves the connection
  early to avoid exactly this, and the push after the claim reintroduces it.
\<close>

lemma failed_push_blocks_the_job:
  assumes "hm_wf (qs_cache st)" and m: "qm_locks m = Some locks" "lm_cache locks = memory_cache from_std"
    and pd: "pd_unique pd = Some (key, ttl)" "resolve_connection m (pd_connection pd) = Inr dest"
    and "from_std ttl = Some d" "w_check w 0 \<le> w_write w 0"
    and free: "mem_vis (qs_cache st) (lm_prefix locks @ key) (w_check w 0) = None"
    and push: "snd (send m pd w st) = Inl e"
    and w': "w_write w 0 \<le> w_check w' 0" "w_check w' 0 < w_write w 0 + d"
  shows "\<exists>c'. send m pd w' (fst (send m pd w st)) = ((fst (send m pd w st))\<lparr>qs_cache := c'\<rparr>, Inr None)"
proof -
  have "hm_wf (qs_cache (fst (send m pd w st)))"
    "mem.leased (qs_cache (fst (send m pd w st))) (lm_prefix locks @ key)
      (mint_owner (w_hash w 0) (w_pid w)) (w_write w 0) (w_write w 0 + d)"
    using claim_leased [OF assms(1-8)] by auto
  with mem.leasedD [OF this(2) w'] show ?thesis
    by (intro mem.send_claimed [OF _ m pd]) simp_all
qed

end
