(* ===== verification/Database_Queue.thy ===== *)
theory Database_Queue
  imports Queue_Port "HOL-Library.Countable"
begin

text \<open>
  The queue in two database tables, \<^verbatim>\<open>rainier-queue/src/database.rs\<close>. The database is a parameter:
  the record \<open>jobs_db\<close> has the statements the driver issues, each atomic, and the locale
  \<open>job_tables\<close> says what SQL promises of them over the two tables, seen as maps by primary key.
  JSON text is a parameter as well (\<open>dq_text\<close>, \<open>dq_parse\<close>). A criteria is the predicate it stands
  for; a list of assignments is the function it applies to a matching row.

  The driver keeps the contract of the port (a sublocale of \<open>job_queue\<close>), and its optimistic
  claim gives a row to one worker only, however the statements of several workers interleave.
\<close>

record job_row =
  jr_id :: string
  jr_queue :: string
  jr_name :: string
  jr_payload :: string
  jr_attempts :: int
  jr_max_attempts :: int
  jr_available_at :: time
  jr_reserved_at :: "time option"
  jr_reserved_until :: "time option"
  jr_created_at :: time
  jr_unique_key :: "string option"

record failed_row =
  fr_id :: string
  fr_queue :: string
  fr_name :: string
  fr_payload :: string
  fr_error :: string
  fr_failed_at :: time

record 's jobs_db =
  jd_insert :: "job_row \<Rightarrow> 's \<Rightarrow> 's \<times> unit result"
  jd_select :: "(job_row \<Rightarrow> bool) \<Rightarrow> 's \<Rightarrow> job_row list result"
  jd_update :: "(job_row \<Rightarrow> bool) \<Rightarrow> (job_row \<Rightarrow> job_row) \<Rightarrow> 's \<Rightarrow> 's \<times> nat result"
  jd_delete :: "(job_row \<Rightarrow> bool) \<Rightarrow> 's \<Rightarrow> 's \<times> nat result"
  fd_insert :: "failed_row \<Rightarrow> 's \<Rightarrow> 's \<times> unit result"
  fd_select :: "(failed_row \<Rightarrow> bool) \<Rightarrow> 's \<Rightarrow> failed_row list result"
  fd_delete :: "(failed_row \<Rightarrow> bool) \<Rightarrow> 's \<Rightarrow> 's \<times> nat result"

record 's database_queue =
  dq_db :: "'s jobs_db"
  dq_reservation :: duration
  dq_max_claim_attempts :: nat
  dq_from_std :: "duration \<Rightarrow> int option"
  dq_text :: "json \<Rightarrow> string"
  dq_parse :: "string \<Rightarrow> json result"

definition DEFAULT_RESERVATION :: duration where "DEFAULT_RESERVATION = secs 90"

definition database_queue_new ::
  "'s jobs_db \<Rightarrow> (duration \<Rightarrow> int option) \<Rightarrow> (json \<Rightarrow> string) \<Rightarrow> (string \<Rightarrow> json result) \<Rightarrow> 's database_queue"
where
  "database_queue_new db from_std txt pars =
     \<lparr>dq_db = db, dq_reservation = DEFAULT_RESERVATION, dq_max_claim_attempts = 5,
      dq_from_std = from_std, dq_text = txt, dq_parse = pars\<rparr>"

definition with_reservation :: "duration \<Rightarrow> 's database_queue \<Rightarrow> 's database_queue" where
  "with_reservation r dq = dq\<lparr>dq_reservation := r\<rparr>"

section \<open>Rows\<close>

definition row_from_queued :: "'s database_queue \<Rightarrow> queued_job \<Rightarrow> job_row" where
  "row_from_queued dq j =
     \<lparr>jr_id = qj_id j, jr_queue = qj_queue j, jr_name = qj_name j, jr_payload = dq_text dq (qj_payload j),
      jr_attempts = int (qj_attempts j), jr_max_attempts = int (qj_max_attempts j),
      jr_available_at = qj_available_at j, jr_reserved_at = None, jr_reserved_until = None,
      jr_created_at = qj_created_at j, jr_unique_key = qj_unique_key j\<rparr>"

definition row_into_queued :: "'s database_queue \<Rightarrow> job_row \<Rightarrow> queued_job result" where
  "row_into_queued dq r =
     and_then (dq_parse dq (jr_payload r)) (\<lambda>payload.
       Inr \<lparr>qj_id = jr_id r, qj_name = jr_name r, qj_payload = payload, qj_queue = jr_queue r,
            qj_attempts = as_u32 (nat (jr_attempts r)), qj_max_attempts = as_u32 (nat (jr_max_attempts r)),
            qj_available_at = jr_available_at r, qj_created_at = jr_created_at r,
            qj_unique_key = jr_unique_key r, qj_delivery_handle = None, qj_traceparent = None\<rparr>)"

section \<open>Operations\<close>

definition reserved_until :: "'s database_queue \<Rightarrow> time \<Rightarrow> time" where
  "reserved_until dq now =
     now + (case dq_from_std dq (dq_reservation dq) of Some d \<Rightarrow> d | None \<Rightarrow> int (secs 90))"

definition db_claim :: "'s database_queue \<Rightarrow> time \<Rightarrow> job_row \<Rightarrow> 's \<Rightarrow> 's \<times> bool result" where
  "db_claim dq now row s =
     (case jd_update (dq_db dq)
             (\<lambda>r. jr_id r = jr_id row \<and> jr_reserved_at r = None)
             (\<lambda>r. r\<lparr>jr_attempts := jr_attempts row + 1, jr_reserved_at := Some now,
                     jr_reserved_until := Some (reserved_until dq now)\<rparr>) s of
        (s', Inl e) \<Rightarrow> (s', Inl e)
      | (s', Inr affected) \<Rightarrow> (s', Inr (affected = 1)))"

definition db_push :: "'s database_queue \<Rightarrow> queued_job \<Rightarrow> 's \<Rightarrow> 's \<times> string result" where
  "db_push dq j s =
     (case jd_insert (dq_db dq) (row_from_queued dq j) s of
        (s', Inl e) \<Rightarrow> (s', Inl e) | (s', Inr _) \<Rightarrow> (s', Inr (qj_id j)))"

text \<open>The candidates, oldest first; ties come in the order the database gives them.\<close>

definition candidates :: "'s database_queue \<Rightarrow> time \<Rightarrow> string \<Rightarrow> 's \<Rightarrow> job_row list result" where
  "candidates dq now queue s =
     and_then (jd_select (dq_db dq)
         (\<lambda>r. jr_queue r = queue \<and> jr_reserved_at r = None \<and> jr_available_at r \<le> now) s)
       (\<lambda>rs. Inr (take (dq_max_claim_attempts dq) (sort_key jr_available_at rs)))"

fun claim_first ::
  "'s database_queue \<Rightarrow> (nat \<Rightarrow> time) \<Rightarrow> job_row list \<Rightarrow> 's \<Rightarrow> 's \<times> queued_job option result"
where
  "claim_first dq clk [] s = (s, Inr None)"
| "claim_first dq clk (row # rows) s =
     (case db_claim dq (clk 0) row s of
        (s', Inl e) \<Rightarrow> (s', Inl e)
      | (s', Inr True) \<Rightarrow> (s', map_sum id (\<lambda>q. Some (attempted q)) (row_into_queued dq row))
      | (s', Inr False) \<Rightarrow> claim_first dq (\<lambda>n. clk (Suc n)) rows s')"

definition db_reserve ::
  "'s database_queue \<Rightarrow> (nat \<Rightarrow> time) \<Rightarrow> string \<Rightarrow> 's \<Rightarrow> 's \<times> queued_job option result"
where
  "db_reserve dq clk queue s =
     (case candidates dq (clk 0) queue s of
        Inl e \<Rightarrow> (s, Inl e)
      | Inr rows \<Rightarrow> claim_first dq (\<lambda>n. clk (Suc n)) rows s)"

definition drop_count :: "'s \<times> nat result \<Rightarrow> 's \<times> unit result" where
  "drop_count x = (case x of (s', Inl e) \<Rightarrow> (s', Inl e) | (s', Inr _) \<Rightarrow> (s', Inr ()))"

definition db_acknowledge :: "'s database_queue \<Rightarrow> queued_job \<Rightarrow> 's \<Rightarrow> 's \<times> unit result" where
  "db_acknowledge dq j s = drop_count (jd_delete (dq_db dq) (\<lambda>r. jr_id r = qj_id j) s)"

definition db_release ::
  "'s database_queue \<Rightarrow> time \<Rightarrow> queued_job \<Rightarrow> duration \<Rightarrow> 's \<Rightarrow> 's \<times> unit result"
where
  "db_release dq now j delay s =
     (let at = now + (case dq_from_std dq delay of Some d \<Rightarrow> d | None \<Rightarrow> 0) in
      drop_count (jd_update (dq_db dq) (\<lambda>r. jr_id r = qj_id j)
        (\<lambda>r. r\<lparr>jr_reserved_at := None, jr_reserved_until := None, jr_available_at := at\<rparr>) s))"

definition db_fail ::
  "'s database_queue \<Rightarrow> time \<Rightarrow> queued_job \<Rightarrow> string \<Rightarrow> 's \<Rightarrow> 's \<times> unit result"
where
  "db_fail dq now j e s =
     (case fd_insert (dq_db dq)
             \<lparr>fr_id = qj_id j, fr_queue = qj_queue j, fr_name = qj_name j,
              fr_payload = dq_text dq (qj_payload j), fr_error = e, fr_failed_at = now\<rparr> s of
        (s', Inl err) \<Rightarrow>
          (s', Inl (err_internal (''could not record the failed job `'' @ qj_id j @ ''`: '' @ error_display err)))
      | (s', Inr _) \<Rightarrow> drop_count (jd_delete (dq_db dq) (\<lambda>r. jr_id r = qj_id j) s'))"

definition db_size :: "'s database_queue \<Rightarrow> string \<Rightarrow> 's \<Rightarrow> 's \<times> nat result" where
  "db_size dq queue s =
     (s, and_then (jd_select (dq_db dq) (\<lambda>r. jr_queue r = queue \<and> jr_reserved_at r = None) s)
           (\<lambda>rs. Inr (length rs)))"

definition db_clear :: "'s database_queue \<Rightarrow> string \<Rightarrow> 's \<Rightarrow> 's \<times> nat result" where
  "db_clear dq queue s = jd_delete (dq_db dq) (\<lambda>r. jr_queue r = queue) s"

definition database_driver :: "'s database_queue \<Rightarrow> 's queue" where
  "database_driver dq =
     \<lparr>q_name = ''database'', q_push = db_push dq, q_reserve = db_reserve dq,
      q_acknowledge = db_acknowledge dq, q_release = db_release dq, q_fail = db_fail dq,
      q_size = db_size dq, q_clear = db_clear dq\<rparr>"

text \<open>\<^verbatim>\<open>update\<close> writes every column of the row as it was read.\<close>

fun reclaim_rows :: "'s database_queue \<Rightarrow> job_row list \<Rightarrow> nat \<Rightarrow> 's \<Rightarrow> 's \<times> nat result" where
  "reclaim_rows dq [] n s = (s, Inr n)"
| "reclaim_rows dq (row # rows) n s =
     (case jd_update (dq_db dq) (\<lambda>r. jr_id r = jr_id row)
             (\<lambda>_. row\<lparr>jr_reserved_at := None, jr_reserved_until := None\<rparr>) s of
        (s', Inl e) \<Rightarrow> (s', Inl e)
      | (s', Inr k) \<Rightarrow> reclaim_rows dq rows (n + k) s')"

definition reclaim_expired :: "'s database_queue \<Rightarrow> time \<Rightarrow> 's \<Rightarrow> 's \<times> nat result" where
  "reclaim_expired dq now s =
     (case jd_select (dq_db dq)
             (\<lambda>r. jr_reserved_at r \<noteq> None \<and> (case jr_reserved_until r of Some t \<Rightarrow> t < now | None \<Rightarrow> False)) s of
        Inl e \<Rightarrow> (s, Inl e)
      | Inr stale \<Rightarrow> reclaim_rows dq (take 100 stale) 0 s)"

definition retry_failed :: "'s database_queue \<Rightarrow> time \<Rightarrow> time \<Rightarrow> string \<Rightarrow> 's \<Rightarrow> 's \<times> bool result" where
  "retry_failed dq t0 t1 i s =
     (case fd_select (dq_db dq) (\<lambda>r. fr_id r = i) s of
        Inl e \<Rightarrow> (s, Inl e)
      | Inr [] \<Rightarrow> (s, Inr False)
      | Inr (row # _) \<Rightarrow>
          (case jd_insert (dq_db dq)
                  \<lparr>jr_id = fr_id row, jr_queue = fr_queue row, jr_name = fr_name row,
                   jr_payload = fr_payload row, jr_attempts = 0, jr_max_attempts = 1,
                   jr_available_at = t0, jr_reserved_at = None, jr_reserved_until = None,
                   jr_created_at = t1, jr_unique_key = None\<rparr> s of
             (s', Inl e) \<Rightarrow> (s', Inl e)
           | (s', Inr _) \<Rightarrow>
               (case fd_delete (dq_db dq) (\<lambda>r. fr_id r = i) s' of
                  (s'', Inl e) \<Rightarrow> (s'', Inl e) | (s'', Inr _) \<Rightarrow> (s'', Inr True))))"

section \<open>What SQL promises\<close>

locale job_tables =
  fixes db :: "'s jobs_db"
    and jobs :: "'s \<Rightarrow> string \<Rightarrow> job_row option"
    and failed :: "'s \<Rightarrow> string \<Rightarrow> failed_row option"
  assumes jobs_key: "jobs s i = Some r \<Longrightarrow> jr_id r = i"
    and jobs_finite: "finite (dom (jobs s))"
    and failed_key: "failed s i = Some fr \<Longrightarrow> fr_id fr = i"
    and failed_finite: "finite (dom (failed s))"
    and insert_ok: "jobs s (jr_id r) = None \<Longrightarrow>
      \<exists>s'. jd_insert db r s = (s', Inr ()) \<and> jobs s' = (jobs s)(jr_id r \<mapsto> r) \<and> failed s' = failed s"
    and insert_dup: "jobs s (jr_id r) \<noteq> None \<Longrightarrow> \<exists>e. jd_insert db r s = (s, Inl e)"
    and select_ok: "\<exists>rs. jd_select db P s = Inr rs \<and> distinct rs \<and> set rs = {r \<in> ran (jobs s). P r}"
    and update_ok: "(\<And>r. P r \<Longrightarrow> jr_id (f r) = jr_id r) \<Longrightarrow>
      \<exists>s'. jd_update db P f s = (s', Inr (card {r \<in> ran (jobs s). P r})) \<and>
           jobs s' = (\<lambda>i. map_option (\<lambda>r. if P r then f r else r) (jobs s i)) \<and> failed s' = failed s"
    and delete_ok: "\<exists>s'. jd_delete db P s = (s', Inr (card {r \<in> ran (jobs s). P r})) \<and>
           jobs s' = (\<lambda>i. case jobs s i of Some r \<Rightarrow> if P r then None else Some r | None \<Rightarrow> None) \<and>
           failed s' = failed s"
    and fail_insert_ok: "failed s (fr_id fr) = None \<Longrightarrow>
      \<exists>s'. fd_insert db fr s = (s', Inr ()) \<and> failed s' = (failed s)(fr_id fr \<mapsto> fr) \<and> jobs s' = jobs s"
    and fail_insert_dup: "failed s (fr_id fr) \<noteq> None \<Longrightarrow> \<exists>e. fd_insert db fr s = (s, Inl e)"

section \<open>Bags of rows\<close>

definition row_job :: "'s database_queue \<Rightarrow> job_row \<Rightarrow> queued_job" where
  "row_job dq r = projr (row_into_queued dq r)"

text \<open>Which rows there are once the row \<open>r\<close> under a key is replaced, added or deleted.\<close>

lemma ran_replace:
  "(\<And>k x. M k = Some x \<Longrightarrow> key x = k) \<Longrightarrow> M i = Some r \<Longrightarrow> ran (M(i \<mapsto> r')) = insert r' (ran M - {r})"
  by (auto simp: ran_def split: if_splits) (metis option.inject)+

lemma ran_remove:
  "(\<And>k x. M k = Some x \<Longrightarrow> key x = k) \<Longrightarrow> M i = Some r \<Longrightarrow> ran (M(i := None)) = ran M - {r}"
  by (auto simp: ran_def split: if_splits) (metis option.inject)+

lemma bag_insert:
  assumes "finite A" "x \<notin> A"
  shows "mset_set {y \<in> insert x A. Q y} = (if Q x then add_mset x (mset_set {y \<in> A. Q y}) else mset_set {y \<in> A. Q y})"
proof -
  have "{y \<in> insert x A. Q y} = (if Q x then insert x {y \<in> A. Q y} else {y \<in> A. Q y})" by auto
  then show ?thesis using assms by simp
qed

lemma bag_remove:
  assumes "finite A" "x \<in> A"
  shows "mset_set {y \<in> A. Q y} =
    (if Q x then add_mset x (mset_set {y \<in> A - {x}. Q y}) else mset_set {y \<in> A - {x}. Q y})"
  using bag_insert [of "A - {x}" x Q] assms by (simp add: insert_absorb)

locale db_queue = job_tables db jobs failed
  for db :: "'s jobs_db" and jobs failed +
  fixes dq :: "'s database_queue"
  assumes dq_db: "dq_db dq = db"
    and json_text: "dq_parse dq (dq_text dq v) = Inr v"
    and claims: "dq_max_claim_attempts dq > 0"
begin

definition free :: "'s \<Rightarrow> queued_job multiset" where
  "free s = image_mset (row_job dq) (mset_set {r \<in> ran (jobs s). jr_reserved_at r = None})"

definition taken :: "'s \<Rightarrow> queued_job multiset" where
  "taken s = image_mset (row_job dq) (mset_set {r \<in> ran (jobs s). jr_reserved_at r \<noteq> None})"

definition given_up :: "'s \<Rightarrow> ((string \<times> string \<times> string \<times> string) \<times> string) multiset" where
  "given_up s = image_mset (\<lambda>f. ((fr_id f, fr_queue f, fr_name f, fr_payload f), fr_error f))
     (mset_set (ran (failed s)))"

definition good :: "'s \<Rightarrow> bool" where
  "good s \<longleftrightarrow> (\<forall>r \<in> ran (jobs s). 0 \<le> jr_attempts r \<and> (\<exists>v. jr_payload r = dq_text dq v)) \<and>
     (\<forall>i. jobs s i \<noteq> None \<longrightarrow> failed s i = None)"

definition storable :: "'s \<Rightarrow> queued_job \<Rightarrow> bool" where
  "storable s j \<longleftrightarrow> jobs s (qj_id j) = None \<and> failed s (qj_id j) = None \<and> qj_attempts j < 2 ^ 32 \<and>
     qj_max_attempts j < 2 ^ 32 \<and> qj_delivery_handle j = None \<and> qj_traceparent j = None"

definition db_until :: "time \<Rightarrow> duration \<Rightarrow> time" where
  "db_until t d = t + (case dq_from_std dq d of Some x \<Rightarrow> x | None \<Rightarrow> 0)"

definition failed_mark :: "queued_job \<Rightarrow> string \<times> string \<times> string \<times> string" where
  "failed_mark j = (qj_id j, qj_queue j, qj_name j, dq_text dq (qj_payload j))"

lemma rows_finite [simp]: "finite (ran (jobs s))" "finite (ran (failed s))"
  by (simp_all add: jobs_finite failed_finite finite_ran)

lemma ran_jobs_replace: "jobs s i = Some r \<Longrightarrow> ran ((jobs s)(i \<mapsto> r')) = insert r' (ran (jobs s) - {r})"
  by (rule ran_replace [of "jobs s" jr_id]) (erule jobs_key)

lemma ran_jobs_remove: "jobs s i = Some r \<Longrightarrow> ran ((jobs s)(i := None)) = ran (jobs s) - {r}"
  by (rule ran_remove [of "jobs s" jr_id]) (erule jobs_key)

lemma row_job_parse:
  "jr_payload r = dq_text dq v \<Longrightarrow> row_into_queued dq r = Inr (row_job dq r) \<and> qj_payload (row_job dq r) = v"
  by (simp add: row_job_def row_into_queued_def json_text)

lemma row_job_fields:
  assumes "jr_payload r = dq_text dq v"
  shows "qj_id (row_job dq r) = jr_id r" "qj_queue (row_job dq r) = jr_queue r"
    "qj_name (row_job dq r) = jr_name r" "qj_available_at (row_job dq r) = jr_available_at r"
    "dq_text dq (qj_payload (row_job dq r)) = jr_payload r"
  using assms by (simp_all add: row_job_def row_into_queued_def json_text)

lemma row_job_claimed:
  assumes "jr_payload r = dq_text dq v" "0 \<le> jr_attempts r"
  shows "row_job dq (r\<lparr>jr_attempts := jr_attempts r + 1, jr_reserved_at := a, jr_reserved_until := b\<rparr>) =
    attempted (row_job dq r)"
  using assms
  by (simp add: row_job_def row_into_queued_def json_text attempted_def as_u32_def nat_add_distrib mod_Suc_eq)

lemma row_job_released:
  assumes "jr_payload r = dq_text dq v"
  shows "row_job dq (r\<lparr>jr_reserved_at := a, jr_reserved_until := b, jr_available_at := t\<rparr>) =
    set_available_at t (row_job dq r)"
  using assms by (simp add: row_job_def row_into_queued_def json_text set_available_at_def)

lemma good_row:
  assumes "good s" "jobs s i = Some r"
  obtains v where "jr_payload r = dq_text dq v" "0 \<le> jr_attempts r" "jr_id r = i" "r \<in> ran (jobs s)"
    "failed s i = None"
  using assms jobs_key [OF assms(2)] unfolding good_def by (metis option.distinct(1) ranI)

text \<open>A job that is held is the row under its id, which is reserved.\<close>

lemma taken_row:
  assumes "good s" "j \<in># taken s"
  obtains r v where "jobs s (qj_id j) = Some r" "jr_reserved_at r \<noteq> None" "j = row_job dq r"
    "jr_payload r = dq_text dq v" "jr_id r = qj_id j" "r \<in> ran (jobs s)" "failed s (qj_id j) = None"
    "0 \<le> jr_attempts r"
proof -
  have "j \<in> row_job dq ` {r \<in> ran (jobs s). jr_reserved_at r \<noteq> None}"
    using assms(2) unfolding taken_def by (subst (asm) set_image_mset) simp
  then obtain r i where r: "jobs s i = Some r" "jr_reserved_at r \<noteq> None" "j = row_job dq r"
    by (auto simp: ran_def)
  then show thesis using good_row [OF assms(1) r(1)] row_job_fields(1) that by metis
qed

text \<open>Ids are distinct, so settling by id takes out the one row.\<close>

lemma filter_taken:
  assumes "good s" "jobs s i = Some r" "qj_id j = i"
  shows "filter_mset (not_id j) (taken s) =
    image_mset (row_job dq) (mset_set {x \<in> ran (jobs s) - {r}. jr_reserved_at x \<noteq> None})"
proof -
  have *: "not_id j (row_job dq x) \<longleftrightarrow> x \<noteq> r" if x: "x \<in> ran (jobs s)" for x
  proof -
    from x obtain k where k: "jobs s k = Some x" unfolding ran_def by blast
    obtain v where "jr_payload x = dq_text dq v" "jr_id x = k" by (rule good_row [OF assms(1) k])
    then show ?thesis using k assms by (auto simp: not_id_def row_job_fields dest: jobs_key)
  qed
  have "filter_mset (not_id j) (taken s) =
      image_mset (row_job dq) (filter_mset (\<lambda>x. not_id j (row_job dq x)) (mset_set {x \<in> ran (jobs s). jr_reserved_at x \<noteq> None}))"
    by (simp add: taken_def filter_mset_image_mset)
  also have "filter_mset (\<lambda>x. not_id j (row_job dq x)) (mset_set {x \<in> ran (jobs s). jr_reserved_at x \<noteq> None}) =
      mset_set {x \<in> ran (jobs s) - {r}. jr_reserved_at x \<noteq> None}"
    using * by (auto simp: filter_mset_mset_set intro!: arg_cong [where f = mset_set])
  finally show ?thesis .
qed

section \<open>The statements, one row at a time\<close>

lemma other_key: "jobs s k = Some x \<Longrightarrow> P x \<Longrightarrow> (\<And>x. P x \<Longrightarrow> jr_id x = i) \<Longrightarrow> k = i"
  using jobs_key by blast

lemma update_row:
  assumes "jobs s i = Some r" "P r" "jr_id (f r) = i" "\<And>x. P x \<Longrightarrow> jr_id x = i" "\<And>x. jr_id (f x) = jr_id x"
  obtains s' where "jd_update db P f s = (s', Inr 1)" "jobs s' = (jobs s)(i \<mapsto> f r)" "failed s' = failed s"
proof -
  have only: "{x \<in> ran (jobs s). P x} = {r}"
    using assms(1,2) other_key [OF _ _ assms(4)] by (fastforce simp: ran_def)
  have "map_option (\<lambda>x. if P x then f x else x) (jobs s k) = ((jobs s)(i \<mapsto> f r)) k" for k
    by (cases "jobs s k") (use assms other_key [of s k _ P i] in auto)
  then have "(\<lambda>k. map_option (\<lambda>x. if P x then f x else x) (jobs s k)) = (jobs s)(i \<mapsto> f r)" ..
  then show thesis using update_ok [of P f s] assms(5) only by (auto intro: that)
qed

lemma delete_row:
  assumes "jobs s i = Some r" "P r" "\<And>x. P x \<Longrightarrow> jr_id x = i"
  obtains s' n where "jd_delete db P s = (s', Inr n)" "jobs s' = (jobs s)(i := None)" "failed s' = failed s"
proof -
  have "(case jobs s k of Some x \<Rightarrow> if P x then None else Some x | None \<Rightarrow> None) = ((jobs s)(i := None)) k" for k
    by (cases "jobs s k") (use assms other_key [of s k _ P i] in auto)
  then have "(\<lambda>k. case jobs s k of Some x \<Rightarrow> if P x then None else Some x | None \<Rightarrow> None) = (jobs s)(i := None)" ..
  then show thesis using delete_ok [of P s] by (auto intro: that)
qed

lemma claim_free:
  assumes "jobs s (jr_id row) = Some r" "jr_reserved_at r = None"
  obtains s' where "db_claim dq t row s = (s', Inr True)" "failed s' = failed s"
    "jobs s' = (jobs s)(jr_id row \<mapsto> r\<lparr>jr_attempts := jr_attempts row + 1, jr_reserved_at := Some t,
       jr_reserved_until := Some (reserved_until dq t)\<rparr>)"
  by (rule update_row [of s "jr_id row" r "\<lambda>r. jr_id r = jr_id row \<and> jr_reserved_at r = None"
        "\<lambda>r. r\<lparr>jr_attempts := jr_attempts row + 1, jr_reserved_at := Some t,
               jr_reserved_until := Some (reserved_until dq t)\<rparr>"])
    (use assms jobs_key [OF assms(1)] in \<open>auto simp: db_claim_def dq_db intro: that\<close>)

lemma claim_refused:
  assumes "\<And>r. jobs s (jr_id row) = Some r \<Longrightarrow> jr_reserved_at r \<noteq> None"
  obtains s' where "db_claim dq t row s = (s', Inr False)" "jobs s' = jobs s" "failed s' = failed s"
proof -
  let ?P = "\<lambda>r. jr_id r = jr_id row \<and> jr_reserved_at r = None"
  have none: "\<not> ?P r" if "jobs s k = Some r" for k r
    using assms [of r] that jobs_key [of s k r] by auto
  then have empty: "{x \<in> ran (jobs s). ?P x} = {}" by (auto simp: ran_def)
  have same: "map_option (\<lambda>x. if ?P x then f x else x) (jobs s k) = jobs s k" for f k
    by (cases "jobs s k") (use none [of k] in auto)
  obtain s' where "jd_update db ?P (\<lambda>r. r\<lparr>jr_attempts := jr_attempts row + 1, jr_reserved_at := Some t,
         jr_reserved_until := Some (reserved_until dq t)\<rparr>) s = (s', Inr 0)" "jobs s' = jobs s" "failed s' = failed s"
    using update_ok [of ?P "\<lambda>r. r\<lparr>jr_attempts := jr_attempts row + 1, jr_reserved_at := Some t,
         jr_reserved_until := Some (reserved_until dq t)\<rparr>" s, unfolded empty same] by auto
  then show thesis by (intro that [of s']) (simp_all add: db_claim_def dq_db)
qed

lemma replaced:
  assumes "jobs s i = Some r" "jobs s' = (jobs s)(i \<mapsto> r')" "jr_id r' = i" "Q r \<noteq> Q r'"
  shows "mset_set {x \<in> ran (jobs s'). Q x} =
    (if Q r' then add_mset r' (mset_set {x \<in> ran (jobs s). Q x}) else mset_set {x \<in> ran (jobs s). Q x} - {#r#})"
proof -
  have r: "r \<in> ran (jobs s)" using assms(1) by (rule ranI)
  have new: "r' \<notin> ran (jobs s) - {r}" using assms(1,3) jobs_key by (auto simp: ran_def)
  have "ran (jobs s') = insert r' (ran (jobs s) - {r})"
    unfolding assms(2) by (rule ran_jobs_replace [OF assms(1)])
  then show ?thesis
    using bag_insert [OF _ new, of Q] bag_remove [OF _ r, of Q] assms(4) by auto
qed

lemma push_db:
  assumes "good s" "storable s j"
  shows "\<exists>s'. q_push (database_driver dq) j s = (s', Inr (qj_id j)) \<and> good s' \<and>
        free s' = add_mset j (free s) \<and> taken s' = taken s \<and> given_up s' = given_up s"
proof -
  let ?r = "row_from_queued dq j"
  have r: "jr_id ?r = qj_id j" "jr_reserved_at ?r = None" "0 \<le> jr_attempts ?r"
    "jr_payload ?r = dq_text dq (qj_payload j)" by (simp_all add: row_from_queued_def)
  have job: "row_job dq ?r = j"
    using assms(2) by (simp add: storable_def row_job_def row_into_queued_def row_from_queued_def json_text as_u32_def)
  have fresh: "jobs s (jr_id ?r) = None" "?r \<notin> ran (jobs s)"
    using assms(2) jobs_key [of s _ ?r] by (auto simp: r storable_def ran_def)
  obtain s' where s': "jd_insert db ?r s = (s', Inr ())" "jobs s' = (jobs s)(jr_id ?r \<mapsto> ?r)" "failed s' = failed s"
    using insert_ok [OF fresh(1)] by auto
  have ran: "ran (jobs s') = insert ?r (ran (jobs s))" by (simp add: s'(2) fresh(1))
  have "good s'" using assms r by (auto simp: good_def ran s' storable_def)
  moreover have "free s' = add_mset j (free s)" "taken s' = taken s"
    unfolding free_def taken_def ran bag_insert [OF rows_finite(1) fresh(2)] by (simp_all add: r job)
  ultimately show ?thesis
    by (simp add: database_driver_def db_push_def dq_db s' given_up_def)
qed

lemma ack_db:
  assumes "good s" "j \<in># taken s"
  shows "\<exists>s'. q_acknowledge (database_driver dq) j s = (s', Inr ()) \<and> good s' \<and> free s' = free s \<and>
     taken s' = filter_mset (not_id j) (taken s) \<and> given_up s' = given_up s"
proof -
  obtain r v where r: "jobs s (qj_id j) = Some r" "jr_reserved_at r \<noteq> None" "jr_id r = qj_id j" "r \<in> ran (jobs s)"
    by (rule taken_row [OF assms])
  obtain s' n where s': "jd_delete db (\<lambda>r. jr_id r = qj_id j) s = (s', Inr n)"
    "jobs s' = (jobs s)(qj_id j := None)" "failed s' = failed s"
    by (rule delete_row [OF r(1)]) (use r in auto)
  have ran: "ran (jobs s') = ran (jobs s) - {r}"
    unfolding s'(2) by (rule ran_jobs_remove [OF r(1)])
  have "good s'" using assms(1) unfolding good_def ran by (auto simp: s')
  moreover have "free s' = free s" using bag_remove [OF rows_finite(1) r(4), of "\<lambda>r. jr_reserved_at r = None"] r(2)
    by (simp add: free_def ran)
  moreover have "taken s' = filter_mset (not_id j) (taken s)"
    by (subst filter_taken [OF assms(1) r(1) refl]) (simp add: taken_def ran)
  ultimately show ?thesis
    by (simp add: database_driver_def db_acknowledge_def dq_db s' drop_count_def given_up_def)
qed

lemma release_db:
  assumes "good s" "j \<in># taken s"
  shows "\<exists>s'. q_release (database_driver dq) t j d s = (s', Inr ()) \<and> good s' \<and>
     free s' = add_mset (set_available_at (db_until t d) j) (free s) \<and>
     taken s' = filter_mset (not_id j) (taken s) \<and> given_up s' = given_up s"
proof -
  obtain r v where r: "jobs s (qj_id j) = Some r" "jr_reserved_at r \<noteq> None" "j = row_job dq r"
    "jr_payload r = dq_text dq v" "jr_id r = qj_id j" "r \<in> ran (jobs s)" "0 \<le> jr_attempts r"
    by (rule taken_row [OF assms])
  let ?f = "\<lambda>r. r\<lparr>jr_reserved_at := None, jr_reserved_until := None, jr_available_at := db_until t d\<rparr>"
  obtain s' where s': "jd_update db (\<lambda>r. jr_id r = qj_id j) ?f s = (s', Inr 1)"
    "jobs s' = (jobs s)(qj_id j \<mapsto> ?f r)" "failed s' = failed s"
    by (rule update_row [OF r(1), of "\<lambda>r. jr_id r = qj_id j" ?f]) (use r(5) in simp_all)
  have id': "jr_id (?f r) = qj_id j" using r by simp
  have ran: "ran (jobs s') = insert (?f r) (ran (jobs s) - {r})"
    unfolding s'(2) by (rule ran_jobs_replace [OF r(1)])
  have "good s'" using assms(1) r unfolding good_def ran by (auto simp: s')
  moreover have "free s' = add_mset (set_available_at (db_until t d) j) (free s)"
    using replaced [OF r(1) s'(2) id', of "\<lambda>r. jr_reserved_at r = None"] r(2)
    by (simp add: free_def row_job_released [OF r(4)] r(3))
  moreover have "taken s' = filter_mset (not_id j) (taken s)"
    using replaced [OF r(1) s'(2) id', of "\<lambda>r. jr_reserved_at r \<noteq> None"] r(2)
      bag_remove [OF rows_finite(1) r(6), of "\<lambda>r. jr_reserved_at r \<noteq> None"]
    by (subst filter_taken [OF assms(1) r(1) refl]) (simp add: taken_def)
  moreover have "q_release (database_driver dq) t j d s = (s', Inr ())"
    using s'(1) by (simp add: database_driver_def db_release_def dq_db drop_count_def Let_def db_until_def)
  ultimately show ?thesis by (simp add: given_up_def s'(3))
qed

lemma fail_db:
  assumes "good s" "j \<in># taken s"
  shows "\<exists>s'. q_fail (database_driver dq) t j e s = (s', Inr ()) \<and> good s' \<and> free s' = free s \<and>
     taken s' = filter_mset (not_id j) (taken s) \<and> given_up s' = add_mset (failed_mark j, e) (given_up s)"
proof -
  let ?f = "\<lparr>fr_id = qj_id j, fr_queue = qj_queue j, fr_name = qj_name j,
              fr_payload = dq_text dq (qj_payload j), fr_error = e, fr_failed_at = t\<rparr>"
  obtain r v where r: "jobs s (qj_id j) = Some r" "jr_reserved_at r \<noteq> None" "failed s (qj_id j) = None"
    "jr_id r = qj_id j" "r \<in> ran (jobs s)"
    by (rule taken_row [OF assms])
  have fresh: "failed s (fr_id ?f) = None" "?f \<notin> ran (failed s)"
  proof -
    show "?f \<notin> ran (failed s)"
    proof
      assume "?f \<in> ran (failed s)"
      then obtain k where k: "failed s k = Some ?f" unfolding ran_def by blast
      with failed_key [OF k] r(3) show False by simp
    qed
  qed (use r(3) in simp)
  obtain s1 where s1: "fd_insert db ?f s = (s1, Inr ())" "failed s1 = (failed s)(fr_id ?f \<mapsto> ?f)" "jobs s1 = jobs s"
    using fail_insert_ok [OF fresh(1)] by blast
  have "jobs s1 (qj_id j) = Some r" using r(1) s1(3) by simp
  then obtain s' n where s': "jd_delete db (\<lambda>r. jr_id r = qj_id j) s1 = (s', Inr n)"
    "jobs s' = (jobs s1)(qj_id j := None)" "failed s' = failed s1"
    by (rule delete_row) (use r in auto)
  have ran: "ran (jobs s') = ran (jobs s) - {r}"
    unfolding s'(2) s1(3) by (rule ran_jobs_remove [OF r(1)])
  have ranf: "ran (failed s') = insert ?f (ran (failed s))" using fresh(1) by (simp add: s' s1)
  have "good s'" using assms(1) unfolding good_def ran by (auto simp: s' s1)
  moreover have "free s' = free s" using bag_remove [OF rows_finite(1) r(5), of "\<lambda>r. jr_reserved_at r = None"] r(2)
    by (simp add: free_def ran)
  moreover have "taken s' = filter_mset (not_id j) (taken s)"
    by (subst filter_taken [OF assms(1) r(1) refl]) (simp add: taken_def ran)
  moreover have "given_up s' = add_mset (failed_mark j, e) (given_up s)"
    using fresh(2) by (simp add: given_up_def ranf failed_mark_def)
  ultimately show ?thesis
    by (simp add: database_driver_def db_fail_def dq_db s' s1 drop_count_def)
qed

text \<open>In one piece, the first candidate is free, so its claim succeeds.\<close>

lemma candidates_db:
  obtains rows where "candidates dq t name s = Inr rows"
    "set rows \<subseteq> {r \<in> ran (jobs s). jr_queue r = name \<and> jr_reserved_at r = None \<and> jr_available_at r \<le> t}"
    "dq_max_claim_attempts dq > 0 \<Longrightarrow> rows = [] \<Longrightarrow>
     {r \<in> ran (jobs s). jr_queue r = name \<and> jr_reserved_at r = None \<and> jr_available_at r \<le> t} = {}"
proof -
  let ?P = "\<lambda>r. jr_queue r = name \<and> jr_reserved_at r = None \<and> jr_available_at r \<le> t"
  obtain rs where rs: "jd_select db ?P s = Inr rs" "set rs = {r \<in> ran (jobs s). ?P r}"
    using select_ok [of ?P s] by blast
  have "set (take n (sort_key jr_available_at rs)) \<subseteq> set rs" for n
    using set_take_subset [of n "sort_key jr_available_at rs"] by simp
  moreover have "set rs = {}" if "dq_max_claim_attempts dq > 0" "take (dq_max_claim_attempts dq) (sort_key jr_available_at rs) = []"
    using that by (metis length_0_conv length_sort not_gr0 set_empty take_eq_Nil)
  ultimately show thesis
    using rs by (intro that [of "take (dq_max_claim_attempts dq) (sort_key jr_available_at rs)"])
      (simp_all add: candidates_def dq_db)
qed

lemma reserve_db:
  assumes "good s"
  shows "(\<exists>s'. q_reserve (database_driver dq) clk name s = (s', Inr None) \<and> good s' \<and> free s' = free s \<and>
              taken s' = taken s \<and> given_up s' = given_up s \<and>
              (\<forall>j \<in># free s. qj_queue j = name \<longrightarrow> (\<exists>i. clk i < qj_available_at j))) \<or>
        (\<exists>s' j. q_reserve (database_driver dq) clk name s = (s', Inr (Some (attempted j))) \<and> good s' \<and>
              j \<in># free s \<and> qj_queue j = name \<and> (\<exists>i. is_available (clk i) j) \<and>
              free s' = free s - {#j#} \<and> taken s' = add_mset (attempted j) (taken s) \<and>
              given_up s' = given_up s)"
proof -
  obtain rows where rows: "candidates dq (clk 0) name s = Inr rows"
    "set rows \<subseteq> {r \<in> ran (jobs s). jr_queue r = name \<and> jr_reserved_at r = None \<and> jr_available_at r \<le> clk 0}"
    "rows = [] \<Longrightarrow> {r \<in> ran (jobs s). jr_queue r = name \<and> jr_reserved_at r = None \<and> jr_available_at r \<le> clk 0} = {}"
    by (rule candidates_db [of "clk 0" name s]) (use claims in blast)
  show ?thesis
  proof (cases rows)
    case Nil
    have "\<exists>i. clk i < qj_available_at j" if "j \<in># free s" "qj_queue j = name" for j
    proof -
      have "j \<in> row_job dq ` {r \<in> ran (jobs s). jr_reserved_at r = None}"
        using that(1) unfolding free_def by (subst (asm) set_image_mset) simp
      then obtain r where r: "r \<in> ran (jobs s)" "jr_reserved_at r = None" "j = row_job dq r" by auto
      then obtain v where "jr_payload r = dq_text dq v" using assms by (auto simp: good_def)
      with r that(2) rows(3) [OF Nil] show ?thesis
        by (intro exI [of _ 0]) (auto simp: row_job_fields not_le)
    qed
    then show ?thesis using rows(1) Nil assms by (simp add: database_driver_def db_reserve_def)
  next
    case (Cons r rs)
    then have r: "r \<in> ran (jobs s)" "jr_queue r = name" "jr_reserved_at r = None" "jr_available_at r \<le> clk 0"
      using rows(2) by auto
    then obtain i where i: "jobs s i = Some r" unfolding ran_def by blast
    obtain v where v: "jr_payload r = dq_text dq v" "0 \<le> jr_attempts r" "jr_id r = i"
      by (rule good_row [OF assms i])
    let ?r = "r\<lparr>jr_attempts := jr_attempts r + 1, jr_reserved_at := Some (clk 1),
                 jr_reserved_until := Some (reserved_until dq (clk 1))\<rparr>"
    have row: "jobs s (jr_id r) = Some r" using i v(3) by simp
    obtain s' where s': "db_claim dq (clk 1) r s = (s', Inr True)" "failed s' = failed s"
      "jobs s' = (jobs s)(jr_id r \<mapsto> ?r)"
      by (rule claim_free [OF row r(3)])
    have rep: "mset_set {x \<in> ran (jobs s'). Q x} = (if Q ?r then add_mset ?r (mset_set {x \<in> ran (jobs s). Q x})
        else mset_set {x \<in> ran (jobs s). Q x} - {#r#})" if "Q r \<noteq> Q ?r" for Q
      by (rule replaced [OF row s'(3) _ that]) simp
    have ran: "ran (jobs s') = insert ?r (ran (jobs s) - {r})"
      unfolding s'(3) by (rule ran_jobs_replace [OF row])
    have job: "row_job dq ?r = attempted (row_job dq r)" by (rule row_job_claimed [OF v(1,2)])
    have "q_reserve (database_driver dq) clk name s = (s', Inr (Some (attempted (row_job dq r))))"
      using s'(1) row_job_parse [OF v(1)]
      by (simp add: database_driver_def db_reserve_def rows(1) Cons)
    moreover have "good s'"
      using assms good_row [OF assms i] v(1,2) unfolding good_def ran by (auto simp: s' v(3))
    moreover have "row_job dq r \<in># free s" using r by (auto simp: free_def)
    moreover have "free s' = free s - {#row_job dq r#}"
      using rep [of "\<lambda>r. jr_reserved_at r = None"] r by (simp add: free_def image_mset_Diff)
    moreover have "taken s' = add_mset (attempted (row_job dq r)) (taken s)"
      using rep [of "\<lambda>r. jr_reserved_at r \<noteq> None"] r by (simp add: taken_def job [unfolded One_nat_def])
    moreover have "qj_queue (row_job dq r) = name" "is_available (clk 0) (row_job dq r)"
      using r by (simp_all add: row_job_fields [OF v(1)] is_available_def)
    ultimately show ?thesis by (intro disjI2 exI [of _ s'] exI [of _ "row_job dq r"])
      (auto simp: given_up_def s'(2))
  qed
qed

end

sublocale db_queue \<subseteq> jq: job_queue "database_driver dq" good free taken given_up db_until storable
  failed_mark fst
proof (unfold_locales, goal_cases)
  case (1 j) show ?case by (simp add: failed_mark_def)
next
  case (2 s j) then show ?case by (rule push_db)
next
  case (3 s clk name) then show ?case by (rule reserve_db)
next
  case (4 s j) then show ?case by (rule ack_db)
next
  case (5 s j t d) then show ?case by (rule release_db)
next
  case (6 s j t e) then show ?case by (rule fail_db)
qed

section \<open>A row is claimed once\<close>

text \<open>
  What other processes do to the tables, statement by statement, while one of them works on
  the job \<open>i\<close>: they claim rows, also from a selection made long ago and also the row \<open>i\<close>, push
  jobs, and settle jobs other than \<open>i\<close>.
\<close>

inductive db_others :: "'s database_queue \<Rightarrow> string \<Rightarrow> 's \<Rightarrow> 's \<Rightarrow> bool" for dq i where
  others_none: "db_others dq i s s"
| others_claim: "db_others dq i s s' \<Longrightarrow> db_others dq i s (fst (db_claim dq t row s'))"
| others_push: "db_others dq i s s' \<Longrightarrow> db_others dq i s (fst (db_push dq j s'))"
| others_ack: "db_others dq i s s' \<Longrightarrow> qj_id j \<noteq> i \<Longrightarrow> db_others dq i s (fst (db_acknowledge dq j s'))"
| others_release: "db_others dq i s s' \<Longrightarrow> qj_id j \<noteq> i \<Longrightarrow> db_others dq i s (fst (db_release dq t j d s'))"
| others_fail: "db_others dq i s s' \<Longrightarrow> qj_id j \<noteq> i \<Longrightarrow> db_others dq i s (fst (db_fail dq t j e s'))"

lemma fst_drop_count [simp]: "fst (drop_count x) = fst x"
  by (simp add: drop_count_def split: prod.splits sum.splits)

context db_queue
begin

lemma update_keeps:
  assumes "\<And>r. jobs s i = Some r \<Longrightarrow> \<not> P r" "\<And>r. jr_id (f r) = jr_id r"
  shows "jobs (fst (jd_update db P f s)) i = jobs s i"
  using update_ok [of P f s] assms by (cases "jobs s i") auto

lemma delete_keeps:
  assumes "\<And>r. jobs s i = Some r \<Longrightarrow> \<not> P r"
  shows "jobs (fst (jd_delete db P s)) i = jobs s i"
  using delete_ok [of P s] assms by (cases "jobs s i") auto

lemma claim_keeps:
  assumes "jobs s i = Some r" "jr_reserved_at r \<noteq> None"
  shows "jobs (fst (db_claim dq t row s)) i = Some r"
proof -
  have "fst (db_claim dq t row s) = fst (jd_update db (\<lambda>r. jr_id r = jr_id row \<and> jr_reserved_at r = None)
      (\<lambda>r. r\<lparr>jr_attempts := jr_attempts row + 1, jr_reserved_at := Some t,
             jr_reserved_until := Some (reserved_until dq t)\<rparr>) s)"
    by (simp add: db_claim_def dq_db split: prod.splits sum.splits)
  also have "jobs \<dots> i = jobs s i" by (rule update_keeps) (use assms in auto)
  finally show ?thesis using assms(1) by simp
qed

lemma push_keeps:
  assumes "jobs s i = Some r" shows "jobs (fst (db_push dq j s)) i = Some r"
proof -
  let ?r = "row_from_queued dq j"
  have "fst (db_push dq j s) = fst (jd_insert db ?r s)"
    by (simp add: db_push_def dq_db split: prod.splits sum.splits)
  then show ?thesis
    using insert_ok [of s ?r] insert_dup [of s ?r] assms by (cases "jobs s (jr_id ?r)") auto
qed

lemma fail_keeps:
  assumes "jobs s i = Some r" "qj_id j \<noteq> i" shows "jobs (fst (db_fail dq t j e s)) i = Some r"
proof -
  let ?f = "\<lparr>fr_id = qj_id j, fr_queue = qj_queue j, fr_name = qj_name j,
              fr_payload = dq_text dq (qj_payload j), fr_error = e, fr_failed_at = t\<rparr>"
  obtain s1 z where s1: "fd_insert db ?f s = (s1, z)" "jobs s1 = jobs s"
    using fail_insert_ok [of s ?f] fail_insert_dup [of s ?f] by (cases "failed s (fr_id ?f)") auto
  have "jobs (fst (jd_delete db (\<lambda>r. jr_id r = qj_id j) s1)) i = jobs s i"
    using delete_keeps [of s1 i "\<lambda>r. jr_id r = qj_id j"] assms s1(2) jobs_key by auto
  then show ?thesis using assms s1 by (auto simp: db_fail_def dq_db split: sum.splits)
qed

lemma others_keep:
  assumes "db_others dq i s s'" "jobs s i = Some r" "jr_reserved_at r \<noteq> None"
  shows "jobs s' i = Some r"
  using assms
proof (induction rule: db_others.induct)
  case (others_claim s s' t row)
  then show ?case by (simp add: claim_keeps)
next
  case (others_push s s' j)
  then show ?case by (simp add: push_keeps)
next
  case (others_ack s s' j)
  then show ?case using delete_keeps [of s' i "\<lambda>r. jr_id r = qj_id j"] jobs_key [of s' i r]
    by (simp add: db_acknowledge_def dq_db)
next
  case (others_release s s' j t d)
  then show ?case using update_keeps [of s' i "\<lambda>r. jr_id r = qj_id j"] jobs_key [of s' i r]
    by (simp add: db_release_def dq_db Let_def)
next
  case (others_fail s s' j t e)
  then show ?case by (simp add: fail_keeps)
qed

lemma claim_once:
  assumes "db_claim dq t row s = (s1, Inr True)" "db_others dq (jr_id row) s1 s2" "jr_id row' = jr_id row"
  shows "\<exists>s3. db_claim dq t' row' s2 = (s3, Inr False) \<and> jobs s3 = jobs s2"
proof -
  obtain r where r: "jobs s1 (jr_id row) = Some r" "jr_reserved_at r \<noteq> None"
  proof (cases "\<exists>r. jobs s (jr_id row) = Some r \<and> jr_reserved_at r = None")
    case True
    then obtain r where "jobs s (jr_id row) = Some r" "jr_reserved_at r = None" by blast
    then obtain s' where "db_claim dq t row s = (s', Inr True)"
      "jobs s' = (jobs s)(jr_id row \<mapsto> r\<lparr>jr_attempts := jr_attempts row + 1, jr_reserved_at := Some t,
         jr_reserved_until := Some (reserved_until dq t)\<rparr>)" by (rule claim_free)
    with assms(1) show thesis by (intro that) auto
  next
    case False
    then obtain s' where "db_claim dq t row s = (s', Inr False)" by (meson claim_refused)
    with assms(1) show thesis by simp
  qed
  have "jobs s2 (jr_id row') = Some r" using others_keep [OF assms(2) r] assms(3) by simp
  then obtain s3 where "db_claim dq t' row' s2 = (s3, Inr False)" "jobs s3 = jobs s2"
    using r(2) claim_refused [of s2 row' t'] by (metis option.inject)
  then show ?thesis by blast
qed

end

section \<open>Tables as lists\<close>

text \<open>
  A database that keeps what SQL promises: two lists of rows, of which the first row under a
  key counts. It shows that the promises can be kept together.
\<close>

type_synonym lists = "job_row list \<times> failed_row list"

fun first_rows :: "('r \<Rightarrow> string) \<Rightarrow> 'r list \<Rightarrow> 'r list" where
  "first_rows key [] = []"
| "first_rows key (r # rs) = r # filter (\<lambda>x. key x \<noteq> key r) (first_rows key rs)"

definition by_key :: "('r \<Rightarrow> string) \<Rightarrow> 'r list \<Rightarrow> string \<Rightarrow> 'r option" where
  "by_key key rs = map_of (map (\<lambda>r. (key r, r)) rs)"

definition list_insert :: "('r \<Rightarrow> string) \<Rightarrow> 'r \<Rightarrow> 'r list \<Rightarrow> 'r list \<times> unit result" where
  "list_insert key r rs =
     (if by_key key rs (key r) = None then (r # rs, Inr ())
      else (rs, Inl (err_conflict ''duplicate key'')))"

definition list_db :: "lists jobs_db" where
  "list_db =
     \<lparr>jd_insert = (\<lambda>r (js, fs). case list_insert jr_id r js of (js', z) \<Rightarrow> ((js', fs), z)),
      jd_select = (\<lambda>P (js, fs). Inr (filter P (first_rows jr_id js))),
      jd_update = (\<lambda>P f (js, fs).
         ((map (\<lambda>r. if P r then f r else r) (first_rows jr_id js), fs),
          Inr (length (filter P (first_rows jr_id js))))),
      jd_delete = (\<lambda>P (js, fs).
         ((filter (\<lambda>r. \<not> P r) (first_rows jr_id js), fs),
          Inr (length (filter P (first_rows jr_id js))))),
      fd_insert = (\<lambda>r (js, fs). case list_insert fr_id r fs of (fs', z) \<Rightarrow> ((js, fs'), z)),
      fd_select = (\<lambda>P (js, fs). Inr (filter P (first_rows fr_id fs))),
      fd_delete = (\<lambda>P (js, fs).
         ((js, filter (\<lambda>r. \<not> P r) (first_rows fr_id fs)),
          Inr (length (filter P (first_rows fr_id fs)))))\<rparr>"

lemma by_key_Nil [simp]: "by_key key [] = Map.empty"
  by (simp add: by_key_def)

lemma distinct_first_rows: "distinct (map key (first_rows key rs))"
  by (induction rs) (auto simp: distinct_map_filter)

lemma by_key_filter:
  "by_key key (filter (\<lambda>x. key x \<noteq> k) rs) i = (if i = k then None else by_key key rs i)"
  by (induction rs) (auto simp: by_key_def)

lemma by_key_first_rows: "by_key key (first_rows key rs) = by_key key rs"
proof (induction rs)
  case (Cons r rs)
  have "by_key key (first_rows key (r # rs)) i = by_key key (r # rs) i" for i
  proof -
    have "by_key key (first_rows key (r # rs)) i =
        (if i = key r then Some r else by_key key (filter (\<lambda>x. key x \<noteq> key r) (first_rows key rs)) i)"
      by (simp add: by_key_def)
    then show ?thesis by (simp add: by_key_filter Cons) (simp add: by_key_def)
  qed
  then show ?case ..
qed simp

lemma by_key_key: "by_key key rs i = Some r \<Longrightarrow> key r = i"
  by (auto simp: by_key_def dest!: map_of_SomeD)

lemma by_key_distinct:
  "distinct (map key rs) \<Longrightarrow> by_key key rs i = Some r \<longleftrightarrow> r \<in> set rs \<and> key r = i"
  by (auto simp: by_key_def comp_def)

lemma ran_by_key: "ran (by_key key rs) = set (first_rows key rs)"
  using by_key_distinct [OF distinct_first_rows, of key rs]
  by (auto simp: ran_def by_key_first_rows)

lemma by_key_map:
  "(\<And>r. P r \<Longrightarrow> key (f r) = key r) \<Longrightarrow>
   by_key key (map (\<lambda>r. if P r then f r else r) rs) i = map_option (\<lambda>r. if P r then f r else r) (by_key key rs i)"
  by (induction rs) (auto simp: by_key_def)

lemma by_key_delete:
  assumes "distinct (map key rs)"
  shows "by_key key (filter (\<lambda>r. \<not> P r) rs) i =
    (case by_key key rs i of Some r \<Rightarrow> if P r then None else Some r | None \<Rightarrow> None)"
  using assms
proof (induction rs)
  case (Cons r rs)
  have "by_key key rs (key r) = None" using Cons.prems
    by (auto simp: by_key_def map_of_eq_None_iff)
  with Cons show ?case by (auto simp: by_key_def)
qed (simp add: by_key_def)

lemma count_rows: "length (filter P (first_rows key rs)) = card {r \<in> ran (by_key key rs). P r}"
  using distinct_first_rows [of key rs]
  by (simp add: ran_by_key distinct_map Collect_conj_eq Int_commute flip: distinct_length_filter)

interpretation list_tables: job_tables list_db "\<lambda>s. by_key jr_id (fst s)" "\<lambda>s. by_key fr_id (snd s)"
proof (unfold_locales, goal_cases)
  case (2 s)
  show ?case by (simp add: by_key_def finite_dom_map_of)
next
  case (4 s)
  show ?case by (simp add: by_key_def finite_dom_map_of)
next
  case (7 P s)
  show ?case using distinct_first_rows [of jr_id "fst s"]
    by (auto simp: list_db_def ran_by_key split_beta distinct_map)
next
  case (8 P f s)
  then show ?case
    by (cases s) (auto simp: list_db_def count_rows by_key_map by_key_first_rows)
next
  case (9 P s)
  show ?case
    by (cases s) (auto simp: list_db_def count_rows by_key_delete distinct_first_rows by_key_first_rows)
qed (auto simp: list_db_def list_insert_def by_key_def split_beta dest!: map_of_SomeD split: if_splits)


text \<open>A text for JSON values with the law the driver relies on: what was written is read back.\<close>

instance json :: countable
  by countable_datatype

definition demo_dq :: "lists database_queue" where
  "demo_dq = database_queue_new list_db (\<lambda>d. Some (int d)) (\<lambda>v. nat_dec (to_nat v))
     (\<lambda>s. Inr (from_nat (digits_value s)))"

interpretation demo_queue: db_queue list_db "\<lambda>s. by_key jr_id (fst s)" "\<lambda>s. by_key fr_id (snd s)" demo_dq
  by unfold_locales (simp_all add: demo_dq_def database_queue_new_def)

definition demo_row :: job_row where
  "demo_row = row_from_queued demo_dq (sample_job ''a'' 3)"

lemmas demo_db_defs = db_claim_def demo_dq_def database_queue_new_def list_db_def demo_row_def
  row_from_queued_def sample_job_def foreign_def


text \<open>
  Over its run the driver conserves jobs as the contract says: the ids that were pushed are
  those free, taken, given up or acknowledged, each once.
\<close>

lemma database_queue_conserves:
  assumes "queue_run (database_driver demo_dq) demo_queue.taken demo_queue.storable ([], []) P D s"
  shows "image_mset qj_id (demo_queue.free s) + image_mset qj_id (demo_queue.taken s) +
      image_mset (\<lambda>d. fst (fst d)) (demo_queue.given_up s) + D = P \<and> (\<forall>i. count P i \<le> 1)"
proof -
  have "demo_queue.good ([], [])" "demo_queue.jq.ids ([], []) = {#}"
    by (simp_all add: demo_queue.good_def demo_queue.jq.ids_def demo_queue.free_def
        demo_queue.taken_def demo_queue.given_up_def)
  from demo_queue.jq.run_conserves [OF assms this] show ?thesis by (simp add: demo_queue.jq.ids_def)
qed

text \<open>
  A claim checks that the row is free and nothing else: from a selection made before another
  worker ran the job, failed and released it with a delay, it takes the job before the delay
  is over and writes its own count of attempts over the real one.
\<close>

lemma stale_claim_skips_the_delay:
  "let released = demo_row\<lparr>jr_attempts := 1, jr_available_at := 9000\<rparr> in
   db_claim demo_dq 10 demo_row ([released], []) =
     (([released\<lparr>jr_attempts := 1, jr_reserved_at := Some 10,
         jr_reserved_until := Some (reserved_until demo_dq 10)\<rparr>], []), Inr True)"
  by (simp add: demo_db_defs reserved_until_def Let_def)

end
