(* ===== verification/Oauth_Error.thy ===== *)
theory Oauth_Error
  imports Http Percent Hash_Map
begin

text \<open>
  The refusals of the authorization server, \<^verbatim>\<open>rainier-oauth-server/src/error.rs\<close>: the errors of
  RFC 6749, how one is answered (a redirect when there is somewhere to send the browser, JSON
  otherwise) and the query string a redirect carries. Shown here: whatever the values hold, the
  query of a redirect decodes to exactly the pairs that were appended.
\<close>

section \<open>Errors\<close>

record oauth_error =
  oe_error :: string
  oe_description :: string
  oe_hint :: "string option"
  oe_status :: nat
  oe_redirect_uri :: "string option"
  oe_authorization_header :: "string option"

definition oe_new :: "string \<Rightarrow> string \<Rightarrow> nat \<Rightarrow> oauth_error" where
  "oe_new err description status =
     \<lparr>oe_error = err, oe_description = description, oe_hint = None, oe_status = status,
      oe_redirect_uri = None, oe_authorization_header = None\<rparr>"

definition with_hint :: "string \<Rightarrow> oauth_error \<Rightarrow> oauth_error" where
  "with_hint hint e = e\<lparr>oe_hint := Some hint\<rparr>"

definition redirecting_to :: "string \<Rightarrow> oauth_error \<Rightarrow> oauth_error" where
  "redirecting_to uri e = e\<lparr>oe_redirect_uri := Some uri\<rparr>"

definition unsupported_grant_type :: oauth_error where
  "unsupported_grant_type =
     with_hint ''Check that all required parameters have been provided''
       (oe_new ''unsupported_grant_type''
          ''The authorization grant type is not supported by the authorization server.'' 400)"

definition backquoted :: "string \<Rightarrow> string" where
  "backquoted s = [CHR 0x60] @ s @ [CHR 0x60]"

definition invalid_request :: "string \<Rightarrow> oauth_error" where
  "invalid_request parameter =
     with_hint (''Check the '' @ backquoted parameter @ '' parameter'')
       (oe_new ''invalid_request''
          (''The request is missing a required parameter, includes an invalid parameter value, ''
           @ ''includes a parameter more than once, or is otherwise malformed.'') 400)"

definition invalid_request_because :: "string \<Rightarrow> oauth_error" where
  "invalid_request_because hint = with_hint hint (invalid_request [])"

definition invalid_client :: oauth_error where
  "invalid_client = oe_new ''invalid_client'' ''Client authentication failed'' 401"

text \<open>\<^verbatim>\<open>str::replace\<close> of one character, and the escaping the hint applies.\<close>

definition replace_char :: "char \<Rightarrow> string \<Rightarrow> string \<Rightarrow> string" where
  "replace_char c r s = concat (map (\<lambda>x. if x = c then r else [x]) s)"

definition escape_html :: "string \<Rightarrow> string" where
  "escape_html s =
     replace_char CHR ''>'' ''&gt;'' (replace_char CHR ''<'' ''&lt;''
       (replace_char CHR 0x27 ''&#039;'' (replace_char CHR 0x22 ''&quot;''
         (replace_char CHR ''&'' ''&amp;'' s))))"

definition invalid_scope :: "string \<Rightarrow> oauth_error" where
  "invalid_scope scope =
     with_hint (if scope = [] then ''Specify a scope in the request or set a default scope''
                else ''Check the '' @ backquoted (escape_html scope) @ '' scope'')
       (oe_new ''invalid_scope'' ''The requested scope is invalid, unknown, or malformed'' 400)"

definition invalid_credentials :: oauth_error where
  "invalid_credentials = oe_new ''invalid_grant'' ''The user credentials were incorrect.'' 400"

definition invalid_refresh_token :: "string \<Rightarrow> oauth_error" where
  "invalid_refresh_token hint =
     with_hint hint (oe_new ''invalid_grant'' ''The refresh token is invalid.'' 400)"

definition invalid_grant :: "string \<Rightarrow> oauth_error" where
  "invalid_grant hint =
     with_hint hint (oe_new ''invalid_grant''
       (''The provided authorization grant (e.g., authorization code, resource owner ''
        @ ''credentials) or refresh token is invalid, expired, revoked, does not match the ''
        @ ''redirection URI used in the authorization request, or was issued to another client.'') 400)"

definition unauthorized_client :: oauth_error where
  "unauthorized_client = oe_new ''unauthorized_client''
     ''The authenticated client is not authorized to use this authorization grant type.'' 400"

definition access_denied :: "string \<Rightarrow> oauth_error" where
  "access_denied hint =
     with_hint hint (oe_new ''access_denied''
       ''The resource owner or authorization server denied the request.'' 401)"

text \<open>The detail of a server error goes to the log only.\<close>

definition oe_server_error :: "string \<Rightarrow> oauth_error" where
  "oe_server_error detail = oe_new ''server_error''
     (''The authorization server encountered an unexpected condition which prevented it ''
      @ ''from fulfilling the request.'') 500"

definition oe_from_error :: "error \<Rightarrow> oauth_error" where
  "oe_from_error e = oe_server_error (error_display e)"

definition oe_display :: "oauth_error \<Rightarrow> string" where
  "oe_display e = oe_error e @ '': '' @ oe_description e
     @ (case oe_hint e of Some h \<Rightarrow> '' ('' @ h @ '')'' | None \<Rightarrow> [])"

definition error_from_oe :: "oauth_error \<Rightarrow> error" where
  "error_from_oe e =
     (if oe_status e = 401 then err_unauthenticated (oe_display e)
      else if 400 \<le> oe_status e \<and> oe_status e \<le> 499 then err_bad_request (oe_display e)
      else err_internal (oe_display e))"

section \<open>Answers\<close>

text \<open>\<^verbatim>\<open>encode\<close>: form encoding, a space as a plus sign.\<close>

definition form_plain :: "char \<Rightarrow> bool" where
  "form_plain c \<longleftrightarrow> byte_in 65 90 c \<or> byte_in 97 122 c \<or> byte_in 48 57 c \<or> c \<in> set ''-_.*''"

definition form_char :: "char \<Rightarrow> string" where
  "form_char c =
     (if form_plain c then [c] else if c = CHR '' '' then ''+''
      else (let n = (of_char c :: nat) in [CHR ''%'', hex_upper (n div 16), hex_upper (n mod 16)]))"

definition form_encode :: "string \<Rightarrow> string" where
  "form_encode s = concat (map form_char s)"

definition append_query :: "string \<Rightarrow> (string \<times> string) list \<Rightarrow> string" where
  "append_query uri pairs =
     (let encoded = map (\<lambda>(k, v). form_encode k @ ''='' @ form_encode v) pairs in
      if encoded = [] then uri
      else uri @ (if CHR ''?'' \<in> set uri then ''&'' else ''?'') @ join ''&'' encoded)"

definition found :: "header_check \<Rightarrow> string \<Rightarrow> response" where
  "found valid location = with_header valid ''location'' location (response_new 302)"

definition error_payload :: "oauth_error \<Rightarrow> (string \<times> string) list" where
  "error_payload e =
     [(''error'', oe_error e), (''error_description'', oe_description e)]
     @ (case oe_hint e of Some h \<Rightarrow> [(''hint'', h)] | None \<Rightarrow> [])"

definition oe_into_response :: "header_check \<Rightarrow> oauth_error \<Rightarrow> response" where
  "oe_into_response valid e =
     (case oe_redirect_uri e of
        Some uri \<Rightarrow> found valid (append_query uri (error_payload e))
      | None \<Rightarrow>
          (let r = with_status (case status_code (oe_status e) of Some st \<Rightarrow> st | None \<Rightarrow> 400)
                 (response_json valid (JObject (map (\<lambda>(k, v). (k, JString v)) (error_payload e)))) in
           if oe_error e = ''invalid_client'' then
             (case oe_authorization_header e of
                Some scheme \<Rightarrow> with_header valid ''www-authenticate''
                    (scheme @ '' realm='' @ [CHR 0x22] @ ''OAuth'' @ [CHR 0x22]) r
              | None \<Rightarrow> r)
           else r))"

definition token_response :: "header_check \<Rightarrow> json \<Rightarrow> response" where
  "token_response valid body =
     with_header valid ''pragma'' ''no-cache'' (with_header valid ''cache-control'' ''no-store''
       (with_header valid ''content-type'' ''application/json; charset=UTF-8'' (response_json valid body)))"

lemmas oauth_error_defs = oe_new_def with_hint_def redirecting_to_def unsupported_grant_type_def
  invalid_request_def invalid_client_def invalid_scope_def invalid_credentials_def
  invalid_refresh_token_def invalid_grant_def unauthorized_client_def access_denied_def
  oe_server_error_def oe_from_error_def

text \<open>No error but a redirecting one sends the browser anywhere.\<close>

lemma oe_no_redirect [simp]:
  "oe_redirect_uri unsupported_grant_type = None" "oe_redirect_uri (invalid_request p) = None"
  "oe_redirect_uri invalid_client = None" "oe_redirect_uri (invalid_scope s) = None"
  "oe_redirect_uri unauthorized_client = None" "oe_redirect_uri (oe_from_error e) = None"
  "oe_redirect_uri (with_hint h x) = oe_redirect_uri x"
  "oe_redirect_uri (redirecting_to u x) = Some u" "oe_redirect_uri (access_denied h) = None"
  by (simp_all add: oauth_error_defs)

section \<open>What a redirect carries\<close>

lemma replace_chars: "c \<in> set (replace_char x r s) \<Longrightarrow> c \<in> set r \<or> (c \<noteq> x \<and> c \<in> set s)"
  by (auto simp: replace_char_def split: if_splits)

lemma escape_html_safe: "set (escape_html s) \<inter> {CHR ''<'', CHR ''>'', CHR 0x22, CHR 0x27} = {}"
  by (auto simp: escape_html_def dest!: replace_chars)

text \<open>The reference decoder of form encoding.\<close>

definition form_decode :: "string \<Rightarrow> string" where
  "form_decode s = pct_bytes (map (\<lambda>c. if c = CHR ''+'' then CHR '' '' else c) s)"

definition form_pair :: "string \<Rightarrow> string \<times> string" where
  "form_pair p =
     (case split_once CHR ''='' p of Some (k, v) \<Rightarrow> (form_decode k, form_decode v) | None \<Rightarrow> (form_decode p, []))"

definition form_pairs :: "string \<Rightarrow> (string \<times> string) list" where
  "form_pairs q = map form_pair (split_on CHR ''&'' q)"

lemma hex_upper_plain: "d < 16 \<Longrightarrow> form_plain (hex_upper d)"
  by (auto simp: hex_upper_def form_plain_def byte_in_def of_char_of)

lemma form_plain_not: "form_plain c \<Longrightarrow> c \<noteq> CHR ''+'' \<and> c \<noteq> CHR ''%'' \<and> c \<notin> set ''&=?# ''"
  by (auto simp: form_plain_def byte_in_def)

lemma form_char_chars: "x \<in> set (form_char c) \<Longrightarrow> form_plain x \<or> x = CHR ''+'' \<or> x = CHR ''%''"
  by (auto simp: form_char_def Let_def of_char_div_16 intro!: hex_upper_plain split: if_splits)

lemma form_encode_chars: "x \<in> set (form_encode s) \<Longrightarrow> x \<notin> set ''&=?# ''"
  using form_plain_not form_char_chars by (fastforce simp: form_encode_def)

lemma form_decode_char: "form_decode (form_char c @ t) = c # form_decode t"
proof -
  let ?n = "of_char c :: nat"
  have hex: "hex_value (hex_upper (?n div 16)) = Some (?n div 16)" "hex_value (hex_upper (?n mod 16)) = Some (?n mod 16)"
    "hex_upper (?n div 16) \<noteq> CHR ''+''" "hex_upper (?n mod 16) \<noteq> CHR ''+''"
    using form_plain_not [OF hex_upper_plain] by (simp_all add: hex_value_hex_upper of_char_div_16)
  have "char_of (16 * (?n div 16) + ?n mod 16) = c" by simp
  then show ?thesis
    using form_plain_not [of c] hex by (auto simp: form_decode_def form_char_def Let_def)
qed

lemma form_round_trip: "form_decode (form_encode s) = s"
  by (induction s) (simp_all add: form_encode_def form_decode_char, simp add: form_decode_def)

lemma form_pair_encoded: "form_pair (form_encode k @ ''='' @ form_encode v) = (k, v)"
proof -
  have "CHR ''='' \<notin> set (form_encode k)" using form_encode_chars [of "CHR ''=''" k] by auto
  then show ?thesis by (simp add: form_pair_def split_once_append form_round_trip)
qed

text \<open>The query string that \<open>append_query\<close> adds, after its separator.\<close>

lemma append_query_pairs:
  assumes "pairs \<noteq> []"
  shows "\<exists>sep q. append_query uri pairs = uri @ [sep] @ q \<and> sep \<in> set ''?&''
           \<and> form_pairs q = pairs \<and> CHR ''#'' \<notin> set q"
proof -
  let ?item = "\<lambda>(k, v). form_encode k @ ''='' @ form_encode v"
  let ?q = "join ''&'' (map ?item pairs)"
  have "\<forall>w \<in> set (map ?item pairs). CHR ''&'' \<notin> set w"
    using form_encode_chars [of "CHR ''&''"] by auto
  with assms have "split_on CHR ''&'' ?q = map ?item pairs" by (intro split_on_join) simp_all
  then have "form_pairs ?q = map (form_pair \<circ> ?item) pairs" by (simp add: form_pairs_def)
  also have "\<dots> = pairs" by (rule map_idI) (auto simp: form_pair_encoded simp del: append.simps)
  finally have "form_pairs ?q = pairs" .
  moreover have "\<forall>c \<in> set ?q. c \<noteq> CHR ''#''"
    using form_encode_chars [of "CHR ''#''"] by (intro join_chars) auto
  ultimately show ?thesis
    using assms by (intro exI [of _ "if CHR ''?'' \<in> set uri then CHR ''&'' else CHR ''?''"] exI [of _ ?q])
      (auto simp: append_query_def Let_def)
qed

end
