(* ===== verification/Oauth_Scope.thy ===== *)
theory Oauth_Scope
  imports Oauth_Error
begin

text \<open>
  What a token may do: the clients and the scopes of the authorization server
  (\<^verbatim>\<open>rainier-oauth-server/src/model.rs\<close>, \<^verbatim>\<open>scope.rs\<close>) and the abilities the scopes become on the API side
  (\<^verbatim>\<open>rainier-auth/src/abilities.rs\<close>). Shown here: a held scope grants exactly its namespace, the two
  components agree on every scope that does not itself end in a star, and the scopes a token is
  issued with exist, are allowed to the client and are free of duplicates.
\<close>

section \<open>Clients\<close>

definition AUTHORIZATION_CODE :: string where "AUTHORIZATION_CODE = ''authorization_code''"
definition REFRESH_TOKEN :: string where "REFRESH_TOKEN = ''refresh_token''"
definition PASSWORD :: string where "PASSWORD = ''password''"
definition CLIENT_CREDENTIALS :: string where "CLIENT_CREDENTIALS = ''client_credentials''"
definition PERSONAL_ACCESS :: string where "PERSONAL_ACCESS = ''personal_access''"

lemmas grant_names = AUTHORIZATION_CODE_def REFRESH_TOKEN_def PASSWORD_def CLIENT_CREDENTIALS_def
  PERSONAL_ACCESS_def

record client =
  cl_id :: string
  cl_name :: string
  cl_secret_hash :: "string option"
  cl_redirect_uris :: "string list"
  cl_grant_types :: "string list"
  cl_scopes :: "string list option"
  cl_provider :: "string option"
  cl_owner_id :: "string option"
  cl_revoked :: bool

definition SCOPE_EVERYTHING :: string where "SCOPE_EVERYTHING = ''*''"

text \<open>\<^verbatim>\<open>wanted.as_bytes()[held.len()]\<close> is read only where the prefix is proper.\<close>

definition scope_grants :: "string \<Rightarrow> string \<Rightarrow> bool" where
  "scope_grants held wanted \<longleftrightarrow>
     held = SCOPE_EVERYTHING \<or> held = wanted
     \<or> (length wanted > length held \<and> prefix held wanted \<and> wanted ! length held = CHR '':'')"

definition held_grants :: "string list \<Rightarrow> string \<Rightarrow> bool" where
  "held_grants held wanted = list_ex (\<lambda>scope. scope_grants scope wanted) held"

definition is_confidential :: "client \<Rightarrow> bool" where
  "is_confidential c = (case cl_secret_hash c of Some h \<Rightarrow> h \<noteq> [] | None \<Rightarrow> False)"

definition supports_grant :: "client \<Rightarrow> string \<Rightarrow> bool" where
  "supports_grant c g = list_ex (\<lambda>allowed. allowed = g) (cl_grant_types c)"

definition allows_scope :: "client \<Rightarrow> string \<Rightarrow> bool" where
  "allows_scope c scope = (case cl_scopes c of None \<Rightarrow> True | Some allowed \<Rightarrow> held_grants allowed scope)"

definition is_first_party :: "client \<Rightarrow> bool" where
  "is_first_party c \<longleftrightarrow> cl_owner_id c = None"

text \<open>The random bytes of a new identifier are an argument.\<close>

definition new_identifier :: "string \<Rightarrow> string" where
  "new_identifier random =
     concat (map (\<lambda>b. let n = (of_char b :: nat) in [hex_digit (n div 16), hex_digit (n mod 16)]) random)"

section \<open>Scopes\<close>

record scopes =
  sc_known :: "(string, string) hmap"
  sc_default :: "string list"

definition scopes_new :: scopes where
  "scopes_new = \<lparr>sc_known = [], sc_default = []\<rparr>"

definition scopes_with :: "string \<Rightarrow> string \<Rightarrow> scopes \<Rightarrow> scopes" where
  "scopes_with scope description sc = sc\<lparr>sc_known := hm_insert scope description (sc_known sc)\<rparr>"

definition default_scopes :: "string list \<Rightarrow> scopes \<Rightarrow> scopes" where
  "default_scopes ss sc = sc\<lparr>sc_default := ss\<rparr>"

definition scope_exists :: "scopes \<Rightarrow> string \<Rightarrow> bool" where
  "scope_exists sc scope \<longleftrightarrow> scope = SCOPE_EVERYTHING \<or> hm_contains scope (sc_known sc)"

definition scope_description :: "scopes \<Rightarrow> string \<Rightarrow> string option" where
  "scope_description sc scope = hm_get scope (sc_known sc)"

definition requested_scopes :: "scopes \<Rightarrow> string option \<Rightarrow> string list" where
  "requested_scopes sc requested =
     (case requested of
        None \<Rightarrow> sc_default sc
      | Some list \<Rightarrow>
          if trim list = [] then sc_default sc
          else filter (\<lambda>s. s \<noteq> []) (split_on CHR '' '' (trim list)))"

fun refuse_unknown :: "scopes \<Rightarrow> string list \<Rightarrow> oauth_error + unit" where
  "refuse_unknown sc [] = Inr ()"
| "refuse_unknown sc (scope # rest) =
     (if \<not> scope_exists sc scope then Inl (invalid_scope scope) else refuse_unknown sc rest)"

definition scopes_validate :: "scopes \<Rightarrow> string option \<Rightarrow> oauth_error + string list" where
  "scopes_validate sc requested =
     (let ss = requested_scopes sc requested in
      case refuse_unknown sc ss of Inl e \<Rightarrow> Inl e | Inr _ \<Rightarrow> Inr ss)"

fun finalize_onto :: "scopes \<Rightarrow> bool \<Rightarrow> client \<Rightarrow> string list \<Rightarrow> string list \<Rightarrow> string list" where
  "finalize_onto sc keeps c [] out = out"
| "finalize_onto sc keeps c (scope # rest) out =
     (if scope = SCOPE_EVERYTHING \<and> \<not> keeps then finalize_onto sc keeps c rest out
      else if scope_exists sc scope \<and> allows_scope c scope \<and> scope \<notin> set out
      then finalize_onto sc keeps c rest (out @ [scope])
      else finalize_onto sc keeps c rest out)"

definition keeps_everything :: "string \<Rightarrow> bool" where
  "keeps_everything g \<longleftrightarrow> g \<in> {PASSWORD, PERSONAL_ACCESS, CLIENT_CREDENTIALS}"

definition finalize :: "scopes \<Rightarrow> string list \<Rightarrow> string \<Rightarrow> client \<Rightarrow> string list" where
  "finalize sc ss g c = finalize_onto sc (keeps_everything g) c ss []"

section \<open>Abilities\<close>

type_synonym abilities = "string list"

definition abilities_none :: abilities where "abilities_none = []"

definition abilities_everything :: abilities where "abilities_everything = [SCOPE_EVERYTHING]"

definition abilities_parse :: "string \<Rightarrow> abilities" where
  "abilities_parse stored = filter (\<lambda>a. a \<noteq> []) (map trim (split_on CHR '','' stored))"

definition to_csv :: "abilities \<Rightarrow> string" where "to_csv a = join '','' a"

definition ability_grants :: "string \<Rightarrow> string \<Rightarrow> bool" where
  "ability_grants held wanted =
     (if held = SCOPE_EVERYTHING \<or> held = wanted then True
      else (case strip_suffix_char CHR ''*'' held of
              Some p \<Rightarrow> if p \<noteq> [] then prefix p wanted else False
            | None \<Rightarrow> False))"

definition abilities_can :: "abilities \<Rightarrow> string \<Rightarrow> bool" where
  "abilities_can a ability = list_ex (\<lambda>held. ability_grants held ability) a"

definition abilities_cannot :: "abilities \<Rightarrow> string \<Rightarrow> bool" where
  "abilities_cannot a ability \<longleftrightarrow> \<not> abilities_can a ability"

definition can_all :: "abilities \<Rightarrow> string list \<Rightarrow> bool" where
  "can_all a wanted = list_all (abilities_can a) wanted"

definition can_any :: "abilities \<Rightarrow> string list \<Rightarrow> bool" where
  "can_any a wanted = list_ex (abilities_can a) wanted"

definition is_unrestricted :: "abilities \<Rightarrow> bool" where
  "is_unrestricted a = list_ex (\<lambda>held. held = SCOPE_EVERYTHING) a"

definition abilities_is_empty :: "abilities \<Rightarrow> bool" where
  "abilities_is_empty a \<longleftrightarrow> a = []"

definition to_abilities :: "string list \<Rightarrow> abilities" where
  "to_abilities ss =
     concat (map (\<lambda>scope. scope # (if scope \<noteq> SCOPE_EVERYTHING then [scope @ '':*''] else [])) ss)"

section \<open>Namespaces\<close>

text \<open>The reference: a scope is a path of names, and holding a path grants everything below it.\<close>

definition below :: "string list \<Rightarrow> string list \<Rightarrow> bool" where
  "below held wanted \<longleftrightarrow> prefix held wanted"

lemma scope_grants_colon:
  "scope_grants held wanted \<longleftrightarrow> held = SCOPE_EVERYTHING \<or> held = wanted \<or> prefix (held @ '':'') wanted"
  by (auto simp: scope_grants_def prefix_def nth_append neq_Nil_conv)

lemma split_on_snoc_prefix:
  "prefix (split_on c a) (split_on c b) \<longleftrightarrow> a = b \<or> prefix (a @ [c]) b"
proof
  assume "prefix (split_on c a) (split_on c b)"
  then obtain zs where zs: "split_on c b = split_on c a @ zs" by (auto simp: prefix_def)
  show "a = b \<or> prefix (a @ [c]) b"
  proof (cases zs)
    case Nil
    then have "join [c] (split_on c b) = join [c] (split_on c a)" using zs by simp
    then show ?thesis by (simp only: join_split_on) simp
  next
    case (Cons z rest)
    have append: "xs \<noteq> [] \<Longrightarrow> ys \<noteq> [] \<Longrightarrow> join [c] (xs @ ys) = join [c] xs @ c # join [c] ys" for xs ys
      by (induction "[c]" xs rule: join.induct) (auto simp: neq_Nil_conv)
    have "join [c] (split_on c b) = join [c] (split_on c a) @ c # join [c] zs"
      unfolding zs by (rule append) (simp_all add: Cons)
    then have "b = a @ c # join [c] zs" by (simp only: join_split_on)
    then show ?thesis by (simp add: prefix_def)
  qed
next
  assume "a = b \<or> prefix (a @ [c]) b"
  then consider "a = b" | t where "b = a @ c # t" by (auto simp: prefix_def)
  then show "prefix (split_on c a) (split_on c b)" by cases (simp_all add: split_on_append_many)
qed

lemma scope_grants_below:
  "held \<noteq> SCOPE_EVERYTHING \<Longrightarrow>
   scope_grants held wanted \<longleftrightarrow> below (split_on CHR '':'' held) (split_on CHR '':'' wanted)"
  by (auto simp: scope_grants_colon below_def split_on_snoc_prefix)

lemma ability_grants_namespace: "s \<noteq> [] \<Longrightarrow> ability_grants (s @ '':*'') w \<longleftrightarrow> prefix (s @ '':'') w"
  by (auto simp: ability_grants_def strip_suffix_char_def SCOPE_EVERYTHING_def butlast_append)

lemma ability_grants_plain:
  "s = [] \<or> last s \<noteq> CHR ''*'' \<Longrightarrow> ability_grants s w \<longleftrightarrow> s = w"
  by (auto simp: ability_grants_def strip_suffix_char_def SCOPE_EVERYTHING_def)

text \<open>
  The two checks of a token agree: for scopes that are not empty and do not end in a star (the
  scope \<^verbatim>\<open>*\<close> itself is allowed), the abilities made of them allow exactly what the scope check
  allows, and that is exactly what lies below one of the scopes in the tree of names, or
  everything when \<^verbatim>\<open>*\<close> is held.
\<close>

theorem scopes_agree_with_abilities:
  assumes "\<forall>s \<in> set ss. s = SCOPE_EVERYTHING \<or> (s \<noteq> [] \<and> last s \<noteq> CHR ''*'')"
  shows "(abilities_can (to_abilities ss) w \<longleftrightarrow> held_grants ss w)
    \<and> (held_grants ss w \<longleftrightarrow> SCOPE_EVERYTHING \<in> set ss
      \<or> (\<exists>s \<in> set ss. below (split_on CHR '':'' s) (split_on CHR '':'' w)))"
proof -
  have one: "list_ex (\<lambda>h. ability_grants h w) (s # (if s \<noteq> SCOPE_EVERYTHING then [s @ '':*''] else []))
      \<longleftrightarrow> scope_grants s w" if "s \<in> set ss" for s
  proof (cases "s = SCOPE_EVERYTHING")
    case True
    then show ?thesis by (simp add: ability_grants_def scope_grants_def)
  next
    case False
    then have s: "s \<noteq> []" "last s \<noteq> CHR ''*''" using assms that by auto
    then have "ability_grants s w \<longleftrightarrow> s = w" by (intro ability_grants_plain) simp
    then show ?thesis using False s by (simp add: ability_grants_namespace scope_grants_colon)
  qed
  have "abilities_can (to_abilities ss) w \<longleftrightarrow>
      (\<exists>s \<in> set ss. list_ex (\<lambda>h. ability_grants h w) (s # (if s \<noteq> SCOPE_EVERYTHING then [s @ '':*''] else [])))"
    unfolding abilities_can_def to_abilities_def list_ex_iff by auto
  then have "abilities_can (to_abilities ss) w \<longleftrightarrow> held_grants ss w"
    using one unfolding held_grants_def list_ex_iff by blast
  moreover have "held_grants ss w \<longleftrightarrow> SCOPE_EVERYTHING \<in> set ss
      \<or> (\<exists>s \<in> set ss. below (split_on CHR '':'' s) (split_on CHR '':'' w))"
    unfolding held_grants_def list_ex_iff using scope_grants_below scope_grants_def by metis
  ultimately show ?thesis by blast
qed

theorem scopes_agree_with_abilities_witness:
  "abilities_can (to_abilities [''vehicles'', ''account:read'']) ''vehicles:read:location''
   \<and> \<not> abilities_can (to_abilities [''vehicles'', ''account:read'']) ''account''"
proof -
  let ?ss = "[''vehicles'', ''account:read'']"
  have "\<forall>s \<in> set ?ss. s = SCOPE_EVERYTHING \<or> (s \<noteq> [] \<and> last s \<noteq> CHR ''*'')" by simp
  note agree = scopes_agree_with_abilities [OF this, THEN conjunct1]
  have "held_grants ?ss ''vehicles:read:location'' \<and> \<not> held_grants ?ss ''account''" by code_simp
  then show ?thesis unfolding agree .
qed

text \<open>A scope that ends in a star grants more as an ability than as a scope.\<close>

lemma starred_scope_widens:
  "abilities_can (to_abilities [''posts:*'']) ''posts:read'' \<and> \<not> held_grants [''posts:*''] ''posts:read''"
  by code_simp

section \<open>The scopes of a token\<close>

lemma refuse_unknown_Inr: "refuse_unknown sc ss = Inr u \<longleftrightarrow> (\<forall>s \<in> set ss. scope_exists sc s)"
  by (induction ss) auto

lemma scopes_validate_Inr:
  "scopes_validate sc r = Inr ss \<longleftrightarrow> ss = requested_scopes sc r \<and> (\<forall>s \<in> set ss. scope_exists sc s)"
proof (cases "refuse_unknown sc (requested_scopes sc r)")
  case (Inl e)
  then have "\<not> (\<forall>s \<in> set (requested_scopes sc r). scope_exists sc s)"
    unfolding refuse_unknown_Inr [of sc _ "()", symmetric] by simp
  then show ?thesis using Inl by (auto simp: scopes_validate_def)
next
  case (Inr u)
  then have "\<forall>s \<in> set (requested_scopes sc r). scope_exists sc s"
    unfolding refuse_unknown_Inr [of sc _ u, symmetric] .
  then show ?thesis using Inr by (auto simp: scopes_validate_def)
qed

lemma finalize_onto_iff:
  "x \<in> set (finalize_onto sc keeps c ss out)
     \<longleftrightarrow> x \<in> set out \<or> (x \<in> set ss \<and> (x = SCOPE_EVERYTHING \<longrightarrow> keeps) \<and> scope_exists sc x \<and> allows_scope c x)"
proof (induction ss arbitrary: keeps out)
  case (Cons a ss)
  show ?case by (cases "a = SCOPE_EVERYTHING \<and> \<not> keeps") (auto simp: Cons.IH)
qed simp

lemma finalize_onto_distinct: "distinct out \<Longrightarrow> distinct (finalize_onto sc keeps c ss out)"
  by (induction ss arbitrary: keeps out) auto

lemma set_finalize:
  "set (finalize sc ss g c)
     = {s \<in> set ss. (s = SCOPE_EVERYTHING \<longrightarrow> keeps_everything g) \<and> scope_exists sc s \<and> allows_scope c s}"
  by (auto simp: finalize_def finalize_onto_iff)

lemma distinct_finalize [simp]: "distinct (finalize sc ss g c)"
  by (simp add: finalize_def finalize_onto_distinct)

lemma finalize_onto_id:
  "distinct (out @ ss) \<Longrightarrow> \<forall>s \<in> set ss. (s = SCOPE_EVERYTHING \<longrightarrow> keeps) \<and> scope_exists sc s \<and> allows_scope c s
   \<Longrightarrow> finalize_onto sc keeps c ss out = out @ ss"
  by (induction ss arbitrary: out) auto

text \<open>Finalising again changes nothing.\<close>

lemma finalize_idem:
  "keeps_everything g = keeps_everything h \<Longrightarrow> finalize sc (finalize sc ss g c) h c = finalize sc ss g c"
  unfolding finalize_def [of sc _ h] by (subst finalize_onto_id) (auto simp: set_finalize)

text \<open>Scopes joined with spaces are read back, where every name is printable; none is the default.\<close>

definition scope_name :: "string \<Rightarrow> bool" where
  "scope_name s \<longleftrightarrow> s \<noteq> [] \<and> (\<forall>c \<in> set s. graphic c)"

lemma space_not_graphic: "\<forall>c \<in> set s. graphic c \<Longrightarrow> CHR '' '' \<notin> set s"
  by (auto simp: graphic_def)

lemma join_hd_last:
  "ss \<noteq> [] \<Longrightarrow> \<forall>s \<in> set ss. s \<noteq> [] \<Longrightarrow>
   join sep ss \<noteq> [] \<and> hd (join sep ss) = hd (hd ss) \<and> last (join sep ss) = last (last ss)"
  by (induction sep ss rule: join.induct) auto

lemma requested_nothing [simp]: "requested_scopes sc (Some []) = sc_default sc"
  by (simp add: requested_scopes_def)

lemma requested_joined:
  assumes "\<forall>s \<in> set ss. scope_name s"
  shows "requested_scopes sc (Some (join '' '' ss)) = (if ss = [] then sc_default sc else ss)"
proof (cases "ss = []")
  case False
  have ne: "\<forall>s \<in> set ss. s \<noteq> []" and nosp: "\<forall>s \<in> set ss. CHR '' '' \<notin> set s"
    using assms by (auto simp: scope_name_def dest: space_not_graphic)
  note j = join_hd_last [OF False ne, of "'' ''"]
  have "graphic (hd (hd ss))" "graphic (last (last ss))"
    using assms hd_in_set [OF False] last_in_set [OF False] unfolding scope_name_def by auto
  then have "trim (join '' '' ss) = join '' '' ss" using j by (intro trim_id) simp_all
  moreover have "split_on CHR '' '' (join '' '' ss) = ss" using False nosp by (intro split_on_join) auto
  ultimately show ?thesis using j ne False by (simp add: requested_scopes_def filter_id_conv)
qed simp

end
