(* ===== verification/Oauth_Store.thy ===== *)
theory Oauth_Store
  imports Oauth_Scope Cache_Port
begin

text \<open>
  Where the authorization server keeps its records: the records of
  \<^verbatim>\<open>rainier-oauth-server/src/model.rs\<close>, the port and the in-process store of \<^verbatim>\<open>store.rs\<close>. An instant
  is an integer, in nanoseconds. What the server relies on is the locale \<open>claiming_store\<close>: revoking
  is claiming. A revocation of a code or of a refresh token succeeds only while it is live, and a
  credential that is dead stays dead whatever operations follow, unless a new one is created under
  its id. The in-process store is an instance.
\<close>

section \<open>Records and the port\<close>

record access_token =
  at_id :: string
  at_user_id :: "string option"
  at_client_id :: string
  at_name :: "string option"
  at_scopes :: "string list"
  at_revoked :: bool
  at_created_at :: time
  at_expires_at :: time

record refresh_record =
  rr_id :: string
  rr_access_token_id :: string
  rr_revoked :: bool
  rr_expires_at :: time

record auth_code =
  ac_id :: string
  ac_user_id :: string
  ac_client_id :: string
  ac_scopes :: "string list"
  ac_revoked :: bool
  ac_expires_at :: time

record purged =
  pg_access_tokens :: nat
  pg_refresh_tokens :: nat
  pg_auth_codes :: nat

record purge_options =
  po_revoked :: bool
  po_expired_before :: "time option"

record 's oauth_store =
  os_find_client :: "string \<Rightarrow> 's \<Rightarrow> 's \<times> client option result"
  os_personal_access_client :: "string option \<Rightarrow> 's \<Rightarrow> 's \<times> client option result"
  os_create_access_token :: "access_token \<Rightarrow> 's \<Rightarrow> 's \<times> unit result"
  os_find_access_token :: "string \<Rightarrow> 's \<Rightarrow> 's \<times> access_token option result"
  os_revoke_access_token :: "string \<Rightarrow> 's \<Rightarrow> 's \<times> bool result"
  os_create_refresh_token :: "refresh_record \<Rightarrow> 's \<Rightarrow> 's \<times> unit result"
  os_find_refresh_token :: "string \<Rightarrow> 's \<Rightarrow> 's \<times> refresh_record option result"
  os_revoke_refresh_token :: "string \<Rightarrow> 's \<Rightarrow> 's \<times> bool result"
  os_revoke_refresh_tokens_for :: "string \<Rightarrow> 's \<Rightarrow> 's \<times> nat result"
  os_create_auth_code :: "auth_code \<Rightarrow> 's \<Rightarrow> 's \<times> unit result"
  os_revoke_auth_code :: "string \<Rightarrow> 's \<Rightarrow> 's \<times> bool result"
  os_is_auth_code_revoked :: "string \<Rightarrow> 's \<Rightarrow> 's \<times> bool result"
  os_tokens_for :: "time \<Rightarrow> string \<Rightarrow> string option \<Rightarrow> 's \<Rightarrow> 's \<times> access_token list result"
  os_purge :: "purge_options \<Rightarrow> 's \<Rightarrow> 's \<times> purged result"

section \<open>The in-process store\<close>

record memory_oauth =
  mo_clients :: "(string, client) hmap"
  mo_access :: "(string, access_token) hmap"
  mo_refresh :: "(string, refresh_record) hmap"
  mo_codes :: "(string, auth_code) hmap"
  mo_personal :: "string option"

definition memory_oauth_new :: memory_oauth where
  "memory_oauth_new = \<lparr>mo_clients = [], mo_access = [], mo_refresh = [], mo_codes = [], mo_personal = None\<rparr>"

definition insert_client :: "client \<Rightarrow> memory_oauth \<Rightarrow> memory_oauth" where
  "insert_client c m = m\<lparr>mo_clients := hm_insert (cl_id c) c (mo_clients m)\<rparr>"

definition with_personal_access_client :: "string \<Rightarrow> memory_oauth \<Rightarrow> memory_oauth" where
  "with_personal_access_client i m = m\<lparr>mo_personal := Some i\<rparr>"

definition mo_find_client :: "string \<Rightarrow> memory_oauth \<Rightarrow> memory_oauth \<times> client option result" where
  "mo_find_client i m = (m, Inr (hm_get i (mo_clients m)))"

definition mo_personal_access_client ::
  "string option \<Rightarrow> memory_oauth \<Rightarrow> memory_oauth \<times> client option result"
where
  "mo_personal_access_client provider m =
     (m, Inr (Option.bind (mo_personal m) (\<lambda>i. hm_get i (mo_clients m))))"

definition mo_create_access_token :: "access_token \<Rightarrow> memory_oauth \<Rightarrow> memory_oauth \<times> unit result" where
  "mo_create_access_token t m = (m\<lparr>mo_access := hm_insert (at_id t) t (mo_access m)\<rparr>, Inr ())"

definition mo_find_access_token :: "string \<Rightarrow> memory_oauth \<Rightarrow> memory_oauth \<times> access_token option result" where
  "mo_find_access_token i m = (m, Inr (hm_get i (mo_access m)))"

text \<open>\<^verbatim>\<open>claim\<close>: set the flag of a row, and say whether this call was the one that set it.\<close>

definition claim_row ::
  "('r \<Rightarrow> bool) \<Rightarrow> ('r \<Rightarrow> 'r) \<Rightarrow> string \<Rightarrow> (string, 'r) hmap \<Rightarrow> (string, 'r) hmap \<times> bool"
where
  "claim_row flag set_flag i rows =
     (case hm_get i rows of
        Some r \<Rightarrow> if \<not> flag r then (hm_insert i (set_flag r) rows, True) else (rows, False)
      | None \<Rightarrow> (rows, False))"

definition mo_revoke_access_token :: "string \<Rightarrow> memory_oauth \<Rightarrow> memory_oauth \<times> bool result" where
  "mo_revoke_access_token i m =
     (case claim_row at_revoked (at_revoked_update (\<lambda>_. True)) i (mo_access m) of
        (rows, b) \<Rightarrow> (m\<lparr>mo_access := rows\<rparr>, Inr b))"

definition mo_create_refresh_token :: "refresh_record \<Rightarrow> memory_oauth \<Rightarrow> memory_oauth \<times> unit result" where
  "mo_create_refresh_token t m = (m\<lparr>mo_refresh := hm_insert (rr_id t) t (mo_refresh m)\<rparr>, Inr ())"

definition mo_find_refresh_token :: "string \<Rightarrow> memory_oauth \<Rightarrow> memory_oauth \<times> refresh_record option result" where
  "mo_find_refresh_token i m = (m, Inr (hm_get i (mo_refresh m)))"

definition mo_revoke_refresh_token :: "string \<Rightarrow> memory_oauth \<Rightarrow> memory_oauth \<times> bool result" where
  "mo_revoke_refresh_token i m =
     (case claim_row rr_revoked (rr_revoked_update (\<lambda>_. True)) i (mo_refresh m) of
        (rows, b) \<Rightarrow> (m\<lparr>mo_refresh := rows\<rparr>, Inr b))"

definition mo_revoke_refresh_tokens_for :: "string \<Rightarrow> memory_oauth \<Rightarrow> memory_oauth \<times> nat result" where
  "mo_revoke_refresh_tokens_for access_id m =
     (let hit = (\<lambda>t. rr_access_token_id t = access_id \<and> \<not> rr_revoked t) in
      (m\<lparr>mo_refresh := map (\<lambda>(i, t). (i, if hit t then t\<lparr>rr_revoked := True\<rparr> else t)) (mo_refresh m)\<rparr>,
       Inr (length (filter (\<lambda>(i, t). hit t) (mo_refresh m)))))"

definition mo_create_auth_code :: "auth_code \<Rightarrow> memory_oauth \<Rightarrow> memory_oauth \<times> unit result" where
  "mo_create_auth_code c m = (m\<lparr>mo_codes := hm_insert (ac_id c) c (mo_codes m)\<rparr>, Inr ())"

definition mo_revoke_auth_code :: "string \<Rightarrow> memory_oauth \<Rightarrow> memory_oauth \<times> bool result" where
  "mo_revoke_auth_code i m =
     (case claim_row ac_revoked (ac_revoked_update (\<lambda>_. True)) i (mo_codes m) of
        (rows, b) \<Rightarrow> (m\<lparr>mo_codes := rows\<rparr>, Inr b))"

definition mo_is_auth_code_revoked :: "string \<Rightarrow> memory_oauth \<Rightarrow> memory_oauth \<times> bool result" where
  "mo_is_auth_code_revoked i m =
     (m, Inr (case hm_get i (mo_codes m) of None \<Rightarrow> True | Some c \<Rightarrow> ac_revoked c))"

definition mo_tokens_for ::
  "time \<Rightarrow> string \<Rightarrow> string option \<Rightarrow> memory_oauth \<Rightarrow> memory_oauth \<times> access_token list result"
where
  "mo_tokens_for now user_id client_id m =
     (m, Inr (sort_key (\<lambda>t. - at_created_at t)
        (filter (\<lambda>t. at_user_id t = Some user_id
             \<and> (case client_id of None \<Rightarrow> True | Some c \<Rightarrow> at_client_id t = c)
             \<and> \<not> at_revoked t \<and> at_expires_at t > now) (map snd (mo_access m)))))"

definition row_dead :: "purge_options \<Rightarrow> bool \<Rightarrow> time \<Rightarrow> bool" where
  "row_dead po revoked expires_at \<longleftrightarrow>
     (po_revoked po \<and> revoked) \<or> (case po_expired_before po of Some t \<Rightarrow> expires_at < t | None \<Rightarrow> False)"

definition mo_purge :: "purge_options \<Rightarrow> memory_oauth \<Rightarrow> memory_oauth \<times> purged result" where
  "mo_purge po m =
     (let access = hm_retain (\<lambda>_ t. \<not> row_dead po (at_revoked t) (at_expires_at t)) (mo_access m);
          refresh = hm_retain (\<lambda>_ t. \<not> row_dead po (rr_revoked t) (rr_expires_at t)) (mo_refresh m);
          codes = hm_retain (\<lambda>_ c. \<not> row_dead po (ac_revoked c) (ac_expires_at c)) (mo_codes m) in
      (m\<lparr>mo_access := access, mo_refresh := refresh, mo_codes := codes\<rparr>,
       Inr \<lparr>pg_access_tokens = hm_len (mo_access m) - hm_len access,
            pg_refresh_tokens = hm_len (mo_refresh m) - hm_len refresh,
            pg_auth_codes = hm_len (mo_codes m) - hm_len codes\<rparr>))"

definition memory_oauth_store :: "memory_oauth oauth_store" where
  "memory_oauth_store =
     \<lparr>os_find_client = mo_find_client, os_personal_access_client = mo_personal_access_client,
      os_create_access_token = mo_create_access_token, os_find_access_token = mo_find_access_token,
      os_revoke_access_token = mo_revoke_access_token, os_create_refresh_token = mo_create_refresh_token,
      os_find_refresh_token = mo_find_refresh_token, os_revoke_refresh_token = mo_revoke_refresh_token,
      os_revoke_refresh_tokens_for = mo_revoke_refresh_tokens_for, os_create_auth_code = mo_create_auth_code,
      os_revoke_auth_code = mo_revoke_auth_code, os_is_auth_code_revoked = mo_is_auth_code_revoked,
      os_tokens_for = mo_tokens_for, os_purge = mo_purge\<rparr>"

lemmas memory_oauth_defs = memory_oauth_store_def mo_find_client_def mo_personal_access_client_def
  mo_create_access_token_def mo_find_access_token_def mo_revoke_access_token_def mo_create_refresh_token_def
  mo_find_refresh_token_def mo_revoke_refresh_token_def mo_revoke_refresh_tokens_for_def mo_create_auth_code_def
  mo_revoke_auth_code_def mo_is_auth_code_revoked_def mo_tokens_for_def mo_purge_def Let_def

section \<open>Sequences of operations\<close>

datatype store_op =
    FindClient string | PersonalClient "string option"
  | CreateAccess access_token | FindAccess string | RevokeAccess string
  | CreateRefresh refresh_record | FindRefresh string | RevokeRefresh string | RevokeRefreshFor string
  | CreateCode auth_code | RevokeCode string | IsCodeRevoked string
  | TokensFor time string "string option" | PurgeOp purge_options

fun exec_op :: "'s oauth_store \<Rightarrow> store_op \<Rightarrow> 's \<Rightarrow> 's" where
  "exec_op st (FindClient i) s = fst (os_find_client st i s)"
| "exec_op st (PersonalClient p) s = fst (os_personal_access_client st p s)"
| "exec_op st (CreateAccess t) s = fst (os_create_access_token st t s)"
| "exec_op st (FindAccess i) s = fst (os_find_access_token st i s)"
| "exec_op st (RevokeAccess i) s = fst (os_revoke_access_token st i s)"
| "exec_op st (CreateRefresh t) s = fst (os_create_refresh_token st t s)"
| "exec_op st (FindRefresh i) s = fst (os_find_refresh_token st i s)"
| "exec_op st (RevokeRefresh i) s = fst (os_revoke_refresh_token st i s)"
| "exec_op st (RevokeRefreshFor i) s = fst (os_revoke_refresh_tokens_for st i s)"
| "exec_op st (CreateCode c) s = fst (os_create_auth_code st c s)"
| "exec_op st (RevokeCode i) s = fst (os_revoke_auth_code st i s)"
| "exec_op st (IsCodeRevoked i) s = fst (os_is_auth_code_revoked st i s)"
| "exec_op st (TokensFor n u c) s = fst (os_tokens_for st n u c s)"
| "exec_op st (PurgeOp po) s = fst (os_purge st po s)"

text \<open>The credential an operation creates.\<close>

datatype credential = Access string | Refresh string | Code string

fun creates :: "store_op \<Rightarrow> credential option" where
  "creates (CreateAccess t) = Some (Access (at_id t))"
| "creates (CreateRefresh t) = Some (Refresh (rr_id t))"
| "creates (CreateCode c) = Some (Code (ac_id c))"
| "creates _ = None"

definition run_ops :: "'s oauth_store \<Rightarrow> store_op list \<Rightarrow> 's \<Rightarrow> 's" where
  "run_ops st ops s = fold (exec_op st) ops s"

definition avoids :: "credential \<Rightarrow> store_op list \<Rightarrow> bool" where
  "avoids c ops \<longleftrightarrow> (\<forall>opn \<in> set ops. creates opn \<noteq> Some c)"

lemma run_ops_simps [simp]:
  "run_ops st [] s = s" "run_ops st (opn # ops) s = run_ops st ops (exec_op st opn s)"
  "run_ops st (ops @ ops') s = run_ops st ops' (run_ops st ops s)"
  by (simp_all add: run_ops_def)

lemma avoids_simps [simp]:
  "avoids c []" "avoids c (opn # ops) \<longleftrightarrow> creates opn \<noteq> Some c \<and> avoids c ops"
  "avoids c (ops @ ops') \<longleftrightarrow> avoids c ops \<and> avoids c ops'"
  by (auto simp: avoids_def)

section \<open>Revoking is claiming\<close>

text \<open>
  \<open>alongside r a\<close> says that the refresh token \<open>r\<close> was issued with the access token \<open>a\<close>. The laws speak
  only of what stays true, so the operations may also contain what other servers do to a shared
  store meanwhile.
\<close>

locale claiming_store =
  fixes st :: "'s oauth_store" and ok :: "'s \<Rightarrow> bool"
    and code_dead refresh_dead access_dead :: "string \<Rightarrow> 's \<Rightarrow> bool"
    and alongside :: "string \<Rightarrow> string \<Rightarrow> 's \<Rightarrow> bool"
  assumes keeps_ok: "ok s \<Longrightarrow> ok (exec_op st opn s)"
    and stays_dead:
      "ok s \<Longrightarrow> creates opn \<noteq> Some (Code i) \<Longrightarrow> code_dead i s \<Longrightarrow> code_dead i (exec_op st opn s)"
      "ok s \<Longrightarrow> creates opn \<noteq> Some (Refresh i) \<Longrightarrow> refresh_dead i s \<Longrightarrow> refresh_dead i (exec_op st opn s)"
      "ok s \<Longrightarrow> creates opn \<noteq> Some (Access i) \<Longrightarrow> access_dead i s \<Longrightarrow> access_dead i (exec_op st opn s)"
    and stays_alongside:
      "ok s \<Longrightarrow> creates opn \<noteq> Some (Refresh r) \<Longrightarrow> alongside r a s \<Longrightarrow>
       alongside r a (exec_op st opn s) \<or> refresh_dead r (exec_op st opn s)"
    and revoke_code:
      "ok s \<Longrightarrow> os_revoke_auth_code st i s = (s', Inr b) \<Longrightarrow> code_dead i s' \<and> (b \<longrightarrow> \<not> code_dead i s)"
    and revoke_refresh:
      "ok s \<Longrightarrow> os_revoke_refresh_token st i s = (s', Inr b) \<Longrightarrow> refresh_dead i s' \<and> (b \<longrightarrow> \<not> refresh_dead i s)"
    and revoke_access: "ok s \<Longrightarrow> os_revoke_access_token st i s = (s', Inr b) \<Longrightarrow> access_dead i s'"
    and revoke_alongside:
      "ok s \<Longrightarrow> os_revoke_refresh_tokens_for st a s = (s', Inr n) \<Longrightarrow> alongside r a s \<Longrightarrow> refresh_dead r s'"
    and find_access:
      "ok s \<Longrightarrow> os_find_access_token st i s = (s', Inr (Some t)) \<Longrightarrow> access_dead i s \<Longrightarrow> at_revoked t"
    and find_refresh:
      "ok s \<Longrightarrow> os_find_refresh_token st i s = (s', Inr (Some row)) \<Longrightarrow> refresh_dead i s \<Longrightarrow> rr_revoked row"
begin

lemma run_keeps_ok: "ok s \<Longrightarrow> ok (run_ops st ops s)"
  by (induction ops arbitrary: s) (auto intro: keeps_ok)

lemma run_code_dead: "ok s \<Longrightarrow> avoids (Code i) ops \<Longrightarrow> code_dead i s \<Longrightarrow> code_dead i (run_ops st ops s)"
  by (induction ops arbitrary: s) (auto intro: stays_dead keeps_ok)

lemma run_refresh_dead: "ok s \<Longrightarrow> avoids (Refresh i) ops \<Longrightarrow> refresh_dead i s \<Longrightarrow> refresh_dead i (run_ops st ops s)"
  by (induction ops arbitrary: s) (auto intro: stays_dead keeps_ok)

lemma run_access_dead: "ok s \<Longrightarrow> avoids (Access i) ops \<Longrightarrow> access_dead i s \<Longrightarrow> access_dead i (run_ops st ops s)"
  by (induction ops arbitrary: s) (auto intro: stays_dead keeps_ok)

text \<open>A credential is claimed once, whatever happens in between.\<close>

lemma revoke_code_dead: "ok s \<Longrightarrow> code_dead i s \<Longrightarrow> snd (os_revoke_auth_code st i s) \<noteq> Inr True"
  using revoke_code by (metis prod.collapse)

lemma revoke_refresh_dead: "ok s \<Longrightarrow> refresh_dead i s \<Longrightarrow> snd (os_revoke_refresh_token st i s) \<noteq> Inr True"
  using revoke_refresh by (metis prod.collapse)

end

text \<open>In the in-process store a credential is dead when its row is revoked or gone.\<close>

definition dead_row :: "('r \<Rightarrow> bool) \<Rightarrow> string \<Rightarrow> (string, 'r) hmap \<Rightarrow> bool" where
  "dead_row flag i rows = (case hm_get i rows of None \<Rightarrow> True | Some r \<Rightarrow> flag r)"

definition mo_code_dead :: "string \<Rightarrow> memory_oauth \<Rightarrow> bool" where
  "mo_code_dead i m = dead_row ac_revoked i (mo_codes m)"

definition mo_refresh_dead :: "string \<Rightarrow> memory_oauth \<Rightarrow> bool" where
  "mo_refresh_dead i m = dead_row rr_revoked i (mo_refresh m)"

definition mo_access_dead :: "string \<Rightarrow> memory_oauth \<Rightarrow> bool" where
  "mo_access_dead i m = dead_row at_revoked i (mo_access m)"

lemmas mo_dead_defs = mo_code_dead_def mo_refresh_dead_def mo_access_dead_def

lemma dead_row_insert [simp]:
  "dead_row flag i (hm_insert j r rows) = (if i = j then flag r else dead_row flag i rows)"
  by (simp add: dead_row_def)

lemma dead_row_retain: "hm_wf rows \<Longrightarrow> dead_row flag i rows \<Longrightarrow> dead_row flag i (hm_retain P rows)"
  by (auto simp: dead_row_def hm_get_retain split: option.splits)

lemma dead_row_map: "(\<And>r. flag r \<Longrightarrow> flag (f r)) \<Longrightarrow> dead_row flag i rows \<Longrightarrow> dead_row flag i (map (\<lambda>(k, r). (k, f r)) rows)"
  by (auto simp: dead_row_def hm_get_def map_of_map split: option.splits)

lemma dead_row_claim:
  assumes "\<And>r. flag (set_flag r)"
  shows "dead_row flag i (fst (claim_row flag set_flag i rows))"
    and "snd (claim_row flag set_flag i rows) \<longleftrightarrow> \<not> dead_row flag i rows"
    and "dead_row flag j rows \<Longrightarrow> dead_row flag j (fst (claim_row flag set_flag i rows))"
  using assms by (auto simp: claim_row_def dead_row_def split: option.splits)

definition mo_wf :: "memory_oauth \<Rightarrow> bool" where
  "mo_wf m \<longleftrightarrow> hm_wf (mo_access m) \<and> hm_wf (mo_refresh m) \<and> hm_wf (mo_codes m)"

lemma hm_wf_claim [simp]: "hm_wf rows \<Longrightarrow> hm_wf (fst (claim_row flag set_flag i rows))"
  by (auto simp: claim_row_def split: option.splits)

lemma hm_wf_map [simp]: "hm_wf (map (\<lambda>(k, r). (k, f k r)) rows) = hm_wf rows"
proof -
  have "map fst (map (\<lambda>(k, r). (k, f k r)) rows) = map fst rows" by (induction rows) auto
  then show ?thesis unfolding hm_wf_def by (simp only:)
qed

lemma exec_memory:
  "exec_op memory_oauth_store (FindClient i) m = m" "exec_op memory_oauth_store (PersonalClient p) m = m"
  "exec_op memory_oauth_store (FindAccess i) m = m" "exec_op memory_oauth_store (FindRefresh i) m = m"
  "exec_op memory_oauth_store (IsCodeRevoked i) m = m" "exec_op memory_oauth_store (TokensFor n u c) m = m"
  "exec_op memory_oauth_store (CreateAccess t) m = m\<lparr>mo_access := hm_insert (at_id t) t (mo_access m)\<rparr>"
  "exec_op memory_oauth_store (CreateRefresh r) m = m\<lparr>mo_refresh := hm_insert (rr_id r) r (mo_refresh m)\<rparr>"
  "exec_op memory_oauth_store (CreateCode k) m = m\<lparr>mo_codes := hm_insert (ac_id k) k (mo_codes m)\<rparr>"
  "exec_op memory_oauth_store (RevokeAccess i) m
     = m\<lparr>mo_access := fst (claim_row at_revoked (at_revoked_update (\<lambda>_. True)) i (mo_access m))\<rparr>"
  "exec_op memory_oauth_store (RevokeRefresh i) m
     = m\<lparr>mo_refresh := fst (claim_row rr_revoked (rr_revoked_update (\<lambda>_. True)) i (mo_refresh m))\<rparr>"
  "exec_op memory_oauth_store (RevokeCode i) m
     = m\<lparr>mo_codes := fst (claim_row ac_revoked (ac_revoked_update (\<lambda>_. True)) i (mo_codes m))\<rparr>"
  "exec_op memory_oauth_store (RevokeRefreshFor a) m
     = m\<lparr>mo_refresh := map (\<lambda>(i, t). (i, if rr_access_token_id t = a \<and> \<not> rr_revoked t then t\<lparr>rr_revoked := True\<rparr> else t))
         (mo_refresh m)\<rparr>"
  "exec_op memory_oauth_store (PurgeOp po) m
     = m\<lparr>mo_access := hm_retain (\<lambda>_ t. \<not> row_dead po (at_revoked t) (at_expires_at t)) (mo_access m),
         mo_refresh := hm_retain (\<lambda>_ t. \<not> row_dead po (rr_revoked t) (rr_expires_at t)) (mo_refresh m),
         mo_codes := hm_retain (\<lambda>_ c. \<not> row_dead po (ac_revoked c) (ac_expires_at c)) (mo_codes m)\<rparr>"
  by (simp_all add: memory_oauth_defs split_def)

lemma mo_wf_op: "mo_wf m \<Longrightarrow> mo_wf (exec_op memory_oauth_store opn m)"
  by (cases opn) (simp_all only: exec_memory, simp_all add: mo_wf_def)

lemma mo_stays_dead:
  assumes "mo_wf m"
  shows "(creates opn \<noteq> Some (Code i) \<longrightarrow> mo_code_dead i m \<longrightarrow> mo_code_dead i (exec_op memory_oauth_store opn m))
    \<and> (creates opn \<noteq> Some (Refresh i) \<longrightarrow> mo_refresh_dead i m \<longrightarrow> mo_refresh_dead i (exec_op memory_oauth_store opn m))
    \<and> (creates opn \<noteq> Some (Access i) \<longrightarrow> mo_access_dead i m \<longrightarrow> mo_access_dead i (exec_op memory_oauth_store opn m))"
  using assms
  by (cases opn; force simp: exec_memory mo_dead_defs mo_wf_def dead_row_retain dead_row_claim(3) dead_row_map
      simp del: exec_op.simps)

lemma memory_claims:
  "os_revoke_auth_code memory_oauth_store i m
     = (exec_op memory_oauth_store (RevokeCode i) m, Inr (\<not> mo_code_dead i m))"
  "os_revoke_refresh_token memory_oauth_store i m
     = (exec_op memory_oauth_store (RevokeRefresh i) m, Inr (\<not> mo_refresh_dead i m))"
  "os_revoke_access_token memory_oauth_store i m
     = (exec_op memory_oauth_store (RevokeAccess i) m, Inr (\<not> mo_access_dead i m))"
  by (simp_all add: exec_memory memory_oauth_defs mo_dead_defs split_def dead_row_claim(2))

definition mo_alongside :: "string \<Rightarrow> string \<Rightarrow> memory_oauth \<Rightarrow> bool" where
  "mo_alongside r a m = (case hm_get r (mo_refresh m) of Some t \<Rightarrow> rr_access_token_id t = a | None \<Rightarrow> False)"

lemma hm_get_map: "hm_get k (map (\<lambda>(i, t). (i, f t)) rows) = map_option f (hm_get k rows)"
  by (simp add: hm_get_def map_of_map)

lemma mo_stays_alongside:
  assumes "mo_wf m" "creates opn \<noteq> Some (Refresh r)" "mo_alongside r a m"
  shows "mo_alongside r a (exec_op memory_oauth_store opn m) \<or> mo_refresh_dead r (exec_op memory_oauth_store opn m)"
  using assms
  by (cases opn; force simp: exec_memory mo_alongside_def mo_refresh_dead_def dead_row_def mo_wf_def hm_get_retain
      claim_row_def hm_get_map simp del: exec_op.simps split: option.splits)

interpretation mo: claiming_store memory_oauth_store mo_wf mo_code_dead mo_refresh_dead mo_access_dead mo_alongside
proof (unfold_locales, goal_cases)
  case (1 m opn)
  then show ?case by (rule mo_wf_op)
next
  case (2 m opn i)
  then show ?case using mo_stays_dead by blast
next
  case (3 m opn i)
  then show ?case using mo_stays_dead by blast
next
  case (4 m opn i)
  then show ?case using mo_stays_dead by blast
next
  case (5 m opn r a)
  then show ?case by (rule mo_stays_alongside)
next
  case (9 m a m' n r)
  then show ?case
    by (auto simp: memory_oauth_defs mo_alongside_def mo_refresh_dead_def dead_row_def hm_get_map split: option.splits)
next
  case (10 m i m' t)
  then show ?case by (auto simp: memory_oauth_defs mo_access_dead_def dead_row_def)
next
  case (11 m i m' t)
  then show ?case by (auto simp: memory_oauth_defs mo_refresh_dead_def dead_row_def)
qed (auto simp: memory_claims exec_memory mo_dead_defs dead_row_claim(1) simp del: exec_op.simps)

end
