(* ===== verification/Oauth_Server.thy ===== *)
theory Oauth_Server
  imports Oauth_Store Session
begin

text \<open>
  The authorization server, \<^verbatim>\<open>rainier-oauth-server/src\<close>: the sealed payloads (\<^verbatim>\<open>codec.rs\<close>), the token
  endpoint with its four grants, the two halves of the authorization endpoint, personal access
  tokens and revocation (\<^verbatim>\<open>server.rs\<close>), the authorization kept in the session across the consent
  screen (\<^verbatim>\<open>session.rs\<close>), resource owners (\<^verbatim>\<open>owners.rs\<close>), PKCE (\<^verbatim>\<open>pkce.rs\<close>) and the guard of the API side
  (\<^verbatim>\<open>guard.rs\<close>). The store, the sealer, the signer of access tokens and the hasher are ports of the
  code and records of functions here; \<open>oauth_deps\<close> holds what third-party packages provide. An
  \<open>oauth_turn\<close> is what one request draws from the outside: the clock, at each place it is read, and
  the random bytes. \<^verbatim>\<open>DateTime\<close> additions that overflow, which panic, are not modelled.
\<close>

section \<open>Ports and parameters\<close>

record token_sealer =
  ts_seal :: "string \<Rightarrow> string \<Rightarrow> string result"
  ts_open :: "string \<Rightarrow> string result"

record access_claims =
  cm_id :: string
  cm_client_id :: string
  cm_user_id :: "string option"
  cm_scopes :: "string list"
  cm_issued_at :: time
  cm_expires_at :: time

record verified_token =
  vt_id :: string
  vt_client_id :: string
  vt_subject :: string
  vt_scopes :: "string list"
  vt_expires_at :: time

record token_signer =
  sg_sign :: "access_claims \<Rightarrow> string result"
  sg_verify :: "time \<Rightarrow> string \<Rightarrow> verified_token result"

record oauth_deps =
  od_parsers :: parsers
  od_base64 :: "string \<Rightarrow> string option"
  od_b64url :: "string \<Rightarrow> string"
  od_sha256 :: "string \<Rightarrow> string"
  od_to_text :: "json \<Rightarrow> string"
  od_of_text :: "string \<Rightarrow> json option"
  od_from_std :: "duration \<Rightarrow> int option"
  od_max_delta :: int
  od_valid :: header_check

record oauth_turn =
  ot_now :: time
  ot_issue :: time
  ot_answer :: time
  ot_access :: string
  ot_refresh :: string
  ot_code :: string
  ot_nonce :: string

definition timestamp :: "time \<Rightarrow> int" where "timestamp t = t div 1000000000"

text \<open>\<^verbatim>\<open>TimeDelta::num_seconds\<close> rounds towards zero.\<close>

definition num_seconds :: "int \<Rightarrow> int" where
  "num_seconds d = (if d < 0 then - ((- d) div 1000000000) else d div 1000000000)"

definition chrono_duration :: "oauth_deps \<Rightarrow> duration \<Rightarrow> int" where
  "chrono_duration d dur = (case od_from_std d dur of Some x \<Rightarrow> x | None \<Rightarrow> od_max_delta d)"

section \<open>Payloads\<close>

record refresh_payload =
  rp_client_id :: string
  rp_refresh_token_id :: string
  rp_access_token_id :: string
  rp_scopes :: "string list"
  rp_user_id :: "string option"
  rp_expire_time :: int

record code_payload =
  cp_client_id :: string
  cp_redirect_uri :: "string option"
  cp_auth_code_id :: string
  cp_scopes :: "string list"
  cp_user_id :: "string option"
  cp_expire_time :: int
  cp_code_challenge :: "string option"
  cp_code_challenge_method :: "string option"

text \<open>
  The derived (de)serialisation, as JSON objects: a text or a list of texts is required, an optional
  text may be null or missing, and the user id must be there and may be a number.
\<close>

definition json_opt :: "string option \<Rightarrow> json" where
  "json_opt x = (case x of None \<Rightarrow> JNull | Some s \<Rightarrow> JString s)"

definition get_text :: "string \<Rightarrow> (string, json) hmap \<Rightarrow> string option" where
  "get_text k m = (case hm_get k m of Some (JString s) \<Rightarrow> Some s | _ \<Rightarrow> None)"

fun text_list :: "json list \<Rightarrow> string list option" where
  "text_list [] = Some []"
| "text_list (JString s # vs) = map_option (\<lambda>ss. s # ss) (text_list vs)"
| "text_list (_ # vs) = None"

definition get_texts :: "string \<Rightarrow> (string, json) hmap \<Rightarrow> string list option" where
  "get_texts k m = (case hm_get k m of Some (JArray vs) \<Rightarrow> text_list vs | _ \<Rightarrow> None)"

definition get_opt :: "string \<Rightarrow> (string, json) hmap \<Rightarrow> string option option" where
  "get_opt k m =
     (case hm_get k m of
        None \<Rightarrow> Some None | Some JNull \<Rightarrow> Some None | Some (JString s) \<Rightarrow> Some (Some s) | _ \<Rightarrow> None)"

definition string_or_number :: "string \<Rightarrow> (string, json) hmap \<Rightarrow> string option option" where
  "string_or_number k m =
     (case hm_get k m of
        Some JNull \<Rightarrow> Some None
      | Some (JString s) \<Rightarrow> Some (Some s)
      | Some (JNumber n) \<Rightarrow> map_option (\<lambda>i. Some (int_dec i)) (parse_i64 n)
      | _ \<Rightarrow> None)"

definition get_i64 :: "string \<Rightarrow> (string, json) hmap \<Rightarrow> int option" where
  "get_i64 k m = (case hm_get k m of Some (JNumber n) \<Rightarrow> parse_i64 n | _ \<Rightarrow> None)"

definition refresh_to_json :: "refresh_payload \<Rightarrow> json" where
  "refresh_to_json p = JObject
     [(''client_id'', JString (rp_client_id p)), (''refresh_token_id'', JString (rp_refresh_token_id p)),
      (''access_token_id'', JString (rp_access_token_id p)), (''scopes'', JArray (map JString (rp_scopes p))),
      (''user_id'', json_opt (rp_user_id p)), (''expire_time'', JNumber (int_dec (rp_expire_time p)))]"

definition refresh_of_json :: "json \<Rightarrow> refresh_payload option" where
  "refresh_of_json v =
     (case v of
        JObject m \<Rightarrow>
          (case (get_text ''client_id'' m, get_text ''refresh_token_id'' m, get_text ''access_token_id'' m,
                 get_texts ''scopes'' m, string_or_number ''user_id'' m, get_i64 ''expire_time'' m) of
             (Some c, Some r, Some a, Some ss, Some u, Some e) \<Rightarrow>
               Some \<lparr>rp_client_id = c, rp_refresh_token_id = r, rp_access_token_id = a, rp_scopes = ss,
                     rp_user_id = u, rp_expire_time = e\<rparr>
           | _ \<Rightarrow> None)
      | _ \<Rightarrow> None)"

definition code_to_json :: "code_payload \<Rightarrow> json" where
  "code_to_json p = JObject
     [(''client_id'', JString (cp_client_id p)), (''redirect_uri'', json_opt (cp_redirect_uri p)),
      (''auth_code_id'', JString (cp_auth_code_id p)), (''scopes'', JArray (map JString (cp_scopes p))),
      (''user_id'', json_opt (cp_user_id p)), (''expire_time'', JNumber (int_dec (cp_expire_time p))),
      (''code_challenge'', json_opt (cp_code_challenge p)),
      (''code_challenge_method'', json_opt (cp_code_challenge_method p))]"

definition code_of_json :: "json \<Rightarrow> code_payload option" where
  "code_of_json v =
     (case v of
        JObject m \<Rightarrow>
          (case (get_text ''client_id'' m, get_opt ''redirect_uri'' m, get_text ''auth_code_id'' m,
                 get_texts ''scopes'' m, string_or_number ''user_id'' m, get_i64 ''expire_time'' m,
                 get_opt ''code_challenge'' m, get_opt ''code_challenge_method'' m) of
             (Some c, Some r, Some a, Some ss, Some u, Some e, Some ch, Some me) \<Rightarrow>
               Some \<lparr>cp_client_id = c, cp_redirect_uri = r, cp_auth_code_id = a, cp_scopes = ss,
                     cp_user_id = u, cp_expire_time = e, cp_code_challenge = ch,
                     cp_code_challenge_method = me\<rparr>
           | _ \<Rightarrow> None)
      | _ \<Rightarrow> None)"

definition seal_json :: "oauth_deps \<Rightarrow> token_sealer \<Rightarrow> string \<Rightarrow> json \<Rightarrow> string result" where
  "seal_json d sealer nonce v = ts_seal sealer nonce (od_to_text d v)"

definition open_json :: "oauth_deps \<Rightarrow> token_sealer \<Rightarrow> (json \<Rightarrow> 'a option) \<Rightarrow> string \<Rightarrow> 'a option" where
  "open_json d sealer of_json sealed =
     (case ts_open sealer sealed of
        Inl _ \<Rightarrow> None
      | Inr plain \<Rightarrow> Option.bind (od_of_text d plain) of_json)"

section \<open>Steps over the store\<close>

type_synonym ('s, 'a) step = "'s \<Rightarrow> 's \<times> (oauth_error + 'a)"

definition give :: "'a \<Rightarrow> ('s, 'a) step" where "give a s = (s, Inr a)"

definition refuse :: "oauth_error \<Rightarrow> ('s, 'a) step" where "refuse e s = (s, Inl e)"

definition lift :: "oauth_error + 'a \<Rightarrow> ('s, 'a) step" where "lift r s = (s, r)"

definition chain :: "('s, 'a) step \<Rightarrow> ('a \<Rightarrow> ('s, 'b) step) \<Rightarrow> ('s, 'b) step" where
  "chain m f s = (case m s of (s', Inl e) \<Rightarrow> (s', Inl e) | (s', Inr a) \<Rightarrow> f a s')"

text \<open>\<^verbatim>\<open>?\<close> on a result of the framework turns its error into a server error.\<close>

definition from_store :: "('s \<Rightarrow> 's \<times> 'a result) \<Rightarrow> ('s, 'a) step" where
  "from_store m s = (case m s of (s', Inl e) \<Rightarrow> (s', Inl (oe_from_error e)) | (s', Inr a) \<Rightarrow> (s', Inr a))"

definition from_result :: "'a result \<Rightarrow> ('s, 'a) step" where
  "from_result r s = (case r of Inl e \<Rightarrow> (s, Inl (oe_from_error e)) | Inr a \<Rightarrow> (s, Inr a))"

section \<open>Reading a request\<close>

definition scalar :: "json option \<Rightarrow> string option" where
  "scalar v =
     (case (case v of
              Some (JString s) \<Rightarrow> Some (trim s) | Some (JNumber n) \<Rightarrow> Some n
            | Some (JBool b) \<Rightarrow> Some (if b then ''true'' else ''false'') | _ \<Rightarrow> None) of
        Some text \<Rightarrow> if text \<noteq> [] then Some text else None
      | None \<Rightarrow> None)"

definition body_param :: "oauth_deps \<Rightarrow> routed \<Rightarrow> string \<Rightarrow> string option" where
  "body_param d rq name = scalar (hm_get name (as_object (body_input (od_parsers d) rq)))"

definition query_param :: "oauth_deps \<Rightarrow> routed \<Rightarrow> string \<Rightarrow> string option" where
  "query_param d rq name = scalar (hm_get name (as_object (query_input (od_parsers d) rq)))"

definition basic_credentials :: "oauth_deps \<Rightarrow> routed \<Rightarrow> string option \<times> string option" where
  "basic_credentials d rq =
     (case request_header ''authorization'' rq of
        None \<Rightarrow> (None, None)
      | Some header \<Rightarrow>
          if length header < 6 \<or> \<not> eq_ignore_ascii_case (take 6 header) ''basic '' then (None, None)
          else (case od_base64 d (trim (drop 6 header)) of
             None \<Rightarrow> (None, None)
           | Some decoded \<Rightarrow>
               if \<not> utf8_valid decoded then (None, None)
               else (case split_once CHR '':'' decoded of
                       Some (user, password) \<Rightarrow> if user = [] then (None, None) else (Some user, Some password)
                     | None \<Rightarrow> (None, None))))"

definition is_pkce_string :: "string \<Rightarrow> bool" where
  "is_pkce_string v \<longleftrightarrow> 43 \<le> length v \<and> length v \<le> 128
     \<and> list_all (\<lambda>c. byte_in 48 57 c \<or> byte_in 65 90 c \<or> byte_in 97 122 c \<or> c \<in> set ''-._~'') v"

definition strip_loopback_port :: "string \<Rightarrow> string option" where
  "strip_loopback_port uri =
     (if \<not> prefix ''http://'' uri then None
      else (let rest = drop 7 uri;
                authority = takeWhile (\<lambda>c. c \<notin> set ''/?#'') rest;
                path = dropWhile (\<lambda>c. c \<notin> set ''/?#'') rest;
                host = (if prefix ''['' authority
                        then map_option (\<lambda>p. fst p @ '']'') (split_once CHR '']'' authority)
                        else Some (hd (split_on CHR '':'' authority))) in
            case host of
              None \<Rightarrow> None
            | Some h \<Rightarrow> if h = ''127.0.0.1'' \<or> h = ''[::1]'' then Some (''http://'' @ h @ path) else None))"

definition redirect_uri_allowed :: "string \<Rightarrow> string list \<Rightarrow> bool" where
  "redirect_uri_allowed uri allowed =
     (case strip_loopback_port uri of
        Some stripped \<Rightarrow> list_ex (\<lambda>a. strip_loopback_port a = Some stripped) allowed
      | None \<Rightarrow> list_ex (\<lambda>a. a = uri) allowed)"

definition pkce_verifier :: "oauth_deps \<Rightarrow> string \<Rightarrow> string" where
  "pkce_verifier d random = od_b64url d random"

definition pkce_challenge :: "oauth_deps \<Rightarrow> string \<Rightarrow> string" where
  "pkce_challenge d verifier = od_b64url d (od_sha256 d verifier)"

section \<open>The server\<close>

record lifetimes =
  lt_access_token :: duration
  lt_refresh_token :: duration
  lt_auth_code :: duration
  lt_personal_access_token :: duration

definition oauth_secs :: "nat \<Rightarrow> duration" where "oauth_secs n = n * 1000000000"

definition lifetimes_default :: lifetimes where
  "lifetimes_default =
     \<lparr>lt_access_token = oauth_secs (60 * 60), lt_refresh_token = oauth_secs (30 * 24 * 60 * 60),
      lt_auth_code = oauth_secs (10 * 60), lt_personal_access_token = oauth_secs (365 * 24 * 60 * 60)\<rparr>"

type_synonym owners = "string \<Rightarrow> string \<Rightarrow> client \<Rightarrow> string option result"

record 's auth_server =
  as_store :: "'s oauth_store"
  as_sealer :: token_sealer
  as_signer :: token_signer
  as_hasher :: "string \<Rightarrow> string \<Rightarrow> bool"
  as_scopes :: scopes
  as_owners :: "owners option"
  as_lifetimes :: lifetimes
  as_rotate :: bool
  as_require_pkce :: bool
  as_allow_plain :: bool

definition auth_server_new ::
  "'s oauth_store \<Rightarrow> token_sealer \<Rightarrow> token_signer \<Rightarrow> (string \<Rightarrow> string \<Rightarrow> bool) \<Rightarrow> 's auth_server"
where
  "auth_server_new store sealer signer hasher =
     \<lparr>as_store = store, as_sealer = sealer, as_signer = signer, as_hasher = hasher, as_scopes = scopes_new,
      as_owners = None, as_lifetimes = lifetimes_default, as_rotate = True, as_require_pkce = True,
      as_allow_plain = True\<rparr>"

definition password_grant :: "owners \<Rightarrow> 's auth_server \<Rightarrow> 's auth_server" where
  "password_grant owners srv = srv\<lparr>as_owners := Some owners\<rparr>"

record authorization_request =
  ar_client_id :: string
  ar_client_name :: string
  ar_redirect_uri :: "string option"
  ar_final_redirect_uri :: string
  ar_state :: "string option"
  ar_scopes :: "string list"
  ar_code_challenge :: "string option"
  ar_code_challenge_method :: "string option"

record issued =
  is_access :: access_token
  is_jwt :: string
  is_refresh :: "string option"

definition active_client :: "'s auth_server \<Rightarrow> string \<Rightarrow> ('s, client option) step" where
  "active_client srv i =
     chain (from_store (os_find_client (as_store srv) i))
       (\<lambda>c. give (case c of Some cl \<Rightarrow> if \<not> cl_revoked cl then Some cl else None | None \<Rightarrow> None))"

definition authenticate_client ::
  "'s auth_server \<Rightarrow> oauth_deps \<Rightarrow> routed \<Rightarrow> string \<Rightarrow> ('s, client) step"
where
  "authenticate_client srv d rq g =
     (let (basic_id, basic_secret) = basic_credentials d rq;
          secret = (case body_param d rq ''client_secret'' of
                      Some x \<Rightarrow> x | None \<Rightarrow> (case basic_secret of Some x \<Rightarrow> x | None \<Rightarrow> [])) in
      case (case body_param d rq ''client_id'' of Some i \<Rightarrow> Some i | None \<Rightarrow> basic_id) of
        None \<Rightarrow> refuse (invalid_request ''client_id'')
      | Some client_id \<Rightarrow>
          chain (active_client srv client_id) (\<lambda>found_client.
            case found_client of
              None \<Rightarrow> refuse invalid_client
            | Some client \<Rightarrow>
                if \<not> supports_grant client g then refuse unauthorized_client
                else if is_confidential client then
                  (if secret = [] then refuse (invalid_request ''client_secret'')
                   else if \<not> as_hasher srv secret (case cl_secret_hash client of Some h \<Rightarrow> h | None \<Rightarrow> [])
                   then refuse invalid_client
                   else give client)
                else give client))"

definition issue ::
  "'s auth_server \<Rightarrow> oauth_deps \<Rightarrow> oauth_turn \<Rightarrow> client \<Rightarrow> string option \<Rightarrow> string list \<Rightarrow> duration \<Rightarrow> bool
   \<Rightarrow> string option \<Rightarrow> ('s, issued) step"
where
  "issue srv d t client user_id ss lifetime with_refresh name =
     (let now = ot_issue t;
          access = \<lparr>at_id = new_identifier (ot_access t), at_user_id = user_id, at_client_id = cl_id client,
                    at_name = name, at_scopes = ss, at_revoked = False, at_created_at = now,
                    at_expires_at = now + chrono_duration d lifetime\<rparr> in
      chain (from_store (os_create_access_token (as_store srv) access)) (\<lambda>_.
      chain (from_result (sg_sign (as_signer srv)
          \<lparr>cm_id = at_id access, cm_client_id = cl_id client, cm_user_id = user_id, cm_scopes = ss,
           cm_issued_at = now, cm_expires_at = at_expires_at access\<rparr>)) (\<lambda>jwt.
      if with_refresh \<and> supports_grant client REFRESH_TOKEN then
        (let row = \<lparr>rr_id = new_identifier (ot_refresh t), rr_access_token_id = at_id access, rr_revoked = False,
                    rr_expires_at = now + chrono_duration d (lt_refresh_token (as_lifetimes srv))\<rparr> in
         chain (from_store (os_create_refresh_token (as_store srv) row)) (\<lambda>_.
         chain (from_result (seal_json d (as_sealer srv) (ot_nonce t) (refresh_to_json
             \<lparr>rp_client_id = cl_id client, rp_refresh_token_id = rr_id row, rp_access_token_id = at_id access,
              rp_scopes = ss, rp_user_id = user_id, rp_expire_time = timestamp (rr_expires_at row)\<rparr>))) (\<lambda>sealed.
         give \<lparr>is_access = access, is_jwt = jwt, is_refresh = Some sealed\<rparr>)))
      else give \<lparr>is_access = access, is_jwt = jwt, is_refresh = None\<rparr>)))"

section \<open>The token endpoint\<close>

definition check_redirect :: "code_payload \<Rightarrow> string option \<Rightarrow> oauth_error + unit" where
  "check_redirect p redirect_uri =
     (case (cp_redirect_uri p, redirect_uri) of
        (Some _, None) \<Rightarrow> Inl (invalid_request ''redirect_uri'')
      | (expected, Some given) \<Rightarrow>
          if expected \<noteq> Some given
          then Inl (with_hint ''Invalid redirect URI'' (invalid_request ''redirect_uri''))
          else Inr ()
      | _ \<Rightarrow> Inr ())"

definition check_verifier ::
  "'s auth_server \<Rightarrow> oauth_deps \<Rightarrow> code_payload \<Rightarrow> string option \<Rightarrow> oauth_error + unit"
where
  "check_verifier srv d p verifier =
     (case (cp_code_challenge p, verifier) of
        (None, Some _) \<Rightarrow>
          Inl (with_hint ''code_verifier received when no code_challenge is present''
                 (invalid_request ''code_challenge''))
      | (Some challenge, _) \<Rightarrow>
          (case verifier of
             None \<Rightarrow> Inl (invalid_request ''code_verifier'')
           | Some v \<Rightarrow>
               if \<not> is_pkce_string v
               then Inl (with_hint ''Code Verifier must follow the specifications of RFC-7636.''
                           (invalid_request ''code_verifier''))
               else (let method = (case cp_code_challenge_method p of Some m \<Rightarrow> m | None \<Rightarrow> ''plain'');
                         computed = (if method = ''S256'' then Some (pkce_challenge d v)
                                     else if method = ''plain'' \<and> as_allow_plain srv then Some v else None) in
                     case computed of
                       None \<Rightarrow> Inl (oe_server_error (''unsupported code challenge method '' @ backquoted method))
                     | Some c \<Rightarrow>
                         if c \<noteq> challenge then Inl (invalid_grant (''Failed to verify '' @ backquoted ''code_verifier'' @ ''.''))
                         else Inr ()))
      | (None, None) \<Rightarrow> Inr ())"

definition authorization_code :: "'s auth_server \<Rightarrow> oauth_deps \<Rightarrow> oauth_turn \<Rightarrow> routed \<Rightarrow> ('s, issued) step" where
  "authorization_code srv d t rq =
     chain (authenticate_client srv d rq AUTHORIZATION_CODE) (\<lambda>client.
     case body_param d rq ''code'' of
       None \<Rightarrow> refuse (invalid_request ''code'')
     | Some sealed \<Rightarrow>
     (case open_json d (as_sealer srv) code_of_json sealed of
       None \<Rightarrow> refuse (invalid_grant ''Cannot validate the provided authorization code'')
     | Some p \<Rightarrow>
     if cp_expire_time p < timestamp (ot_now t) then refuse (invalid_grant ''Authorization code has expired'')
     else if cp_client_id p \<noteq> cl_id client
     then refuse (with_hint ''Authorization code was not issued to this client'' (invalid_request ''code''))
     else
     chain (lift (check_redirect p (body_param d rq ''redirect_uri''))) (\<lambda>_.
     chain (lift (check_verifier srv d p (body_param d rq ''code_verifier''))) (\<lambda>_.
     chain (lift (scopes_validate (as_scopes srv) (Some (join '' '' (cp_scopes p))))) (\<lambda>ss.
     chain (from_store (os_revoke_auth_code (as_store srv) (cp_auth_code_id p))) (\<lambda>spent.
     if \<not> spent then refuse (invalid_grant ''Authorization code has been revoked'')
     else issue srv d t client (cp_user_id p) (finalize (as_scopes srv) ss AUTHORIZATION_CODE client)
            (lt_access_token (as_lifetimes srv)) True None))))))"

definition refresh_live :: "'s auth_server \<Rightarrow> refresh_payload \<Rightarrow> ('s, unit) step" where
  "refresh_live srv old =
     (if as_rotate srv then
        chain (from_store (os_revoke_refresh_token (as_store srv) (rp_refresh_token_id old))) (\<lambda>spent.
          if \<not> spent then refuse (invalid_refresh_token ''Token has been revoked'') else give ())
      else
        chain (from_store (os_find_refresh_token (as_store srv) (rp_refresh_token_id old))) (\<lambda>row.
          if (case row of None \<Rightarrow> True | Some r \<Rightarrow> rr_revoked r)
          then refuse (invalid_refresh_token ''Token has been revoked'') else give ()))"

definition refresh_token :: "'s auth_server \<Rightarrow> oauth_deps \<Rightarrow> oauth_turn \<Rightarrow> routed \<Rightarrow> ('s, issued) step" where
  "refresh_token srv d t rq =
     chain (authenticate_client srv d rq REFRESH_TOKEN) (\<lambda>client.
     case body_param d rq ''refresh_token'' of
       None \<Rightarrow> refuse (invalid_request ''refresh_token'')
     | Some sealed \<Rightarrow>
     (case open_json d (as_sealer srv) refresh_of_json sealed of
       None \<Rightarrow> refuse (invalid_refresh_token ''Cannot decrypt the refresh token'')
     | Some old \<Rightarrow>
     if rp_client_id old \<noteq> cl_id client then refuse (invalid_refresh_token ''Token is not linked to client'')
     else if rp_expire_time old < timestamp (ot_now t) then refuse (invalid_refresh_token ''Token has expired'')
     else
     (let requested = (case body_param d rq ''scope'' of Some s \<Rightarrow> s | None \<Rightarrow> join '' '' (rp_scopes old)) in
     chain (lift (scopes_validate (as_scopes srv) (Some requested))) (\<lambda>ss.
     case find (\<lambda>scope. scope \<notin> set (rp_scopes old)) ss of
       Some extra \<Rightarrow> refuse (invalid_scope extra)
     | None \<Rightarrow>
     chain (refresh_live srv old) (\<lambda>_.
     chain (from_store (os_revoke_access_token (as_store srv) (rp_access_token_id old))) (\<lambda>_.
     issue srv d t client (rp_user_id old) (finalize (as_scopes srv) ss REFRESH_TOKEN client)
       (lt_access_token (as_lifetimes srv)) True None))))))"

definition password_request :: "'s auth_server \<Rightarrow> oauth_deps \<Rightarrow> oauth_turn \<Rightarrow> routed \<Rightarrow> ('s, issued) step" where
  "password_request srv d t rq =
     chain (authenticate_client srv d rq PASSWORD) (\<lambda>client.
     chain (lift (scopes_validate (as_scopes srv) (body_param d rq ''scope''))) (\<lambda>ss.
     case body_param d rq ''username'' of
       None \<Rightarrow> refuse (invalid_request ''username'')
     | Some username \<Rightarrow>
     (case body_param d rq ''password'' of
       None \<Rightarrow> refuse (invalid_request ''password'')
     | Some password \<Rightarrow>
     (case as_owners srv of
       None \<Rightarrow> refuse unsupported_grant_type
     | Some owners \<Rightarrow>
     chain (from_result (owners username password client)) (\<lambda>user.
     case user of
       None \<Rightarrow> refuse invalid_credentials
     | Some u \<Rightarrow>
         issue srv d t client (Some u) (finalize (as_scopes srv) ss PASSWORD client)
           (lt_access_token (as_lifetimes srv)) True None)))))"

definition client_credentials :: "'s auth_server \<Rightarrow> oauth_deps \<Rightarrow> oauth_turn \<Rightarrow> routed \<Rightarrow> ('s, issued) step" where
  "client_credentials srv d t rq =
     chain (authenticate_client srv d rq CLIENT_CREDENTIALS) (\<lambda>client.
     if \<not> is_confidential client then refuse invalid_client
     else
     chain (lift (scopes_validate (as_scopes srv) (body_param d rq ''scope''))) (\<lambda>ss.
     issue srv d t client None (finalize (as_scopes srv) ss CLIENT_CREDENTIALS client)
       (lt_access_token (as_lifetimes srv)) False None))"

definition token_request :: "'s auth_server \<Rightarrow> oauth_deps \<Rightarrow> oauth_turn \<Rightarrow> routed \<Rightarrow> ('s, issued) step" where
  "token_request srv d t rq =
     (let g = body_param d rq ''grant_type'' in
      if g = Some AUTHORIZATION_CODE then authorization_code srv d t rq
      else if g = Some REFRESH_TOKEN then refresh_token srv d t rq
      else if g = Some PASSWORD \<and> as_owners srv \<noteq> None then password_request srv d t rq
      else if g = Some CLIENT_CREDENTIALS then client_credentials srv d t rq
      else refuse unsupported_grant_type)"

definition challenge_scheme :: "routed \<Rightarrow> string option" where
  "challenge_scheme rq =
     map_option (\<lambda>h. if length h \<ge> 6 \<and> eq_ignore_ascii_case (take 6 h) ''bearer'' then ''Bearer'' else ''Basic'')
       (request_header ''authorization'' rq)"

definition respond_to_token_request ::
  "'s auth_server \<Rightarrow> oauth_deps \<Rightarrow> oauth_turn \<Rightarrow> routed \<Rightarrow> 's \<Rightarrow> 's \<times> response"
where
  "respond_to_token_request srv d t rq s =
     (case token_request srv d t rq s of
        (s', Inr iss) \<Rightarrow>
          (s', token_response (od_valid d) (JObject
             ([(''token_type'', JString ''Bearer''),
               (''expires_in'', JNumber (int_dec (num_seconds (at_expires_at (is_access iss) - ot_answer t)))),
               (''access_token'', JString (is_jwt iss))]
              @ (case is_refresh iss of Some r \<Rightarrow> [(''refresh_token'', JString r)] | None \<Rightarrow> []))))
      | (s', Inl e) \<Rightarrow>
          (s', oe_into_response (od_valid d)
             (if oe_error e = ''invalid_client'' then e\<lparr>oe_authorization_header := challenge_scheme rq\<rparr> else e)))"

section \<open>The authorization endpoint\<close>

definition state_pairs :: "string option \<Rightarrow> (string \<times> string) list" where
  "state_pairs state = (case state of Some x \<Rightarrow> [(''state'', x)] | None \<Rightarrow> [])"

definition send_back :: "string \<Rightarrow> string option \<Rightarrow> oauth_error \<Rightarrow> oauth_error" where
  "send_back final_redirect_uri state e = redirecting_to (append_query final_redirect_uri (state_pairs state)) e"

definition final_redirect :: "client \<Rightarrow> string option \<Rightarrow> oauth_error + string" where
  "final_redirect client redirect_uri =
     (case redirect_uri of
        Some uri \<Rightarrow> if redirect_uri_allowed uri (cl_redirect_uris client) then Inr uri else Inl invalid_client
      | None \<Rightarrow>
          (case cl_redirect_uris client of [uri] \<Rightarrow> Inr uri | _ \<Rightarrow> Inl invalid_client))"

definition pkce_of_query ::
  "'s auth_server \<Rightarrow> oauth_deps \<Rightarrow> routed \<Rightarrow> client \<Rightarrow> oauth_error + (string option \<times> string option)"
where
  "pkce_of_query srv d rq client =
     (case query_param d rq ''code_challenge'' of
        Some challenge \<Rightarrow>
          (let method = (case query_param d rq ''code_challenge_method'' of Some m \<Rightarrow> m | None \<Rightarrow> ''plain'');
               supported = (method = ''S256'' \<or> (method = ''plain'' \<and> as_allow_plain srv)) in
           if \<not> supported
           then Inl (with_hint (''Code challenge method must be one of ''
                  @ (if as_allow_plain srv then backquoted ''S256'' @ '', '' @ backquoted ''plain'' else backquoted ''S256''))
                (invalid_request ''code_challenge_method''))
           else if \<not> is_pkce_string challenge
           then Inl (with_hint ''Code challenge must follow the specifications of RFC-7636.''
                (invalid_request ''code_challenge''))
           else Inr (Some challenge, Some method))
      | None \<Rightarrow>
          if as_require_pkce srv \<and> \<not> is_confidential client
          then Inl (with_hint ''Code challenge must be provided for public clients'' (invalid_request ''code_challenge''))
          else Inr (None, None))"

definition validate_authorization_request ::
  "'s auth_server \<Rightarrow> oauth_deps \<Rightarrow> routed \<Rightarrow> ('s, authorization_request) step"
where
  "validate_authorization_request srv d rq =
     (if query_param d rq ''response_type'' \<noteq> Some ''code'' then refuse unsupported_grant_type
      else case query_param d rq ''client_id'' of
        None \<Rightarrow> refuse (invalid_request ''client_id'')
      | Some client_id \<Rightarrow>
          chain (active_client srv client_id) (\<lambda>found_client.
          case found_client of
            None \<Rightarrow> refuse invalid_client
          | Some client \<Rightarrow>
              if \<not> supports_grant client AUTHORIZATION_CODE then refuse unauthorized_client
              else (let redirect_uri = query_param d rq ''redirect_uri'';
                        state = query_param d rq ''state'' in
                case final_redirect client redirect_uri of
                  Inl e \<Rightarrow> refuse e
                | Inr final_uri \<Rightarrow>
                    (case scopes_validate (as_scopes srv) (query_param d rq ''scope'') of
                       Inl e \<Rightarrow> refuse (send_back final_uri state e)
                     | Inr ss \<Rightarrow>
                         (case pkce_of_query srv d rq client of
                            Inl e \<Rightarrow> refuse (send_back final_uri state e)
                          | Inr (challenge, method) \<Rightarrow>
                              give \<lparr>ar_client_id = cl_id client, ar_client_name = cl_name client,
                                    ar_redirect_uri = redirect_uri, ar_final_redirect_uri = final_uri,
                                    ar_state = state, ar_scopes = ss, ar_code_challenge = challenge,
                                    ar_code_challenge_method = method\<rparr>)))))"

definition previously_approved ::
  "'s auth_server \<Rightarrow> oauth_turn \<Rightarrow> authorization_request \<Rightarrow> string \<Rightarrow> 's \<Rightarrow> 's \<times> bool result"
where
  "previously_approved srv t ar user_id s =
     (case os_tokens_for (as_store srv) (ot_now t) user_id (Some (ar_client_id ar)) s of
        (s', Inl e) \<Rightarrow> (s', Inl e)
      | (s', Inr tokens) \<Rightarrow>
          (s', Inr (list_ex (\<lambda>tok. list_all (held_grants (at_scopes tok)) (ar_scopes ar)) tokens)))"

definition issue_code ::
  "'s auth_server \<Rightarrow> oauth_deps \<Rightarrow> oauth_turn \<Rightarrow> authorization_request \<Rightarrow> string \<Rightarrow> ('s, string) step"
where
  "issue_code srv d t ar user_id =
     chain (active_client srv (ar_client_id ar)) (\<lambda>found_client.
     case found_client of
       None \<Rightarrow> refuse invalid_client
     | Some client \<Rightarrow>
         (let ss = finalize (as_scopes srv) (ar_scopes ar) AUTHORIZATION_CODE client;
              expires_at = ot_issue t + chrono_duration d (lt_auth_code (as_lifetimes srv));
              row = \<lparr>ac_id = new_identifier (ot_code t), ac_user_id = user_id, ac_client_id = cl_id client,
                     ac_scopes = ss, ac_revoked = False, ac_expires_at = expires_at\<rparr> in
          chain (from_store (os_create_auth_code (as_store srv) row)) (\<lambda>_.
          from_result (seal_json d (as_sealer srv) (ot_nonce t) (code_to_json
            \<lparr>cp_client_id = cl_id client, cp_redirect_uri = ar_redirect_uri ar, cp_auth_code_id = ac_id row,
             cp_scopes = ss, cp_user_id = Some user_id, cp_expire_time = timestamp expires_at,
             cp_code_challenge = ar_code_challenge ar,
             cp_code_challenge_method = ar_code_challenge_method ar\<rparr>)))))"

definition complete_authorization_request ::
  "'s auth_server \<Rightarrow> oauth_deps \<Rightarrow> oauth_turn \<Rightarrow> authorization_request \<Rightarrow> string \<Rightarrow> bool \<Rightarrow> 's \<Rightarrow> 's \<times> response"
where
  "complete_authorization_request srv d t ar user_id approved s =
     (if \<not> approved
      then (s, oe_into_response (od_valid d)
             (send_back (ar_final_redirect_uri ar) (ar_state ar) (access_denied ''The user denied the request'')))
      else (case issue_code srv d t ar user_id s of
              (s', Inr code) \<Rightarrow>
                (s', found (od_valid d)
                   (append_query (ar_final_redirect_uri ar) ((''code'', code) # state_pairs (ar_state ar))))
            | (s', Inl e) \<Rightarrow> (s', oe_into_response (od_valid d) e)))"

section \<open>Personal access tokens, revocation, purging\<close>

record personal_token =
  pt_access_token :: string
  pt_token :: access_token
  pt_expires_in :: int

definition issue_personal_access_token ::
  "'s auth_server \<Rightarrow> oauth_deps \<Rightarrow> oauth_turn \<Rightarrow> string \<Rightarrow> string \<Rightarrow> string list \<Rightarrow> string option \<Rightarrow> ('s, personal_token) step"
where
  "issue_personal_access_token srv d t user_id name ss provider =
     chain (from_store (os_personal_access_client (as_store srv) provider)) (\<lambda>c.
     case (case c of Some cl \<Rightarrow> if \<not> cl_revoked cl then Some cl else None | None \<Rightarrow> None) of
       None \<Rightarrow> refuse (oe_server_error (''no personal access client for the ''
           @ backquoted (case provider of Some p \<Rightarrow> p | None \<Rightarrow> ''default'') @ '' provider''))
     | Some client \<Rightarrow>
         chain (lift (scopes_validate (as_scopes srv) (Some (join '' '' ss)))) (\<lambda>ss'.
         chain (issue srv d t client (Some user_id) (finalize (as_scopes srv) ss' PERSONAL_ACCESS client)
             (lt_personal_access_token (as_lifetimes srv)) False (Some name)) (\<lambda>iss.
         give \<lparr>pt_access_token = is_jwt iss, pt_token = is_access iss,
               pt_expires_in = num_seconds (at_expires_at (is_access iss) - ot_answer t)\<rparr>)))"

definition revoke :: "'s auth_server \<Rightarrow> string \<Rightarrow> 's \<Rightarrow> 's \<times> unit result" where
  "revoke srv access_token_id s =
     (case os_revoke_access_token (as_store srv) access_token_id s of
        (s1, Inl e) \<Rightarrow> (s1, Inl e)
      | (s1, Inr _) \<Rightarrow>
          (case os_revoke_refresh_tokens_for (as_store srv) access_token_id s1 of
             (s2, Inl e) \<Rightarrow> (s2, Inl e) | (s2, Inr _) \<Rightarrow> (s2, Inr ())))"

definition revoke_named :: "'s auth_server \<Rightarrow> oauth_deps \<Rightarrow> oauth_turn \<Rightarrow> client \<Rightarrow> string \<Rightarrow> 's \<Rightarrow> 's" where
  "revoke_named srv d t client token s =
     (case sg_verify (as_signer srv) (ot_now t) token of
        Inr verified \<Rightarrow> if vt_client_id verified = cl_id client then fst (revoke srv (vt_id verified) s) else s
      | Inl _ \<Rightarrow>
          (case open_json d (as_sealer srv) refresh_of_json token of
             Some p \<Rightarrow>
               if rp_client_id p = cl_id client
               then fst (revoke srv (rp_access_token_id p)
                      (fst (os_revoke_refresh_token (as_store srv) (rp_refresh_token_id p) s)))
               else s
           | None \<Rightarrow> s))"

definition respond_to_revocation_request ::
  "'s auth_server \<Rightarrow> oauth_deps \<Rightarrow> oauth_turn \<Rightarrow> routed \<Rightarrow> 's \<Rightarrow> 's \<times> response"
where
  "respond_to_revocation_request srv d t rq s =
     (let (basic_id, basic_secret) = basic_credentials d rq;
          secret = (case body_param d rq ''client_secret'' of
                      Some x \<Rightarrow> x | None \<Rightarrow> (case basic_secret of Some x \<Rightarrow> x | None \<Rightarrow> []));
          answer = (\<lambda>e. oe_into_response (od_valid d) e) in
      case (case body_param d rq ''client_id'' of Some i \<Rightarrow> Some i | None \<Rightarrow> basic_id) of
        None \<Rightarrow> (s, answer (invalid_request ''client_id''))
      | Some client_id \<Rightarrow>
          (case active_client srv client_id s of
             (s', Inl e) \<Rightarrow> (s', answer e)
           | (s', Inr None) \<Rightarrow> (s', answer invalid_client)
           | (s', Inr (Some client)) \<Rightarrow>
               if is_confidential client
                  \<and> \<not> as_hasher srv secret (case cl_secret_hash client of Some h \<Rightarrow> h | None \<Rightarrow> [])
               then (s', answer invalid_client)
               else (case body_param d rq ''token'' of
                       None \<Rightarrow> (s', answer (invalid_request ''token''))
                     | Some token \<Rightarrow> (revoke_named srv d t client token s', token_response (od_valid d) (JObject [])))))"

definition server_purge ::
  "'s auth_server \<Rightarrow> oauth_deps \<Rightarrow> oauth_turn \<Rightarrow> duration \<Rightarrow> 's \<Rightarrow> 's \<times> purged result"
where
  "server_purge srv d t retention =
     os_purge (as_store srv) \<lparr>po_revoked = True, po_expired_before = Some (ot_now t - chrono_duration d retention)\<rparr>"

section \<open>The guard of the API\<close>

record authenticated_token =
  au_token :: verified_token
  au_user_id :: "string option"

definition token_can :: "authenticated_token \<Rightarrow> string \<Rightarrow> bool" where
  "token_can a scope = held_grants (vt_scopes (au_token a)) scope"

record ('s, 'u) oauth_guard =
  og_name :: string
  og_verify :: "time \<Rightarrow> string \<Rightarrow> verified_token result"
  og_store :: "'s oauth_store"
  og_users :: "string \<Rightarrow> 'u option result"
  og_provider :: "string option"

definition for_provider :: "string \<Rightarrow> ('s, 'u) oauth_guard \<Rightarrow> ('s, 'u) oauth_guard" where
  "for_provider p g = g\<lparr>og_provider := Some p\<rparr>"

definition guard_token ::
  "('s, 'u) oauth_guard \<Rightarrow> time \<Rightarrow> routed \<Rightarrow> 's \<Rightarrow> 's \<times> authenticated_token option result"
where
  "guard_token g now rq s =
     (case bearer_token rq of
        None \<Rightarrow> (s, Inr None)
      | Some bearer \<Rightarrow>
          (case og_verify g now bearer of
             Inl _ \<Rightarrow> (s, Inr None)
           | Inr token \<Rightarrow>
               (case os_find_access_token (og_store g) (vt_id token) s of
                  (s1, Inl e) \<Rightarrow> (s1, Inl e)
                | (s1, Inr None) \<Rightarrow> (s1, Inr None)
                | (s1, Inr (Some record)) \<Rightarrow>
                    if at_revoked record \<or> at_client_id record \<noteq> vt_client_id token then (s1, Inr None)
                    else (case os_find_client (og_store g) (vt_client_id token) s1 of
                            (s2, Inl e) \<Rightarrow> (s2, Inl e)
                          | (s2, Inr None) \<Rightarrow> (s2, Inr None)
                          | (s2, Inr (Some client)) \<Rightarrow>
                              if cl_revoked client then (s2, Inr None)
                              else (case (og_provider g, cl_provider client) of
                                      (Some wanted, Some theirs) \<Rightarrow>
                                        if wanted \<noteq> theirs then (s2, Inr None)
                                        else (s2, Inr (Some \<lparr>au_token = token, au_user_id = at_user_id record\<rparr>))
                                    | _ \<Rightarrow> (s2, Inr (Some \<lparr>au_token = token, au_user_id = at_user_id record\<rparr>)))))))"

definition guard_user :: "('s, 'u) oauth_guard \<Rightarrow> time \<Rightarrow> routed \<Rightarrow> 's \<Rightarrow> 's \<times> 'u option result" where
  "guard_user g now rq s =
     (case guard_token g now rq s of
        (s', Inl e) \<Rightarrow> (s', Inl e)
      | (s', Inr None) \<Rightarrow> (s', Inr None)
      | (s', Inr (Some a)) \<Rightarrow>
          (case au_user_id a of None \<Rightarrow> (s', Inr None) | Some user_id \<Rightarrow> (s', og_users g user_id)))"

definition guard_abilities :: "('s, 'u) oauth_guard \<Rightarrow> time \<Rightarrow> routed \<Rightarrow> 's \<Rightarrow> 's \<times> abilities result" where
  "guard_abilities g now rq s =
     (case guard_token g now rq s of
        (s', Inl e) \<Rightarrow> (s', Inl e)
      | (s', Inr (Some a)) \<Rightarrow> (s', Inr (to_abilities (vt_scopes (au_token a))))
      | (s', Inr None) \<Rightarrow> (s', Inr abilities_none))"

section \<open>The session across the consent screen\<close>

definition REQUEST_KEY :: string where "REQUEST_KEY = ''_oauth.authorization''"
definition AUTH_TOKEN_KEY :: string where "AUTH_TOKEN_KEY = ''_oauth.auth_token''"

text \<open>
  \<open>to_value\<close> and \<open>of_value\<close> are the derived serialisation of the authorization request; a session is
  absent where the session middleware did not run.
\<close>

definition stash ::
  "(authorization_request \<Rightarrow> json) \<Rightarrow> string \<Rightarrow> session option \<Rightarrow> authorization_request \<Rightarrow> session option \<times> string result"
where
  "stash to_value random sess ar =
     (case sess of
        None \<Rightarrow> (None, Inl (err_internal ''the authorization endpoint needs the session middleware''))
      | Some se \<Rightarrow>
          (let token = new_identifier random;
               se1 = fst (session_put REQUEST_KEY (Inr (to_value ar)) se);
               se2 = fst (session_put AUTH_TOKEN_KEY (Inr (JString token)) se1) in
           (Some se2, Inr token)))"

definition as_text :: "json \<Rightarrow> string option" where
  "as_text v = (case v of JString t \<Rightarrow> Some t | _ \<Rightarrow> None)"

definition take_stashed ::
  "(json \<Rightarrow> authorization_request option) \<Rightarrow> session option \<Rightarrow> string \<Rightarrow> session option \<times> authorization_request result"
where
  "take_stashed of_value sess auth_token =
     (case sess of
        None \<Rightarrow> (None, Inl (err_internal ''the authorization endpoint needs the session middleware''))
      | Some se \<Rightarrow>
          (let (se1, stored) = session_pull as_text AUTH_TOKEN_KEY se;
               (se2, authorization) = session_pull of_value REQUEST_KEY se1 in
           (Some se2,
            case (stored, authorization) of
              (Some st, Some ar) \<Rightarrow>
                if auth_token \<noteq> [] \<and> st = auth_token then Inr ar
                else Inl (err_bad_request ''The authorization request was not found or has expired.'')
            | _ \<Rightarrow> Inl (err_bad_request ''The authorization request was not found or has expired.''))))"

section \<open>Resource owners\<close>

text \<open>\<^verbatim>\<open>UserProviderOwners\<close> over a user provider; credentials are a map of fields.\<close>

record 'u user_provider =
  up_by_credentials :: "(string, string) hmap \<Rightarrow> 'u option result"
  up_validate :: "'u \<Rightarrow> (string, string) hmap \<Rightarrow> bool result"
  up_identifier :: "'u \<Rightarrow> string"

definition owners_verify :: "'u user_provider \<Rightarrow> string \<Rightarrow> owners" where
  "owners_verify provider column username password client =
     (let credentials = hm_insert ''password'' password (hm_insert column username []) in
      and_then (up_by_credentials provider credentials) (\<lambda>found_user.
      case found_user of
        None \<Rightarrow> Inr None
      | Some user \<Rightarrow>
          and_then (up_validate provider user credentials) (\<lambda>valid.
          if \<not> valid then Inr None else Inr (Some (up_identifier provider user)))))"

end
