(* ===== verification/Oauth_Flow.thy ===== *)
theory Oauth_Flow
  imports Oauth_Server
begin

text \<open>
  What the authorization server guarantees. Every endpoint is a sequence of operations on the store
  (\<open>performs\<close>), so the laws of \<open>claiming_store\<close> carry over to whole requests: a code and a refresh token
  are exchanged once, and a revoked token stays out. Over the in-process store the exchange of a code
  is characterised exactly. Scopes never widen beyond what was granted, and the browser is sent only
  to registered addresses.
\<close>

section \<open>Requests as sequences of store operations\<close>

definition performs :: "'s oauth_store \<Rightarrow> credential set \<Rightarrow> ('s \<Rightarrow> 's \<times> 'a) \<Rightarrow> bool" where
  "performs st cs m \<longleftrightarrow>
     (\<forall>s. \<exists>ops. fst (m s) = run_ops st ops s \<and> (\<forall>opn \<in> set ops. \<forall>c. creates opn = Some c \<longrightarrow> c \<in> cs))"

named_theorems performs_intros \<open>the steps of a request are operations of the store\<close>

lemma performs_pure [performs_intros]:
  "performs st cs (give a)" "performs st cs (refuse e)" "performs st cs (lift r)" "performs st cs (from_result q)"
  by (auto simp: performs_def give_def refuse_def lift_def from_result_def intro!: exI [of _ "[]"] split: sum.splits)

lemma performs_op:
  assumes "\<And>s. fst (m s) = exec_op st opn s" "\<And>c. creates opn = Some c \<Longrightarrow> c \<in> cs"
  shows "performs st cs m" "performs st cs (from_store m)"
proof -
  have "fst (from_store m s) = exec_op st opn s" for s
    using assms(1) [of s] by (auto simp: from_store_def split: prod.splits sum.splits)
  then show "performs st cs m" "performs st cs (from_store m)"
    unfolding performs_def using assms by (auto intro!: exI [of _ "[opn]"])
qed

lemma performs_store [performs_intros]:
  "performs st cs (from_store (os_find_client st i))" "performs st cs (from_store (os_personal_access_client st p))"
  "performs st cs (from_store (os_find_refresh_token st i))" "performs st cs (from_store (os_revoke_auth_code st i))"
  "performs st cs (from_store (os_revoke_refresh_token st i))" "performs st cs (from_store (os_revoke_access_token st i))"
  "Access (at_id a) \<in> cs \<Longrightarrow> performs st cs (from_store (os_create_access_token st a))"
  "Refresh (rr_id r) \<in> cs \<Longrightarrow> performs st cs (from_store (os_create_refresh_token st r))"
  "Code (ac_id k) \<in> cs \<Longrightarrow> performs st cs (from_store (os_create_auth_code st k))"
  by (rule performs_op(2) [where opn = "FindClient i"] performs_op(2) [where opn = "PersonalClient p"]
      performs_op(2) [where opn = "FindRefresh i"] performs_op(2) [where opn = "RevokeCode i"]
      performs_op(2) [where opn = "RevokeRefresh i"] performs_op(2) [where opn = "RevokeAccess i"]
      performs_op(2) [where opn = "CreateAccess a"] performs_op(2) [where opn = "CreateRefresh r"]
      performs_op(2) [where opn = "CreateCode k"]; simp; fail)+

lemma performs_chain [performs_intros]:
  assumes "performs st cs m" "\<And>a. performs st cs (f a)"
  shows "performs st cs (chain m f)"
  unfolding performs_def
proof
  fix s
  obtain ops where ops: "fst (m s) = run_ops st ops s" "\<forall>opn \<in> set ops. \<forall>c. creates opn = Some c \<longrightarrow> c \<in> cs"
    using assms(1) unfolding performs_def by blast
  show "\<exists>ops. fst (chain m f s) = run_ops st ops s \<and> (\<forall>opn \<in> set ops. \<forall>c. creates opn = Some c \<longrightarrow> c \<in> cs)"
  proof (cases "snd (m s)")
    case (Inl e)
    then show ?thesis using ops by (auto simp: chain_def split: prod.splits)
  next
    case (Inr a)
    obtain ops' where "fst (f a (fst (m s))) = run_ops st ops' (fst (m s))"
      "\<forall>opn \<in> set ops'. \<forall>c. creates opn = Some c \<longrightarrow> c \<in> cs"
      using assms(2) unfolding performs_def by blast
    then have "fst (chain m f s) = run_ops st (ops @ ops') s"
      "\<forall>opn \<in> set (ops @ ops'). \<forall>c. creates opn = Some c \<longrightarrow> c \<in> cs"
      using Inr ops by (auto simp: chain_def split: prod.splits)
    then show ?thesis by blast
  qed
qed

lemma performs_cases [performs_intros]:
  "(b \<Longrightarrow> performs st cs m) \<Longrightarrow> (\<not> b \<Longrightarrow> performs st cs n) \<Longrightarrow> performs st cs (if b then m else n)"
  "performs st cs n \<Longrightarrow> (\<And>a. performs st cs (k a)) \<Longrightarrow> performs st cs (case x of None \<Rightarrow> n | Some a \<Rightarrow> k a)"
  by (auto split: option.split)

lemma performsE:
  assumes "performs st cs m" "m s = (s', r)"
  obtains ops where "s' = run_ops st ops s" "\<And>opn c. opn \<in> set ops \<Longrightarrow> creates opn = Some c \<Longrightarrow> c \<in> cs"
  using assms unfolding performs_def by (metis fst_conv)

lemma performs_avoids:
  assumes "performs st cs m" "m s = (s', r)" "c \<notin> cs"
  obtains ops where "s' = run_ops st ops s" "avoids c ops"
  using assms by (elim performsE) (auto simp: avoids_def)

lemma performs_mono: "performs st cs m \<Longrightarrow> cs \<subseteq> ds \<Longrightarrow> performs st ds m"
  unfolding performs_def by (meson subsetD)

lemma performs_client [performs_intros]:
  "performs (as_store srv) cs (active_client srv i)" "performs (as_store srv) cs (authenticate_client srv d rq g)"
proof -
  show "performs (as_store srv) cs (active_client srv i)" for i
    unfolding active_client_def by (intro performs_intros)
  then show "performs (as_store srv) cs (authenticate_client srv d rq g)"
    unfolding authenticate_client_def Let_def by (auto split: prod.split intro!: performs_intros)
qed

definition turn_credentials :: "oauth_turn \<Rightarrow> credential set" where
  "turn_credentials t = {Access (new_identifier (ot_access t)), Refresh (new_identifier (ot_refresh t))}"

lemma performs_issue [performs_intros]:
  "turn_credentials t \<subseteq> cs \<Longrightarrow> performs (as_store srv) cs (issue srv d t c u ss l w n)"
  unfolding issue_def Let_def turn_credentials_def by (intro performs_intros) auto

section \<open>Payloads come back\<close>

lemma text_list_map [simp]: "text_list (map JString ss) = Some ss"
  by (induction ss) auto

lemma json_opt_get [simp]:
  "hm_get k m = Some (json_opt x) \<Longrightarrow> get_opt k m = Some x"
  "hm_get k m = Some (json_opt x) \<Longrightarrow> string_or_number k m = Some x"
  by (auto simp: get_opt_def string_or_number_def json_opt_def split: option.splits)

lemma code_json_round_trip: "in_i64 (cp_expire_time p) \<Longrightarrow> code_of_json (code_to_json p) = Some p"
  by (simp add: code_of_json_def code_to_json_def get_text_def get_texts_def get_i64_def hm_get_def)

lemma refresh_json_round_trip: "in_i64 (rp_expire_time p) \<Longrightarrow> refresh_of_json (refresh_to_json p) = Some p"
  by (simp add: refresh_of_json_def refresh_to_json_def get_text_def get_texts_def get_i64_def hm_get_def)

section \<open>Over the in-process store\<close>

lemma active_client_memory:
  "as_store srv = memory_oauth_store \<Longrightarrow>
   active_client srv i m =
     (m, Inr (case hm_get i (mo_clients m) of Some c \<Rightarrow> if \<not> cl_revoked c then Some c else None | None \<Rightarrow> None))"
  by (simp add: active_client_def chain_def from_store_def give_def memory_oauth_defs)

lemma issue_memory:
  assumes "as_store srv = memory_oauth_store" "\<And>c. \<exists>j. sg_sign (as_signer srv) c = Inr j"
    "\<And>n v. \<exists>x. ts_seal (as_sealer srv) n v = Inr x"
  shows "\<exists>m' iss. issue srv d t c u ss l w n m = (m', Inr iss)"
proof -
  obtain sign where sign: "\<And>c. sg_sign (as_signer srv) c = Inr (sign c)" using assms(2) by metis
  obtain seal where seal: "\<And>n v. ts_seal (as_sealer srv) n v = Inr (seal n v)" using assms(3) by metis
  show ?thesis
    by (cases "w \<and> supports_grant c REFRESH_TOKEN")
       (simp_all add: issue_def Let_def chain_def from_store_def from_result_def give_def assms(1)
         memory_oauth_defs seal_json_def sign seal)
qed

section \<open>Spending comes first\<close>

lemma chain_Inr:
  "chain m f s = (s', Inr b) \<longleftrightarrow> (\<exists>s1 a. m s = (s1, Inr a) \<and> f a s1 = (s', Inr b))"
  by (auto simp: chain_def split: prod.splits sum.splits)

lemma step_Inr [simp]:
  "give a s = (s', Inr b) \<longleftrightarrow> s' = s \<and> b = a" "refuse e s \<noteq> (s', Inr b)"
  "lift r s = (s', Inr b) \<longleftrightarrow> s' = s \<and> r = Inr b"
  "from_store m s = (s', Inr b) \<longleftrightarrow> m s = (s', Inr b)"
  "from_result q s = (s', Inr b) \<longleftrightarrow> s' = s \<and> q = Inr b"
  by (auto simp: give_def refuse_def lift_def from_store_def from_result_def split: prod.splits sum.splits)

lemma guard_Inr:
  "(if b then refuse e else m) s = (s', Inr x) \<longleftrightarrow> \<not> b \<and> m s = (s', Inr x)"
  "(case y of None \<Rightarrow> refuse e | Some a \<Rightarrow> k a) s = (s', Inr x) \<longleftrightarrow> (\<exists>a. y = Some a \<and> k a s = (s', Inr x))"
  by (auto split: option.split)

lemmas step_inversion = chain_Inr guard_Inr step_Inr

text \<open>The exchange of a code up to the point where the code is spent.\<close>

definition spend_code ::
  "'s auth_server \<Rightarrow> oauth_deps \<Rightarrow> oauth_turn \<Rightarrow> routed \<Rightarrow> ('s, client \<times> code_payload \<times> string list) step"
where
  "spend_code srv d t rq =
     chain (authenticate_client srv d rq AUTHORIZATION_CODE) (\<lambda>client.
     case body_param d rq ''code'' of
       None \<Rightarrow> refuse (invalid_request ''code'')
     | Some sealed \<Rightarrow>
     (case open_json d (as_sealer srv) code_of_json sealed of
       None \<Rightarrow> refuse (invalid_grant ''Cannot validate the provided authorization code'')
     | Some p \<Rightarrow>
     if cp_expire_time p < timestamp (ot_now t) then refuse (invalid_grant ''Authorization code has expired'')
     else if cp_client_id p \<noteq> cl_id client
     then refuse (with_hint ''Authorization code was not issued to this client'' (invalid_request ''code''))
     else
     chain (lift (check_redirect p (body_param d rq ''redirect_uri''))) (\<lambda>_.
     chain (lift (check_verifier srv d p (body_param d rq ''code_verifier''))) (\<lambda>_.
     chain (lift (scopes_validate (as_scopes srv) (Some (join '' '' (cp_scopes p))))) (\<lambda>ss.
     chain (from_store (os_revoke_auth_code (as_store srv) (cp_auth_code_id p))) (\<lambda>spent.
     if \<not> spent then refuse (invalid_grant ''Authorization code has been revoked'')
     else give (client, p, ss)))))))"

lemma chain_assoc: "chain (chain m f) g = chain m (\<lambda>a. chain (f a) g)"
  by (rule ext) (auto simp: chain_def split: prod.splits sum.splits)

lemma chain_pure [simp]: "chain (refuse e) f = refuse e" "chain (give a) f = f a"
  by (auto simp: fun_eq_iff chain_def refuse_def give_def)

lemma chain_cases:
  "chain (if b then m else n) f = (if b then chain m f else chain n f)"
  "chain (case x of None \<Rightarrow> n | Some a \<Rightarrow> k a) f = (case x of None \<Rightarrow> chain n f | Some a \<Rightarrow> chain (k a) f)"
  by (auto split: option.split)

lemma authorization_code_spends:
  "authorization_code srv d t rq =
     chain (spend_code srv d t rq) (\<lambda>(client, p, ss).
       issue srv d t client (cp_user_id p) (finalize (as_scopes srv) ss AUTHORIZATION_CODE client)
            (lt_access_token (as_lifetimes srv)) True None)"
  unfolding authorization_code_def spend_code_def chain_assoc chain_cases chain_pure prod.case ..

lemma spend_code_Inr:
  "spend_code srv d t rq s = (s2, Inr (client, p, ss)) \<longleftrightarrow>
     (\<exists>s1 sealed. authenticate_client srv d rq AUTHORIZATION_CODE s = (s1, Inr client)
       \<and> body_param d rq ''code'' = Some sealed
       \<and> open_json d (as_sealer srv) code_of_json sealed = Some p
       \<and> timestamp (ot_now t) \<le> cp_expire_time p \<and> cp_client_id p = cl_id client
       \<and> check_redirect p (body_param d rq ''redirect_uri'') = Inr ()
       \<and> check_verifier srv d p (body_param d rq ''code_verifier'') = Inr ()
       \<and> scopes_validate (as_scopes srv) (Some (join '' '' (cp_scopes p))) = Inr ss
       \<and> os_revoke_auth_code (as_store srv) (cp_auth_code_id p) s1 = (s2, Inr True))"
  unfolding spend_code_def by (simp only: step_inversion) (auto simp: not_less)

lemma performs_spend_code: "performs (as_store srv) cs (spend_code srv d t rq)"
  unfolding spend_code_def by (intro performs_intros)

text \<open>A request whose code opens to a payload.\<close>

definition presents_code :: "'s auth_server \<Rightarrow> oauth_deps \<Rightarrow> routed \<Rightarrow> code_payload \<Rightarrow> bool" where
  "presents_code srv d rq p \<longleftrightarrow>
     Option.bind (body_param d rq ''code'') (open_json d (as_sealer srv) code_of_json) = Some p"

context claiming_store
begin

lemma dead_code_refused:
  assumes srv: "as_store srv = st" and "ok s" "code_dead (cp_auth_code_id p) s" "presents_code srv d rq p"
  shows "\<exists>e ops. authorization_code srv d t rq s = (run_ops st ops s, Inl e) \<and> (\<forall>opn \<in> set ops. creates opn = None)"
proof -
  obtain s' r where run: "spend_code srv d t rq s = (s', r)" by fastforce
  obtain ops where ops: "s' = run_ops st ops s" "\<forall>opn \<in> set ops. creates opn = None"
    using performsE [OF performs_spend_code [where cs = "{}"] run] unfolding srv by (metis empty_iff option.exhaust)
  have "r \<noteq> Inr (client, p', ss)" for client p' ss
  proof
    assume "r = Inr (client, p', ss)"
    then obtain s1 where auth: "authenticate_client srv d rq AUTHORIZATION_CODE s = (s1, Inr client)"
      and spent: "os_revoke_auth_code st (cp_auth_code_id p) s1 = (s', Inr True)"
      using run assms(4) unfolding presents_code_def srv [symmetric] by (auto simp: spend_code_Inr)
    obtain ops1 where ops1: "s1 = run_ops st ops1 s" "avoids (Code (cp_auth_code_id p)) ops1"
      using performs_avoids [OF performs_client(2) [where cs = "{}"] auth] unfolding srv by (metis empty_iff)
    have "ok s1" using run_keeps_ok assms(2) ops1 by blast
    moreover have "code_dead (cp_auth_code_id p) s1"
      using run_code_dead [OF assms(2) ops1(2) assms(3)] ops1(1) by blast
    ultimately show False using revoke_code spent by blast
  qed
  then obtain e where "r = Inl e" by (metis prod_cases3 sum.exhaust)
  then show ?thesis using run ops unfolding authorization_code_spends by (auto simp: chain_def)
qed

lemma exchanged_code_dead:
  assumes srv: "as_store srv = st" and "ok s" "authorization_code srv d t rq s = (s1, Inr iss)" "presents_code srv d rq p"
  shows "ok s1 \<and> code_dead (cp_auth_code_id p) s1"
proof -
  obtain s' client ss where spend: "spend_code srv d t rq s = (s', Inr (client, p, ss))"
    and issued: "issue srv d t client (cp_user_id p) (finalize (as_scopes srv) ss AUTHORIZATION_CODE client)
            (lt_access_token (as_lifetimes srv)) True None s' = (s1, Inr iss)"
    using assms(3,4) unfolding authorization_code_spends chain_Inr
    by (auto simp: spend_code_Inr presents_code_def)
  obtain s0 where auth: "authenticate_client srv d rq AUTHORIZATION_CODE s = (s0, Inr client)"
    and spent: "os_revoke_auth_code st (cp_auth_code_id p) s0 = (s', Inr True)"
    using spend unfolding srv [symmetric] by (auto simp: spend_code_Inr)
  have "ok s0" using performsE [OF performs_client(2) auth] run_keeps_ok assms(2) srv by metis
  then have dead: "code_dead (cp_auth_code_id p) s'" "ok s'"
    using revoke_code spent keeps_ok [of s0 "RevokeCode (cp_auth_code_id p)"] by (auto simp: spent)
  obtain ops where "s1 = run_ops st ops s'" "avoids (Code (cp_auth_code_id p)) ops"
    using performs_avoids [OF performs_issue [of t "turn_credentials t"] issued, of "Code (cp_auth_code_id p)"]
    by (auto simp: turn_credentials_def srv)
  then show ?thesis using run_code_dead run_keeps_ok dead by blast
qed

end

text \<open>
  C6. A code is exchanged once. Over any store with the laws of \<open>claiming_store\<close> (which allow other
  servers to work on it at the same time): when a request with a code has obtained a token, every
  later request whose code opens to the same code id is refused, whatever happened to the store in
  between short of creating a new code under that id, and the refused request creates nothing.
\<close>

theorem code_exchanged_once:
  assumes laws: "claiming_store (as_store srv) ok code_dead refresh_dead access_dead alongside" "ok s"
    and first: "authorization_code srv d t rq s = (s1, Inr iss)" "presents_code srv d rq p"
    and between: "avoids (Code (cp_auth_code_id p)) ops"
    and again: "presents_code srv d rq' p'" "cp_auth_code_id p' = cp_auth_code_id p"
  shows "\<exists>e ops'. authorization_code srv d t' rq' (run_ops (as_store srv) ops s1)
             = (run_ops (as_store srv) (ops @ ops') s1, Inl e) \<and> (\<forall>opn \<in> set ops'. creates opn = None)"
proof -
  note dead = claiming_store.exchanged_code_dead [OF laws(1) refl laws(2) first]
  let ?s = "run_ops (as_store srv) ops s1"
  have "ok ?s" "code_dead (cp_auth_code_id p') ?s"
    using claiming_store.run_keeps_ok [OF laws(1)] claiming_store.run_code_dead [OF laws(1) _ between] dead again(2)
    by simp_all
  then show ?thesis
    using claiming_store.dead_code_refused [OF laws(1) refl _ _ again(1)] by simp
qed

definition demo_client :: client where
  "demo_client = \<lparr>cl_id = ''app'', cl_name = ''App'', cl_secret_hash = None, cl_redirect_uris = [''https://app.test/cb''],
     cl_grant_types = [AUTHORIZATION_CODE, REFRESH_TOKEN], cl_scopes = None, cl_provider = None,
     cl_owner_id = None, cl_revoked = False\<rparr>"

definition demo_code :: code_payload where
  "demo_code = \<lparr>cp_client_id = ''app'', cp_redirect_uri = None, cp_auth_code_id = ''k1'', cp_scopes = [''account''],
     cp_user_id = Some ''7'', cp_expire_time = 600, cp_code_challenge = None, cp_code_challenge_method = None\<rparr>"

definition demo_refresh :: refresh_payload where
  "demo_refresh = \<lparr>rp_client_id = ''app'', rp_refresh_token_id = ''r1'', rp_access_token_id = ''a1'',
     rp_scopes = [''account''], rp_user_id = Some ''7'', rp_expire_time = 600\<rparr>"

text \<open>Packages for examples: two known payloads, form parsing and digests that are not used.\<close>

definition demo_deps :: oauth_deps where
  "demo_deps = \<lparr>od_parsers = \<lparr>pa_form = (\<lambda>_. []), pa_json = (\<lambda>_. None)\<rparr>, od_base64 = (\<lambda>_. None),
     od_b64url = (\<lambda>s. s), od_sha256 = (\<lambda>s. s), od_to_text = (\<lambda>_. ''payload''),
     od_of_text = (\<lambda>s. if s = ''code'' then Some (code_to_json demo_code)
                       else if s = ''refresh'' then Some (refresh_to_json demo_refresh) else None),
     od_from_std = (\<lambda>n. Some (int n)), od_max_delta = 0, od_valid = (\<lambda>_ _. True)\<rparr>"

definition demo_server :: "memory_oauth auth_server" where
  "demo_server = (auth_server_new memory_oauth_store \<lparr>ts_seal = (\<lambda>_ v. Inr v), ts_open = (\<lambda>v. Inr v)\<rparr>
       \<lparr>sg_sign = (\<lambda>c. Inr (cm_id c)),
        sg_verify = (\<lambda>now j. Inr \<lparr>vt_id = j, vt_client_id = ''app'', vt_subject = ''7'', vt_scopes = [''account''],
                               vt_expires_at = now\<rparr>)\<rparr> (\<lambda>_ _. True))
     \<lparr>as_scopes := scopes_with ''account'' ''Your account'' scopes_new\<rparr>"

definition demo_state :: memory_oauth where
  "demo_state = (insert_client demo_client memory_oauth_new)
     \<lparr>mo_codes := [(''k1'', \<lparr>ac_id = ''k1'', ac_user_id = ''7'', ac_client_id = ''app'', ac_scopes = [''account''],
                            ac_revoked = False, ac_expires_at = 600000000000\<rparr>)],
      mo_access := [(''a1'', \<lparr>at_id = ''a1'', at_user_id = Some ''7'', at_client_id = ''app'', at_name = None,
                             at_scopes = [''account''], at_revoked = False, at_created_at = 0,
                             at_expires_at = 600000000000\<rparr>)],
      mo_refresh := [(''r1'', \<lparr>rr_id = ''r1'', rr_access_token_id = ''a1'', rr_revoked = False,
                              rr_expires_at = 600000000000\<rparr>)]\<rparr>"

definition demo_turn :: oauth_turn where
  "demo_turn = \<lparr>ot_now = 1000000000, ot_issue = 1000000000, ot_answer = 1000000000, ot_access = ''A'', ot_refresh = ''R'',
     ot_code = ''K'', ot_nonce = ''n''\<rparr>"

definition demo_body :: "(string \<times> json) list \<Rightarrow> routed" where
  "demo_body params = \<lparr>rq_method = ''POST'', rq_path = ''/oauth/token'', rq_headers = [], rq_ip = None,
     rq_query = [], rq_body = [], rq_override = Some (JObject params), rq_params = [], rq_matched = None\<rparr>"

definition demo_exchange :: routed where
  "demo_exchange = demo_body [(''grant_type'', JString ''authorization_code''), (''client_id'', JString ''app''),
     (''code'', JString ''code'')]"

definition demo_renewal :: routed where
  "demo_renewal = demo_body [(''grant_type'', JString ''refresh_token''), (''client_id'', JString ''app''),
     (''refresh_token'', JString ''refresh'')]"

lemma memory_oauth_laws:
  "claiming_store (as_store demo_server) mo_wf mo_code_dead mo_refresh_dead mo_access_dead mo_alongside"
  using mo.claiming_store_axioms by (simp add: demo_server_def auth_server_new_def)

lemma demo_wf: "mo_wf demo_state"
  by (simp add: mo_wf_def demo_state_def hm_wf_def)

lemma demo_server_store [simp]: "as_store demo_server = memory_oauth_store"
  by (simp add: demo_server_def auth_server_new_def)

lemma demo_params [simp]: "body_param demo_deps (demo_body params) name = scalar (hm_get name params)"
  by (simp add: body_param_def demo_body_def body_input_def)

lemma scalar_text: "s \<noteq> [] \<Longrightarrow> \<forall>c \<in> set s. graphic c \<Longrightarrow> scalar (Some (JString s)) = Some s"
  by (simp add: scalar_def trim_graphic)

lemma demo_basic [simp]: "basic_credentials d (demo_body params) = (None, None)"
  by (simp add: basic_credentials_def request_header_def header_get_def demo_body_def)

lemma demo_auth:
  assumes "g \<in> {AUTHORIZATION_CODE, REFRESH_TOKEN}" "hm_get ''client_id'' params = Some (JString ''app'')"
    "hm_get ''app'' (mo_clients m) = Some demo_client"
  shows "authenticate_client demo_server demo_deps (demo_body params) g m = (m, Inr demo_client)"
proof -
  have "scalar (Some (JString ''app'')) = Some ''app''" by (simp add: scalar_text graphic_def)
  moreover have "supports_grant demo_client g" "\<not> is_confidential demo_client" "\<not> cl_revoked demo_client"
    using assms(1) by (auto simp: demo_client_def supports_grant_def is_confidential_def)
  ultimately show ?thesis using assms(2,3)
    by (simp add: authenticate_client_def Let_def chain_def active_client_memory give_def)
qed

lemma demo_presents:
  "presents_code demo_server demo_deps demo_exchange demo_code"
  "open_json demo_deps (as_sealer demo_server) refresh_of_json ''refresh'' = Some demo_refresh"
proof -
  have "scalar (Some (JString ''code'')) = Some ''code''" by (simp add: scalar_text graphic_def)
  moreover have "in_i64 600" by (rule in_i64_small) simp_all
  ultimately show "presents_code demo_server demo_deps demo_exchange demo_code"
    "open_json demo_deps (as_sealer demo_server) refresh_of_json ''refresh'' = Some demo_refresh"
    using code_json_round_trip [of demo_code] refresh_json_round_trip [of demo_refresh]
    by (simp_all add: presents_code_def demo_exchange_def hm_get_def open_json_def demo_server_def auth_server_new_def
        demo_deps_def demo_code_def demo_refresh_def body_param_def demo_body_def body_input_def)
qed

lemma demo_issue: "\<exists>m' iss. issue demo_server d t c u ss l w n m = (m', Inr iss)"
  by (rule issue_memory) (simp_all add: demo_server_def auth_server_new_def)

lemma demo_clients [simp]: "mo_clients demo_state = [(''app'', demo_client)]"
  by (simp add: demo_state_def insert_client_def memory_oauth_new_def hm_insert_def demo_client_def)

lemma demo_validate:
  "requested_scopes (as_scopes demo_server) (Some ''account'') = [''account'']"
  "scopes_validate (as_scopes demo_server) (Some ''account'') = Inr [''account'']"
proof -
  have "requested_scopes sc (Some (join '' '' [''account''])) = [''account'']" for sc
    by (subst requested_joined) (simp_all add: scope_name_def graphic_def)
  then show "requested_scopes (as_scopes demo_server) (Some ''account'') = [''account'']" by simp
  then show "scopes_validate (as_scopes demo_server) (Some ''account'') = Inr [''account'']"
    by (simp add: scopes_validate_Inr scope_exists_def demo_server_def auth_server_new_def scopes_with_def hm_contains_def)
qed

theorem code_exchanged_once_witness:
  "isl (snd (authorization_code demo_server demo_deps demo_turn demo_exchange
     (fst (authorization_code demo_server demo_deps demo_turn demo_exchange demo_state))))"
proof -
  let ?run = "authorization_code demo_server demo_deps demo_turn demo_exchange demo_state"
  have code: "body_param demo_deps demo_exchange ''code'' = Some ''code''"
    "body_param demo_deps demo_exchange ''redirect_uri'' = None" "body_param demo_deps demo_exchange ''code_verifier'' = None"
    by (simp_all add: demo_exchange_def hm_get_def scalar_text graphic_def, simp_all add: scalar_def)
  have "authenticate_client demo_server demo_deps demo_exchange AUTHORIZATION_CODE demo_state = (demo_state, Inr demo_client)"
    unfolding demo_exchange_def by (rule demo_auth) (simp_all add: hm_get_def)
  moreover have "\<not> mo_code_dead ''k1'' demo_state"
    by (simp add: mo_code_dead_def dead_row_def demo_state_def hm_get_def)
  moreover have fields: "cp_scopes demo_code = [''account'']" "cp_auth_code_id demo_code = ''k1''" "cp_client_id demo_code = cl_id demo_client"
    "timestamp (ot_now demo_turn) \<le> cp_expire_time demo_code" "check_redirect demo_code None = Inr ()"
    "check_verifier demo_server demo_deps demo_code None = Inr ()"
    by (simp_all add: demo_code_def timestamp_def demo_turn_def check_redirect_def check_verifier_def demo_client_def)
  moreover have "open_json demo_deps (as_sealer demo_server) code_of_json ''code'' = Some demo_code"
    using demo_presents(1) code(1) by (simp add: presents_code_def)
  ultimately have "spend_code demo_server demo_deps demo_turn demo_exchange demo_state
      = (exec_op memory_oauth_store (RevokeCode ''k1'') demo_state, Inr (demo_client, demo_code, [''account'']))"
    unfolding spend_code_Inr
    by (simp only: code fields demo_server_store memory_claims join.simps demo_validate) simp
  then have "\<exists>s' iss. ?run = (s', Inr iss)"
    unfolding authorization_code_spends using demo_issue by (auto simp: chain_Inr)
  then have first: "?run = (fst ?run, Inr (projr (snd ?run)))" by auto
  show ?thesis
    using code_exchanged_once [OF memory_oauth_laws demo_wf first demo_presents(1) _ demo_presents(1), of "[]" demo_turn]
    by auto
qed

section \<open>Refresh tokens rotate, revoked tokens stay out\<close>

definition spend_refresh ::
  "'s auth_server \<Rightarrow> oauth_deps \<Rightarrow> oauth_turn \<Rightarrow> routed \<Rightarrow> ('s, client \<times> refresh_payload \<times> string list) step"
where
  "spend_refresh srv d t rq =
     chain (authenticate_client srv d rq REFRESH_TOKEN) (\<lambda>client.
     case body_param d rq ''refresh_token'' of
       None \<Rightarrow> refuse (invalid_request ''refresh_token'')
     | Some sealed \<Rightarrow>
     (case open_json d (as_sealer srv) refresh_of_json sealed of
       None \<Rightarrow> refuse (invalid_refresh_token ''Cannot decrypt the refresh token'')
     | Some old \<Rightarrow>
     if rp_client_id old \<noteq> cl_id client then refuse (invalid_refresh_token ''Token is not linked to client'')
     else if rp_expire_time old < timestamp (ot_now t) then refuse (invalid_refresh_token ''Token has expired'')
     else
     (let requested = (case body_param d rq ''scope'' of Some s \<Rightarrow> s | None \<Rightarrow> join '' '' (rp_scopes old)) in
     chain (lift (scopes_validate (as_scopes srv) (Some requested))) (\<lambda>ss.
     case find (\<lambda>scope. scope \<notin> set (rp_scopes old)) ss of
       Some extra \<Rightarrow> refuse (invalid_scope extra)
     | None \<Rightarrow>
     chain (refresh_live srv old) (\<lambda>_.
     chain (from_store (os_revoke_access_token (as_store srv) (rp_access_token_id old))) (\<lambda>_.
     give (client, old, ss)))))))"

lemma refresh_token_spends:
  "refresh_token srv d t rq =
     chain (spend_refresh srv d t rq) (\<lambda>(client, old, ss).
       issue srv d t client (rp_user_id old) (finalize (as_scopes srv) ss REFRESH_TOKEN client)
         (lt_access_token (as_lifetimes srv)) True None)"
  unfolding refresh_token_def spend_refresh_def chain_assoc chain_cases chain_pure Let_def prod.case ..

lemma find_extra_Inr:
  "(case find P ss of None \<Rightarrow> m | Some extra \<Rightarrow> refuse (e extra)) s = (s', Inr x)
     \<longleftrightarrow> (\<forall>z \<in> set ss. \<not> P z) \<and> m s = (s', Inr x)"
  by (auto simp: find_None_iff find_Some_iff split: option.split)

lemma spend_refresh_Inr:
  "spend_refresh srv d t rq s = (s3, Inr (client, old, ss)) \<longleftrightarrow>
     (\<exists>s1 s2 sealed b. authenticate_client srv d rq REFRESH_TOKEN s = (s1, Inr client)
       \<and> body_param d rq ''refresh_token'' = Some sealed
       \<and> open_json d (as_sealer srv) refresh_of_json sealed = Some old
       \<and> rp_client_id old = cl_id client \<and> timestamp (ot_now t) \<le> rp_expire_time old
       \<and> scopes_validate (as_scopes srv)
           (Some (case body_param d rq ''scope'' of Some x \<Rightarrow> x | None \<Rightarrow> join '' '' (rp_scopes old))) = Inr ss
       \<and> set ss \<subseteq> set (rp_scopes old)
       \<and> refresh_live srv old s1 = (s2, Inr ())
       \<and> os_revoke_access_token (as_store srv) (rp_access_token_id old) s2 = (s3, Inr b))"
  unfolding spend_refresh_def Let_def
  by (simp only: step_inversion find_extra_Inr) (auto simp: not_less)

lemma refresh_live_Inr:
  "refresh_live srv old s = (s', Inr u) \<longleftrightarrow>
     (if as_rotate srv then os_revoke_refresh_token (as_store srv) (rp_refresh_token_id old) s = (s', Inr True)
      else \<exists>row. os_find_refresh_token (as_store srv) (rp_refresh_token_id old) s = (s', Inr (Some row)) \<and> \<not> rr_revoked row)"
  unfolding refresh_live_def by (auto simp: step_inversion split: option.splits)

lemma performs_refresh_live [performs_intros]: "performs (as_store srv) cs (refresh_live srv old)"
  unfolding refresh_live_def by (intro performs_intros)

lemma performs_spend_refresh: "performs (as_store srv) cs (spend_refresh srv d t rq)"
  unfolding spend_refresh_def Let_def by (intro performs_intros)

definition presents_refresh :: "'s auth_server \<Rightarrow> oauth_deps \<Rightarrow> routed \<Rightarrow> refresh_payload \<Rightarrow> bool" where
  "presents_refresh srv d rq p \<longleftrightarrow>
     Option.bind (body_param d rq ''refresh_token'') (open_json d (as_sealer srv) refresh_of_json) = Some p"

text \<open>A request that carries an access token of the given id, as the guard's verifier reads it.\<close>

definition bears :: "('s, 'u) oauth_guard \<Rightarrow> time \<Rightarrow> routed \<Rightarrow> string \<Rightarrow> bool" where
  "bears g now rq i \<longleftrightarrow>
     (case bearer_token rq of None \<Rightarrow> False
      | Some b \<Rightarrow> (case og_verify g now b of Inr tok \<Rightarrow> vt_id tok = i | Inl _ \<Rightarrow> False))"

context claiming_store
begin

lemma dead_access_refused:
  assumes "og_store g = st" "ok s" "access_dead i s" "bears g now rq i"
  shows "snd (guard_token g now rq s) \<noteq> Inr (Some a)"
proof -
  obtain b tok where tok: "bearer_token rq = Some b" "og_verify g now b = Inr tok" "vt_id tok = i"
    using assms(4) by (auto simp: bears_def split: option.splits sum.splits)
  have "at_revoked t" if "os_find_access_token st i s = (s', Inr (Some t))" for s' t
    using find_access that assms(2,3) by blast
  then show ?thesis
    by (auto simp: guard_token_def tok assms(1) split: prod.splits sum.splits option.splits)
qed

lemma dead_refresh_not_live:
  assumes "as_store srv = st" "ok s" "refresh_dead (rp_refresh_token_id old) s"
  shows "refresh_live srv old s \<noteq> (s', Inr u)"
  using assms revoke_refresh find_refresh by (auto simp: refresh_live_Inr)

lemma dead_refresh_refused:
  assumes srv: "as_store srv = st" and "ok s" "refresh_dead (rp_refresh_token_id p) s" "presents_refresh srv d rq p"
  shows "\<exists>e ops. refresh_token srv d t rq s = (run_ops st ops s, Inl e) \<and> (\<forall>opn \<in> set ops. creates opn = None)"
proof -
  obtain s' r where run: "spend_refresh srv d t rq s = (s', r)" by fastforce
  obtain ops where ops: "s' = run_ops st ops s" "\<forall>opn \<in> set ops. creates opn = None"
    using performsE [OF performs_spend_refresh [where cs = "{}"] run] unfolding srv by (metis empty_iff option.exhaust)
  have "r \<noteq> Inr (client, p', ss)" for client p' ss
  proof
    assume "r = Inr (client, p', ss)"
    then obtain s1 s2 where auth: "authenticate_client srv d rq REFRESH_TOKEN s = (s1, Inr client)"
      and live: "refresh_live srv p s1 = (s2, Inr ())"
      using run assms(4) unfolding presents_refresh_def by (auto simp: spend_refresh_Inr)
    obtain ops1 where ops1: "s1 = run_ops st ops1 s" "avoids (Refresh (rp_refresh_token_id p)) ops1"
      using performs_avoids [OF performs_client(2) [where cs = "{}"] auth] unfolding srv by (metis empty_iff)
    have "ok s1" using run_keeps_ok assms(2) ops1 by blast
    moreover have "refresh_dead (rp_refresh_token_id p) s1"
      using run_refresh_dead [OF assms(2) ops1(2) assms(3)] ops1(1) by blast
    ultimately show False using dead_refresh_not_live srv live by blast
  qed
  then obtain e where "r = Inl e" by (metis prod_cases3 sum.exhaust)
  then show ?thesis using run ops unfolding refresh_token_spends by (auto simp: chain_def)
qed

lemma exchanged_refresh_dead:
  assumes srv: "as_store srv = st" "as_rotate srv" and "ok s" "refresh_token srv d t rq s = (s1, Inr iss)"
    "presents_refresh srv d rq old" "Refresh (rp_refresh_token_id old) \<notin> turn_credentials t"
    "Access (rp_access_token_id old) \<notin> turn_credentials t"
  shows "ok s1 \<and> refresh_dead (rp_refresh_token_id old) s1 \<and> access_dead (rp_access_token_id old) s1"
proof -
  obtain s' client ss where spend: "spend_refresh srv d t rq s = (s', Inr (client, old, ss))"
    and issued: "issue srv d t client (rp_user_id old) (finalize (as_scopes srv) ss REFRESH_TOKEN client)
            (lt_access_token (as_lifetimes srv)) True None s' = (s1, Inr iss)"
    using assms(4,5) unfolding refresh_token_spends chain_Inr
    by (auto simp: spend_refresh_Inr presents_refresh_def)
  obtain s2 s3 b where auth: "authenticate_client srv d rq REFRESH_TOKEN s = (s2, Inr client)"
    and live: "os_revoke_refresh_token st (rp_refresh_token_id old) s2 = (s3, Inr True)"
    and access: "os_revoke_access_token st (rp_access_token_id old) s3 = (s', Inr b)"
    using spend srv unfolding srv(1) [symmetric] by (auto simp: spend_refresh_Inr refresh_live_Inr)
  have "ok s2" using performsE [OF performs_client(2) auth] run_keeps_ok assms(3) srv(1) by metis
  then have s3: "refresh_dead (rp_refresh_token_id old) s3" "ok s3"
    using revoke_refresh live keeps_ok [of s2 "RevokeRefresh (rp_refresh_token_id old)"] by (auto simp: live)
  then have s': "access_dead (rp_access_token_id old) s'" "ok s'" "refresh_dead (rp_refresh_token_id old) s'"
    using revoke_access access keeps_ok [of s3 "RevokeAccess (rp_access_token_id old)"]
      stays_dead(2) [of s3 "RevokeAccess (rp_access_token_id old)"] by (auto simp: access)
  obtain ops where "s1 = run_ops st ops s'" "avoids (Refresh (rp_refresh_token_id old)) ops"
      "avoids (Access (rp_access_token_id old)) ops"
    using performsE [OF performs_issue [of t "turn_credentials t"] issued] assms(6,7) srv(1)
    unfolding avoids_def by (metis order_refl)
  then show ?thesis using run_refresh_dead run_access_dead run_keeps_ok s' by blast
qed

lemma revoked_dead:
  assumes srv: "as_store srv = st" and "ok s" "revoke srv a s = (s1, Inr ())" "alongside r a s"
  shows "ok s1 \<and> access_dead a s1 \<and> refresh_dead r s1"
proof -
  obtain s0 b n where access: "os_revoke_access_token st a s = (s0, Inr b)"
    and refresh: "os_revoke_refresh_tokens_for st a s0 = (s1, Inr n)"
    using assms(3) srv by (auto simp: revoke_def split: prod.splits sum.splits)
  have s0: "access_dead a s0" "ok s0" "alongside r a s0 \<or> refresh_dead r s0"
    using revoke_access access assms(2) keeps_ok [of s "RevokeAccess a"] stays_alongside [of s "RevokeAccess a" r a] assms(4)
    by (auto simp: access)
  moreover have "refresh_dead r s1"
    using s0 revoke_alongside [OF s0(2) refresh, of r] stays_dead(2) [of s0 "RevokeRefreshFor a" r]
    by (auto simp: refresh)
  ultimately show ?thesis
    using keeps_ok [of s0 "RevokeRefreshFor a"] stays_dead(3) [of s0 "RevokeRefreshFor a" a] by (auto simp: refresh)
qed

end

text \<open>
  C30. Rotation. When a server that rotates has exchanged a refresh token (and the ids it drew are
  new), then in every later state, whatever happened to the store short of creating those
  credentials anew: a second exchange of the same refresh token is refused and creates nothing, and
  the access token it was issued with is not accepted by any guard over the store.
\<close>

theorem refresh_rotates:
  assumes laws: "claiming_store (as_store srv) ok code_dead refresh_dead access_dead alongside" "ok s"
    and rotate: "as_rotate srv"
    and first: "refresh_token srv d t rq s = (s1, Inr iss)" "presents_refresh srv d rq old"
    and fresh: "Refresh (rp_refresh_token_id old) \<notin> turn_credentials t"
      "Access (rp_access_token_id old) \<notin> turn_credentials t"
    and between: "avoids (Refresh (rp_refresh_token_id old)) ops" "avoids (Access (rp_access_token_id old)) ops"
    and s2: "s2 = run_ops (as_store srv) ops s1"
  shows "(presents_refresh srv d rq' old \<longrightarrow>
      (\<exists>e ops'. refresh_token srv d t' rq' s2 = (run_ops (as_store srv) ops' s2, Inl e)
         \<and> (\<forall>opn \<in> set ops'. creates opn = None)))
    \<and> (og_store g = as_store srv \<and> bears g now rq'' (rp_access_token_id old) \<longrightarrow>
         (\<forall>a. snd (guard_token g now rq'' s2) \<noteq> Inr (Some a)))"
proof -
  note dead = claiming_store.exchanged_refresh_dead [OF laws(1) refl rotate laws(2) first fresh]
  have "ok s2" "refresh_dead (rp_refresh_token_id old) s2" "access_dead (rp_access_token_id old) s2"
    using dead claiming_store.run_keeps_ok [OF laws(1)] claiming_store.run_refresh_dead [OF laws(1) _ between(1)]
      claiming_store.run_access_dead [OF laws(1) _ between(2)] s2 by simp_all
  then show ?thesis
    using claiming_store.dead_refresh_refused [OF laws(1) refl] claiming_store.dead_access_refused [OF laws(1)] by blast
qed

text \<open>
  C31. Revocation. When an access token was revoked, then in every later state, whatever happened to
  the store short of creating those credentials anew, no guard over the store accepts it, and no
  refresh token that was issued with it can be exchanged, with rotation or without.
\<close>

theorem revoked_tokens_stay_out:
  assumes laws: "claiming_store (as_store srv) ok code_dead refresh_dead access_dead alongside" "ok s"
    and revoked: "revoke srv a s = (s1, Inr ())" "alongside (rp_refresh_token_id p) a s"
    and between: "avoids (Refresh (rp_refresh_token_id p)) ops" "avoids (Access a) ops"
    and s2: "s2 = run_ops (as_store srv) ops s1"
  shows "(og_store g = as_store srv \<and> bears g now rq a \<longrightarrow> (\<forall>x. snd (guard_token g now rq s2) \<noteq> Inr (Some x)))
    \<and> (presents_refresh srv d rq' p \<longrightarrow> isl (snd (refresh_token srv d t rq' s2)))"
proof -
  note dead = claiming_store.revoked_dead [OF laws(1) refl laws(2) revoked]
  have "ok s2" "refresh_dead (rp_refresh_token_id p) s2" "access_dead a s2"
    using dead claiming_store.run_keeps_ok [OF laws(1)] claiming_store.run_refresh_dead [OF laws(1) _ between(1)]
      claiming_store.run_access_dead [OF laws(1) _ between(2)] s2 by simp_all
  then show ?thesis
    using claiming_store.dead_refresh_refused [OF laws(1) refl, of s2 p d rq' t]
      claiming_store.dead_access_refused [OF laws(1), of g s2 a now rq] by auto
qed

lemma demo_renewed: "\<exists>s' iss. refresh_token demo_server demo_deps demo_turn demo_renewal demo_state = (s', Inr iss)"
  and demo_presents_refresh: "presents_refresh demo_server demo_deps demo_renewal demo_refresh"
proof -
  have tok: "body_param demo_deps demo_renewal ''refresh_token'' = Some ''refresh''"
    "body_param demo_deps demo_renewal ''scope'' = None"
    by (simp_all add: demo_renewal_def hm_get_def scalar_text graphic_def, simp_all add: scalar_def)
  show "presents_refresh demo_server demo_deps demo_renewal demo_refresh"
    using demo_presents(2) tok by (simp add: presents_refresh_def)
  have auth: "authenticate_client demo_server demo_deps demo_renewal REFRESH_TOKEN demo_state = (demo_state, Inr demo_client)"
    unfolding demo_renewal_def by (rule demo_auth) (simp_all add: hm_get_def)
  have fields: "rp_scopes demo_refresh = [''account'']" "rp_refresh_token_id demo_refresh = ''r1''"
    "rp_client_id demo_refresh = cl_id demo_client" "timestamp (ot_now demo_turn) \<le> rp_expire_time demo_refresh"
    by (simp_all add: demo_refresh_def timestamp_def demo_turn_def demo_client_def)
  have "as_rotate demo_server" "\<not> mo_refresh_dead ''r1'' demo_state"
    by (simp_all add: demo_server_def auth_server_new_def mo_refresh_dead_def dead_row_def demo_state_def hm_get_def)
  then have live: "\<exists>s'. refresh_live demo_server demo_refresh demo_state = (s', Inr ())"
    unfolding refresh_live_Inr fields demo_server_store memory_claims by simp
  have "\<exists>s'. spend_refresh demo_server demo_deps demo_turn demo_renewal demo_state = (s', Inr (demo_client, demo_refresh, [''account'']))"
  proof -
    obtain s' where "refresh_live demo_server demo_refresh demo_state = (s', Inr ())" using live by blast
    then have "spend_refresh demo_server demo_deps demo_turn demo_renewal demo_state
        = (exec_op memory_oauth_store (RevokeAccess (rp_access_token_id demo_refresh)) s', Inr (demo_client, demo_refresh, [''account'']))"
      unfolding spend_refresh_Inr tok option.case fields join.simps demo_validate demo_server_store memory_claims
      using auth demo_presents(2) fields by blast
    then show ?thesis by blast
  qed
  then show "\<exists>s' iss. refresh_token demo_server demo_deps demo_turn demo_renewal demo_state = (s', Inr iss)"
    unfolding refresh_token_spends using demo_issue by (auto simp: chain_Inr)
qed

lemma revoke_memory: "as_store srv = memory_oauth_store \<Longrightarrow> snd (revoke srv a m) = Inr ()"
  by (simp add: revoke_def memory_oauth_defs split: prod.split)

lemma demo_fresh:
  "Refresh (rp_refresh_token_id demo_refresh) \<notin> turn_credentials demo_turn"
  "Access (rp_access_token_id demo_refresh) \<notin> turn_credentials demo_turn"
  by code_simp+

theorem refresh_rotates_witness:
  "isl (snd (refresh_token demo_server demo_deps demo_turn demo_renewal
     (fst (refresh_token demo_server demo_deps demo_turn demo_renewal demo_state))))"
proof -
  obtain s1 iss where first: "refresh_token demo_server demo_deps demo_turn demo_renewal demo_state = (s1, Inr iss)"
    using demo_renewed by blast
  have "as_rotate demo_server" by (simp add: demo_server_def auth_server_new_def)
  note once = refresh_rotates [OF memory_oauth_laws demo_wf this first demo_presents_refresh demo_fresh, of "[]" s1
      demo_renewal demo_turn, THEN conjunct1]
  show ?thesis using once demo_presents_refresh by (auto simp: first)
qed

theorem revoked_tokens_stay_out_witness:
  "isl (snd (refresh_token demo_server demo_deps demo_turn demo_renewal (fst (revoke demo_server ''a1'' demo_state))))"
proof -
  have revoked: "revoke demo_server ''a1'' demo_state = (fst (revoke demo_server ''a1'' demo_state), Inr ())"
    by (simp add: prod_eq_iff revoke_memory)
  have "mo_alongside (rp_refresh_token_id demo_refresh) ''a1'' demo_state"
    by (simp add: mo_alongside_def demo_refresh_def demo_state_def hm_get_def)
  from revoked_tokens_stay_out [OF memory_oauth_laws demo_wf revoked this, of "[]", THEN conjunct2]
  show ?thesis using demo_presents_refresh by simp
qed

end
