(* ===== verification/Oauth_Grants.thy ===== *)
theory Oauth_Grants
  imports Oauth_Flow "HOL-Library.Countable"
begin

text \<open>
  What a grant gives and to whom. The scopes of a token are bounded by what was granted and by what
  the client may have; the exchange of a code is characterised exactly; the browser is sent only to
  addresses of the client; the consent of a user is bound to the request the user saw.
\<close>

section \<open>Scopes are bounded\<close>

lemma active_client_Inr:
  "active_client srv i s = (s', Inr (Some c)) \<longleftrightarrow> os_find_client (as_store srv) i s = (s', Inr (Some c)) \<and> \<not> cl_revoked c"
  by (auto simp: active_client_def step_inversion split: option.splits)

text \<open>What an authenticated client has shown.\<close>

definition client_shown :: "'s auth_server \<Rightarrow> oauth_deps \<Rightarrow> routed \<Rightarrow> string \<Rightarrow> client \<Rightarrow> bool" where
  "client_shown srv d rq g c \<longleftrightarrow> supports_grant c g \<and> \<not> cl_revoked c
     \<and> (is_confidential c \<longrightarrow> (\<exists>secret hash. secret \<noteq> [] \<and> cl_secret_hash c = Some hash \<and> as_hasher srv secret hash
          \<and> (body_param d rq ''client_secret'' = Some secret \<or> snd (basic_credentials d rq) = Some secret)))"

lemma authenticate_Inr:
  assumes "authenticate_client srv d rq g s = (s', Inr c)"
  shows "client_shown srv d rq g c"
proof -
  define secret where "secret = (case body_param d rq ''client_secret'' of
      Some x \<Rightarrow> x | None \<Rightarrow> (case snd (basic_credentials d rq) of Some x \<Rightarrow> x | None \<Rightarrow> []))"
  have sent: "secret = [] \<or> body_param d rq ''client_secret'' = Some secret \<or> snd (basic_credentials d rq) = Some secret"
    by (auto simp: secret_def split: option.splits)
  obtain i s1 where found: "active_client srv i s = (s1, Inr (Some c))" and grant: "supports_grant c g"
    and checked: "is_confidential c \<Longrightarrow> secret \<noteq> [] \<and> as_hasher srv secret (case cl_secret_hash c of Some h \<Rightarrow> h | None \<Rightarrow> [])"
    using assms unfolding authenticate_client_def Let_def split_def secret_def [symmetric]
    by (auto simp: step_inversion split: if_splits)
  have "\<not> cl_revoked c" using found by (auto simp: active_client_Inr)
  then show ?thesis using sent grant checked
    by (auto simp: client_shown_def is_confidential_def split: option.splits)
qed

lemma issue_Inr:
  assumes "issue srv d t c u ss l w n s = (s', Inr iss)"
  shows "is_access iss = \<lparr>at_id = new_identifier (ot_access t), at_user_id = u, at_client_id = cl_id c,
     at_name = n, at_scopes = ss, at_revoked = False, at_created_at = ot_issue t,
     at_expires_at = ot_issue t + chrono_duration d l\<rparr>"
  using assms by (auto simp: issue_def Let_def step_inversion split: if_splits)

text \<open>The scopes an exchange may hand out, given what the presented credential says.\<close>

definition within_grant :: "'s auth_server \<Rightarrow> oauth_deps \<Rightarrow> routed \<Rightarrow> string \<Rightarrow> string list \<Rightarrow> bool" where
  "within_grant srv d rq g ss \<longleftrightarrow>
     (g = AUTHORIZATION_CODE \<longrightarrow> (\<exists>p. presents_code srv d rq p
        \<and> ((\<forall>x \<in> set (cp_scopes p). scope_name x) \<longrightarrow>
             set ss \<subseteq> set (if cp_scopes p = [] then sc_default (as_scopes srv) else cp_scopes p))))
     \<and> (g = REFRESH_TOKEN \<longrightarrow> (\<exists>old. presents_refresh srv d rq old \<and> set ss \<subseteq> set (rp_scopes old)))"

definition token_ok :: "'s auth_server \<Rightarrow> oauth_deps \<Rightarrow> routed \<Rightarrow> string \<Rightarrow> client \<Rightarrow> access_token \<Rightarrow> bool" where
  "token_ok srv d rq g c tok \<longleftrightarrow> client_shown srv d rq g c \<and> at_client_id tok = cl_id c
     \<and> distinct (at_scopes tok) \<and> within_grant srv d rq g (at_scopes tok)
     \<and> (\<forall>x \<in> set (at_scopes tok). scope_exists (as_scopes srv) x \<and> allows_scope c x
          \<and> (x = SCOPE_EVERYTHING \<longrightarrow> g \<in> {PASSWORD, CLIENT_CREDENTIALS}))"

lemma keeps_everything_grant:
  "keeps_everything g \<Longrightarrow> g \<noteq> PERSONAL_ACCESS \<Longrightarrow> g \<in> {PASSWORD, CLIENT_CREDENTIALS}"
  by (auto simp: keeps_everything_def)

lemma issued_token_ok:
  assumes "client_shown srv d rq g c" "issue srv d t c u (finalize (as_scopes srv) ss g c) l w n s = (s', Inr iss)"
    "g \<noteq> PERSONAL_ACCESS" "within_grant srv d rq g ss"
  shows "token_ok srv d rq g c (is_access iss)"
proof -
  have sub: "set (finalize (as_scopes srv) ss g c) \<subseteq> set ss" by (auto simp: set_finalize)
  then have "within_grant srv d rq g (finalize (as_scopes srv) ss g c)"
    using assms(4) unfolding within_grant_def by (meson order_trans)
  then show ?thesis
    using assms(1,3) keeps_everything_grant by (auto simp: token_ok_def issue_Inr [OF assms(2)] set_finalize)
qed



text \<open>
  A code approved for no scope gives the default scopes: a request for \<^verbatim>\<open>*\<close> alone is shown to the user
  as such, the star is dropped from the code, and the token has scopes the user never saw.
\<close>

lemma empty_consent_gives_defaults:
  "let sc = default_scopes [''account''] (scopes_with ''account'' ''Your account'' scopes_new);
       approved = finalize sc [SCOPE_EVERYTHING] AUTHORIZATION_CODE demo_client
   in approved = [] \<and> scopes_validate sc (Some (join '' '' approved)) = Inr [''account'']"
  by code_simp

section \<open>Where the browser is sent\<close>

definition registered :: "client \<Rightarrow> string \<Rightarrow> bool" where
  "registered c uri \<longleftrightarrow> uri \<in> set (cl_redirect_uris c)
     \<or> (\<exists>r \<in> set (cl_redirect_uris c). strip_loopback_port uri \<noteq> None \<and> strip_loopback_port uri = strip_loopback_port r)"

lemma final_redirect_registered: "final_redirect c r = Inr uri \<Longrightarrow> registered c uri \<and> (r = None \<or> r = Some uri)"
  by (fastforce simp: final_redirect_def registered_def redirect_uri_allowed_def list_ex_iff
      split: option.splits if_splits list.splits)

lemma query_no_redirect:
  "scopes_validate sc r = Inl e \<Longrightarrow> oe_redirect_uri e = None"
  "pkce_of_query srv d rq c = Inl e \<Longrightarrow> oe_redirect_uri e = None"
proof -
  have "refuse_unknown sc ss = Inl e \<Longrightarrow> oe_redirect_uri e = None" for ss
    by (induction ss) (auto split: if_splits)
  then show "scopes_validate sc r = Inl e \<Longrightarrow> oe_redirect_uri e = None"
    by (auto simp: scopes_validate_def Let_def split: sum.splits)
  show "pkce_of_query srv d rq c = Inl e \<Longrightarrow> oe_redirect_uri e = None"
    by (auto simp: pkce_of_query_def Let_def split: option.splits if_splits)
qed

lemma append_query_prefix: "prefix uri (append_query uri pairs)"
  by (simp add: append_query_def Let_def)

lemma location_of_json [simp]:
  "header_get ''location'' (r_headers (with_status st (response_json valid v))) = None"
  by (simp add: with_status_def response_json_def with_content_type_def with_header_def response_ok_def with_body_def
      response_new_def header_insert_def header_get_def)

lemma location_found: "header_get ''location'' (r_headers (found valid uri)) = Some loc \<Longrightarrow> loc = uri"
  by (auto simp: found_def with_header_def response_new_def header_get_def header_insert_def split: if_splits)

lemma location_of_error:
  assumes "header_get ''location'' (r_headers (oe_into_response valid e)) = Some loc"
  shows "\<exists>uri. oe_redirect_uri e = Some uri \<and> prefix uri loc"
proof (cases "oe_redirect_uri e")
  case None
  then have "header_get ''location'' (r_headers (oe_into_response valid e)) = None"
    by (auto simp: oe_into_response_def Let_def with_header_def split: option.split)
  then show ?thesis using assms by simp
next
  case (Some uri)
  then have "loc = append_query uri (error_payload e)"
    using assms location_found by (simp add: oe_into_response_def)
  then show ?thesis using Some append_query_prefix by blast
qed

lemma active_client_error: "active_client srv i s = (s', Inl e) \<Longrightarrow> oe_redirect_uri e = None"
  by (auto simp: active_client_def chain_def from_store_def give_def split: prod.splits sum.splits)

lemma issue_code_error: "issue_code srv d t ar u s = (s', Inl e) \<Longrightarrow> oe_redirect_uri e = None"
  by (auto simp: issue_code_def chain_def from_store_def from_result_def refuse_def Let_def
      split: prod.splits sum.splits option.splits dest: active_client_error)

lemma completed_location:
  assumes "header_get ''location'' (r_headers (snd (complete_authorization_request srv d t ar u approved s))) = Some loc"
  shows "prefix (ar_final_redirect_uri ar) loc"
proof (cases approved)
  case False
  then show ?thesis
    using assms location_of_error append_query_prefix prefix_order.trans
    by (fastforce simp: complete_authorization_request_def send_back_def)
next
  case True
  obtain s' r where r: "issue_code srv d t ar u s = (s', r)" by fastforce
  show ?thesis
  proof (cases r)
    case (Inl e)
    then show ?thesis
      using assms True r issue_code_error location_of_error by (fastforce simp: complete_authorization_request_def)
  next
    case (Inr code)
    then show ?thesis
      using assms True r append_query_prefix by (auto simp: complete_authorization_request_def dest!: location_found)
  qed
qed

text \<open>What the validation of a request comes to, when it accepts or sends the browser back.\<close>

lemma validate_sends:
  assumes run: "validate_authorization_request srv d rq s = (s', r)"
    and sends: "\<forall>e. r = Inl e \<longrightarrow> oe_redirect_uri e \<noteq> None"
  obtains client i uri where "query_param d rq ''client_id'' = Some i"
    "os_find_client (as_store srv) i s = (s', Inr (Some client))" "\<not> cl_revoked client"
    "supports_grant client AUTHORIZATION_CODE" "final_redirect client (query_param d rq ''redirect_uri'') = Inr uri"
    "\<And>ar. r = Inr ar \<Longrightarrow> ar_final_redirect_uri ar = uri \<and> ar_client_id ar = cl_id client
        \<and> pkce_of_query srv d rq client = Inr (ar_code_challenge ar, ar_code_challenge_method ar)"
    "\<And>e. r = Inl e \<Longrightarrow> oe_redirect_uri e = Some (append_query uri (state_pairs (query_param d rq ''state'')))"
proof -
  have code: "query_param d rq ''response_type'' = Some ''code''"
    using run sends by (auto simp: validate_authorization_request_def refuse_def split: if_splits)
  obtain i where i: "query_param d rq ''client_id'' = Some i"
    using run sends code by (auto simp: validate_authorization_request_def refuse_def split: option.splits)
  note run = run [unfolded validate_authorization_request_def code i, simplified]
  obtain s0 f where find: "active_client srv i s = (s0, f)" by fastforce
  obtain client where f: "f = Inr (Some client)"
    using run sends find active_client_error [of srv i s s0]
    by (cases f) (auto simp: chain_def refuse_def split: option.splits)
  have grant: "supports_grant client AUTHORIZATION_CODE"
    using run sends find f by (auto simp: chain_def refuse_def split: if_splits)
  obtain uri where uri: "final_redirect client (query_param d rq ''redirect_uri'') = Inr uri"
  proof (cases "final_redirect client (query_param d rq ''redirect_uri'')")
    case (Inl e)
    then have "oe_redirect_uri e = None"
      by (auto simp: final_redirect_def split: option.splits if_splits list.splits)
    then show ?thesis using run sends find f grant Inl by (auto simp: chain_def refuse_def Let_def)
  qed
  have "s' = s0 \<and> (case r of
      Inr ar \<Rightarrow> ar_final_redirect_uri ar = uri \<and> ar_client_id ar = cl_id client
        \<and> pkce_of_query srv d rq client = Inr (ar_code_challenge ar, ar_code_challenge_method ar)
    | Inl e \<Rightarrow> oe_redirect_uri e = Some (append_query uri (state_pairs (query_param d rq ''state''))))"
    using run find f grant uri
    by (auto simp: chain_def refuse_def give_def Let_def send_back_def split: sum.splits)
  then show thesis
    using that [of i client uri] i find f grant uri by (auto simp: active_client_Inr split: sum.splits)
qed


text \<open>A loopback address with a user name in front of another host passes as a loopback address.\<close>

lemma loopback_userinfo_passes:
  "redirect_uri_allowed ''http://127.0.0.1:80@evil.test/cb'' [''http://127.0.0.1/cb'']"
  by code_simp

definition demo_authorize :: routed where
  "demo_authorize = \<lparr>rq_method = ''GET'', rq_path = ''/oauth/authorize'', rq_headers = [], rq_ip = None,
     rq_query = ''q'', rq_body = [], rq_override = None, rq_params = [], rq_matched = None\<rparr>"

definition demo_queried :: oauth_deps where
  "demo_queried = demo_deps\<lparr>od_parsers := \<lparr>pa_form = (\<lambda>_. [(''response_type'', ''code''), (''client_id'', ''app''),
      (''scope'', ''unknown''), (''state'', ''xyz'')]), pa_json = (\<lambda>_. None)\<rparr>\<rparr>"

lemma demo_query:
  "query_param demo_queried demo_authorize n =
     scalar (map_of [(''response_type'', JString ''code''), (''client_id'', JString ''app''),
       (''scope'', JString ''unknown''), (''state'', JString ''xyz'')] n)"
proof -
  have "query_input (od_parsers demo_queried) demo_authorize
      = JObject [(''response_type'', JString ''code''), (''client_id'', JString ''app''),
          (''scope'', JString ''unknown''), (''state'', JString ''xyz'')]"
    by code_simp
  then show ?thesis by (simp add: query_param_def hm_get_def)
qed


section \<open>Who may exchange a code\<close>

text \<open>The proof of possession a challenge asks for.\<close>

definition possesses :: "'s auth_server \<Rightarrow> oauth_deps \<Rightarrow> string option \<Rightarrow> string option \<Rightarrow> string option \<Rightarrow> bool" where
  "possesses srv d challenge method verifier \<longleftrightarrow>
     (case challenge of
        None \<Rightarrow> verifier = None
      | Some ch \<Rightarrow>
          \<exists>v. verifier = Some v \<and> is_pkce_string v
            \<and> (method = Some ''S256'' \<and> pkce_challenge d v = ch
               \<or> method \<in> {None, Some ''plain''} \<and> as_allow_plain srv \<and> v = ch))"

lemma check_verifier_Inr:
  "check_verifier srv d p v = Inr () \<longleftrightarrow> possesses srv d (cp_code_challenge p) (cp_code_challenge_method p) v"
  by (auto simp: check_verifier_def possesses_def Let_def split: option.splits if_splits)

lemma check_redirect_Inr: "check_redirect p v = Inr () \<longleftrightarrow> v = cp_redirect_uri p"
  by (auto simp: check_redirect_def split: option.splits)

lemma finalize_exists: "x \<in> set (finalize sc ss g c) \<Longrightarrow> scope_exists sc x"
  by (simp add: set_finalize)

text \<open>What a code says inside.\<close>

lemma issue_code_payload:
  assumes store: "as_store srv = memory_oauth_store"
    and run: "issue_code srv d t ar u m = (m1, Inr code)"
  obtains client where "hm_get (ar_client_id ar) (mo_clients m) = Some client" "\<not> cl_revoked client"
    "seal_json d (as_sealer srv) (ot_nonce t) (code_to_json
       \<lparr>cp_client_id = cl_id client, cp_redirect_uri = ar_redirect_uri ar, cp_auth_code_id = new_identifier (ot_code t),
        cp_scopes = finalize (as_scopes srv) (ar_scopes ar) AUTHORIZATION_CODE client, cp_user_id = Some u,
        cp_expire_time = timestamp (ot_issue t + chrono_duration d (lt_auth_code (as_lifetimes srv))),
        cp_code_challenge = ar_code_challenge ar, cp_code_challenge_method = ar_code_challenge_method ar\<rparr>) = Inr code"
    "\<not> mo_code_dead (new_identifier (ot_code t)) m1" "mo_clients m1 = mo_clients m"
proof -
  obtain client where client: "hm_get (ar_client_id ar) (mo_clients m) = Some client" "\<not> cl_revoked client"
    using run by (auto simp: issue_code_def chain_def active_client_memory [OF store] refuse_def split: option.splits if_splits)
  show thesis
    using run client that [OF client]
    by (auto simp: issue_code_def step_inversion active_client_memory [OF store] Let_def store memory_oauth_defs
        mo_code_dead_def dead_row_def)
qed


text \<open>A printed form of JSON that parses back: values are numbered.\<close>

instance json :: countable
  by countable_datatype

definition numbered_deps :: oauth_deps where
  "numbered_deps = demo_deps\<lparr>od_to_text := (\<lambda>v. nat_dec (to_nat v)), od_of_text := (\<lambda>s. Some (from_nat (digits_value s)))\<rparr>"

definition demo_approval :: authorization_request where
  "demo_approval = \<lparr>ar_client_id = ''app'', ar_client_name = ''App'', ar_redirect_uri = None,
     ar_final_redirect_uri = ''https://app.test/cb'', ar_state = None, ar_scopes = [''account''],
     ar_code_challenge = Some (replicate 43 CHR ''x''), ar_code_challenge_method = Some ''S256''\<rparr>"


section \<open>The consent is for the request the user saw\<close>

lemma new_identifier_nonempty: "random \<noteq> [] \<Longrightarrow> new_identifier random \<noteq> []"
  by (cases random) (simp_all add: new_identifier_def Let_def)

text \<open>
  The answer to a consent screen counts only with the token that was handed out with it. When an
  authorization is stashed in a session and its two entries are still there later, taking it back
  succeeds with exactly that token and then gives exactly that authorization; and after any attempt,
  successful or not, nothing is left to take.
\<close>

theorem consent_is_single_use:
  assumes codec: "of_value (to_value ar) = Some ar" and random: "random \<noteq> []"
    and stashed: "stash to_value random (Some se) ar = (Some se1, Inr token)"
    and later: "hm_get REQUEST_KEY (ss_values se2) = hm_get REQUEST_KEY (ss_values se1)"
      "hm_get AUTH_TOKEN_KEY (ss_values se2) = hm_get AUTH_TOKEN_KEY (ss_values se1)"
  shows "snd (take_stashed of_value (Some se2) given)
        = (if given = token then Inr ar
           else Inl (err_bad_request ''The authorization request was not found or has expired.''))
    \<and> isl (snd (take_stashed of_value (fst (take_stashed of_value (Some se2) given)) again))"
proof -
  have token: "token = new_identifier random" "token \<noteq> []"
    using stashed random new_identifier_nonempty by (auto simp: stash_def Let_def)
  have keys: "REQUEST_KEY \<noteq> AUTH_TOKEN_KEY" by (simp add: REQUEST_KEY_def AUTH_TOKEN_KEY_def)
  have "hm_get REQUEST_KEY (ss_values se1) = Some (to_value ar)" "hm_get AUTH_TOKEN_KEY (ss_values se1) = Some (JString token)"
    using stashed keys by (auto simp: stash_def Let_def session_put_def)
  then show ?thesis
    using later codec token keys
    by (auto simp: take_stashed_def Let_def session_pull_def as_text_def split: option.splits)
qed

theorem consent_is_single_use_witness:
  "snd (take_stashed (\<lambda>_. Some demo_approval) (fst (stash (\<lambda>_. JNull) ''r'' (Some (session_new ''s'')) demo_approval)) ''forged'')
     \<noteq> Inr demo_approval"
proof -
  obtain se1 where "stash (\<lambda>_. JNull) ''r'' (Some (session_new ''s'')) demo_approval = (Some se1, Inr (new_identifier ''r''))"
    by (simp add: stash_def Let_def)
  from consent_is_single_use [OF _ _ this refl refl, of "\<lambda>_. Some demo_approval" "''forged''"] this
  show ?thesis by (auto simp: new_identifier_def Let_def)
qed

end
