(* ===== verification/Validation.thy ===== *)
theory Validation
  imports Request_Input Route "HOL-Library.Char_ord" "HOL-Library.List_Lexorder"
begin

text \<open>
  Validation, \<^verbatim>\<open>rainier-validation/src\<close>: the rules (\<^verbatim>\<open>rule.rs\<close>), the validator with its wildcard
  patterns (\<^verbatim>\<open>validator.rs\<close>) and form requests (\<^verbatim>\<open>form_request.rs\<close>). Arithmetic on \<^verbatim>\<open>f64\<close> is the record
  \<open>float_ops\<close> over an arbitrary type of floating-point numbers; dates are days, and parsing and
  printing them (\<^verbatim>\<open>chrono\<close>) are parameters. A JSON number is kept as the text it prints as.
\<close>

section \<open>Rules\<close>

record 'f float_ops =
  fo_parse :: "string \<Rightarrow> 'f option"
  fo_of_number :: "string \<Rightarrow> 'f option"
  fo_of_nat :: "nat \<Rightarrow> 'f"
  fo_zero :: 'f
  fo_le :: "'f \<Rightarrow> 'f \<Rightarrow> bool"
  fo_eq :: "'f \<Rightarrow> 'f \<Rightarrow> bool"
  fo_close :: "'f \<Rightarrow> 'f \<Rightarrow> bool"
  fo_whole :: "'f \<Rightarrow> bool"
  fo_as_i64 :: "'f \<Rightarrow> int"
  fo_display :: "'f \<Rightarrow> string"

record dates =
  da_parse :: "string \<Rightarrow> int option"
  da_show :: "int \<Rightarrow> string"

datatype rule_outcome = Pass | Fail string | Skip

datatype 'f rule =
    Required | Present | NotNull
  | StringRule | IntegerRule | NumericRule | BooleanRule | ArrayRule
  | MinRule 'f | MaxRule 'f | SizeRule 'f | BetweenRule 'f 'f
  | EmailRule | UrlRule | SlugRule | UuidRule | AlphaRule | AlphaNumericRule | AlphaDashRule
  | InRule "string list" | NotInRule "string list" | StartsWithRule string | EndsWithRule string
  | DateRule | AfterRule int | BeforeRule int
  | Confirmed | SameRule string | DifferentRule string
  | CustomRule string "json \<Rightarrow> bool"

fun rule_name :: "'f rule \<Rightarrow> string" where
  "rule_name Required = ''required''"
| "rule_name Present = ''present''"
| "rule_name NotNull = ''not_null''"
| "rule_name StringRule = ''string''"
| "rule_name IntegerRule = ''integer''"
| "rule_name NumericRule = ''numeric''"
| "rule_name BooleanRule = ''boolean''"
| "rule_name ArrayRule = ''array''"
| "rule_name (MinRule _) = ''min''"
| "rule_name (MaxRule _) = ''max''"
| "rule_name (SizeRule _) = ''size''"
| "rule_name (BetweenRule _ _) = ''between''"
| "rule_name EmailRule = ''email''"
| "rule_name UrlRule = ''url''"
| "rule_name SlugRule = ''slug''"
| "rule_name UuidRule = ''uuid''"
| "rule_name AlphaRule = ''alpha''"
| "rule_name AlphaNumericRule = ''alpha_num''"
| "rule_name AlphaDashRule = ''alpha_dash''"
| "rule_name (InRule _) = ''in''"
| "rule_name (NotInRule _) = ''not_in''"
| "rule_name (StartsWithRule _) = ''starts_with''"
| "rule_name (EndsWithRule _) = ''ends_with''"
| "rule_name DateRule = ''date''"
| "rule_name (AfterRule _) = ''after''"
| "rule_name (BeforeRule _) = ''before''"
| "rule_name Confirmed = ''confirmed''"
| "rule_name (SameRule _) = ''same''"
| "rule_name (DifferentRule _) = ''different''"
| "rule_name (CustomRule _ _) = ''custom''"

fun applies_to_missing :: "'f rule \<Rightarrow> bool" where
  "applies_to_missing Required = True"
| "applies_to_missing Present = True"
| "applies_to_missing NotNull = True"
| "applies_to_missing _ = False"

definition field_lookup :: "json \<Rightarrow> string \<Rightarrow> json option" where
  "field_lookup root path = lookup_path root (split_on CHR ''.'' path)"

text \<open>Objects are compared as maps, and the two zeros of \<^verbatim>\<open>f64\<close> are equal.\<close>

definition number_same :: "string \<Rightarrow> string \<Rightarrow> bool" where
  "number_same m n \<longleftrightarrow> m = n \<or> {m, n} \<subseteq> {''0.0'', ''-0.0''}"

lemma zip_fst_size [termination_simp]: "(x, y) \<in> set (zip xs ys) \<Longrightarrow> size x < Suc (size_list size xs)"
  using size_list_estimation' [OF set_zip_leftD, of x y xs ys "size x" size] by simp

fun json_same :: "json \<Rightarrow> json \<Rightarrow> bool" where
  "json_same (JObject m) (JObject m') \<longleftrightarrow> length m = length m'
     \<and> list_all (\<lambda>p. case hm_get (fst p) m' of Some v \<Rightarrow> json_same (snd p) v | None \<Rightarrow> False) m"
| "json_same (JArray xs) (JArray ys) \<longleftrightarrow> length xs = length ys \<and> list_all (\<lambda>(x, y). json_same x y) (zip xs ys)"
| "json_same (JNumber m) (JNumber n) \<longleftrightarrow> number_same m n"
| "json_same a b \<longleftrightarrow> a = b"

definition rule_check_if :: "bool \<Rightarrow> string \<Rightarrow> rule_outcome" where
  "rule_check_if passed msg = (if passed then Pass else Fail msg)"

definition is_filled :: "json option \<Rightarrow> bool" where
  "is_filled v =
     (case v of
        None \<Rightarrow> False | Some JNull \<Rightarrow> False
      | Some (JString s) \<Rightarrow> trim s \<noteq> []
      | Some (JArray items) \<Rightarrow> items \<noteq> []
      | Some (JObject m) \<Rightarrow> m \<noteq> []
      | Some _ \<Rightarrow> True)"

datatype 'f measure_of = MNumber 'f | MLength nat

fun measure_value :: "'f float_ops \<Rightarrow> json \<Rightarrow> 'f measure_of" where
  "measure_value fo (JNumber n) = MNumber (case fo_of_number fo n of Some x \<Rightarrow> x | None \<Rightarrow> fo_zero fo)"
| "measure_value fo (JString s) =
     (case fo_parse fo s of Some x \<Rightarrow> MNumber x | None \<Rightarrow> MLength (length (chars s)))"
| "measure_value fo (JArray items) = MLength (length items)"
| "measure_value fo (JObject m) = MLength (hm_len m)"
| "measure_value fo (JBool _) = MLength 0"
| "measure_value fo JNull = MLength 0"

fun value_unit :: "json \<Rightarrow> string" where
  "value_unit (JArray _) = ''items''"
| "value_unit (JObject _) = ''items''"
| "value_unit _ = ''characters''"

definition trim_float :: "'f float_ops \<Rightarrow> 'f \<Rightarrow> string" where
  "trim_float fo x = (if fo_whole fo x then int_dec (fo_as_i64 fo x) else fo_display fo x)"

definition field_label :: "string \<Rightarrow> string" where
  "field_label field = map (\<lambda>c. if c = CHR ''_'' \<or> c = CHR ''.'' then CHR '' '' else c) field"

fun value_text :: "json \<Rightarrow> string option" where
  "value_text (JString s) = Some s"
| "value_text (JNumber n) = Some n"
| "value_text (JBool b) = Some (if b then ''true'' else ''false'')"
| "value_text _ = None"

fun as_number :: "'f float_ops \<Rightarrow> json \<Rightarrow> 'f option" where
  "as_number fo (JNumber n) = fo_of_number fo n"
| "as_number fo (JString s) = fo_parse fo (trim s)"
| "as_number fo _ = None"

fun as_integer :: "json \<Rightarrow> int option" where
  "as_integer (JNumber n) = parse_i64 n"
| "as_integer (JString s) = parse_i64 (trim s)"
| "as_integer _ = None"

fun as_bool :: "json \<Rightarrow> bool option" where
  "as_bool (JBool b) = Some b"
| "as_bool (JString s) =
     (let t = to_ascii_lowercase (trim s) in
      if t \<in> {''true'', ''1'', ''on'', ''yes''} then Some True
      else if t \<in> {''false'', ''0'', ''off'', ''no''} then Some False else None)"
| "as_bool (JNumber n) =
     (case parse_i64 n of Some i \<Rightarrow> if i = 0 \<or> i = 1 then Some (i \<noteq> 0) else None | None \<Rightarrow> None)"
| "as_bool _ = None"

definition is_email :: "string \<Rightarrow> bool" where
  "is_email v =
     (case split_once CHR ''@'' v of
        None \<Rightarrow> False
      | Some (local, domain) \<Rightarrow>
          if local = [] \<or> domain = [] \<or> CHR '' '' \<in> set v then False
          else if CHR ''@'' \<in> set domain \<or> hd domain = CHR ''.'' \<or> last domain = CHR ''.'' then False
          else (case split_once CHR ''.'' domain of
                  Some (head, tail) \<Rightarrow> head \<noteq> [] \<and> tail \<noteq> [] \<and> CHR '' '' \<notin> set tail
                | None \<Rightarrow> False))"

definition is_url :: "string \<Rightarrow> bool" where
  "is_url v =
     (case (if prefix ''https://'' v then Some (drop 8 v)
            else if prefix ''http://'' v then Some (drop 7 v) else None) of
        Some rest \<Rightarrow> rest \<noteq> [] \<and> hd rest \<noteq> CHR ''/'' \<and> CHR '' '' \<notin> set rest
      | None \<Rightarrow> False)"

fun uuid_parts_ok :: "nat list \<Rightarrow> string list \<Rightarrow> bool" where
  "uuid_parts_ok [] parts = (parts = [])"
| "uuid_parts_ok (expected # rest) [] = False"
| "uuid_parts_ok (expected # rest) (part # parts) =
     (if length part \<noteq> expected \<or> \<not> list_all is_ascii_hexdigit part then False else uuid_parts_ok rest parts)"

definition is_uuid_text :: "string \<Rightarrow> bool" where
  "is_uuid_text v = uuid_parts_ok [8, 4, 4, 4, 12] (split_on CHR ''-'' v)"

definition parse_date :: "dates \<Rightarrow> string \<Rightarrow> int option" where
  "parse_date da v = da_parse da (trim v)"

definition text_is :: "json \<Rightarrow> (string \<Rightarrow> bool) \<Rightarrow> bool" where
  "text_is v P = (case value_text v of Some s \<Rightarrow> P s | None \<Rightarrow> False)"

definition the_field :: "string \<Rightarrow> string \<Rightarrow> string" where
  "the_field name rest = ''The '' @ name @ '' field '' @ rest"

text \<open>A value that is there and not null.\<close>

fun check_value :: "'f float_ops \<Rightarrow> dates \<Rightarrow> 'f rule \<Rightarrow> string \<Rightarrow> json \<Rightarrow> json \<Rightarrow> rule_outcome" where
  "check_value fo da StringRule field v all =
     rule_check_if (case v of JString _ \<Rightarrow> True | _ \<Rightarrow> False) (the_field (field_label field) ''must be a string.'')"
| "check_value fo da IntegerRule field v all =
     rule_check_if (as_integer v \<noteq> None) (the_field (field_label field) ''must be an integer.'')"
| "check_value fo da NumericRule field v all =
     rule_check_if (as_number fo v \<noteq> None) (the_field (field_label field) ''must be a number.'')"
| "check_value fo da BooleanRule field v all =
     rule_check_if (as_bool v \<noteq> None) (the_field (field_label field) ''must be true or false.'')"
| "check_value fo da ArrayRule field v all =
     rule_check_if (case v of JArray _ \<Rightarrow> True | _ \<Rightarrow> False) (the_field (field_label field) ''must be an array.'')"
| "check_value fo da (MinRule mn) field v all =
     (case measure_value fo v of
        MNumber n \<Rightarrow> rule_check_if (fo_le fo mn n)
          (the_field (field_label field) (''must be at least '' @ trim_float fo mn @ ''.''))
      | MLength len \<Rightarrow> rule_check_if (fo_le fo mn (fo_of_nat fo len))
          (the_field (field_label field) (''must be at least '' @ trim_float fo mn @ '' '' @ value_unit v @ ''.'')))"
| "check_value fo da (MaxRule mx) field v all =
     (case measure_value fo v of
        MNumber n \<Rightarrow> rule_check_if (fo_le fo n mx)
          (the_field (field_label field) (''must not be greater than '' @ trim_float fo mx @ ''.''))
      | MLength len \<Rightarrow> rule_check_if (fo_le fo (fo_of_nat fo len) mx)
          (the_field (field_label field) (''must not be greater than '' @ trim_float fo mx @ '' '' @ value_unit v @ ''.'')))"
| "check_value fo da (SizeRule sz) field v all =
     (case measure_value fo v of
        MNumber n \<Rightarrow> rule_check_if (fo_close fo n sz)
          (the_field (field_label field) (''must be '' @ trim_float fo sz @ ''.''))
      | MLength len \<Rightarrow> rule_check_if (fo_eq fo (fo_of_nat fo len) sz)
          (the_field (field_label field) (''must be '' @ trim_float fo sz @ '' '' @ value_unit v @ ''.'')))"
| "check_value fo da (BetweenRule low high) field v all =
     (let actual = (case measure_value fo v of MNumber n \<Rightarrow> n | MLength len \<Rightarrow> fo_of_nat fo len) in
      rule_check_if (fo_le fo low actual \<and> fo_le fo actual high)
        (the_field (field_label field) (''must be between '' @ trim_float fo low @ '' and '' @ trim_float fo high @ ''.'')))"
| "check_value fo da EmailRule field v all =
     rule_check_if (text_is v is_email) (the_field (field_label field) ''must be a valid email address.'')"
| "check_value fo da UrlRule field v all =
     rule_check_if (text_is v is_url) (the_field (field_label field) ''must be a valid URL.'')"
| "check_value fo da SlugRule field v all =
     rule_check_if (text_is v (\<lambda>s. s \<noteq> [] \<and> list_all (\<lambda>c. is_ascii_alphanumeric c \<or> c = CHR ''-'' \<or> c = CHR ''_'') s))
       (the_field (field_label field) ''must be a valid slug.'')"
| "check_value fo da UuidRule field v all =
     rule_check_if (text_is v is_uuid_text) (the_field (field_label field) ''must be a valid UUID.'')"
| "check_value fo da AlphaRule field v all =
     rule_check_if (text_is v (\<lambda>s. s \<noteq> [] \<and> list_all is_ascii_alphabetic s))
       (the_field (field_label field) ''must only contain letters.'')"
| "check_value fo da AlphaNumericRule field v all =
     rule_check_if (text_is v (\<lambda>s. s \<noteq> [] \<and> list_all is_ascii_alphanumeric s))
       (the_field (field_label field) ''must only contain letters and numbers.'')"
| "check_value fo da AlphaDashRule field v all =
     rule_check_if (text_is v (\<lambda>s. s \<noteq> [] \<and> list_all (\<lambda>c. is_ascii_alphanumeric c \<or> c = CHR ''-'' \<or> c = CHR ''_'') s))
       (the_field (field_label field) ''must only contain letters, numbers, dashes and underscores.'')"
| "check_value fo da (InRule allowed) field v all =
     rule_check_if (text_is v (\<lambda>s. s \<in> set allowed)) (''The selected '' @ field_label field @ '' is invalid.'')"
| "check_value fo da (NotInRule denied) field v all =
     rule_check_if (text_is v (\<lambda>s. s \<notin> set denied)) (''The selected '' @ field_label field @ '' is invalid.'')"
| "check_value fo da (StartsWithRule p) field v all =
     rule_check_if (text_is v (\<lambda>s. prefix p s)) (the_field (field_label field) (''must start with '' @ p @ ''.''))"
| "check_value fo da (EndsWithRule p) field v all =
     rule_check_if (text_is v (\<lambda>s. suffix p s)) (the_field (field_label field) (''must end with '' @ p @ ''.''))"
| "check_value fo da DateRule field v all =
     rule_check_if (text_is v (\<lambda>s. parse_date da s \<noteq> None)) (the_field (field_label field) ''must be a valid date.'')"
| "check_value fo da (AfterRule bound) field v all =
     rule_check_if (text_is v (\<lambda>s. case parse_date da s of Some d \<Rightarrow> d > bound | None \<Rightarrow> False))
       (the_field (field_label field) (''must be a date after '' @ da_show da bound @ ''.''))"
| "check_value fo da (BeforeRule bound) field v all =
     rule_check_if (text_is v (\<lambda>s. case parse_date da s of Some d \<Rightarrow> d < bound | None \<Rightarrow> False))
       (the_field (field_label field) (''must be a date before '' @ da_show da bound @ ''.''))"
| "check_value fo da Confirmed field v all =
     rule_check_if (case field_lookup all (field @ ''_confirmation'') of Some w \<Rightarrow> json_same w v | None \<Rightarrow> False)
       (the_field (field_label field) ''confirmation does not match.'')"
| "check_value fo da (SameRule other) field v all =
     rule_check_if (case field_lookup all other of Some w \<Rightarrow> json_same w v | None \<Rightarrow> False)
       (the_field (field_label field) (''must match '' @ field_label other @ ''.''))"
| "check_value fo da (DifferentRule other) field v all =
     rule_check_if (case field_lookup all other of Some w \<Rightarrow> \<not> json_same w v | None \<Rightarrow> True)
       (the_field (field_label field) (''must be different from '' @ field_label other @ ''.''))"
| "check_value fo da (CustomRule msg P) field v all = rule_check_if (P v) msg"
| "check_value fo da _ field v all = Pass"

definition rule_check ::
  "'f float_ops \<Rightarrow> dates \<Rightarrow> 'f rule \<Rightarrow> string \<Rightarrow> json option \<Rightarrow> json \<Rightarrow> rule_outcome"
where
  "rule_check fo da rule field v all =
     (case rule of
        Required \<Rightarrow> rule_check_if (is_filled v) (the_field (field_label field) ''is required.'')
      | Present \<Rightarrow> rule_check_if (v \<noteq> None) (the_field (field_label field) ''must be present.'')
      | NotNull \<Rightarrow> rule_check_if (v \<noteq> Some JNull) (the_field (field_label field) ''must not be null.'')
      | _ \<Rightarrow>
          (case v of
             None \<Rightarrow> Skip
           | Some w \<Rightarrow> if w = JNull then Skip else check_value fo da rule field w all))"

section \<open>Failures\<close>

text \<open>
  The failures by field. The code keeps them in a \<^verbatim>\<open>BTreeMap\<close>: \<open>error_entries\<close> is the order in which it
  is walked, the byte order of the names.
\<close>

type_synonym validation_errors = "(string, string list) hmap"

definition errors_add :: "string \<Rightarrow> string \<Rightarrow> validation_errors \<Rightarrow> validation_errors" where
  "errors_add field msg e =
     hm_insert field ((case hm_get field e of Some ms \<Rightarrow> ms | None \<Rightarrow> []) @ [msg]) e"

definition error_entries :: "validation_errors \<Rightarrow> (string \<times> string list) list" where
  "error_entries e = sort_key fst e"

definition errors_is_empty :: "validation_errors \<Rightarrow> bool" where
  "errors_is_empty e \<longleftrightarrow> e = []"

definition errors_len :: "validation_errors \<Rightarrow> nat" where
  "errors_len e = hm_len e"

definition errors_has :: "validation_errors \<Rightarrow> string \<Rightarrow> bool" where
  "errors_has e field = hm_contains field e"

definition errors_get :: "validation_errors \<Rightarrow> string \<Rightarrow> string list" where
  "errors_get e field = (case hm_get field e of Some ms \<Rightarrow> ms | None \<Rightarrow> [])"

definition first_of :: "'a list \<Rightarrow> 'a option" where
  "first_of xs = (case xs of [] \<Rightarrow> None | x # _ \<Rightarrow> Some x)"

definition errors_first :: "validation_errors \<Rightarrow> string \<Rightarrow> string option" where
  "errors_first e field = Option.bind (hm_get field e) first_of"

definition errors_first_message :: "validation_errors \<Rightarrow> string option" where
  "errors_first_message e = Option.bind (first_of (error_entries e)) (\<lambda>p. first_of (snd p))"

definition errors_all_messages :: "validation_errors \<Rightarrow> string list" where
  "errors_all_messages e = concat (map snd (error_entries e))"

definition errors_fields :: "validation_errors \<Rightarrow> string list" where
  "errors_fields e = map fst (error_entries e)"

definition errors_to_json :: "validation_errors \<Rightarrow> json" where
  "errors_to_json e = JObject (map (\<lambda>(field, ms). (field, JArray (map JString ms))) (error_entries e))"

definition error_of_errors :: "validation_errors \<Rightarrow> error" where
  "error_of_errors e = err_validation (errors_to_json e)"

definition errors_display :: "validation_errors \<Rightarrow> string" where
  "errors_display e = (case errors_first_message e of Some m \<Rightarrow> m | None \<Rightarrow> ''The given data was valid.'')"

section \<open>The validator\<close>

record 'f validator =
  va_rules :: "(string \<times> 'f rule list) list"
  va_messages :: "(string \<times> string) list"

definition validator_new :: "'f validator" where
  "validator_new = \<lparr>va_rules = [], va_messages = []\<rparr>"

definition from_rules :: "(string \<times> 'f rule list) list \<Rightarrow> 'f validator" where
  "from_rules rs = \<lparr>va_rules = rs, va_messages = []\<rparr>"

definition add_rules :: "string \<Rightarrow> 'f rule list \<Rightarrow> 'f validator \<Rightarrow> 'f validator" where
  "add_rules field rs va = va\<lparr>va_rules := va_rules va @ [(field, rs)]\<rparr>"

definition custom_message :: "string \<Rightarrow> string \<Rightarrow> 'f validator \<Rightarrow> 'f validator" where
  "custom_message key msg va = va\<lparr>va_messages := va_messages va @ [(key, msg)]\<rparr>"

definition custom_messages :: "(string \<times> string) list \<Rightarrow> 'f validator \<Rightarrow> 'f validator" where
  "custom_messages ms va = va\<lparr>va_messages := va_messages va @ ms\<rparr>"

definition message_for :: "'f validator \<Rightarrow> string \<Rightarrow> 'f rule \<Rightarrow> string \<Rightarrow> string" where
  "message_for va pattern rule default_msg =
     (let key = pattern @ ''.'' @ rule_name rule in
      case find (\<lambda>(candidate, _). candidate = key) (va_messages va) of
        Some (_, msg) \<Rightarrow> msg
      | None \<Rightarrow> default_msg)"

definition join_field :: "string \<Rightarrow> string \<Rightarrow> string" where
  "join_field pre segment = (if pre = [] then segment else pre @ ''.'' @ segment)"

definition expand_segment :: "json \<Rightarrow> string \<Rightarrow> string \<Rightarrow> string list" where
  "expand_segment inp segment pre =
     (if segment \<noteq> ''*'' then [join_field pre segment]
      else (case field_lookup inp pre of
              Some (JArray items) \<Rightarrow> map (\<lambda>index. join_field pre (nat_dec index)) [0..<length items]
            | _ \<Rightarrow> []))"

definition expand :: "string \<Rightarrow> json \<Rightarrow> string list" where
  "expand pattern inp =
     (if CHR ''*'' \<notin> set pattern then [pattern]
      else fold (\<lambda>segment expanded. concat (map (expand_segment inp segment) expanded))
             (split_on CHR ''.'' pattern) [[]])"

fun check_field ::
  "'f float_ops \<Rightarrow> dates \<Rightarrow> 'f validator \<Rightarrow> json \<Rightarrow> string \<Rightarrow> string \<Rightarrow> 'f rule list
   \<Rightarrow> validation_errors \<Rightarrow> validation_errors"
where
  "check_field fo da va inp pattern field [] e = e"
| "check_field fo da va inp pattern field (rule # rs) e =
     (case rule_check fo da rule field (field_lookup inp field) inp of
        Pass \<Rightarrow> check_field fo da va inp pattern field rs e
      | Fail msg \<Rightarrow>
          (let e' = errors_add field (message_for va pattern rule msg) e in
           if applies_to_missing rule then e' else check_field fo da va inp pattern field rs e')
      | Skip \<Rightarrow> e)"

definition collect_errors :: "'f float_ops \<Rightarrow> dates \<Rightarrow> 'f validator \<Rightarrow> json \<Rightarrow> validation_errors" where
  "collect_errors fo da va inp =
     fold (\<lambda>(pattern, rs) e. fold (\<lambda>field. check_field fo da va inp pattern field rs) (expand pattern inp) e)
       (va_rules va) []"

definition validate :: "'f float_ops \<Rightarrow> dates \<Rightarrow> 'f validator \<Rightarrow> json \<Rightarrow> validation_errors + unit" where
  "validate fo da va inp =
     (let e = collect_errors fo da va inp in if errors_is_empty e then Inr () else Inl e)"

definition validated :: "'f float_ops \<Rightarrow> dates \<Rightarrow> 'f validator \<Rightarrow> json \<Rightarrow> validation_errors + json" where
  "validated fo da va inp =
     (case validate fo da va inp of Inl e \<Rightarrow> Inl e | Inr _ \<Rightarrow> Inr inp)"

definition pattern_root :: "string \<Rightarrow> string" where
  "pattern_root pattern = takeWhile (\<lambda>c. c \<noteq> CHR ''.'' \<and> c \<noteq> CHR ''*'') pattern"

definition value_key :: "json \<Rightarrow> string \<Rightarrow> json option" where
  "value_key v key = (case v of JObject m \<Rightarrow> hm_get key m | _ \<Rightarrow> None)"

definition keep_root :: "json \<Rightarrow> string \<Rightarrow> (string, json) hmap \<Rightarrow> (string, json) hmap" where
  "keep_root inp root kept =
     (if root = [] \<or> hm_contains root kept then kept
      else (case value_key inp root of Some v \<Rightarrow> hm_insert root v kept | None \<Rightarrow> kept))"

definition validated_only :: "'f float_ops \<Rightarrow> dates \<Rightarrow> 'f validator \<Rightarrow> json \<Rightarrow> validation_errors + json" where
  "validated_only fo da va inp =
     (case validate fo da va inp of
        Inl e \<Rightarrow> Inl e
      | Inr _ \<Rightarrow> Inr (JObject (fold (\<lambda>(pattern, _). keep_root inp (pattern_root pattern)) (va_rules va) [])))"

section \<open>Form requests\<close>

text \<open>
  An implementation of \<^verbatim>\<open>FormRequest\<close> is the record of its methods; \<open>fr_from_input\<close> is what the type's
  deserialisation makes of the filtered input.
\<close>

record ('f, 'a) form_request =
  fr_rules :: "(string \<times> 'f rule list) list"
  fr_authorize :: "routed \<Rightarrow> bool"
  fr_messages :: "(string \<times> string) list"
  fr_validation_data :: "routed \<Rightarrow> json"
  fr_from_input :: "json \<Rightarrow> 'a result"

definition form_validator :: "('f, 'a) form_request \<Rightarrow> 'f validator" where
  "form_validator fr = custom_messages (fr_messages fr) (from_rules (fr_rules fr))"

definition form_check ::
  "'f float_ops \<Rightarrow> dates \<Rightarrow> ('f, 'a) form_request \<Rightarrow> routed \<Rightarrow> validation_errors + unit"
where
  "form_check fo da fr rq = validate fo da (form_validator fr) (fr_validation_data fr rq)"

definition validate_request ::
  "'f float_ops \<Rightarrow> dates \<Rightarrow> ('f, 'a) form_request \<Rightarrow> routed \<Rightarrow> 'a result"
where
  "validate_request fo da fr rq =
     (if \<not> fr_authorize fr rq then Inl (err_unauthorized ''This action is unauthorized.'')
      else
        (let inp = fr_validation_data fr rq in
         case validated_only fo da (form_validator fr) inp of
           Inl e \<Rightarrow> Inl (error_of_errors e)
         | Inr kept \<Rightarrow> fr_from_input fr kept))"

definition field_rules :: "string \<Rightarrow> 'f rule list \<Rightarrow> string \<times> 'f rule list" where
  "field_rules name rs = (name, rs)"

section \<open>What validation accepts\<close>

text \<open>
  The reference reading of a rule set. A pattern is walked down the input segment by segment; \<open>*\<close>
  stands for every index of the array it meets, and each instance comes with the value found there.
  A field that is absent or null answers for the presence rules its list begins with, any other
  field for all of its rules.
\<close>

definition segment_choices :: "json option \<Rightarrow> string \<Rightarrow> string list" where
  "segment_choices v seg =
     (if seg \<noteq> ''*'' then [seg]
      else (case v of Some (JArray items) \<Rightarrow> map nat_dec [0..<length items] | _ \<Rightarrow> []))"

fun instances :: "json option \<Rightarrow> string list \<Rightarrow> (string list \<times> json option) list" where
  "instances v [] = [([], v)]"
| "instances v (seg # segs) =
     concat (map (\<lambda>s. map (apfst ((#) s)) (instances (Option.bind v (\<lambda>c. lookup_step c s)) segs))
       (segment_choices v seg))"

definition field_passes ::
  "'f float_ops \<Rightarrow> dates \<Rightarrow> 'f rule list \<Rightarrow> string \<Rightarrow> json option \<Rightarrow> json \<Rightarrow> bool"
where
  "field_passes fo da rs field v all =
     list_all (\<lambda>r. rule_check fo da r field v all = Pass)
       (if v = None \<or> v = Some JNull then takeWhile applies_to_missing rs else rs)"

definition rooted :: "string \<Rightarrow> bool" where
  "rooted pattern \<longleftrightarrow> (CHR ''*'' \<in> set pattern \<longrightarrow> hd (split_on CHR ''.'' pattern) \<notin> {[], ''*''})"

definition all_fields_pass :: "'f float_ops \<Rightarrow> dates \<Rightarrow> (string \<times> 'f rule list) list \<Rightarrow> json \<Rightarrow> bool" where
  "all_fields_pass fo da rules inp =
     list_all (\<lambda>(pattern, rs).
         list_all (\<lambda>(path, v). field_passes fo da rs (join ''.'' path) v inp)
           (instances (Some inp) (split_on CHR ''.'' pattern)))
       rules"

lemma errors_add_nonempty [simp]: "errors_add f m e \<noteq> []"
  by (cases e) (auto simp: errors_add_def hm_insert_def)

lemma rule_check_if_not_Skip [simp]: "rule_check_if b m \<noteq> Skip"
  by (simp add: rule_check_if_def)

lemma check_value_not_Skip [simp]: "check_value fo da r field v all \<noteq> Skip"
  by (cases r) (simp_all add: Let_def split: measure_of.split)

lemma rule_check_Skip:
  "rule_check fo da r field v all = Skip \<longleftrightarrow> \<not> applies_to_missing r \<and> (v = None \<or> v = Some JNull)"
  by (cases r) (auto simp: rule_check_def simp del: check_value.simps split: option.split)

lemma check_field_keeps: "e \<noteq> [] \<Longrightarrow> check_field fo da va inp pattern field rs e \<noteq> []"
  by (induction rs arbitrary: e) (auto simp: Let_def split: rule_outcome.split)

lemma check_field_clean:
  "check_field fo da va inp pattern field rs [] = [] \<longleftrightarrow> field_passes fo da rs field (field_lookup inp field) inp"
proof (induction rs)
  case (Cons r rs)
  show ?case
  proof (cases "rule_check fo da r field (field_lookup inp field) inp")
    case Pass
    then have "applies_to_missing r \<or> \<not> (field_lookup inp field = None \<or> field_lookup inp field = Some JNull)"
      using rule_check_Skip [of fo da r field "field_lookup inp field" inp] by auto
    then show ?thesis using Cons Pass by (auto simp: field_passes_def)
  next
    case (Fail m)
    then have "applies_to_missing r \<or> \<not> (field_lookup inp field = None \<or> field_lookup inp field = Some JNull)"
      using rule_check_Skip [of fo da r field "field_lookup inp field" inp] by auto
    then show ?thesis using Fail by (auto simp: Let_def check_field_keeps field_passes_def)
  next
    case Skip
    then have "\<not> applies_to_missing r \<and> (field_lookup inp field = None \<or> field_lookup inp field = Some JNull)"
      unfolding rule_check_Skip .
    then show ?thesis using Skip by (auto simp: field_passes_def)
  qed
qed (simp add: field_passes_def)

text \<open>A fold that never empties its accumulator ends empty when each step keeps it empty.\<close>

lemma fold_stays_empty:
  assumes "\<And>x e. x \<in> set xs \<Longrightarrow> e \<noteq> [] \<Longrightarrow> f x e \<noteq> []"
  shows "fold f xs e = [] \<longleftrightarrow> e = [] \<and> (\<forall>x \<in> set xs. f x [] = [])"
  using assms
proof (induction xs arbitrary: e)
  case (Cons x xs)
  show ?case
  proof (cases "e = [] \<and> f x [] = []")
    case True
    then show ?thesis using Cons by simp
  next
    case False
    then have "f x e \<noteq> []" using Cons.prems by (cases "e = []") auto
    then show ?thesis using Cons False by auto
  qed
qed simp

lemma collect_errors_clean:
  "collect_errors fo da va inp = [] \<longleftrightarrow>
     (\<forall>(pattern, rs) \<in> set (va_rules va). \<forall>field \<in> set (expand pattern inp).
        field_passes fo da rs field (field_lookup inp field) inp)"
proof -
  have inner: "fold (\<lambda>field. check_field fo da va inp pattern field rs) fs e = [] \<longleftrightarrow>
      e = [] \<and> (\<forall>field \<in> set fs. field_passes fo da rs field (field_lookup inp field) inp)" for pattern rs fs e
    by (subst fold_stays_empty) (auto simp: check_field_keeps check_field_clean)
  show ?thesis
    unfolding collect_errors_def
    by (subst fold_stays_empty) (auto simp: inner split: prod.splits)
qed

lemma split_on_chars: "w \<in> set (split_on c s) \<Longrightarrow> x \<in> set w \<Longrightarrow> x \<in> set s"
  by (induction s arbitrary: w) (fastforce split: list.splits if_splits)+

lemma join_field_snoc:
  "qs \<noteq> [] \<Longrightarrow> hd qs \<noteq> [] \<Longrightarrow> join_field (join ''.'' qs) seg = join ''.'' (qs @ [seg])"
proof -
  assume a: "qs \<noteq> []" "hd qs \<noteq> []"
  have "join ''.'' (qs @ [seg]) = join ''.'' qs @ ''.'' @ seg" using a(1)
    by (induction "''.''" qs rule: join.induct) auto
  moreover have "join ''.'' qs \<noteq> []" using a by (cases qs; cases "tl qs") auto
  ultimately show ?thesis by (simp add: join_field_def)
qed

lemma lookup_path_snoc: "lookup_path v (qs @ [s]) = Option.bind (lookup_path v qs) (\<lambda>c. lookup_step c s)"
  by (induction qs arbitrary: v) (auto split: Option.bind_split)

lemma instances_value:
  "(ps, w) \<in> set (instances v segs) \<Longrightarrow> w = Option.bind v (\<lambda>c. lookup_path c ps)"
  by (induction segs arbitrary: v ps w) (fastforce split: Option.bind_split)+

lemma segment_choices_dots:
  "s \<in> set (segment_choices v seg) \<Longrightarrow> CHR ''.'' \<notin> set seg \<Longrightarrow> CHR ''.'' \<notin> set s"
  using nat_dec_digit [of "CHR ''.''"]
  by (fastforce simp: segment_choices_def is_digit_def split: if_splits option.splits json.splits)

lemma instances_dots:
  "(ps, w) \<in> set (instances v segs) \<Longrightarrow> \<forall>s \<in> set segs. CHR ''.'' \<notin> set s \<Longrightarrow> \<forall>s \<in> set ps. CHR ''.'' \<notin> set s"
proof (induction segs arbitrary: v ps w)
  case (Cons seg segs)
  obtain s ps' where s: "ps = s # ps'" "s \<in> set (segment_choices v seg)"
      "(ps', w) \<in> set (instances (Option.bind v (\<lambda>c. lookup_step c s)) segs)"
    using Cons.prems(1) by auto
  then show ?case using Cons.IH [OF s(3)] segment_choices_dots [OF s(2)] Cons.prems(2) by auto
qed simp

lemma instances_plain:
  "''*'' \<notin> set segs \<Longrightarrow> instances v segs = [(segs, Option.bind v (\<lambda>c. lookup_path c segs))]"
  by (induction segs arbitrary: v) (auto simp: segment_choices_def split: Option.bind_split)

definition dotted :: "string list \<Rightarrow> bool" where
  "dotted qs \<longleftrightarrow> qs \<noteq> [] \<and> hd qs \<noteq> [] \<and> (\<forall>s \<in> set qs. CHR ''.'' \<notin> set s)"

lemma field_lookup_dotted: "dotted qs \<Longrightarrow> field_lookup v (join ''.'' qs) = lookup_path v qs"
  by (simp add: dotted_def field_lookup_def split_on_join)

lemma expand_segment_dotted:
  "dotted qs \<Longrightarrow> expand_segment inp seg (join ''.'' qs) =
     map (\<lambda>s. join ''.'' (qs @ [s])) (segment_choices (lookup_path inp qs) seg)"
  by (auto simp: expand_segment_def segment_choices_def field_lookup_dotted join_field_snoc dotted_def
      split: option.split json.split)

lemma expand_fold:
  assumes "\<forall>qs \<in> set qss. dotted qs" and "\<forall>s \<in> set segs. CHR ''.'' \<notin> set s"
  shows "fold (\<lambda>segment expanded. concat (map (expand_segment inp segment) expanded)) segs (map (join ''.'') qss) =
    concat (map (\<lambda>qs. map (\<lambda>(ps, _). join ''.'' (qs @ ps)) (instances (lookup_path inp qs) segs)) qss)"
  using assms
proof (induction segs arbitrary: qss)
  case Nil
  then show ?case by (simp add: concat_map_singleton)
next
  case (Cons seg segs)
  define next_qss where
    "next_qss = concat (map (\<lambda>qs. map (\<lambda>s. qs @ [s]) (segment_choices (lookup_path inp qs) seg)) qss)"
  have "concat (map (expand_segment inp seg) (map (join ''.'') qss)) = map (join ''.'') next_qss"
    unfolding next_qss_def using Cons.prems(1) by (induction qss) (simp_all add: expand_segment_dotted)
  moreover have "\<forall>qs \<in> set next_qss. dotted qs"
    using Cons.prems segment_choices_dots by (fastforce simp: next_qss_def dotted_def)
  moreover have "concat (map (\<lambda>qs. map (\<lambda>(ps, _). join ''.'' (qs @ ps)) (instances (lookup_path inp qs) segs)) next_qss)
      = concat (map (\<lambda>qs. map (\<lambda>(ps, _). join ''.'' (qs @ ps)) (instances (lookup_path inp qs) (seg # segs))) qss)"
    unfolding next_qss_def
    by (induction qss)
      (auto simp: map_concat lookup_path_snoc comp_def apfst_def map_prod_def case_prod_beta)
  ultimately show ?case using Cons.IH [of next_qss] Cons.prems(2) by simp
qed

lemma expand_instances:
  assumes "rooted pattern"
  shows "expand pattern inp = map (\<lambda>(ps, _). join ''.'' ps) (instances (Some inp) (split_on CHR ''.'' pattern))"
proof (cases "CHR ''*'' \<in> set pattern")
  case False
  have "''*'' \<notin> set (split_on CHR ''.'' pattern)" using False split_on_chars by fastforce
  then show ?thesis using False by (simp add: expand_def instances_plain)
next
  case True
  obtain seg segs where sp: "split_on CHR ''.'' pattern = seg # segs" by (cases "split_on CHR ''.'' pattern") auto
  have seg: "seg \<noteq> []" "seg \<noteq> ''*''" using assms True sp by (auto simp: rooted_def)
  have dots: "\<forall>s \<in> set (seg # segs). CHR ''.'' \<notin> set s" using split_on_no_sep [of _ "CHR ''.''" pattern] by (auto simp: sp)
  have "expand_segment inp seg [] = map (join ''.'') [[seg]]" using seg by (simp add: expand_segment_def join_field_def)
  then show ?thesis using True expand_fold [of "[[seg]]" segs inp] seg dots
    by (simp add: expand_def sp dotted_def segment_choices_def comp_def apfst_def map_prod_def case_prod_beta
        lookup_step_def)
qed

lemma validate_ok: "validate fo da va inp = Inr () \<longleftrightarrow> collect_errors fo da va inp = []"
  by (simp add: validate_def Let_def errors_is_empty_def)

lemma validate_all_fields:
  assumes "list_all (\<lambda>(pattern, _). rooted pattern) (va_rules va)"
  shows "validate fo da va inp = Inr () \<longleftrightarrow> all_fields_pass fo da (va_rules va) inp"
proof -
  have look: "field_lookup inp (join ''.'' ps) = v"
    if "(ps, v) \<in> set (instances (Some inp) (split_on CHR ''.'' pattern))" for ps v pattern
  proof -
    have "\<forall>s \<in> set ps. CHR ''.'' \<notin> set s"
      using instances_dots [OF that] split_on_no_sep [of _ "CHR ''.''" pattern] by blast
    moreover have "ps \<noteq> []" using that by (cases "split_on CHR ''.'' pattern") auto
    ultimately show ?thesis using instances_value [OF that] by (simp add: field_lookup_def split_on_join)
  qed
  have "(\<forall>field \<in> set (expand pattern inp). field_passes fo da rs field (field_lookup inp field) inp) \<longleftrightarrow>
      list_all (\<lambda>(path, v). field_passes fo da rs (join ''.'' path) v inp)
        (instances (Some inp) (split_on CHR ''.'' pattern))" if "(pattern, rs) \<in> set (va_rules va)" for pattern rs
  proof -
    have "rooted pattern" using assms that by (auto simp: list_all_iff)
    then show ?thesis using look by (auto simp: expand_instances list_all_iff)
  qed
  note inst = this
  show ?thesis unfolding validate_ok collect_errors_clean all_fields_pass_def list_all_iff [of _ "va_rules va"]
  proof (rule ball_cong [OF refl])
    fix p assume "p \<in> set (va_rules va)"
    then show "(case p of (pattern, rs) \<Rightarrow> \<forall>field \<in> set (expand pattern inp).
          field_passes fo da rs field (field_lookup inp field) inp) =
        (case p of (pattern, rs) \<Rightarrow> list_all (\<lambda>(path, v). field_passes fo da rs (join ''.'' path) v inp)
          (instances (Some inp) (split_on CHR ''.'' pattern)))"
      using inst [of "fst p" "snd p"] by (simp add: case_prod_beta)
  qed
qed

lemma keep_root_get:
  "hm_get k (keep_root inp root kept) =
     (case hm_get k kept of Some v \<Rightarrow> Some v
      | None \<Rightarrow> if k = root \<and> root \<noteq> [] then value_key inp root else None)"
  by (auto simp: keep_root_def hm_contains_def split: option.split)

lemma keep_roots_get:
  assumes "\<And>v. hm_get k kept = Some v \<Longrightarrow> value_key inp k = Some v"
  shows "hm_get k (fold (\<lambda>(pattern, _). keep_root inp (pattern_root pattern)) rules kept) =
    (if hm_get k kept \<noteq> None \<or> k \<noteq> [] \<and> k \<in> pattern_root ` fst ` set rules then value_key inp k else None)"
  using assms
proof (induction rules arbitrary: kept)
  case Nil
  then show ?case by (cases "hm_get k kept") auto
next
  case (Cons p rules)
  obtain pattern rs where p: "p = (pattern, rs)" by (cases p)
  have "hm_get k (keep_root inp (pattern_root pattern) kept) = Some v \<Longrightarrow> value_key inp k = Some v" for v
    using Cons.prems by (auto simp: keep_root_get split: option.splits if_splits)
  note ih = Cons.IH [of "keep_root inp (pattern_root pattern) kept", OF this]
  have "hm_get k (keep_root inp (pattern_root pattern) kept) \<noteq> None \<longleftrightarrow>
      hm_get k kept \<noteq> None \<or> k = pattern_root pattern \<and> k \<noteq> [] \<and> value_key inp k \<noteq> None"
    by (auto simp: keep_root_get split: option.split)
  with ih show ?case by (cases "value_key inp k") (auto simp: p)
qed

definition int_floats :: "int float_ops" where
  "int_floats = \<lparr>fo_parse = parse_i64, fo_of_number = parse_i64, fo_of_nat = int, fo_zero = 0,
     fo_le = (\<le>), fo_eq = (=), fo_close = (=), fo_whole = (\<lambda>_. True), fo_as_i64 = id,
     fo_display = int_dec\<rparr>"

definition no_dates :: dates where
  "no_dates = \<lparr>da_parse = (\<lambda>_. None), da_show = (\<lambda>_. [])\<rparr>"

definition order_rules :: "(string \<times> int rule list) list" where
  "order_rules =
     [(''items'', [Required, ArrayRule]), (''items.*.sku'', [Present, StringRule, MinRule 2]),
      (''note'', [StringRule])]"

definition order_input :: json where
  "order_input = JObject
     [(''items'', JArray [JObject [(''sku'', JString ''ab'')], JObject [(''sku'', JString ''cde'')]]),
      (''is_admin'', JBool True)]"


lemma parse_i64_letters: "parse_i64 ''ab'' = None" "parse_i64 ''cde'' = None"
  by code_simp+

lemma order_accepted: "all_fields_pass int_floats no_dates order_rules order_input"
  by (simp add: all_fields_pass_def order_rules_def order_input_def field_passes_def rule_check_def
      rule_check_if_def is_filled_def segment_choices_def lookup_step_def hm_get_def
      int_floats_def upt_rec u64_max_def parse_i64_letters utf8_len_def)


lemma form_validator_rules [simp]: "va_rules (form_validator fr) = fr_rules fr"
  by (simp add: form_validator_def custom_messages_def from_rules_def)

lemma order_rooted: "list_all (\<lambda>(pattern, _). rooted pattern) order_rules"
  by (simp add: order_rules_def rooted_def)


definition order_form :: "(int, json) form_request" where
  "order_form = \<lparr>fr_rules = order_rules, fr_authorize = (\<lambda>_. True), fr_messages = [],
     fr_validation_data = (\<lambda>_. order_input), fr_from_input = Inr\<rparr>"

lemma order_form_payload:
  "\<exists>kept. validate_request int_floats no_dates order_form rq = Inr (JObject kept)"
  using order_accepted order_rooted validate_all_fields [of "form_validator order_form" int_floats no_dates order_input]
  by (simp add: validate_request_def order_form_def validated_only_def)


section \<open>Behaviour worth knowing\<close>

text \<open>A rule that skips an absent field ends its list, so a \<^verbatim>\<open>Required\<close> behind it is never asked.\<close>

lemma late_required_is_skipped:
  "validate fo da (from_rules [(''email'', [EmailRule, Required])]) (JObject []) = Inr ()"
  by (simp add: validate_ok collect_errors_def from_rules_def expand_def rule_check_def field_lookup_def
      lookup_step_def)

text \<open>A pattern that begins with the wildcard reaches nothing, even when the input is an array.\<close>

lemma root_wildcard_reaches_nothing: "expand ''*.name'' (JArray items) = []"
  by (simp add: expand_def expand_segment_def field_lookup_def lookup_step_def parse_uint_def strip_plus_def all_digits_def
      split: option.split)

text \<open>\<^verbatim>\<open>After\<close> and \<^verbatim>\<open>Before\<close> are strict: the bound itself fails both.\<close>

lemma date_bounds_are_strict:
  assumes "parse_date da s = Some d"
  shows "\<exists>m. rule_check fo da (AfterRule d) field (Some (JString s)) all = Fail m"
    and "\<exists>m. rule_check fo da (BeforeRule d) field (Some (JString s)) all = Fail m"
  using assms by (auto simp: rule_check_def rule_check_if_def text_is_def)

end
