(* ===== verification/Auth.thy ===== *)
theory Auth
  imports Oauth_Scope Start_Session "HOL-Library.Char_ord" "HOL-Library.List_Lexorder"
begin

text \<open>
  Authentication and authorization, \<^verbatim>\<open>rainier-auth/src\<close>: credentials and user providers (\<^verbatim>\<open>user.rs\<close>),
  guards and their registry (\<^verbatim>\<open>guard.rs\<close>), the middleware (\<^verbatim>\<open>middleware.rs\<close>, \<^verbatim>\<open>confirm.rs\<close>), acting as
  another user (\<^verbatim>\<open>impersonate.rs\<close>) and gates (\<^verbatim>\<open>gate.rs\<close>). The bag of the request's session and the
  clock (in milliseconds) are in the state of \<open>Start_Session\<close>. What \<^verbatim>\<open>Authenticate\<close> attaches to the
  request is part of the application's state while the rest of the pipeline runs. The
  repository of users and the password hasher are parameters.
\<close>

section \<open>Users\<close>

record 'u authenticatable =
  at_identifier :: "'u \<Rightarrow> string"
  at_password_hash :: "'u \<Rightarrow> string option"
  at_token_column :: string

type_synonym credentials = "(string, string) hmap"

definition credentials_with :: "string \<Rightarrow> string \<Rightarrow> credentials \<Rightarrow> credentials" where
  "credentials_with key v cr = hm_insert key v cr"

definition password_credentials :: "string \<Rightarrow> string \<Rightarrow> credentials" where
  "password_credentials username pw = credentials_with ''password'' pw (credentials_with ''email'' username [])"

definition credentials_get :: "credentials \<Rightarrow> string \<Rightarrow> string option" where
  "credentials_get cr key = hm_get key cr"

definition password_value :: "credentials \<Rightarrow> string option" where
  "password_value cr = credentials_get cr ''password''"

definition lookup_fields :: "credentials \<Rightarrow> (string \<times> string) list" where
  "lookup_fields cr = filter (\<lambda>(key, _). key \<noteq> ''password'') cr"

definition credentials_is_empty :: "credentials \<Rightarrow> bool" where
  "credentials_is_empty cr \<longleftrightarrow> lookup_fields cr = []"

text \<open>The methods of \<^verbatim>\<open>UserProvider\<close>, reading the state of the application.\<close>

record ('u, 'a) auth_provider =
  up_by_id :: "string \<Rightarrow> 'a \<Rightarrow> 'u option result"
  up_by_credentials :: "credentials \<Rightarrow> 'a \<Rightarrow> 'u option result"
  up_validate :: "'u \<Rightarrow> credentials \<Rightarrow> 'a \<Rightarrow> bool result"
  up_by_token :: "string \<Rightarrow> 'a \<Rightarrow> 'u option result"
  up_abilities :: "string \<Rightarrow> 'a \<Rightarrow> abilities result"

datatype key_value = NumKey int | TextKey string

record ('u, 'a) user_repository =
  ur_find :: "key_value \<Rightarrow> 'a \<Rightarrow> 'u option result"
  ur_first_matching :: "(string \<times> string) list \<Rightarrow> 'a \<Rightarrow> 'u option result"
  ur_first_by :: "string \<Rightarrow> string \<Rightarrow> 'a \<Rightarrow> 'u option result"

definition repo_by_id :: "('u, 'a) user_repository \<Rightarrow> string \<Rightarrow> 'a \<Rightarrow> 'u option result" where
  "repo_by_id ur i a = ur_find ur (case parse_i64 i of Some n \<Rightarrow> NumKey n | None \<Rightarrow> TextKey i) a"

definition repo_by_credentials :: "('u, 'a) user_repository \<Rightarrow> credentials \<Rightarrow> 'a \<Rightarrow> 'u option result" where
  "repo_by_credentials ur cr a =
     (let fs = lookup_fields cr in if fs = [] then Inr None else ur_first_matching ur fs a)"

definition repo_validate ::
  "'u authenticatable \<Rightarrow> (string \<Rightarrow> string \<Rightarrow> bool) \<Rightarrow> 'u \<Rightarrow> credentials \<Rightarrow> 'a \<Rightarrow> bool result"
where
  "repo_validate au verify u cr a =
     (case (password_value cr, at_password_hash au u) of
        (Some submitted, Some stored) \<Rightarrow> Inr (verify submitted stored)
      | _ \<Rightarrow> Inr False)"

definition repo_by_token ::
  "'u authenticatable \<Rightarrow> ('u, 'a) user_repository \<Rightarrow> string \<Rightarrow> 'a \<Rightarrow> 'u option result"
where
  "repo_by_token au ur token a =
     (if token = [] then Inr None else ur_first_by ur (at_token_column au) token a)"

definition default_token_abilities :: "string \<Rightarrow> 'a \<Rightarrow> abilities result" where
  "default_token_abilities token a = Inr abilities_everything"

definition repository_user_provider ::
  "'u authenticatable \<Rightarrow> ('u, 'a) user_repository \<Rightarrow> (string \<Rightarrow> string \<Rightarrow> bool) \<Rightarrow> ('u, 'a) auth_provider"
where
  "repository_user_provider au ur verify =
     \<lparr>up_by_id = repo_by_id ur, up_by_credentials = repo_by_credentials ur,
      up_validate = repo_validate au verify, up_by_token = repo_by_token au ur,
      up_abilities = default_token_abilities\<rparr>"

section \<open>Guards\<close>

text \<open>
  The application's state with what a middleware attached to the request: the user and the
  abilities of its token.
\<close>

record ('u, 'x) attachments =
  ax_user :: "'u option"
  ax_abilities :: "abilities option"
  ax_app :: 'x

type_synonym ('st, 'u, 'x) auth_web = "('st, ('u, 'x) attachments) web"

record ('st, 'u, 'x) auth_guard =
  ag_name :: string
  ag_user :: "routed \<Rightarrow> ('st, 'u, 'x) auth_web \<Rightarrow> 'u option result"
  ag_abilities :: "routed \<Rightarrow> ('st, 'u, 'x) auth_web \<Rightarrow> abilities result"

definition default_guard_abilities :: "routed \<Rightarrow> ('st, 'u, 'x) auth_web \<Rightarrow> abilities result" where
  "default_guard_abilities rq s = Inr abilities_everything"

definition guard_check :: "('st, 'u, 'x) auth_guard \<Rightarrow> routed \<Rightarrow> ('st, 'u, 'x) auth_web \<Rightarrow> bool result" where
  "guard_check g rq s = map_sum id (\<lambda>u. u \<noteq> None) (ag_user g rq s)"

definition guard_guest :: "('st, 'u, 'x) auth_guard \<Rightarrow> routed \<Rightarrow> ('st, 'u, 'x) auth_web \<Rightarrow> bool result" where
  "guard_guest g rq s = map_sum id Not (guard_check g rq s)"

definition guard_id ::
  "'u authenticatable \<Rightarrow> ('st, 'u, 'x) auth_guard \<Rightarrow> routed \<Rightarrow> ('st, 'u, 'x) auth_web \<Rightarrow> string option result"
where
  "guard_id au g rq s = map_sum id (map_option (at_identifier au)) (ag_user g rq s)"

definition guard_authenticate :: "('st, 'u, 'x) auth_guard \<Rightarrow> routed \<Rightarrow> ('st, 'u, 'x) auth_web \<Rightarrow> 'u result" where
  "guard_authenticate g rq s =
     (case ag_user g rq s of
        Inl e \<Rightarrow> Inl e
      | Inr (Some u) \<Rightarrow> Inr u
      | Inr None \<Rightarrow> Inl (err_unauthenticated ''Unauthenticated.''))"

definition presented_token :: "parsers \<Rightarrow> routed \<Rightarrow> string option" where
  "presented_token pa rq =
     (case bearer_token rq of Some t \<Rightarrow> Some t | None \<Rightarrow> input pa rq ''api_token'')"

definition token_guard_user ::
  "parsers \<Rightarrow> ('u, 'x) auth_provider \<Rightarrow> routed \<Rightarrow> ('st, 'u, 'x) auth_web \<Rightarrow> 'u option result"
where
  "token_guard_user pa up rq s =
     (case presented_token pa rq of
        Some token \<Rightarrow> if token \<noteq> [] then up_by_token up token (ax_app (w_app s)) else Inr None
      | None \<Rightarrow> Inr None)"

definition token_guard_abilities ::
  "parsers \<Rightarrow> ('u, 'x) auth_provider \<Rightarrow> routed \<Rightarrow> ('st, 'u, 'x) auth_web \<Rightarrow> abilities result"
where
  "token_guard_abilities pa up rq s =
     (case presented_token pa rq of
        Some token \<Rightarrow> if token \<noteq> [] then up_abilities up token (ax_app (w_app s)) else Inr abilities_none
      | None \<Rightarrow> Inr abilities_none)"

definition token_guard :: "parsers \<Rightarrow> string \<Rightarrow> ('u, 'x) auth_provider \<Rightarrow> ('st, 'u, 'x) auth_guard" where
  "token_guard pa name up =
     \<lparr>ag_name = name, ag_user = token_guard_user pa up, ag_abilities = token_guard_abilities pa up\<rparr>"

definition AUTH_KEY :: string where "AUTH_KEY = ''_auth_id''"

definition session_guard_user ::
  "(json \<Rightarrow> string) \<Rightarrow> ('u, 'x) auth_provider \<Rightarrow> routed \<Rightarrow> ('st, 'u, 'x) auth_web \<Rightarrow> 'u option result"
where
  "session_guard_user render up rq s =
     (case w_bag s of
        None \<Rightarrow> Inr None
      | Some bag \<Rightarrow>
          (case session_string render AUTH_KEY bag of
             None \<Rightarrow> Inr None
           | Some i \<Rightarrow> up_by_id up i (ax_app (w_app s))))"

definition session_guard :: "(json \<Rightarrow> string) \<Rightarrow> string \<Rightarrow> ('u, 'x) auth_provider \<Rightarrow> ('st, 'u, 'x) auth_guard" where
  "session_guard render name up =
     \<lparr>ag_name = name, ag_user = session_guard_user render up, ag_abilities = default_guard_abilities\<rparr>"

definition login_session :: "'u authenticatable \<Rightarrow> 'u \<Rightarrow> ('st, 'a) web \<Rightarrow> ('st, 'a) web \<times> unit result" where
  "login_session au u s =
     (case w_bag s of
        None \<Rightarrow> (s, Inl (err_internal ''logging in needs the session middleware''))
      | Some bag \<Rightarrow>
          (let (r, s1) = draw s;
               (bag', res) = session_put AUTH_KEY (Inr (JString (at_identifier au u))) (regenerate r bag)
           in (s1\<lparr>w_bag := Some bag'\<rparr>, res)))"

definition logout_session :: "('st, 'a) web \<Rightarrow> ('st, 'a) web \<times> unit result" where
  "logout_session s =
     (case w_bag s of
        None \<Rightarrow> (s, Inr ())
      | Some bag \<Rightarrow> (let (r, s1) = draw s in (s1\<lparr>w_bag := Some (invalidate r bag)\<rparr>, Inr ())))"

definition attempt_login ::
  "'u authenticatable \<Rightarrow> ('u, 'x) auth_provider \<Rightarrow> credentials \<Rightarrow> ('st, 'u, 'x) auth_web
    \<Rightarrow> ('st, 'u, 'x) auth_web \<times> 'u option result"
where
  "attempt_login au up cr s =
     (case up_by_credentials up cr (ax_app (w_app s)) of
        Inl e \<Rightarrow> (s, Inl e)
      | Inr None \<Rightarrow> (s, Inr None)
      | Inr (Some u) \<Rightarrow>
          (case up_validate up u cr (ax_app (w_app s)) of
             Inl e \<Rightarrow> (s, Inl e)
           | Inr ok \<Rightarrow>
               if \<not> ok then (s, Inr None)
               else (case login_session au u s of
                       (s', Inl e) \<Rightarrow> (s', Inl e)
                     | (s', Inr _) \<Rightarrow> (s', Inr (Some u)))))"

section \<open>The registry of guards\<close>

record ('st, 'u, 'x) auth_manager =
  am_guards :: "(string, ('st, 'u, 'x) auth_guard) hmap"
  am_default :: string

definition auth_manager_new :: "string \<Rightarrow> ('st, 'u, 'x) auth_manager" where
  "auth_manager_new dflt = \<lparr>am_guards = [], am_default = dflt\<rparr>"

definition register_guard ::
  "('st, 'u, 'x) auth_guard \<Rightarrow> ('st, 'u, 'x) auth_manager \<Rightarrow> ('st, 'u, 'x) auth_manager"
where
  "register_guard g am = am\<lparr>am_guards := hm_insert (ag_name g) g (am_guards am)\<rparr>"

definition guard_names :: "('st, 'u, 'x) auth_manager \<Rightarrow> string list" where
  "guard_names am = sort (map fst (am_guards am))"

text \<open>\<open>dbg\<close> is the \<^verbatim>\<open>Debug\<close> form of a list of names.\<close>

definition manager_guard ::
  "(string list \<Rightarrow> string) \<Rightarrow> ('st, 'u, 'x) auth_manager \<Rightarrow> string \<Rightarrow> ('st, 'u, 'x) auth_guard result"
where
  "manager_guard dbg am name =
     (case hm_get name (am_guards am) of
        Some g \<Rightarrow> Inr g
      | None \<Rightarrow> Inl (err_internal (''no authentication guard named `'' @ name @ ''` '' @ [CHR 0xE2, CHR 0x80, CHR 0x94]
          @ '' registered guards: '' @ dbg (guard_names am))))"

definition default_guard ::
  "(string list \<Rightarrow> string) \<Rightarrow> ('st, 'u, 'x) auth_manager \<Rightarrow> ('st, 'u, 'x) auth_guard result"
where
  "default_guard dbg am = manager_guard dbg am (am_default am)"

definition user_via ::
  "(string list \<Rightarrow> string) \<Rightarrow> ('st, 'u, 'x) auth_manager \<Rightarrow> string \<Rightarrow> routed \<Rightarrow> ('st, 'u, 'x) auth_web \<Rightarrow> 'u option result"
where
  "user_via dbg am name rq s =
     (case manager_guard dbg am name of Inl e \<Rightarrow> Inl e | Inr g \<Rightarrow> ag_user g rq s)"

definition manager_user ::
  "(string list \<Rightarrow> string) \<Rightarrow> ('st, 'u, 'x) auth_manager \<Rightarrow> routed \<Rightarrow> ('st, 'u, 'x) auth_web \<Rightarrow> 'u option result"
where
  "manager_user dbg am rq s = (case default_guard dbg am of Inl e \<Rightarrow> Inl e | Inr g \<Rightarrow> ag_user g rq s)"

definition abilities_via ::
  "(string list \<Rightarrow> string) \<Rightarrow> ('st, 'u, 'x) auth_manager \<Rightarrow> string \<Rightarrow> routed \<Rightarrow> ('st, 'u, 'x) auth_web \<Rightarrow> abilities result"
where
  "abilities_via dbg am name rq s =
     (case manager_guard dbg am name of Inl e \<Rightarrow> Inl e | Inr g \<Rightarrow> ag_abilities g rq s)"

definition manager_abilities ::
  "(string list \<Rightarrow> string) \<Rightarrow> ('st, 'u, 'x) auth_manager \<Rightarrow> routed \<Rightarrow> ('st, 'u, 'x) auth_web \<Rightarrow> abilities result"
where
  "manager_abilities dbg am rq s = (case default_guard dbg am of Inl e \<Rightarrow> Inl e | Inr g \<Rightarrow> ag_abilities g rq s)"

section \<open>The middleware\<close>

record ('st, 'u, 'x) authenticate =
  an_auth :: "('st, 'u, 'x) auth_manager"
  an_guard :: "string option"

definition extension_user :: "('st, 'u, 'x) auth_web \<Rightarrow> 'u result" where
  "extension_user s =
     (case ax_user (w_app s) of Some u \<Rightarrow> Inr u | None \<Rightarrow> Inl (err_unauthenticated ''Unauthenticated.''))"

definition resolve_user ::
  "(string list \<Rightarrow> string) \<Rightarrow> ('st, 'u, 'x) authenticate \<Rightarrow> routed \<Rightarrow> ('st, 'u, 'x) auth_web \<Rightarrow> 'u option result"
where
  "resolve_user dbg an rq s =
     (case an_guard an of Some name \<Rightarrow> user_via dbg (an_auth an) name rq s | None \<Rightarrow> manager_user dbg (an_auth an) rq s)"

definition resolve_abilities ::
  "(string list \<Rightarrow> string) \<Rightarrow> ('st, 'u, 'x) authenticate \<Rightarrow> routed \<Rightarrow> ('st, 'u, 'x) auth_web \<Rightarrow> abilities result"
where
  "resolve_abilities dbg an rq s =
     (case an_guard an of
        Some name \<Rightarrow> abilities_via dbg (an_auth an) name rq s
      | None \<Rightarrow> manager_abilities dbg (an_auth an) rq s)"

text \<open>What is attached to the request ends with it.\<close>

definition attach :: "'u option \<Rightarrow> abilities option \<Rightarrow> ('st, 'u, 'x) auth_web \<Rightarrow> ('st, 'u, 'x) auth_web" where
  "attach u a s = s\<lparr>w_app := (w_app s)\<lparr>ax_user := u, ax_abilities := a\<rparr>\<rparr>"

definition authenticate_handle ::
  "(string list \<Rightarrow> string) \<Rightarrow> header_check \<Rightarrow> ('st, 'u, 'x) authenticate \<Rightarrow> routed
    \<Rightarrow> ('st, 'u, 'x) auth_web destination \<Rightarrow> ('st, 'u, 'x) auth_web \<Rightarrow> ('st, 'u, 'x) auth_web \<times> response"
where
  "authenticate_handle dbg valid an rq k s =
     (case resolve_user dbg an rq s of
        Inr (Some u) \<Rightarrow>
          (case resolve_abilities dbg an rq s of
             Inr a \<Rightarrow>
               (let (s', response) = k rq (attach (Some u) (Some a) s)
                in (attach (ax_user (w_app s)) (ax_abilities (w_app s)) s', response))
           | Inl e \<Rightarrow> (s, error_into_response valid e))
      | Inr None \<Rightarrow> (s, error_into_response valid (err_unauthenticated ''Unauthenticated.''))
      | Inl e \<Rightarrow> (s, error_into_response valid e))"

definition token_abilities :: "('st, 'u, 'x) auth_web \<Rightarrow> abilities option" where
  "token_abilities s = ax_abilities (w_app s)"

definition extension_abilities :: "('st, 'u, 'x) auth_web \<Rightarrow> abilities result" where
  "extension_abilities s =
     (case ax_abilities (w_app s) of
        Some a \<Rightarrow> Inr a
      | None \<Rightarrow> Inl (err_internal (''no token abilities on the request '' @ [CHR 0xE2, CHR 0x80, CHR 0x94]
          @ '' is this route behind the `auth` middleware?'')))"

definition request_token_can :: "('st, 'u, 'x) auth_web \<Rightarrow> string \<Rightarrow> bool" where
  "request_token_can s ability = (case token_abilities s of Some a \<Rightarrow> abilities_can a ability | None \<Rightarrow> False)"

record require_ability =
  ra_required :: "string list"
  ra_all :: bool

definition require_any :: "string list \<Rightarrow> require_ability" where
  "require_any required = \<lparr>ra_required = required, ra_all = False\<rparr>"

definition require_all :: "string list \<Rightarrow> require_ability" where
  "require_all required = \<lparr>ra_required = required, ra_all = True\<rparr>"

definition satisfied_by :: "require_ability \<Rightarrow> abilities \<Rightarrow> bool" where
  "satisfied_by ra a = (if ra_all ra then can_all a (ra_required ra) else can_any a (ra_required ra))"

definition require_handle ::
  "header_check \<Rightarrow> require_ability \<Rightarrow> routed \<Rightarrow> ('st, 'u, 'x) auth_web destination
    \<Rightarrow> ('st, 'u, 'x) auth_web \<Rightarrow> ('st, 'u, 'x) auth_web \<times> response"
where
  "require_handle valid ra rq k s =
     (case token_abilities s of
        None \<Rightarrow> (s, error_into_response valid (err_unauthorized ''This action is unauthorized.''))
      | Some a \<Rightarrow>
          if \<not> satisfied_by ra a
          then (s, error_into_response valid
                 (err_unauthorized (''This token is not allowed to '' @ join '' or '' (ra_required ra) @ ''.'')))
          else k rq s)"

definition redirect_authenticated_handle ::
  "(string list \<Rightarrow> string) \<Rightarrow> header_check \<Rightarrow> ('st, 'u, 'x) auth_manager \<Rightarrow> string \<Rightarrow> routed
    \<Rightarrow> ('st, 'u, 'x) auth_web destination \<Rightarrow> ('st, 'u, 'x) auth_web \<Rightarrow> ('st, 'u, 'x) auth_web \<times> response"
where
  "redirect_authenticated_handle dbg valid am to rq k s =
     (case manager_user dbg am rq s of
        Inr (Some _) \<Rightarrow> (s, redirect_into_response valid (redirect_to to))
      | _ \<Rightarrow> k rq s)"

section \<open>Confirming the password\<close>

definition CONFIRMED_AT :: string where "CONFIRMED_AT = ''auth.password_confirmed_at''"

definition confirm_now :: "('st, 'a) web \<Rightarrow> int" where
  "confirm_now s = (if w_now s < 0 then 0 else w_now s div 1000)"

definition mark_confirmed :: "('st, 'a) web \<Rightarrow> ('st, 'a) web \<times> unit result" where
  "mark_confirmed s =
     (case w_bag s of
        None \<Rightarrow> (s, Inl (err_internal ''confirming a password needs the `session` middleware''))
      | Some bag \<Rightarrow>
          (let (bag', r) = session_put CONFIRMED_AT (Inr (JNumber (int_dec (confirm_now s)))) bag
           in (s\<lparr>w_bag := Some bag'\<rparr>, r)))"

definition forget_confirmation :: "('st, 'a) web \<Rightarrow> ('st, 'a) web" where
  "forget_confirmation s = s\<lparr>w_bag := map_option (session_forget CONFIRMED_AT) (w_bag s)\<rparr>"

definition number_i64 :: "json \<Rightarrow> int option" where
  "number_i64 v = (case v of JNumber n \<Rightarrow> parse_i64 n | _ \<Rightarrow> None)"

text \<open>In nanoseconds, as the window is.\<close>

definition confirmed_ago :: "('st, 'a) web \<Rightarrow> nat option" where
  "confirmed_ago s =
     Option.bind (w_bag s) (\<lambda>bag.
       map_option (\<lambda>at. nat (max 0 (i64_saturating_add (confirm_now s) (- at))) * 10 ^ 9)
         (session_get number_i64 CONFIRMED_AT bag))"

definition is_confirmed :: "nat \<Rightarrow> ('st, 'a) web \<Rightarrow> bool" where
  "is_confirmed window s = (case confirmed_ago s of Some ago \<Rightarrow> ago \<le> window | None \<Rightarrow> False)"

definition confirm_recently :: nat where "confirm_recently = 900 * 10 ^ 9"

definition confirm_handle ::
  "header_check \<Rightarrow> nat \<Rightarrow> routed \<Rightarrow> ('st, 'a) web destination \<Rightarrow> ('st, 'a) web \<Rightarrow> ('st, 'a) web \<times> response"
where
  "confirm_handle valid window rq k s =
     (if w_bag s = None
      then (s, error_into_response valid (error_new (Status 423) ''Password confirmation is required.''))
      else if is_confirmed window s then k rq s
      else (s, error_into_response valid (error_new (Status 423) ''Please confirm your password.'')))"

definition confirm_password ::
  "'u authenticatable \<Rightarrow> (string \<Rightarrow> string \<Rightarrow> bool) \<Rightarrow> string \<Rightarrow> ('st, 'u, 'x) auth_web
    \<Rightarrow> ('st, 'u, 'x) auth_web \<times> unit result"
where
  "confirm_password au verify pw s =
     (case extension_user s of
        Inl e \<Rightarrow> (s, Inl e)
      | Inr u \<Rightarrow>
          (case at_password_hash au u of
             None \<Rightarrow> (s, Inl (err_bad_request ''This account does not sign in with a password.''))
           | Some stored \<Rightarrow>
               if \<not> verify pw stored
               then (s, Inl (err_validation (JObject [(''password'', JArray [JString ''That password is not correct.''])])))
               else mark_confirmed s))"

section \<open>Acting as another user\<close>

definition IMPERSONATOR_KEY :: string where "IMPERSONATOR_KEY = ''_auth_impersonator''"

record ('u, 'a) impersonation =
  im_may :: "'u \<Rightarrow> 'u \<Rightarrow> bool"
  im_taken :: "(string \<Rightarrow> string \<Rightarrow> 'a \<Rightarrow> 'a) option"
  im_left :: "(string \<Rightarrow> string \<Rightarrow> 'a \<Rightarrow> 'a) option"

definition impersonation_new :: "('u \<Rightarrow> 'u \<Rightarrow> bool) \<Rightarrow> ('u, 'a) impersonation" where
  "impersonation_new may = \<lparr>im_may = may, im_taken = None, im_left = None\<rparr>"

definition on_taken :: "(string \<Rightarrow> string \<Rightarrow> 'a \<Rightarrow> 'a) \<Rightarrow> ('u, 'a) impersonation \<Rightarrow> ('u, 'a) impersonation" where
  "on_taken hook im = im\<lparr>im_taken := Some hook\<rparr>"

definition on_left :: "(string \<Rightarrow> string \<Rightarrow> 'a \<Rightarrow> 'a) \<Rightarrow> ('u, 'a) impersonation \<Rightarrow> ('u, 'a) impersonation" where
  "on_left hook im = im\<lparr>im_left := Some hook\<rparr>"

definition can_impersonate :: "'u authenticatable \<Rightarrow> ('u, 'a) impersonation \<Rightarrow> 'u \<Rightarrow> 'u \<Rightarrow> bool" where
  "can_impersonate au im i t \<longleftrightarrow> at_identifier au i \<noteq> at_identifier au t \<and> im_may im i t"

definition run_hook :: "(string \<Rightarrow> string \<Rightarrow> 'a \<Rightarrow> 'a) option \<Rightarrow> string \<Rightarrow> string \<Rightarrow> ('st, 'a) web \<Rightarrow> ('st, 'a) web" where
  "run_hook h i t s = (case h of Some f \<Rightarrow> s\<lparr>w_app := f i t (w_app s)\<rparr> | None \<Rightarrow> s)"

definition session_of :: "('st, 'a) web \<Rightarrow> session result" where
  "session_of s = (case w_bag s of Some b \<Rightarrow> Inr b | None \<Rightarrow> Inl (err_internal ''impersonation needs the session middleware''))"

definition impersonation_take ::
  "'u authenticatable \<Rightarrow> (json \<Rightarrow> string) \<Rightarrow> ('u, 'a) impersonation \<Rightarrow> 'u \<Rightarrow> 'u \<Rightarrow> ('st, 'a) web
    \<Rightarrow> ('st, 'a) web \<times> unit result"
where
  "impersonation_take au render im impersonator target s =
     (case session_of s of
        Inl e \<Rightarrow> (s, Inl e)
      | Inr bag \<Rightarrow>
          (let i = at_identifier au impersonator; t = at_identifier au target in
           if session_has IMPERSONATOR_KEY bag
           then (s, Inl (err_conflict ''already impersonating; leave the current impersonation first''))
           else if session_string render AUTH_KEY bag \<noteq> Some i
           then (s, Inl (err_unauthenticated ''the impersonator must be the user this session is logged in as''))
           else if i = t then (s, Inl (err_unauthorized ''you cannot impersonate yourself''))
           else if \<not> im_may im impersonator target
           then (s, Inl (err_unauthorized ''you may not impersonate this user''))
           else
             (let (r, s1) = draw s;
                  bag1 = regenerate r bag;
                  (bag2, r2) = session_put IMPERSONATOR_KEY (Inr (JString i)) bag1
              in case r2 of
                   Inl e \<Rightarrow> (s1\<lparr>w_bag := Some bag2\<rparr>, Inl e)
                 | Inr _ \<Rightarrow>
                     (let (bag3, r3) = session_put AUTH_KEY (Inr (JString t)) bag2
                      in case r3 of
                           Inl e \<Rightarrow> (s1\<lparr>w_bag := Some bag3\<rparr>, Inl e)
                         | Inr _ \<Rightarrow> (run_hook (im_taken im) i t (s1\<lparr>w_bag := Some bag3\<rparr>), Inr ())))))"

definition impersonation_leave ::
  "(json \<Rightarrow> string) \<Rightarrow> ('u, 'a) impersonation \<Rightarrow> ('st, 'a) web \<Rightarrow> ('st, 'a) web \<times> string result"
where
  "impersonation_leave render im s =
     (case session_of s of
        Inl e \<Rightarrow> (s, Inl e)
      | Inr bag \<Rightarrow>
          (case session_string render IMPERSONATOR_KEY bag of
             None \<Rightarrow> (s, Inl (err_conflict ''this session is not impersonating anybody''))
           | Some i \<Rightarrow>
               (let t = (case session_string render AUTH_KEY bag of Some t \<Rightarrow> t | None \<Rightarrow> []);
                    (r, s1) = draw s;
                    (bag', res) = session_put AUTH_KEY (Inr (JString i)) (session_forget IMPERSONATOR_KEY (regenerate r bag))
                in case res of
                     Inl e \<Rightarrow> (s1\<lparr>w_bag := Some bag'\<rparr>, Inl e)
                   | Inr _ \<Rightarrow> (run_hook (im_left im) i t (s1\<lparr>w_bag := Some bag'\<rparr>), Inr i))))"

definition impersonator_id :: "(json \<Rightarrow> string) \<Rightarrow> ('st, 'a) web \<Rightarrow> string option" where
  "impersonator_id render s = Option.bind (w_bag s) (session_string render IMPERSONATOR_KEY)"

definition is_impersonating :: "(json \<Rightarrow> string) \<Rightarrow> ('st, 'a) web \<Rightarrow> bool" where
  "is_impersonating render s \<longleftrightarrow> impersonator_id render s \<noteq> None"

definition forbid_impersonation_handle ::
  "(json \<Rightarrow> string) \<Rightarrow> header_check \<Rightarrow> routed \<Rightarrow> ('st, 'a) web destination \<Rightarrow> ('st, 'a) web \<Rightarrow> ('st, 'a) web \<times> response"
where
  "forbid_impersonation_handle render valid rq k s =
     (if is_impersonating render s
      then (s, error_into_response valid (err_unauthorized ''this is not available while impersonating another user''))
      else k rq s)"

section \<open>Gates\<close>

text \<open>A subject is a value with the name of its Rust type, by which \<^verbatim>\<open>downcast_ref\<close> decides.\<close>

type_synonym 'v subject = "string \<times> 'v"

record ('a, 'v) gate =
  ga_abilities :: "(string, 'a \<Rightarrow> 'v subject option \<Rightarrow> bool) hmap"
  ga_before :: "('a \<Rightarrow> string \<Rightarrow> bool option) list"

definition gate_new :: "('a, 'v) gate" where
  "gate_new = \<lparr>ga_abilities = [], ga_before = []\<rparr>"

definition erase_check :: "string \<Rightarrow> ('a \<Rightarrow> 'v option \<Rightarrow> bool) \<Rightarrow> 'a \<Rightarrow> 'v subject option \<Rightarrow> bool" where
  "erase_check ty f actor subj =
     (case subj of
        Some (ty', v) \<Rightarrow> if ty' = ty then f actor (Some v) else False
      | None \<Rightarrow> f actor None)"

definition gate_define ::
  "string \<Rightarrow> string \<Rightarrow> ('a \<Rightarrow> 'v option \<Rightarrow> bool) \<Rightarrow> ('a, 'v) gate \<Rightarrow> ('a, 'v) gate"
where
  "gate_define ty ability f ga = ga\<lparr>ga_abilities := hm_insert ability (erase_check ty f) (ga_abilities ga)\<rparr>"

definition gate_define_simple :: "string \<Rightarrow> ('a \<Rightarrow> bool) \<Rightarrow> ('a, 'v) gate \<Rightarrow> ('a, 'v) gate" where
  "gate_define_simple ability f ga = gate_define ''()'' ability (\<lambda>actor _. f actor) ga"

definition gate_before :: "('a \<Rightarrow> string \<Rightarrow> bool option) \<Rightarrow> ('a, 'v) gate \<Rightarrow> ('a, 'v) gate" where
  "gate_before f ga = ga\<lparr>ga_before := ga_before ga @ [f]\<rparr>"

fun before_decision :: "('a \<Rightarrow> string \<Rightarrow> bool option) list \<Rightarrow> 'a \<Rightarrow> string \<Rightarrow> bool option" where
  "before_decision [] actor ability = None"
| "before_decision (b # bs) actor ability =
     (case b actor ability of Some decision \<Rightarrow> Some decision | None \<Rightarrow> before_decision bs actor ability)"

definition gate_allows :: "('a, 'v) gate \<Rightarrow> string \<Rightarrow> 'a \<Rightarrow> 'v subject option \<Rightarrow> bool" where
  "gate_allows ga ability actor subj =
     (case before_decision (ga_before ga) actor ability of
        Some decision \<Rightarrow> decision
      | None \<Rightarrow>
          (case hm_get ability (ga_abilities ga) of Some f \<Rightarrow> f actor subj | None \<Rightarrow> False))"

definition gate_denies :: "('a, 'v) gate \<Rightarrow> string \<Rightarrow> 'a \<Rightarrow> 'v subject option \<Rightarrow> bool" where
  "gate_denies ga ability actor subj \<longleftrightarrow> \<not> gate_allows ga ability actor subj"

definition gate_allows_any :: "('a, 'v) gate \<Rightarrow> string \<Rightarrow> 'a \<Rightarrow> bool" where
  "gate_allows_any ga ability actor = gate_allows ga ability actor None"

definition gate_authorize :: "('a, 'v) gate \<Rightarrow> string \<Rightarrow> 'a \<Rightarrow> 'v subject option \<Rightarrow> unit result" where
  "gate_authorize ga ability actor subj =
     (if gate_allows ga ability actor subj then Inr () else Inl (err_unauthorized ''This action is unauthorized.''))"

definition gate_has :: "('a, 'v) gate \<Rightarrow> string \<Rightarrow> bool" where
  "gate_has ga ability = hm_contains ability (ga_abilities ga)"

definition gate_abilities :: "('a, 'v) gate \<Rightarrow> string list" where
  "gate_abilities ga = sort (map fst (ga_abilities ga))"

section \<open>Who a session is\<close>

text \<open>
  The abstract view: nobody, a user, or a user shown while somebody else is the real one. \<open>login_spec\<close>
  says what each operation does to it and whether it succeeds.
\<close>

datatype identity_view = Guest | LoggedIn string | Acting string string

datatype 'u login_op = Login 'u | Logout | Take 'u 'u | Leave

fun login_spec :: "'u authenticatable \<Rightarrow> ('u \<Rightarrow> 'u \<Rightarrow> bool) \<Rightarrow> 'u login_op \<Rightarrow> identity_view \<Rightarrow> identity_view \<times> bool" where
  "login_spec au may (Login u) (Acting r t) = (Acting r (at_identifier au u), True)"
| "login_spec au may (Login u) v = (LoggedIn (at_identifier au u), True)"
| "login_spec au may Logout v = (Guest, True)"
| "login_spec au may (Take i t) (LoggedIn x) =
     (if x = at_identifier au i \<and> x \<noteq> at_identifier au t \<and> may i t
      then (Acting x (at_identifier au t), True) else (LoggedIn x, False))"
| "login_spec au may (Take i t) v = (v, False)"
| "login_spec au may Leave (Acting r t) = (LoggedIn r, True)"
| "login_spec au may Leave v = (v, False)"

fun login_run ::
  "'u authenticatable \<Rightarrow> (json \<Rightarrow> string) \<Rightarrow> ('u, 'a) impersonation \<Rightarrow> 'u login_op \<Rightarrow> ('st, 'a) web
    \<Rightarrow> ('st, 'a) web \<times> unit result"
where
  "login_run au render im (Login u) s = login_session au u s"
| "login_run au render im Logout s = logout_session s"
| "login_run au render im (Take i t) s = impersonation_take au render im i t s"
| "login_run au render im Leave s =
     (case impersonation_leave render im s of (s', r) \<Rightarrow> (s', map_sum id (\<lambda>_. ()) r))"

definition text_at :: "string \<Rightarrow> session \<Rightarrow> string option" where
  "text_at k b = (case hm_get k (ss_values b) of Some (JString t) \<Rightarrow> Some t | _ \<Rightarrow> None)"

definition login_view :: "session \<Rightarrow> identity_view" where
  "login_view b =
     (case text_at AUTH_KEY b of
        None \<Rightarrow> Guest
      | Some u \<Rightarrow> (case text_at IMPERSONATOR_KEY b of None \<Rightarrow> LoggedIn u | Some r \<Rightarrow> Acting r u))"

definition absent :: "string \<Rightarrow> session \<Rightarrow> bool" where
  "absent k b \<longleftrightarrow> hm_get k (ss_values b) = None"

definition identity_ok :: "session \<Rightarrow> bool" where
  "identity_ok b \<longleftrightarrow>
     (text_at AUTH_KEY b = None \<longrightarrow> absent AUTH_KEY b) \<and>
     (text_at IMPERSONATOR_KEY b = None \<longrightarrow> absent IMPERSONATOR_KEY b) \<and>
     (text_at IMPERSONATOR_KEY b \<noteq> None \<longrightarrow> text_at AUTH_KEY b \<noteq> None)"

lemma auth_keys_differ [simp]: "AUTH_KEY \<noteq> IMPERSONATOR_KEY" "IMPERSONATOR_KEY \<noteq> AUTH_KEY"
  "CONFIRMED_AT \<noteq> AUTH_KEY" "CONFIRMED_AT \<noteq> IMPERSONATOR_KEY" "AUTH_KEY \<noteq> CONFIRMED_AT" "IMPERSONATOR_KEY \<noteq> CONFIRMED_AT"
  by (simp_all add: AUTH_KEY_def IMPERSONATOR_KEY_def CONFIRMED_AT_def)

lemma identity_text:
  assumes "text_at k b = None \<longrightarrow> absent k b"
  shows "session_string render k b = text_at k b" "session_has k b \<longleftrightarrow> text_at k b \<noteq> None"
  using assms by (auto simp: session_string_def session_has_def text_at_def absent_def split: option.splits json.splits)

definition put_text :: "string \<Rightarrow> string \<Rightarrow> session \<Rightarrow> session" where
  "put_text k t b = b\<lparr>ss_values := hm_insert k (JString t) (ss_values b), ss_dirty := True\<rparr>"

lemma session_put_text: "session_put k (Inr (JString t)) b = (put_text k t b, Inr ())"
  by (simp add: session_put_def put_text_def)

lemma bag_text [simp]:
  "text_at k (put_text k' t b) = (if k = k' then Some t else text_at k b)"
  "text_at k (regenerate r b) = text_at k b"
  "text_at k (session_forget k' b) = (if k = k' then None else text_at k b)"
  "text_at k (invalidate r b) = None"
  by (auto simp: text_at_def put_text_def regenerate_def session_forget_def invalidate_def session_flush_def
      hm_contains_def split: option.split)

lemma bag_absent [simp]:
  "absent k (put_text k' t b) \<longleftrightarrow> k \<noteq> k' \<and> absent k b"
  "absent k (regenerate r b) = absent k b"
  "absent k (session_forget k' b) \<longleftrightarrow> k = k' \<or> absent k b"
  "absent k (invalidate r b)"
  by (auto simp: absent_def put_text_def regenerate_def session_forget_def invalidate_def session_flush_def
      hm_contains_def split: option.split)

lemma bag_superseded [simp]:
  "ss_superseded (put_text k' t b) = ss_superseded b"
  "ss_superseded (regenerate r b) = ss_superseded b @ [ss_id b]"
  "ss_superseded (session_forget k' b) = ss_superseded b"
  "ss_superseded (invalidate r b) = ss_superseded b @ [ss_id b]"
  by (auto simp: put_text_def regenerate_def session_forget_def invalidate_def session_flush_def)

lemmas login_defs = draw_def Let_def login_view_def session_put_text identity_ok_def


definition named_users :: "string authenticatable" where
  "named_users = \<lparr>at_identifier = id, at_password_hash = (\<lambda>_. None), at_token_column = ''api_token''\<rparr>"

definition support_only :: "(string, 'a) impersonation" where
  "support_only = impersonation_new (\<lambda>i t. i = ''support'')"

definition support_bag :: session where
  "support_bag = put_text AUTH_KEY ''support'' (session_new [])"


section \<open>A guarded route\<close>

definition authenticate_mw ::
  "(string list \<Rightarrow> string) \<Rightarrow> header_check \<Rightarrow> ('st, 'u, 'x) authenticate \<Rightarrow> ('st, 'u, 'x) auth_web middleware"
where
  "authenticate_mw dbg valid an = \<lparr>mw_type = ''Authenticate'', mw_type_name = ''rainier_auth::middleware::Authenticate'',
     mw_label = Some ''Authenticate'', mw_handle = authenticate_handle dbg valid an\<rparr>"

definition require_ability_mw :: "header_check \<Rightarrow> require_ability \<Rightarrow> ('st, 'u, 'x) auth_web middleware" where
  "require_ability_mw valid ra = \<lparr>mw_type = ''RequireAbility'', mw_type_name = ''rainier_auth::middleware::RequireAbility'',
     mw_label = Some ''RequireAbility'', mw_handle = require_handle valid ra\<rparr>"

definition forbid_impersonation_mw :: "(json \<Rightarrow> string) \<Rightarrow> header_check \<Rightarrow> ('st, 'a) web middleware" where
  "forbid_impersonation_mw render valid = \<lparr>mw_type = ''ForbidImpersonation'',
     mw_type_name = ''rainier_auth::impersonate::ForbidImpersonation'',
     mw_label = Some ''ForbidImpersonation'', mw_handle = forbid_impersonation_handle render valid\<rparr>"

definition confirm_password_mw :: "header_check \<Rightarrow> nat \<Rightarrow> ('st, 'a) web middleware" where
  "confirm_password_mw valid window = \<lparr>mw_type = ''ConfirmPassword'', mw_type_name = ''rainier_auth::confirm::ConfirmPassword'',
     mw_label = Some ''ConfirmPassword'', mw_handle = confirm_handle valid window\<rparr>"

text \<open>Who may pass, and with which abilities of the credential.\<close>

definition admitted ::
  "(string list \<Rightarrow> string) \<Rightarrow> (json \<Rightarrow> string) \<Rightarrow> ('st, 'u, 'x) authenticate \<Rightarrow> require_ability \<Rightarrow> nat \<Rightarrow> routed
    \<Rightarrow> ('st, 'u, 'x) auth_web \<Rightarrow> ('u \<times> abilities) option"
where
  "admitted dbg render an ra window rq s =
     (case (resolve_user dbg an rq s, resolve_abilities dbg an rq s) of
        (Inr (Some u), Inr a) \<Rightarrow>
          if (if ra_all ra then \<forall>w \<in> set (ra_required ra). abilities_can a w
              else \<exists>w \<in> set (ra_required ra). abilities_can a w)
             \<and> (\<exists>bag. w_bag s = Some bag \<and> session_string render IMPERSONATOR_KEY bag = None
                 \<and> (\<exists>at. session_get number_i64 CONFIRMED_AT bag = Some at
                     \<and> nat (max 0 (i64_saturating_add (confirm_now s) (- at))) * 10 ^ 9 \<le> window))
          then Some (u, a) else None
      | _ \<Rightarrow> None)"

lemma confirmed_in_bag:
  "is_confirmed window s \<longleftrightarrow> (\<exists>bag at. w_bag s = Some bag \<and> session_get number_i64 CONFIRMED_AT bag = Some at
     \<and> nat (max 0 (i64_saturating_add (confirm_now s) (- at))) * 10 ^ 9 \<le> window)"
  by (auto simp: is_confirmed_def confirmed_ago_def split: option.split Option.bind_splits)

lemma confirmed_bag: "is_confirmed window s \<Longrightarrow> \<exists>b. w_bag s = Some b"
  by (auto simp: confirmed_in_bag)

lemma attach_frame [simp]:
  "w_bag (attach u a s) = w_bag s" "w_now (attach u a s) = w_now s" "ax_user (w_app (attach u a s)) = u"
  "ax_abilities (w_app (attach u a s)) = a" "attach u' a' (attach u a s) = attach u' a' s"
  "attach (ax_user (w_app s)) (ax_abilities (w_app s)) s = s"
  by (simp_all add: attach_def)

lemma attach_state [simp]: "is_confirmed window (attach u a s) = is_confirmed window s"
  "is_impersonating render (attach u a s) = is_impersonating render s"
  by (simp_all add: confirmed_in_bag is_impersonating_def impersonator_id_def confirm_now_def)

definition guarded ::
  "(string list \<Rightarrow> string) \<Rightarrow> (json \<Rightarrow> string) \<Rightarrow> header_check \<Rightarrow> ('st, 'u, 'x) authenticate \<Rightarrow> require_ability \<Rightarrow> nat
    \<Rightarrow> ('st, 'u, 'x) auth_web destination \<Rightarrow> ('st, 'u, 'x) auth_web ready_pipeline"
where
  "guarded dbg render valid an ra window handler =
     \<lparr>rp_stages = [authenticate_mw dbg valid an, require_ability_mw valid ra, forbid_impersonation_mw render valid,
        confirm_password_mw valid window],
      rp_destination = handler\<rparr>"

text \<open>
  C12. A route behind \<^verbatim>\<open>Authenticate\<close>, \<^verbatim>\<open>RequireAbility\<close>, \<^verbatim>\<open>ForbidImpersonation\<close> and \<^verbatim>\<open>ConfirmPassword\<close> runs its
  handler exactly for a request whose guard finds a user, whose credential was issued for what the
  route requires, whose session is nobody else acting as that user, and whose password was
  confirmed within the window; the handler then sees that user and those abilities, which are gone
  when it ends. Any other request leaves the state as it was, and its answer does not depend on
  the handler.\<close>

theorem guarded_route:
  "case admitted dbg render an ra window rq s of
      Some (u, a) \<Rightarrow> pipeline_run (guarded dbg render valid an ra window handler) rq s =
        (case handler rq (attach (Some u) (Some a) s) of
           (s', response) \<Rightarrow> (attach (ax_user (w_app s)) (ax_abilities (w_app s)) s', response))
    | None \<Rightarrow> fst (pipeline_run (guarded dbg render valid an ra window handler) rq s) = s \<and>
        (\<forall>h. pipeline_run (guarded dbg render valid an ra window h) rq s =
             pipeline_run (guarded dbg render valid an ra window handler) rq s)"
proof -
  define route where "route h = pipeline_run (guarded dbg render valid an ra window h) rq s" for h
  have imp: "is_impersonating render s \<longleftrightarrow> (\<exists>bag. w_bag s = Some bag \<and> session_string render IMPERSONATOR_KEY bag \<noteq> None)"
    by (auto simp: is_impersonating_def impersonator_id_def split: Option.bind_splits)
  have sat: "satisfied_by ra a \<longleftrightarrow> (if ra_all ra then \<forall>w \<in> set (ra_required ra). abilities_can a w
      else \<exists>w \<in> set (ra_required ra). abilities_can a w)" for a
    by (simp add: satisfied_by_def can_all_def can_any_def list_all_iff list_ex_iff)
  have run: "route h = authenticate_handle dbg valid an rq
      (\<lambda>rq. require_handle valid ra rq (\<lambda>rq. forbid_impersonation_handle render valid rq
        (\<lambda>rq. confirm_handle valid window rq h))) s" for h
    unfolding route_def guarded_def
    by (simp add: pipeline_run_wrap wrap_all_def authenticate_mw_def require_ability_mw_def forbid_impersonation_mw_def
        confirm_password_mw_def)
  show ?thesis
  proof (cases "\<exists>u a. resolve_user dbg an rq s = Inr (Some u) \<and> resolve_abilities dbg an rq s = Inr a")
    case False
    then show ?thesis unfolding route_def [symmetric] unfolding run admitted_def authenticate_handle_def
      by (auto split: sum.splits option.splits)
  next
    case True
    then obtain u a where ua: "resolve_user dbg an rq s = Inr (Some u)" "resolve_abilities dbg an rq s = Inr a" by blast
    define pass where "pass \<longleftrightarrow> satisfied_by ra a \<and> \<not> is_impersonating render s \<and> is_confirmed window s"
    have adm: "admitted dbg render an ra window rq s = (if pass then Some (u, a) else None)"
      unfolding pass_def by (auto simp: admitted_def ua sat imp confirmed_in_bag)
    note defs = authenticate_handle_def ua require_handle_def forbid_impersonation_handle_def confirm_handle_def pass_def
    have yes: "route handler = (case handler rq (attach (Some u) (Some a) s) of
           (s', response) \<Rightarrow> (attach (ax_user (w_app s)) (ax_abilities (w_app s)) s', response))" if pass
      using that confirmed_bag [of window s] unfolding run defs by (auto simp: token_abilities_def split: prod.split)
    have no: "fst (route h) = s" "route h = route handler" if "\<not> pass" for h
      using that unfolding run defs by (auto simp: token_abilities_def)
    show ?thesis unfolding route_def [symmetric] adm
    proof (cases pass)
      case True
      then show "case if pass then Some (u, a) else None of
          Some (u, a) \<Rightarrow> route handler = (case handler rq (attach (Some u) (Some a) s) of
             (s', response) \<Rightarrow> (attach (ax_user (w_app s)) (ax_abilities (w_app s)) s', response))
        | None \<Rightarrow> fst (route handler) = s \<and> (\<forall>h. route h = route handler)" using yes by simp
    next
      case False
      have refused: "fst (route handler) = s \<and> (\<forall>h. route h = route handler)" using no [OF False] by blast
      show "case if pass then Some (u, a) else None of
          Some (u, a) \<Rightarrow> route handler = (case handler rq (attach (Some u) (Some a) s) of
             (s', response) \<Rightarrow> (attach (ax_user (w_app s)) (ax_abilities (w_app s)) s', response))
        | None \<Rightarrow> fst (route handler) = s \<and> (\<forall>h. route h = route handler)"
        unfolding if_not_P [OF False] option.case by (rule refused)
    qed
  qed
qed

section \<open>Behaviour worth knowing\<close>

text \<open>
  A password confirmation stays in the session when it becomes somebody else's: staff that
  confirmed their own password pass \<^verbatim>\<open>ConfirmPassword\<close> as the user they act as.
\<close>

lemma confirmation_outlives_identity:
  assumes "w_bag s = Some b" "is_confirmed window s" "im_taken im = None"
    and "impersonation_take au render im i t s = (s', Inr ())"
  shows "is_confirmed window s'"
  using assms
  by (auto simp: impersonation_take_def session_of_def draw_def Let_def session_put_text run_hook_def confirmed_in_bag
      confirm_now_def session_get_def put_text_def regenerate_def split: if_splits)

text \<open>An ability defined to ignore its subject refuses when it is given one.\<close>

lemma simple_ability_refuses_subjects:
  assumes "before_decision (ga_before ga) actor ability = None" "ty \<noteq> ''()''"
  shows "\<not> gate_allows (gate_define_simple ability (\<lambda>_. True) ga) ability actor (Some (ty, v))"
  using assms by (simp add: gate_allows_def gate_define_simple_def gate_define_def erase_check_def)

text \<open>An ability nobody defined is denied unless a before-check grants it.\<close>

lemma undefined_ability_denied:
  assumes "\<not> gate_has ga ability" "before_decision (ga_before ga) actor ability \<noteq> Some True"
  shows "gate_authorize ga ability actor subj = Inl (err_unauthorized ''This action is unauthorized.'')"
  using assms by (auto simp: gate_authorize_def gate_allows_def gate_has_def hm_contains_def split: option.splits)

end
