(* ===== verification/Challenge.thy ===== *)
theory Challenge
  imports Memory_Cache
begin

text \<open>
  Codes that are typed in, \<^verbatim>\<open>rainier-auth/src/challenge.rs\<close>: a challenge is a cache entry with the code
  and the wrong answers so far. The codec of the entry (\<^verbatim>\<open>serde_json\<close>) is a parameter, the digits drawn
  for a code are an argument, and each operation takes its clock readings. Shown: over any cache,
  with anything else going on in it, only the first correct answer passes, and only among as many
  answers as were granted.
\<close>

section \<open>The code\<close>

record pending =
  pe_code :: string
  pe_attempts :: nat
  pe_max_attempts :: nat

record 's challenges =
  ch_cache :: "'s cache"
  ch_prefix :: string
  ch_ttl :: duration
  ch_max_attempts :: nat
  ch_digits :: nat

record pending_codec =
  pc_write :: "pending \<Rightarrow> bytes result"
  pc_read :: "bytes \<Rightarrow> pending option"

definition challenges_new :: "'s cache \<Rightarrow> 's challenges" where
  "challenges_new c = \<lparr>ch_cache = c, ch_prefix = ''challenge:'', ch_ttl = 900 * 10 ^ 9, ch_max_attempts = 5,
     ch_digits = 6\<rparr>"

definition lasting :: "duration \<Rightarrow> 's challenges \<Rightarrow> 's challenges" where
  "lasting ttl ch = ch\<lparr>ch_ttl := ttl\<rparr>"

definition with_max_attempts :: "nat \<Rightarrow> 's challenges \<Rightarrow> 's challenges" where
  "with_max_attempts attempts ch = ch\<lparr>ch_max_attempts := attempts\<rparr>"

definition challenge_digits :: "nat \<Rightarrow> 's challenges \<Rightarrow> 's challenges" where
  "challenge_digits digits ch = ch\<lparr>ch_digits := max 4 (min 12 digits)\<rparr>"

definition challenges_with_prefix :: "string \<Rightarrow> 's challenges \<Rightarrow> 's challenges" where
  "challenges_with_prefix p ch = ch\<lparr>ch_prefix := p\<rparr>"

definition challenges_is_shared :: "'s challenges \<Rightarrow> bool" where
  "challenges_is_shared ch = c_is_shared (ch_cache ch)"

definition challenge_key :: "'s challenges \<Rightarrow> string \<Rightarrow> string \<Rightarrow> string" where
  "challenge_key ch subject purpose = ch_prefix ch @ purpose @ '':'' @ subject"

definition challenge_generate :: "'s challenges \<Rightarrow> (nat \<Rightarrow> nat) \<Rightarrow> string" where
  "challenge_generate ch random = map (\<lambda>i. digit_char (random i mod 10)) [0..<ch_digits ch]"

definition challenge_issue_code ::
  "pending_codec \<Rightarrow> 's challenges \<Rightarrow> time \<Rightarrow> string \<Rightarrow> string \<Rightarrow> string \<Rightarrow> 's \<Rightarrow> 's \<times> unit result"
where
  "challenge_issue_code pc ch t subject purpose code s =
     put_json (pc_write pc) (ch_cache ch) t (challenge_key ch subject purpose)
       \<lparr>pe_code = code, pe_attempts = 0, pe_max_attempts = ch_max_attempts ch\<rparr> (Some (ch_ttl ch)) s"

definition challenge_issue ::
  "pending_codec \<Rightarrow> 's challenges \<Rightarrow> time \<Rightarrow> (nat \<Rightarrow> nat) \<Rightarrow> string \<Rightarrow> string \<Rightarrow> 's \<Rightarrow> 's \<times> string result"
where
  "challenge_issue pc ch t random subject purpose s =
     (let code = challenge_generate ch random in
      case challenge_issue_code pc ch t subject purpose code s of
        (s', Inl e) \<Rightarrow> (s', Inl e)
      | (s', Inr _) \<Rightarrow> (s', Inr code))"

text \<open>
  \<^verbatim>\<open>consume\<close> in its two parts, reading the entry and answering for what was read; the attempts are a
  \<^verbatim>\<open>u32\<close>.
\<close>

definition consume_answer ::
  "pending_codec \<Rightarrow> 's challenges \<Rightarrow> time \<Rightarrow> string \<Rightarrow> pending \<Rightarrow> string \<Rightarrow> 's \<Rightarrow> 's \<times> unit result"
where
  "consume_answer pc ch t key p answer s =
     (if pe_code p = answer
      then (case c_forget (ch_cache ch) key s of (s', Inl e) \<Rightarrow> (s', Inl e) | (s', Inr _) \<Rightarrow> (s', Inr ()))
      else
        (let p' = p\<lparr>pe_attempts := (pe_attempts p + 1) mod 2 ^ 32\<rparr> in
         if pe_attempts p' \<ge> pe_max_attempts p'
         then (case c_forget (ch_cache ch) key s of
                 (s', Inl e) \<Rightarrow> (s', Inl e)
               | (s', Inr _) \<Rightarrow> (s', Inl (err_unauthorized
                   ''That code is not valid, and there have been too many attempts. Request a new one.'')))
         else
           (let remaining = pe_max_attempts p' - pe_attempts p' in
            case put_json (pc_write pc) (ch_cache ch) t key p' (Some (ch_ttl ch)) s of
              (s', Inl e) \<Rightarrow> (s', Inl e)
            | (s', Inr _) \<Rightarrow> (s', Inl (err_unauthorized
                (''That code is not valid. '' @ nat_dec remaining @ '' attempt(s) remaining.''))))))"

definition challenge_consume ::
  "pending_codec \<Rightarrow> 's challenges \<Rightarrow> time \<Rightarrow> time \<Rightarrow> string \<Rightarrow> string \<Rightarrow> string \<Rightarrow> 's \<Rightarrow> 's \<times> unit result"
where
  "challenge_consume pc ch t0 t1 subject purpose answer s =
     (let key = challenge_key ch subject purpose in
      case get_json (pc_read pc) (ch_cache ch) t0 key s of
        (s', Inl e) \<Rightarrow> (s', Inl e)
      | (s', Inr None) \<Rightarrow> (s', Inl (err_unauthorized ''That code is not valid.''))
      | (s', Inr (Some p)) \<Rightarrow> consume_answer pc ch t1 key p answer s')"

definition challenge_is_pending ::
  "pending_codec \<Rightarrow> 's challenges \<Rightarrow> time \<Rightarrow> string \<Rightarrow> string \<Rightarrow> 's \<Rightarrow> 's \<times> bool result"
where
  "challenge_is_pending pc ch t subject purpose s =
     (case get_json (pc_read pc) (ch_cache ch) t (challenge_key ch subject purpose) s of
        (s', Inl e) \<Rightarrow> (s', Inl e) | (s', Inr p) \<Rightarrow> (s', Inr (p \<noteq> None)))"

definition attempts_remaining ::
  "pending_codec \<Rightarrow> 's challenges \<Rightarrow> time \<Rightarrow> string \<Rightarrow> string \<Rightarrow> 's \<Rightarrow> 's \<times> nat option result"
where
  "attempts_remaining pc ch t subject purpose s =
     (case get_json (pc_read pc) (ch_cache ch) t (challenge_key ch subject purpose) s of
        (s', Inl e) \<Rightarrow> (s', Inl e)
      | (s', Inr p) \<Rightarrow> (s', Inr (map_option (\<lambda>p. pe_max_attempts p - pe_attempts p) p)))"

definition challenge_cancel :: "'s challenges \<Rightarrow> string \<Rightarrow> string \<Rightarrow> 's \<Rightarrow> 's \<times> unit result" where
  "challenge_cancel ch subject purpose s =
     (case c_forget (ch_cache ch) (challenge_key ch subject purpose) s of
        (s', Inl e) \<Rightarrow> (s', Inl e) | (s', Inr _) \<Rightarrow> (s', Inr ()))"

section \<open>Guessing\<close>

text \<open>
  A guesser answers again and again; before each answer the cache may change at will, except that
  nothing else writes the entry of this challenge (it may be evicted).
\<close>

record 's guess =
  gu_env :: "'s \<Rightarrow> 's"
  gu_read_at :: time
  gu_write_at :: time
  gu_answer :: string

fun run_guesses ::
  "pending_codec \<Rightarrow> 's challenges \<Rightarrow> string \<Rightarrow> string \<Rightarrow> 's guess list \<Rightarrow> 's \<Rightarrow> unit result list"
where
  "run_guesses pc ch subject purpose [] s = []"
| "run_guesses pc ch subject purpose (g # gs) s =
     (case challenge_consume pc ch (gu_read_at g) (gu_write_at g) subject purpose (gu_answer g) (gu_env g s) of
        (s', r) \<Rightarrow> r # run_guesses pc ch subject purpose gs s')"

definition codec_ok :: "pending_codec \<Rightarrow> bool" where
  "codec_ok pc \<longleftrightarrow> (\<forall>p. \<exists>bs. pc_write pc p = Inr bs \<and> pc_read pc bs = Some p)"

text \<open>What the cache shows of the challenge from an instant on.\<close>

definition seen :: "pending_codec \<Rightarrow> ('s \<Rightarrow> string \<Rightarrow> time \<Rightarrow> bytes option) \<Rightarrow> string \<Rightarrow> 's \<Rightarrow> time \<Rightarrow> pending option" where
  "seen pc vis key s t = Option.bind (vis s key t) (pc_read pc)"

definition env_ok :: "('s \<Rightarrow> bool) \<Rightarrow> ('s \<Rightarrow> string \<Rightarrow> time \<Rightarrow> bytes option) \<Rightarrow> string \<Rightarrow> ('s \<Rightarrow> 's) \<Rightarrow> bool" where
  "env_ok ok vis key f \<longleftrightarrow> (\<forall>s. ok s \<longrightarrow> ok (f s) \<and>
     ((\<forall>t. vis (f s) key t = vis s key t) \<or> (\<forall>t. vis (f s) key t = None)))"

definition shows_count ::
  "pending_codec \<Rightarrow> ('s \<Rightarrow> string \<Rightarrow> time \<Rightarrow> bytes option) \<Rightarrow> string \<Rightarrow> string \<Rightarrow> nat \<Rightarrow> nat \<Rightarrow> time \<Rightarrow> 's \<Rightarrow> bool"
where
  "shows_count pc vis key code m n T s \<longleftrightarrow>
     (\<forall>t \<ge> T. \<forall>p. seen pc vis key s t = Some p \<longrightarrow>
        p = \<lparr>pe_code = code, pe_attempts = n, pe_max_attempts = m\<rparr>)"

definition shows_nothing ::
  "pending_codec \<Rightarrow> ('s \<Rightarrow> string \<Rightarrow> time \<Rightarrow> bytes option) \<Rightarrow> string \<Rightarrow> time \<Rightarrow> 's \<Rightarrow> bool"
where
  "shows_nothing pc vis key T s \<longleftrightarrow> (\<forall>t \<ge> T. seen pc vis key s t = None)"

fun passes_at_most_once :: "string \<Rightarrow> nat \<Rightarrow> 's guess list \<Rightarrow> unit result list \<Rightarrow> bool" where
  "passes_at_most_once code left [] rs = (rs = [])"
| "passes_at_most_once code left (g # gs) [] = False"
| "passes_at_most_once code left (g # gs) (r # rs) =
     (if r = Inr () then left > 0 \<and> gu_answer g = code \<and> list_all (\<lambda>r. r \<noteq> Inr ()) rs
      else passes_at_most_once code (left - 1) gs rs)"

lemma run_guesses_length: "length (run_guesses pc ch subject purpose gs s) = length gs"
  by (induction gs arbitrary: s) (simp_all split: prod.split)

lemma none_passes:
  "length gs = length rs \<Longrightarrow> list_all (\<lambda>r. r \<noteq> Inr ()) rs \<Longrightarrow> passes_at_most_once code left gs rs"
  by (induction code left gs rs rule: passes_at_most_once.induct) auto

context cache_port
begin

lemma get_json_seen:
  "inv s \<Longrightarrow> get_json (pc_read pc) c t key s = (fst (c_get c t key s), Inr (seen pc vis key s t))"
  by (simp add: get_json_result seen_def split: option.split)

lemma seen_get: "inv s \<Longrightarrow> t \<le> t' \<Longrightarrow> seen pc vis key (fst (c_get c t k s)) t' = seen pc vis key s t'"
  by (simp add: seen_def get_vis)

lemma seen_vanishes: "inv s \<Longrightarrow> seen pc vis key s t = None \<Longrightarrow> t \<le> t' \<Longrightarrow> seen pc vis key s t' = None"
  using vis_antimono [of s key t' _ t] by (cases "vis s key t'") (auto simp: seen_def)

lemma seen_forget: "inv s \<Longrightarrow> seen pc vis key (fst (c_forget c key s)) t = None"
  by (simp add: seen_def forget_vis)

lemma forget_pair: "inv s \<Longrightarrow> \<exists>b. c_forget c key s = (fst (c_forget c key s), Inr b)"
  using forget_result [of s key] by (metis prod.collapse)

lemma consume_nothing:
  assumes "inv s" "ch_cache ch = c" "seen pc vis (challenge_key ch subject purpose) s t0 = None"
  shows "challenge_consume pc ch t0 t1 subject purpose a s =
    (fst (c_get c t0 (challenge_key ch subject purpose) s), Inl (err_unauthorized ''That code is not valid.''))"
  using assms by (simp add: challenge_consume_def Let_def get_json_seen)

lemma nothing_stays:
  assumes "inv s" "ch_cache ch = c" "shows_nothing pc vis (challenge_key ch subject purpose) T s"
    and "\<forall>g \<in> set gs. env_ok inv vis (challenge_key ch subject purpose) (gu_env g)"
    and "sorted (T # map gu_read_at gs)"
  shows "list_all (\<lambda>r. r \<noteq> Inr ()) (run_guesses pc ch subject purpose gs s)"
  using assms
proof (induction gs arbitrary: s T)
  case (Cons g gs)
  let ?key = "challenge_key ch subject purpose" and ?s = "gu_env g s" and ?t = "gu_read_at g"
  have e: "inv ?s" "(\<forall>t. vis ?s ?key t = vis s ?key t) \<or> (\<forall>t. vis ?s ?key t = None)"
    using Cons.prems(1,4) by (auto simp: env_ok_def)
  then have none: "seen pc vis ?key ?s t = None" if "T \<le> t" for t
    using Cons.prems(3) that by (auto simp: shows_nothing_def seen_def)
  have tT: "T \<le> ?t" using Cons.prems(5) by simp
  let ?s' = "fst (c_get c ?t ?key ?s)"
  have "shows_nothing pc vis ?key ?t ?s'" using none tT e(1) by (simp add: shows_nothing_def seen_get)
  from Cons.IH [OF inv_get [OF e(1)] Cons.prems(2) this] Cons.prems(4,5)
  have "list_all (\<lambda>r. r \<noteq> Inr ()) (run_guesses pc ch subject purpose gs ?s')" by simp
  then show ?case using consume_nothing [OF e(1) Cons.prems(2) none [OF tT]] by simp
qed simp

lemma consume_step:
  assumes "inv s" "ch_cache ch = c" "codec_ok pc"
    and q: "shows_count pc vis (challenge_key ch subject purpose) code m n T s" "T \<le> t0" "n + 1 < 2 ^ 32"
    and r: "challenge_consume pc ch t0 t1 subject purpose a s = (s', r)"
  shows "inv s' \<and> (if r = Inr ()
     then a = code \<and> shows_nothing pc vis (challenge_key ch subject purpose) t0 s'
     else shows_nothing pc vis (challenge_key ch subject purpose) t0 s'
       \<or> n + 1 < m \<and> shows_count pc vis (challenge_key ch subject purpose) code m (n + 1) t0 s')"
proof (cases "seen pc vis (challenge_key ch subject purpose) s t0")
  case None
  then have "shows_nothing pc vis (challenge_key ch subject purpose) t0 s'" "inv s'" "r \<noteq> Inr ()"
    using r assms(1) consume_nothing [OF assms(1,2) None, of t1 a] seen_vanishes [OF assms(1) None]
    by (auto simp: shows_nothing_def seen_get)
  then show ?thesis by simp
next
  case (Some p)
  let ?key = "challenge_key ch subject purpose"
  define s1 where "s1 = fst (c_get c t0 ?key s)"
  have i1: "inv s1" using assms(1) by (simp add: s1_def)
  have p: "p = \<lparr>pe_code = code, pe_attempts = n, pe_max_attempts = m\<rparr>"
    using q(1,2) Some by (auto simp: shows_count_def)
  have run: "consume_answer pc ch t1 ?key p a s1 = (s', r)"
    using r assms(1,2) Some by (simp add: challenge_consume_def Let_def get_json_seen s1_def)
  obtain b where fg: "c_forget c ?key s1 = (fst (c_forget c ?key s1), Inr b)" using forget_pair [OF i1] by blast
  have gone: "shows_nothing pc vis ?key t0 (fst (c_forget c ?key s1))" using i1 by (simp add: shows_nothing_def seen_forget)
  consider "a = code" | "a \<noteq> code" "m \<le> n + 1" | "a \<noteq> code" "n + 1 < m" by linarith
  then show ?thesis
  proof cases
    case 1
    then show ?thesis using run gone i1 by (simp add: consume_answer_def p assms(2)) (subst (asm) fg, auto)
  next
    case 2
    then show ?thesis using run gone i1 q(3) by (simp add: consume_answer_def p assms(2) Let_def) (subst (asm) fg, auto)
  next
    case 3
    obtain bs where bs: "pc_write pc (p\<lparr>pe_attempts := n + 1\<rparr>) = Inr bs"
      "pc_read pc bs = Some (p\<lparr>pe_attempts := n + 1\<rparr>)" using assms(3) by (auto simp: codec_ok_def)
    obtain s2 where s2: "c_put c t1 ?key bs (Some (ch_ttl ch)) s1 = (s2, Inr ())" "inv s2"
      "\<And>t. vis s2 ?key t = (if live_at (exp t1 (Some (ch_ttl ch))) t then Some bs else None)"
      by (rule putE [OF i1, of t1 ?key bs "Some (ch_ttl ch)"]) auto
    have "s' = s2" "r \<noteq> Inr ()"
      using run 3 q(3) bs(1) s2(1) by (auto simp: consume_answer_def p assms(2) put_json_def)
    moreover have "shows_count pc vis ?key code m (n + 1) t0 s2"
      using bs(2) by (auto simp: shows_count_def seen_def s2(3) p split: if_splits)
    ultimately show ?thesis using 3 s2(2) by simp
  qed
qed

lemma guesses_pass_once:
  assumes "inv s" "ch_cache ch = c" "codec_ok pc"
    and "shows_count pc vis (challenge_key ch subject purpose) code m n T s" "n < max 1 m" "m < 2 ^ 32"
    and "\<forall>g \<in> set gs. env_ok inv vis (challenge_key ch subject purpose) (gu_env g)"
    and "sorted (T # map gu_read_at gs)"
  shows "passes_at_most_once code (max 1 m - n) gs (run_guesses pc ch subject purpose gs s)"
  using assms
proof (induction gs arbitrary: s T n)
  case (Cons g gs)
  let ?key = "challenge_key ch subject purpose"
  have e: "inv (gu_env g s)" "(\<forall>t. vis (gu_env g s) ?key t = vis s ?key t) \<or> (\<forall>t. vis (gu_env g s) ?key t = None)"
    using Cons.prems(1,7) by (auto simp: env_ok_def)
  have q: "shows_count pc vis ?key code m n T (gu_env g s)"
    using e(2) Cons.prems(4) by (auto simp: shows_count_def seen_def)
  obtain s' r where r: "challenge_consume pc ch (gu_read_at g) (gu_write_at g) subject purpose (gu_answer g) (gu_env g s) = (s', r)"
    by fastforce
  have T: "T \<le> gu_read_at g" and srt: "sorted (gu_read_at g # map gu_read_at gs)"
    and envs: "\<forall>g \<in> set gs. env_ok inv vis ?key (gu_env g)" using Cons.prems(7,8) by auto
  have n: "n + 1 < 2 ^ 32" using Cons.prems(5,6) by (auto simp: max_def split: if_splits)
  note step = consume_step [OF e(1) Cons.prems(2,3) q T n r]
  note quiet = nothing_stays [OF _ Cons.prems(2) _ envs srt, of s' pc]
  consider "r = Inr ()" | "r \<noteq> Inr ()" "shows_nothing pc vis ?key (gu_read_at g) s'"
    | "r \<noteq> Inr ()" "n + 1 < m" "shows_count pc vis ?key code m (n + 1) (gu_read_at g) s'"
    using step by (auto split: if_splits)
  then show ?case
  proof cases
    case 1
    then show ?thesis using step quiet r Cons.prems(5) by simp
  next
    case 2
    then have "list_all (\<lambda>r. r \<noteq> Inr ()) (run_guesses pc ch subject purpose gs s')" using step quiet by simp
    then show ?thesis using 2(1) r none_passes [of gs] by (simp add: run_guesses_length)
  next
    case 3
    then show ?thesis using Cons.IH [OF _ Cons.prems(2,3) 3(3) _ Cons.prems(6) envs srt] step r by simp
  qed
qed simp

lemma issued_code:
  assumes "inv s" "ch_cache ch = c" "codec_ok pc"
    and "challenge_issue_code pc ch t subject purpose code s = (s1, r)"
  shows "inv s1 \<and> shows_count pc vis (challenge_key ch subject purpose) code (ch_max_attempts ch) 0 T s1 \<and>
    (live_at (exp t (Some (ch_ttl ch))) t0 \<longrightarrow> snd (challenge_consume pc ch t0 t1 subject purpose code s1) = Inr ())"
proof -
  let ?key = "challenge_key ch subject purpose"
  define p where "p = \<lparr>pe_code = code, pe_attempts = 0, pe_max_attempts = ch_max_attempts ch\<rparr>"
  obtain bs where bs: "pc_write pc p = Inr bs" "pc_read pc bs = Some p" using assms(3) by (auto simp: codec_ok_def)
  obtain s2 where s2: "c_put c t ?key bs (Some (ch_ttl ch)) s = (s2, Inr ())" "inv s2"
      "\<And>t'. vis s2 ?key t' = (if live_at (exp t (Some (ch_ttl ch))) t' then Some bs else None)"
    by (rule putE [OF assms(1), of t ?key bs "Some (ch_ttl ch)"]) auto
  have s1: "s1 = s2" using assms(2,4) bs(1) s2(1) by (simp add: challenge_issue_code_def put_json_def p_def)
  have "shows_count pc vis ?key code (ch_max_attempts ch) 0 T s2"
    using bs(2) by (auto simp: shows_count_def seen_def s2(3) p_def split: if_splits)
  moreover have "snd (challenge_consume pc ch t0 t1 subject purpose code s2) = Inr ()"
    if "live_at (exp t (Some (ch_ttl ch))) t0"
  proof -
    define s3 where "s3 = fst (c_get c t0 ?key s2)"
    obtain s4 b where "c_forget c ?key s3 = (s4, Inr b)"
      using forget_pair [of s3 ?key] s2(2) by (auto simp: s3_def)
    then have "snd (consume_answer pc ch t1 ?key p code s3) = Inr ()"
      by (simp add: consume_answer_def assms(2) p_def)
    then show ?thesis using that s2(2,3) assms(2) bs(2)
      by (simp add: challenge_consume_def Let_def get_json_seen seen_def s3_def)
  qed
  ultimately show ?thesis using s1 s2(2) by blast
qed

end

section \<open>Properties\<close>


definition text_codec :: pending_codec where
  "text_codec =
     \<lparr>pc_write = (\<lambda>p. Inr (nat_dec (pe_attempts p) @ '','' @ nat_dec (pe_max_attempts p) @ '','' @ pe_code p)),
      pc_read = (\<lambda>bs.
        case split_once CHR '','' bs of
          None \<Rightarrow> None
        | Some (a, r) \<Rightarrow> (case split_once CHR '','' r of
            None \<Rightarrow> None
          | Some (m, code) \<Rightarrow>
              Some \<lparr>pe_code = code, pe_attempts = digits_value a, pe_max_attempts = digits_value m\<rparr>))\<rparr>"

lemma text_codec_ok: "codec_ok text_codec"
proof -
  have "CHR '','' \<notin> set (nat_dec n)" for n using nat_dec_digit [of "CHR '',''" n] by (auto simp: is_digit_def)
  then show ?thesis by (simp add: codec_ok_def text_codec_def split_once_append)
qed

definition demo_challenges :: "memory challenges" where
  "demo_challenges = challenges_new (memory_cache (\<lambda>d. Some (int d)))"

definition demo_guesses :: "memory guess list" where
  "demo_guesses = map (\<lambda>(t, a). \<lparr>gu_env = id, gu_read_at = t, gu_write_at = t, gu_answer = a\<rparr>)
     [(10, ''000000''), (20, ''123456''), (30, ''123456'')]"


section \<open>Behaviour worth knowing\<close>

text \<open>
  Reading and answering are two steps: two answers that read before either wrote both pass, and
  two wrong ones are counted once.
\<close>

lemma concurrent_answers_both_pass:
  assumes "ch_cache ch = memory_cache from_std" "pe_code p = a"
  shows "snd (consume_answer pc ch t key p a s) = Inr () \<and>
    snd (consume_answer pc ch t' key p a (fst (consume_answer pc ch t key p a s))) = Inr ()"
  using assms by (simp add: consume_answer_def memory_cache_def mem_forget_def)

text \<open>The key does not separate its parts, so two pairs of purpose and subject share a challenge.\<close>

lemma keys_collide: "challenge_key ch ''b:c'' ''a'' = challenge_key ch ''c'' ''a:b''"
  by (simp add: challenge_key_def)

end
