(* ===== verification/Session_Stores.thy ===== *)
theory Session_Stores
  imports Start_Session Memory_Cache "HOL-Library.Countable"
begin

text \<open>
  The other stores of sessions (\<^verbatim>\<open>rainier-session/src\<close>): in a cache (\<^verbatim>\<open>cache.rs\<close>), in a table
  (\<^verbatim>\<open>database.rs\<close>) and in the cookie itself (\<^verbatim>\<open>cookie.rs\<close>). The JSON codec of the session data and the
  encryption of the cookie are parameters; a table is the map of its rows by primary key. Sessions
  count milliseconds and the cache nanoseconds. Shown: over any cache whose contract holds without
  a side condition, and over the table, the store has the contract of a server-side store, so
  everything proved of sessions holds for them; a session in a cookie comes back as it was sealed.
\<close>

section \<open>The code\<close>

record data_codec =
  dc_write :: "session_data \<Rightarrow> string result"
  dc_read :: "string \<Rightarrow> session_data option"

record 's cache_sessions =
  cx_cache :: "'s cache"
  cx_lifetime :: duration

definition cache_sessions_new :: "'s cache \<Rightarrow> 's cache_sessions" where
  "cache_sessions_new c = \<lparr>cx_cache = c, cx_lifetime = 2 * 60 * 60 * 10 ^ 9\<rparr>"

text \<open>\<^verbatim>\<open>with_lifetime\<close> takes a signed duration, in nanoseconds; a negative one is ignored.\<close>

definition cache_sessions_with_lifetime :: "int \<Rightarrow> 's cache_sessions \<Rightarrow> 's cache_sessions" where
  "cache_sessions_with_lifetime lifetime cx = (if lifetime \<ge> 0 then cx\<lparr>cx_lifetime := nat lifetime\<rparr> else cx)"

definition cache_session_key :: "string \<Rightarrow> string" where
  "cache_session_key i = ''session:'' @ i"

definition cache_read ::
  "data_codec \<Rightarrow> 's cache_sessions \<Rightarrow> int \<Rightarrow> string \<Rightarrow> 's \<Rightarrow> 's \<times> session_data option result"
where
  "cache_read dc cx now i st = get_json (dc_read dc) (cx_cache cx) (now * 10 ^ 6) (cache_session_key i) st"

definition cache_write ::
  "data_codec \<Rightarrow> 's cache_sessions \<Rightarrow> int \<Rightarrow> string \<Rightarrow> session_data \<Rightarrow> 's \<Rightarrow> 's \<times> unit result"
where
  "cache_write dc cx now i data st =
     put_json (dc_write dc) (cx_cache cx) (now * 10 ^ 6) (cache_session_key i) data (Some (cx_lifetime cx)) st"

definition cache_destroy :: "'s cache_sessions \<Rightarrow> string \<Rightarrow> 's \<Rightarrow> 's \<times> unit result" where
  "cache_destroy cx i st =
     (case c_forget (cx_cache cx) (cache_session_key i) st of (st', Inl e) \<Rightarrow> (st', Inl e) | (st', Inr _) \<Rightarrow> (st', Inr ()))"

definition cache_gc :: "int \<Rightarrow> 's \<Rightarrow> 's \<times> nat result" where
  "cache_gc now st = (st, Inr 0)"

definition cache_session_store :: "data_codec \<Rightarrow> 's cache_sessions \<Rightarrow> 's session_store" where
  "cache_session_store dc cx =
     \<lparr>so_read = cache_read dc cx, so_write = cache_write dc cx, so_destroy = cache_destroy cx, so_gc = cache_gc,
      so_client_side = False, so_encode = encode_default, so_decode = decode_default\<rparr>"

record session_row =
  sr_payload :: string
  sr_expires_at :: int
  sr_updated_at :: int

type_synonym session_table = "(string, session_row) hmap"

definition db_read :: "data_codec \<Rightarrow> int \<Rightarrow> string \<Rightarrow> session_table \<Rightarrow> session_table \<times> session_data option result" where
  "db_read dc now i rows =
     (case hm_get i rows of
        None \<Rightarrow> (rows, Inr None)
      | Some row \<Rightarrow>
          if sr_expires_at row \<le> now then (hm_remove i rows, Inr None)
          else (case dc_read dc (sr_payload row) of
                  Some data \<Rightarrow> (rows, Inr (Some data))
                | None \<Rightarrow> (hm_remove i rows, Inr None)))"

definition db_write ::
  "data_codec \<Rightarrow> int \<Rightarrow> int \<Rightarrow> string \<Rightarrow> session_data \<Rightarrow> session_table \<Rightarrow> session_table \<times> unit result"
where
  "db_write dc lifetime now i data rows =
     (case dc_write dc data of
        Inl e \<Rightarrow> (rows, Inl (err_internal (''the session will not serialise: '' @ error_display e)))
      | Inr payload \<Rightarrow>
          (hm_insert i \<lparr>sr_payload = payload, sr_expires_at = now + lifetime, sr_updated_at = now\<rparr> rows, Inr ()))"

definition db_destroy :: "string \<Rightarrow> session_table \<Rightarrow> session_table \<times> unit result" where
  "db_destroy i rows = (hm_remove i rows, Inr ())"

definition db_prune :: "int \<Rightarrow> session_table \<Rightarrow> session_table \<times> nat result" where
  "db_prune now rows =
     (let kept = hm_retain (\<lambda>_ row. \<not> sr_expires_at row \<le> now) rows in (kept, Inr (hm_len rows - hm_len kept)))"

definition database_session_store :: "data_codec \<Rightarrow> int \<Rightarrow> session_table session_store" where
  "database_session_store dc lifetime =
     \<lparr>so_read = db_read dc, so_write = db_write dc lifetime, so_destroy = db_destroy, so_gc = db_prune,
      so_client_side = False, so_encode = encode_default, so_decode = decode_default\<rparr>"

record envelope =
  ev_id :: string
  ev_data :: session_data

text \<open>\<^verbatim>\<open>encrypt_json\<close> and \<^verbatim>\<open>decrypt_json\<close> of the encryption in use.\<close>

record sealer =
  se_encrypt :: "envelope \<Rightarrow> string result"
  se_decrypt :: "string \<Rightarrow> envelope result"

definition MAX_VALUE_BYTES :: nat where "MAX_VALUE_BYTES = 3500"

record cookie_sessions =
  ck_crypt :: sealer
  ck_max_bytes :: nat

definition cookie_sessions_new :: "sealer \<Rightarrow> cookie_sessions" where
  "cookie_sessions_new crypt = \<lparr>ck_crypt = crypt, ck_max_bytes = MAX_VALUE_BYTES\<rparr>"

definition with_max_bytes :: "nat \<Rightarrow> cookie_sessions \<Rightarrow> cookie_sessions" where
  "with_max_bytes n ck = ck\<lparr>ck_max_bytes := n\<rparr>"

definition cookie_encode :: "cookie_sessions \<Rightarrow> string \<Rightarrow> session_data \<Rightarrow> string result" where
  "cookie_encode ck i data =
     (case se_encrypt (ck_crypt ck) \<lparr>ev_id = i, ev_data = data\<rparr> of
        Inl e \<Rightarrow> Inl e
      | Inr sealed \<Rightarrow>
          if length sealed > ck_max_bytes ck
          then Inl (err_internal (''this session is '' @ nat_dec (length sealed) @ '' bytes encrypted, over the ''
            @ nat_dec (ck_max_bytes ck)
            @ '' the cookie driver allows. Move the large values to a server-side store, or switch the session driver.''))
          else Inr sealed)"

text \<open>\<open>random\<close> are the bytes of a new id, drawn only for an id that is not well formed.\<close>

definition cookie_decode :: "cookie_sessions \<Rightarrow> string \<Rightarrow> string \<Rightarrow> (string \<times> session_data option) result" where
  "cookie_decode ck random v =
     (case se_decrypt (ck_crypt ck) v of
        Inl e \<Rightarrow> Inl e
      | Inr ev \<Rightarrow>
          Inr (if is_well_formed (ev_id ev) then ev_id ev else generate_session_id random, Some (ev_data ev)))"

definition cookie_session_store :: "cookie_sessions \<Rightarrow> string \<Rightarrow> unit session_store" where
  "cookie_session_store ck random =
     \<lparr>so_read = (\<lambda>_ _ st. (st, Inr None)), so_write = (\<lambda>_ _ _ st. (st, Inr ())), so_destroy = (\<lambda>_ st. (st, Inr ())),
      so_gc = (\<lambda>_ st. (st, Inr 0)), so_client_side = True, so_encode = cookie_encode ck, so_decode = cookie_decode ck random\<rparr>"

section \<open>Server-side stores\<close>

definition data_codec_ok :: "data_codec \<Rightarrow> bool" where
  "data_codec_ok dc \<longleftrightarrow> (\<forall>d. \<exists>bs. dc_write dc d = Inr bs \<and> dc_read dc bs = Some d)"

text \<open>A cache whose contract holds in every state, with lifetimes that add up.\<close>

locale session_cache = cache_port c "\<lambda>_. True" vis exp for c :: "'s cache" and vis and exp +
  fixes dc :: data_codec and life :: nat
  assumes codec: "data_codec_ok dc"
    and expires: "exp t (Some (life * 10 ^ 6)) = Some (t + int (life * 10 ^ 6))"
begin

definition cache_vis :: "int \<Rightarrow> string \<Rightarrow> 's \<Rightarrow> session_data option" where
  "cache_vis now i st = Option.bind (vis st (cache_session_key i) (now * 10 ^ 6)) (dc_read dc)"

end

sublocale session_cache \<subseteq> server_store "cache_session_store dc \<lparr>cx_cache = c, cx_lifetime = life * 10 ^ 6\<rparr>" "int life" cache_vis
proof (unfold_locales, goal_cases)
  case (1 now i st)
  then show ?case
    by (simp add: cache_session_store_def cache_read_def get_json_result cache_vis_def split: option.split)
next
  case (2 now now' j i st)
  then show ?case
    by (simp add: cache_session_store_def cache_read_def get_json_result cache_vis_def get_vis)
next
  case (3 now i data st)
  obtain bs where "dc_write dc data = Inr bs" using codec by (auto simp: data_codec_ok_def)
  then show ?case by (simp add: cache_session_store_def cache_write_def put_json_def put_result)
next
  case (4 now' j now i data st)
  obtain bs where "dc_write dc data = Inr bs" "dc_read dc bs = Some data" using codec by (auto simp: data_codec_ok_def)
  then show ?case
    by (auto simp: cache_session_store_def cache_write_def put_json_def put_vis cache_vis_def cache_session_key_def
        live_at_def expires [simplified])
next
  case (5 i st)
  show ?case using forget_result [of "cache_session_key i" st]
    by (auto simp: cache_session_store_def cache_destroy_def split: prod.split sum.split)
next
  case (6 now' j i st)
  have "fst (cache_destroy \<lparr>cx_cache = c, cx_lifetime = life * 10 ^ 6\<rparr> i st) = fst (c_forget c (cache_session_key i) st)"
    by (simp add: cache_destroy_def split: prod.split sum.split)
  then show ?case by (simp add: cache_session_store_def cache_vis_def forget_vis cache_session_key_def)
qed (simp_all add: cache_session_store_def encode_default_def)

text \<open>The in-process cache keeps its contract even on maps with shadowed entries.\<close>

interpretation memt: cache_port "memory_cache from_std" "\<lambda>_. True" mem_vis "expiry from_std" for from_std
proof (unfold_locales, goal_cases)
  case (1 s k t' v t)
  then show ?case by (auto simp: mem_vis_def dest: is_live_antimono split: option.splits if_splits)
next
  case (3 s t t' k k')
  then show ?case by (auto simp: mem_vis_simps split: option.splits dest: live_at_mono)
next
  case (9 s t0 t1 t' k v ttl k')
  then show ?case by (auto simp: mem_vis_simps split: option.splits dest: live_at_mono)
next
  case 13
  then show ?case using mem_increment_live_aux by (simp add: memory_cache_def)
next
  case (17 s t t' k k')
  then show ?case by (auto simp: mem_vis_simps split: option.splits dest: live_at_mono)
qed (auto simp: mem_vis_simps hm_contains_def Let_def split: option.splits sum.splits if_splits dest: live_at_mono)

text \<open>A codec with the law: the number of the data in an enumeration, in decimal digits.\<close>

instance json :: countable
  by countable_datatype

definition counting_codec :: data_codec where
  "counting_codec =
     \<lparr>dc_write = (\<lambda>d. Inr (nat_dec (to_nat (sd_values d, sd_flash d)))),
      dc_read = (\<lambda>s. case from_nat (digits_value s) of (vs, fs) \<Rightarrow> Some \<lparr>sd_values = vs, sd_flash = fs\<rparr>)\<rparr>"

lemma counting_codec_ok: "data_codec_ok counting_codec"
  by (simp add: data_codec_ok_def counting_codec_def)

interpretation css: session_cache "memory_cache (\<lambda>d. Some (int d))" mem_vis "expiry (\<lambda>d. Some (int d))" counting_codec life
  for life
  by unfold_locales (simp_all add: counting_codec_ok expiry_def)

definition db_vis :: "data_codec \<Rightarrow> int \<Rightarrow> string \<Rightarrow> session_table \<Rightarrow> session_data option" where
  "db_vis dc now i rows =
     (case hm_get i rows of
        Some row \<Rightarrow> if sr_expires_at row \<le> now then None else dc_read dc (sr_payload row)
      | None \<Rightarrow> None)"

lemma database_store_serves:
  assumes "data_codec_ok dc"
  shows "server_store (database_session_store dc lifetime) lifetime (db_vis dc)"
proof (unfold_locales, goal_cases)
  case (3 now i data st)
  then show ?case using assms by (auto simp: database_session_store_def db_write_def data_codec_ok_def split: sum.split)
     (metis sum.distinct(1))
next
  case (4 now' j now i data st)
  obtain bs where "dc_write dc data = Inr bs" "dc_read dc bs = Some data" using assms by (auto simp: data_codec_ok_def)
  then show ?case by (auto simp: database_session_store_def db_write_def db_vis_def)
qed (auto simp: database_session_store_def db_read_def db_destroy_def db_vis_def encode_default_def split: option.splits)

interpretation dss: server_store "database_session_store counting_codec lifetime" lifetime "db_vis counting_codec"
  for lifetime
  by (rule database_store_serves [OF counting_codec_ok])

text \<open>
  So what \<open>Start_Session\<close> shows of the in-process store holds over a table, for every codec with the
  law: an id the handler gave up opens nothing, and the id of the bag what the handler left.
\<close>

lemma table_sessions_survive:
  assumes "data_codec_ok dc" "sx_store sx = database_session_store dc lifetime"
    and "load dec sx rq s = (attached b0, s1)"
    and "k rq (s1\<lparr>w_bag := Some b0\<rparr>) = (s2, response)" "w_bag s2 = Some b" "ss_dirty b"
    and "w_store s' = w_store s3" "w_now s' < w_now s2 + lifetime"
    and "start_handle enc dec fmt valid sx rq k s = (s3, response3)"
  shows "response3 = with_cookie enc fmt valid (session_cookie (sx_config sx) (ss_id b)) response
    \<and> (request_cookie dec rq' (sc_cookie (sx_config sx)) = Some (ss_id b) \<and> is_well_formed (ss_id b) \<longrightarrow>
        fst (load dec sx rq' s') = attached (restore (ss_id b) (snd (age_and_take b))))
    \<and> (\<forall>i \<in> set (ss_superseded b). i \<noteq> ss_id b \<and> is_well_formed i
          \<and> request_cookie dec rq' (sc_cookie (sx_config sx)) = Some i \<longrightarrow>
        fst (load dec sx rq' s') = attached (session_new (w_random s' (w_drawn s'))))"
  using server_store.session_carries_over [OF database_store_serves [OF assms(1)] assms(2-9)] .

text \<open>Pruning removes exactly what no reader would find any more.\<close>

lemma prune_unseen:
  assumes "hm_wf rows" "now \<le> now'"
  shows "db_vis dc now' i (fst (db_prune now rows)) = db_vis dc now' i rows"
  using assms by (auto simp: db_prune_def db_vis_def Let_def hm_get_retain split: option.split)

section \<open>Sessions in the cookie\<close>

definition sealer_ok :: "sealer \<Rightarrow> bool" where
  "sealer_ok se \<longleftrightarrow> (\<forall>ev v. se_encrypt se ev = Inr v \<longrightarrow> se_decrypt se v = Inr ev)"

text \<open>
  A session that fits comes back as it was sealed, from the cookie alone; giving up its id does not
  end it, since any copy of the cookie still opens.
\<close>

lemma cookie_session_comes_back:
  assumes "sealer_ok (ck_crypt ck)" "cookie_encode ck i data = Inr v" "is_well_formed i"
    and "sx_store sx = cookie_session_store ck random" "request_cookie dec rq (sc_cookie (sx_config sx)) = Some v"
  shows "length v \<le> ck_max_bytes ck \<and> load dec sx rq s = (attached (restore i data), s)"
proof -
  have "se_encrypt (ck_crypt ck) \<lparr>ev_id = i, ev_data = data\<rparr> = Inr v" "length v \<le> ck_max_bytes ck"
    using assms(2) by (auto simp: cookie_encode_def split: sum.splits if_splits)
  moreover from this have "cookie_decode ck random v = Inr (i, Some data)"
    using assms(1,3) by (simp add: cookie_decode_def sealer_ok_def)
  ultimately show ?thesis using assms(4,5) by (simp add: load_def cookie_session_store_def)
qed

end
