(* ===== verification/Signed_Url.thy ===== *)
theory Signed_Url
  imports Support_Error Percent "HOL-Library.Char_ord" "HOL-Library.List_Lexorder" "HOL-Library.Product_Lexorder"
    "HOL-Library.Multiset"
begin

text \<open>
  Keys, signatures and signed URLs, \<^verbatim>\<open>rainier-crypt/src\<close>: \<^verbatim>\<open>key.rs\<close>, \<^verbatim>\<open>signer.rs\<close> and \<^verbatim>\<open>url.rs\<close>. HMAC-SHA256,
  SHA-256 and base64 are the parameters of the record \<open>crypto\<close>. Slicing a text inside a character
  panics, which is the value \<^const>\<open>None\<close>. Shown: what is signed determines the path and the parameters
  of a link, so an altered link that verifies is a collision of the MAC; and a signed link
  verifies until it expires.
\<close>

section \<open>Keys\<close>

record crypto =
  cy_hmac :: "string \<Rightarrow> string \<Rightarrow> string"
  cy_sha256 :: "string \<Rightarrow> string"
  cy_b64_encode :: "string \<Rightarrow> string"
  cy_b64_decode :: "string \<Rightarrow> string option"
  cy_url_encode :: "string \<Rightarrow> string"
  cy_url_decode :: "string \<Rightarrow> string option"

definition KEY_LEN :: nat where "KEY_LEN = 32"

record crypt_key =
  ky_id :: string
  ky_bytes :: string

definition hex_pair :: "char \<Rightarrow> string" where
  "hex_pair b = (let n = (of_char b :: nat) in [hex_digit (n div 16), hex_digit (n mod 16)])"

definition fingerprint :: "crypto \<Rightarrow> string \<Rightarrow> string" where
  "fingerprint cy bytes = concat (map hex_pair (take 4 (cy_sha256 cy (''rainier-key-id'' @ [CHR 0x00] @ bytes))))"

definition key_from_bytes :: "crypto \<Rightarrow> string \<Rightarrow> crypt_key" where
  "key_from_bytes cy bytes = \<lparr>ky_id = fingerprint cy bytes, ky_bytes = bytes\<rparr>"

definition key_from_base64 :: "crypto \<Rightarrow> string \<Rightarrow> crypt_key result" where
  "key_from_base64 cy encoded =
     (let trimmed = trim encoded;
          payload = (if prefix ''base64:'' trimmed then drop 7 trimmed else trimmed) in
      case cy_b64_decode cy payload of
        None \<Rightarrow> Inl (err_internal ''the application key is not valid base64'')
      | Some decoded \<Rightarrow>
          if length decoded = KEY_LEN then Inr (key_from_bytes cy decoded)
          else Inl (err_internal (''the application key must be '' @ nat_dec KEY_LEN @ '' bytes, but decoded to ''
            @ nat_dec (length decoded))))"

definition key_to_base64 :: "crypto \<Rightarrow> crypt_key \<Rightarrow> string" where
  "key_to_base64 cy k = ''base64:'' @ cy_b64_encode cy (ky_bytes k)"

text \<open>A ring is made with a current key, its first.\<close>

type_synonym key_ring = "crypt_key list"

definition ring_new :: "crypt_key \<Rightarrow> key_ring" where "ring_new current = [current]"

definition with_previous :: "crypt_key \<Rightarrow> key_ring \<Rightarrow> key_ring" where "with_previous k ring = ring @ [k]"

fun add_previous :: "crypto \<Rightarrow> string list \<Rightarrow> key_ring \<Rightarrow> key_ring result" where
  "add_previous cy [] ring = Inr ring"
| "add_previous cy (encoded # rest) ring =
     (if trim encoded = [] then add_previous cy rest ring
      else (case key_from_base64 cy encoded of
              Inl e \<Rightarrow> Inl e
            | Inr k \<Rightarrow> add_previous cy rest (with_previous k ring)))"

definition ring_from_base64 :: "crypto \<Rightarrow> string \<Rightarrow> string list \<Rightarrow> key_ring result" where
  "ring_from_base64 cy current previous =
     (case key_from_base64 cy current of Inl e \<Rightarrow> Inl e | Inr k \<Rightarrow> add_previous cy previous (ring_new k))"

definition ring_current :: "key_ring \<Rightarrow> crypt_key" where "ring_current ring = hd ring"

definition ring_find :: "key_ring \<Rightarrow> string \<Rightarrow> crypt_key option" where
  "ring_find ring i = find (\<lambda>k. ky_id k = i) ring"

definition ring_ids :: "key_ring \<Rightarrow> string list" where "ring_ids ring = map ky_id ring"

section \<open>Signatures\<close>

definition mac_tag :: "crypto \<Rightarrow> crypt_key \<Rightarrow> string \<Rightarrow> string" where
  "mac_tag cy k v = cy_hmac cy (ky_bytes k) (ky_id k @ ''.'' @ v)"

definition detached_tag :: "crypto \<Rightarrow> key_ring \<Rightarrow> string \<Rightarrow> string" where
  "detached_tag cy ring v =
     (let k = ring_current ring in ky_id k @ ''.'' @ cy_url_encode cy (mac_tag cy k v))"

definition verify_detached :: "crypto \<Rightarrow> key_ring \<Rightarrow> string \<Rightarrow> string \<Rightarrow> bool" where
  "verify_detached cy ring v tag =
     (case split_once CHR ''.'' tag of
        None \<Rightarrow> False
      | Some (i, t) \<Rightarrow>
          (case ring_find ring i of
             None \<Rightarrow> False
           | Some k \<Rightarrow>
               (case cy_url_decode cy t of
                  None \<Rightarrow> False
                | Some presented \<Rightarrow> presented = mac_tag cy k v)))"

definition hmac_sign :: "crypto \<Rightarrow> key_ring \<Rightarrow> string \<Rightarrow> string result" where
  "hmac_sign cy ring v =
     (if CHR ''.'' \<in> set v
      then Inl (err_internal (''a signed value must not contain `.` '' @ EM_DASH
        @ '' encode it first (base64, or JSON through the encrypter)''))
      else (let k = ring_current ring in
            Inr (v @ ''.'' @ ky_id k @ ''.'' @ cy_url_encode cy (mac_tag cy k v))))"

definition hmac_verify :: "crypto \<Rightarrow> key_ring \<Rightarrow> string \<Rightarrow> string result" where
  "hmac_verify cy ring signed =
     (let invalid = err_bad_request ''the signature is not valid'' in
      case split_on CHR ''.'' signed of
        [v, i, t] \<Rightarrow>
          (case ring_find ring i of
             None \<Rightarrow> Inl invalid
           | Some k \<Rightarrow>
               (case cy_url_decode cy t of
                  None \<Rightarrow> Inl invalid
                | Some presented \<Rightarrow> if presented = mac_tag cy k v then Inr v else Inl invalid))
      | _ \<Rightarrow> Inl invalid)"

section \<open>Signed URLs\<close>

definition SIGNATURE :: string where "SIGNATURE = ''signature''"
definition EXPIRES :: string where "EXPIRES = ''expires''"

definition url_split :: "string \<Rightarrow> string \<times> string" where
  "url_split url = (case split_once CHR ''?'' url of Some pq \<Rightarrow> pq | None \<Rightarrow> (url, []))"

fun after_scheme :: "string \<Rightarrow> string option" where
  "after_scheme [] = None"
| "after_scheme (c # s) = (if prefix ''://'' (c # s) then Some (drop 3 (c # s)) else after_scheme s)"

definition path_of :: "string \<Rightarrow> string" where
  "path_of url =
     (case after_scheme url of
        None \<Rightarrow> url
      | Some rest \<Rightarrow> (let p = dropWhile (\<lambda>c. c \<noteq> CHR ''/'') rest in if p = [] then ''/'' else p))"

text \<open>\<^verbatim>\<open>u8::from_str_radix(_, 16)\<close> on two bytes; a plus sign is accepted in front.\<close>

definition radix_byte :: "char \<Rightarrow> char \<Rightarrow> nat option" where
  "radix_byte a b =
     (case (hex_value a, hex_value b) of
        (Some x, Some y) \<Rightarrow> Some (16 * x + y)
      | (None, Some y) \<Rightarrow> if a = CHR ''+'' then Some y else None
      | _ \<Rightarrow> None)"

text \<open>
  The loop of \<^verbatim>\<open>decode\<close> on the bytes still to read. \<^verbatim>\<open>&value[i + 1..i + 3]\<close> panics when one of its ends lies
  inside a character.
\<close>

fun decode_bytes :: "string \<Rightarrow> string option" where
  "decode_bytes [] = Some []"
| "decode_bytes (c # s) =
     (if c = CHR ''+'' then map_option ((#) CHR '' '') (decode_bytes s)
      else if c = CHR ''%'' then
        (case s of
           a # b # r \<Rightarrow>
             if cont_byte a \<or> r \<noteq> [] \<and> cont_byte (hd r) then None
             else (case radix_byte a b of
                     Some n \<Rightarrow> map_option ((#) (char_of n)) (decode_bytes r)
                   | None \<Rightarrow> map_option ((#) CHR ''%'') (decode_bytes s))
         | _ \<Rightarrow> map_option ((#) c) (decode_bytes s))
      else map_option ((#) c) (decode_bytes s))"

definition query_decode :: "string \<Rightarrow> string option" where
  "query_decode v = map_option from_utf8_lossy (decode_bytes v)"

definition url_unreserved :: "char \<Rightarrow> bool" where
  "url_unreserved c \<longleftrightarrow> byte_in 65 90 c \<or> byte_in 97 122 c \<or> is_digit c \<or> c \<in> set ''-._~''"

definition percent_encode :: "string \<Rightarrow> string" where
  "percent_encode v = concat (map (\<lambda>c. if url_unreserved c then [c]
     else (let n = (of_char c :: nat) in [CHR ''%'', hex_upper (n div 16), hex_upper (n mod 16)])) v)"

definition parse_query_pair :: "string \<Rightarrow> (string \<times> string) option" where
  "parse_query_pair pair =
     (case split_once CHR ''='' pair of
        Some (n, v) \<Rightarrow>
          (case (query_decode n, query_decode v) of (Some n', Some v') \<Rightarrow> Some (n', v') | _ \<Rightarrow> None)
      | None \<Rightarrow> map_option (\<lambda>n. (n, [])) (query_decode pair))"

definition parse_pairs :: "string \<Rightarrow> (string \<times> string) list option" where
  "parse_pairs query = those (map parse_query_pair (filter (\<lambda>p. p \<noteq> []) (split_on CHR ''&'' query)))"

definition encode_pairs :: "(string \<times> string) list \<Rightarrow> string" where
  "encode_pairs pairs = join ''&'' (map (\<lambda>(n, v). percent_encode n @ ''='' @ percent_encode v) pairs)"

definition query_value :: "string \<Rightarrow> string \<Rightarrow> string option option" where
  "query_value query name =
     map_option (\<lambda>ps. map_option snd (find (\<lambda>(n, _). n = name) ps)) (parse_pairs query)"

definition canonical :: "string \<Rightarrow> string \<Rightarrow> string option" where
  "canonical path query =
     map_option (\<lambda>ps. path_of path @ ''?'' @ encode_pairs (sort (filter (\<lambda>(n, _). n \<noteq> SIGNATURE) ps)))
       (parse_pairs query)"

definition url_tag :: "crypto \<Rightarrow> key_ring \<Rightarrow> string \<Rightarrow> string" where
  "url_tag cy ring canon = cy_url_encode cy (detached_tag cy ring canon)"

definition verify_tag :: "crypto \<Rightarrow> key_ring \<Rightarrow> string \<Rightarrow> string \<Rightarrow> bool" where
  "verify_tag cy ring canon presented =
     (case cy_url_decode cy presented of
        None \<Rightarrow> False
      | Some decoded \<Rightarrow> if utf8_valid decoded then verify_detached cy ring canon decoded else False)"

definition sign_attach :: "crypto \<Rightarrow> key_ring \<Rightarrow> string \<Rightarrow> int option \<Rightarrow> string option" where
  "sign_attach cy ring url expires_at =
     (let (path, query) = url_split url in
      Option.bind (parse_pairs query) (\<lambda>ps.
      let kept = filter (\<lambda>(n, _). n \<noteq> SIGNATURE \<and> n \<noteq> EXPIRES) ps;
          pairs = kept @ (case expires_at of Some e \<Rightarrow> [(EXPIRES, int_dec e)] | None \<Rightarrow> []);
          query' = encode_pairs pairs in
      map_option (\<lambda>canon. path @ ''?'' @ query' @ (if query' = [] then [] else ''&'') @ SIGNATURE @ ''=''
          @ url_tag cy ring canon)
        (canonical path query')))"

definition url_sign :: "crypto \<Rightarrow> key_ring \<Rightarrow> string \<Rightarrow> string option" where
  "url_sign cy ring url = sign_attach cy ring url None"

definition sign_until :: "crypto \<Rightarrow> key_ring \<Rightarrow> string \<Rightarrow> int \<Rightarrow> string option" where
  "sign_until cy ring url e = sign_attach cy ring url (Some e)"

definition signature_for :: "crypto \<Rightarrow> key_ring \<Rightarrow> string \<Rightarrow> string option" where
  "signature_for cy ring url =
     (let (path, query) = url_split url in map_option (url_tag cy ring) (canonical path query))"

definition url_verify :: "crypto \<Rightarrow> key_ring \<Rightarrow> int \<Rightarrow> string \<Rightarrow> unit result option" where
  "url_verify cy ring now url =
     (let (path, query) = url_split url in
      case query_value query SIGNATURE of
        None \<Rightarrow> None
      | Some None \<Rightarrow> Some (Inl (err_unauthorized ''This link is not signed.''))
      | Some (Some provided) \<Rightarrow>
          (case canonical path query of
             None \<Rightarrow> None
           | Some canon \<Rightarrow>
               if \<not> verify_tag cy ring canon provided
               then Some (Inl (err_unauthorized ''This link's signature is not valid.''))
               else
                 (case query_value query EXPIRES of
                    None \<Rightarrow> None
                  | Some None \<Rightarrow> Some (Inr ())
                  | Some (Some expires) \<Rightarrow>
                      (case parse_i64 expires of
                         None \<Rightarrow> Some (Inl (err_unauthorized ''This link's expiry is not valid.''))
                       | Some at \<Rightarrow>
                           if now > at then Some (Inl (err_unauthorized ''This link has expired.''))
                           else Some (Inr ())))))"

definition url_is_valid :: "crypto \<Rightarrow> key_ring \<Rightarrow> int \<Rightarrow> string \<Rightarrow> bool option" where
  "url_is_valid cy ring now url = map_option (\<lambda>r. \<not> isl r) (url_verify cy ring now url)"

section \<open>Encoding and decoding\<close>

lemma lossy_valid: "utf8_valid (from_utf8_lossy s)"
proof -
  have repl: "utf8_valid (REPLACEMENT @ t) = utf8_valid t" for t
    by (simp add: REPLACEMENT_def byte_in_def utf8_second_def cont_byte_def)
  have repl0: "utf8_valid REPLACEMENT" using repl [of "[]"] by simp
  show ?thesis
    by (induction s rule: from_utf8_lossy.induct) (auto simp: repl repl0 split: list.split)
qed

lemma unreserved_ascii: "url_unreserved c \<Longrightarrow> (of_char c :: nat) < 0x80"
  by (auto simp: url_unreserved_def byte_in_def is_digit_def)

lemma unreserved_not: "url_unreserved c \<Longrightarrow> c \<notin> set ''%+&=?''"
  by (auto simp: url_unreserved_def byte_in_def is_digit_def)

lemma reserved_escapable: "escapable (\<lambda>c. \<not> url_unreserved c)"
proof -
  have "url_unreserved (hex_upper d)" if "d < 16" for d
    using less_16 [OF that] by (auto simp: url_unreserved_def byte_in_def is_digit_def)
  then show ?thesis using unreserved_not [of "CHR ''%''"] by (auto simp: escapable_def)
qed

lemma percent_encode_pct: "percent_encode s = pct_encode (\<lambda>c. \<not> url_unreserved c) s"
proof -
  have "(if url_unreserved c then [c] else (let n = (of_char c :: nat) in [CHR ''%'', hex_upper (n div 16), hex_upper (n mod 16)]))
      = pct_char (\<lambda>c. \<not> url_unreserved c) c" for c
    using unreserved_ascii [of c] by (auto simp: pct_char_def Let_def)
  then show ?thesis by (simp add: percent_encode_def pct_encode_def)
qed

lemma percent_encode_chars: "c \<in> set (percent_encode s) \<Longrightarrow> c = CHR ''%'' \<or> url_unreserved c"
  using percent_lawsD(2) [OF pct_laws reserved_escapable, of c s] by (auto simp: percent_encode_pct)

lemma percent_encode_free: "x \<in> set ''+&=?'' \<Longrightarrow> x \<notin> set (percent_encode s)"
  using percent_encode_chars [of x s] unreserved_not [of x] by auto

lemma ascii_not_cont: "(of_char c :: nat) < 0x80 \<Longrightarrow> \<not> cont_byte c"
  by (simp add: cont_byte_def)

lemma percent_encode_ascii: "c \<in> set (percent_encode s) \<Longrightarrow> (of_char c :: nat) < 0x80"
  using percent_encode_chars [of c s] unreserved_ascii [of c] by auto

text \<open>On ASCII text without plus signs before the escapes, decoding is the plain decoder.\<close>

lemma decode_percent_encoded: "decode_bytes (percent_encode s) = Some s"
proof (induction s)
  case (Cons c s)
  let ?t = "percent_encode s" and ?n = "of_char c :: nat"
  have next_ok: "?t = [] \<or> \<not> cont_byte (hd ?t)"
    using percent_encode_ascii [of "hd ?t" s] by (cases ?t) (auto simp: ascii_not_cont)
  show ?case
  proof (cases "url_unreserved c")
    case True
    then have "percent_encode (c # s) = c # ?t" "c \<noteq> CHR ''%''" "c \<noteq> CHR ''+''"
      using unreserved_not [of c] by (auto simp: percent_encode_def)
    then show ?thesis using Cons by simp
  next
    case False
    have hex: "hex_value (hex_upper (?n div 16)) = Some (?n div 16)" "hex_value (hex_upper (?n mod 16)) = Some (?n mod 16)"
      by (simp_all add: hex_value_hex_upper of_char_div_16)
    have "\<not> cont_byte (hex_upper (?n div 16))"
      by (intro ascii_not_cont hex_upper_ascii of_char_div_16)
    moreover have "percent_encode (c # s) = CHR ''%'' # hex_upper (?n div 16) # hex_upper (?n mod 16) # ?t"
      using False by (simp add: percent_encode_def Let_def)
    moreover have "char_of (16 * (?n div 16) + ?n mod 16) = c" by simp
    ultimately show ?thesis using Cons next_ok by (auto simp: radix_byte_def hex)
  qed
qed (simp add: percent_encode_def)

lemma query_decode_encode: "utf8_valid s \<Longrightarrow> query_decode (percent_encode s) = Some s"
  by (simp add: query_decode_def decode_percent_encoded from_utf8_lossy_id)

lemma query_decode_valid: "query_decode s = Some t \<Longrightarrow> utf8_valid t"
  by (auto simp: query_decode_def lossy_valid)

definition valid_pairs :: "(string \<times> string) list \<Rightarrow> bool" where
  "valid_pairs ps \<longleftrightarrow> list_all (\<lambda>(n, v). utf8_valid n \<and> utf8_valid v) ps"

lemma those_all: "those xs = Some ys \<Longrightarrow> list_all2 (\<lambda>x y. x = Some y) xs ys"
  by (induction xs arbitrary: ys) (auto split: option.splits)

lemma parse_pairs_valid:
  assumes "parse_pairs q = Some ps"
  shows "valid_pairs ps"
proof -
  have "utf8_valid n \<and> utf8_valid v" if "parse_query_pair s = Some (n, v)" for s n v
    using that by (auto simp: parse_query_pair_def dest: query_decode_valid split: option.splits prod.splits)
  moreover have "list_all2 (\<lambda>s p. parse_query_pair s = Some p) (filter (\<lambda>p. p \<noteq> []) (split_on CHR ''&'' q)) ps"
    using those_all [OF assms [unfolded parse_pairs_def]] by (simp add: list_all2_map1)
  ultimately show ?thesis unfolding valid_pairs_def list_all_iff
    by (auto simp: list_all2_conv_all_nth set_conv_nth case_prod_beta) (metis prod.collapse)+
qed

definition encode_pair :: "string \<times> string \<Rightarrow> string" where
  "encode_pair p = percent_encode (fst p) @ ''='' @ percent_encode (snd p)"

lemma encode_pairs_eq: "encode_pairs ps = join ''&'' (map encode_pair ps)"
  by (simp add: encode_pairs_def encode_pair_def case_prod_beta' cong: map_cong)

lemma parse_encode_pair: "utf8_valid (fst p) \<Longrightarrow> utf8_valid (snd p) \<Longrightarrow> parse_query_pair (encode_pair p) = Some p"
  by (simp add: parse_query_pair_def encode_pair_def split_once_append percent_encode_free query_decode_encode)

lemma encode_pair_free: "CHR ''&'' \<notin> set (encode_pair p)" "CHR ''?'' \<notin> set (encode_pair p)" "encode_pair p \<noteq> []"
  by (simp_all add: encode_pair_def percent_encode_free)

lemma those_map_Some: "(\<And>x. x \<in> set xs \<Longrightarrow> f x = Some (g x)) \<Longrightarrow> those (map f xs) = Some (map g xs)"
  by (induction xs) auto

lemma split_encoded: "filter (\<lambda>p. p \<noteq> []) (split_on CHR ''&'' (encode_pairs ps)) = map encode_pair ps"
proof (cases "ps = []")
  case False
  then have "split_on CHR ''&'' (encode_pairs ps) = map encode_pair ps"
    unfolding encode_pairs_eq by (intro split_on_join) (auto simp: encode_pair_free)
  then show ?thesis by (simp add: filter_map comp_def encode_pair_free)
qed (simp add: encode_pairs_eq)

lemma parse_encode_pairs: "valid_pairs ps \<Longrightarrow> parse_pairs (encode_pairs ps) = Some ps"
proof -
  assume v: "valid_pairs ps"
  have "those (map (parse_query_pair \<circ> encode_pair) ps) = Some (map id ps)"
    using v by (intro those_map_Some) (auto simp: valid_pairs_def list_all_iff parse_encode_pair)
  then show ?thesis by (simp add: parse_pairs_def split_encoded)
qed

lemma encode_pairs_inject: "valid_pairs ps \<Longrightarrow> valid_pairs qs \<Longrightarrow> encode_pairs ps = encode_pairs qs \<Longrightarrow> ps = qs"
  by (metis option.inject parse_encode_pairs)

lemma encode_pairs_free: "CHR ''?'' \<notin> set (encode_pairs ps)"
proof -
  have "\<forall>c \<in> set (join ''&'' (map encode_pair ps)). c \<noteq> CHR ''?''"
    by (intro join_chars) (auto, metis encode_pair_free(2))
  then show ?thesis by (auto simp: encode_pairs_eq)
qed

section \<open>What is signed\<close>

definition signed_params :: "string \<Rightarrow> (string \<times> string) list option" where
  "signed_params query = map_option (filter (\<lambda>(n, _). n \<noteq> SIGNATURE)) (parse_pairs query)"

lemma canonical_params:
  "canonical path query = map_option (\<lambda>ps. path_of path @ ''?'' @ encode_pairs (sort ps)) (signed_params query)"
  by (simp add: canonical_def signed_params_def option.map_comp comp_def)

lemma after_scheme_subset: "after_scheme u = Some r \<Longrightarrow> set r \<subseteq> set u"
  by (induction u) (auto split: if_splits dest: in_set_dropD)

lemma path_of_free: "CHR ''?'' \<notin> set path \<Longrightarrow> CHR ''?'' \<notin> set (path_of path)"
  using after_scheme_subset [of path]
  by (auto simp: path_of_def Let_def split: option.split dest: set_dropWhileD)

lemma url_split_free: "CHR ''?'' \<notin> set (fst (url_split url))"
  by (auto simp: url_split_def split_once_None dest: split_once_Some split: option.split)

lemma valid_filter: "valid_pairs ps \<Longrightarrow> valid_pairs (filter P ps)"
  by (auto simp: valid_pairs_def list_all_iff)

lemma valid_sort: "valid_pairs ps \<Longrightarrow> valid_pairs (sort ps)"
  by (auto simp: valid_pairs_def list_all_iff)

lemma signed_params_valid: "signed_params query = Some ps \<Longrightarrow> valid_pairs ps"
  by (auto simp: signed_params_def dest!: parse_pairs_valid intro: valid_filter)

lemma canonical_inject:
  assumes "canonical path query = Some c" "canonical path' query' = Some c"
    and "CHR ''?'' \<notin> set path" "CHR ''?'' \<notin> set path'"
  shows "path_of path = path_of path' \<and> map_option mset (signed_params query) = map_option mset (signed_params query')"
proof -
  obtain ps qs where ps: "signed_params query = Some ps" "signed_params query' = Some qs"
    and eq: "path_of path @ CHR ''?'' # encode_pairs (sort ps) = path_of path' @ CHR ''?'' # encode_pairs (sort qs)"
    using assms(1,2) by (auto simp: canonical_params)
  have "path_of path = path_of path' \<and> encode_pairs (sort ps) = encode_pairs (sort qs)"
    using arg_cong [OF eq, of "split_once CHR ''?''"] path_of_free assms(3,4) by (simp add: split_once_append)
  then have "path_of path = path_of path'" "sort ps = sort qs"
    using encode_pairs_inject valid_sort signed_params_valid ps by blast+
  then show ?thesis using ps by (metis mset_sort option.simps(9))
qed

text \<open>What the signer relies on: base64 comes back, and its text is plain; key ids have no dot.\<close>

definition b64_laws :: "crypto \<Rightarrow> bool" where
  "b64_laws cy \<longleftrightarrow> (\<forall>s. cy_url_decode cy (cy_url_encode cy s) = Some s \<and> (\<forall>c \<in> set (cy_url_encode cy s). url_unreserved c))"

definition plain_id :: "crypt_key \<Rightarrow> bool" where
  "plain_id k \<longleftrightarrow> CHR ''.'' \<notin> set (ky_id k) \<and> (\<forall>c \<in> set (ky_id k). (of_char c :: nat) < 0x80)"

lemma hex_digit_plain: "d < 16 \<Longrightarrow> hex_digit d \<noteq> CHR ''.'' \<and> (of_char (hex_digit d) :: nat) < 0x80"
proof -
  assume d: "d < 16"
  then have "(of_char (hex_digit d) :: nat) \<noteq> of_char CHR ''.''" by (simp add: of_char_hex_digit)
  then have "hex_digit d \<noteq> CHR ''.''" by metis
  then show ?thesis using d by (simp add: of_char_hex_digit)
qed

lemma fingerprints_plain: "plain_id (key_from_bytes cy bytes)"
proof -
  have "c \<noteq> CHR ''.'' \<and> (of_char c :: nat) < 0x80" if "c \<in> set (hex_pair b)" for b c
    using that hex_digit_plain [OF of_char_div_16 [of b]] hex_digit_plain [of "of_char b mod 16"]
    by (auto simp: hex_pair_def Let_def)
  then show ?thesis by (fastforce simp: plain_id_def key_from_bytes_def fingerprint_def)
qed

lemma verify_detached_current:
  assumes "b64_laws cy" "plain_id (ring_current ring)" "ring \<noteq> []"
  shows "verify_detached cy ring v (detached_tag cy ring w)
    \<longleftrightarrow> mac_tag cy (ring_current ring) w = mac_tag cy (ring_current ring) v"
proof -
  let ?k = "ring_current ring"
  have "ring_find ring (ky_id ?k) = Some ?k" using assms(3) by (cases ring) (simp_all add: ring_find_def ring_current_def)
  moreover have "split_once CHR ''.'' (detached_tag cy ring w) = Some (ky_id ?k, cy_url_encode cy (mac_tag cy ?k w))"
    using assms(2) by (simp add: detached_tag_def Let_def plain_id_def split_once_append)
  ultimately show ?thesis using assms(1) by (simp add: verify_detached_def b64_laws_def)
qed

lemma verify_tag_current:
  assumes "b64_laws cy" "plain_id (ring_current ring)" "ring \<noteq> []"
  shows "verify_tag cy ring v (url_tag cy ring w) \<longleftrightarrow> mac_tag cy (ring_current ring) w = mac_tag cy (ring_current ring) v"
proof -
  have "\<forall>c \<in> set (detached_tag cy ring w). (of_char c :: nat) < 0x80"
    using assms(1,2) by (auto simp: detached_tag_def Let_def plain_id_def b64_laws_def dest: unreserved_ascii)
  then have "utf8_valid (detached_tag cy ring w)" by (rule utf8_valid_ascii)
  then show ?thesis using assms verify_detached_current [OF assms]
    by (simp add: verify_tag_def url_tag_def b64_laws_def)
qed

text \<open>A signed link taken apart again.\<close>

lemma those_append: "those xs = Some a \<Longrightarrow> those ys = Some b \<Longrightarrow> those (xs @ ys) = Some (a @ b)"
  by (induction xs arbitrary: a) (auto split: option.splits)

lemma decode_unreserved: "\<forall>c \<in> set v. url_unreserved c \<Longrightarrow> query_decode v = Some v"
proof -
  assume u: "\<forall>c \<in> set v. url_unreserved c"
  then have "decode_bytes v = Some v"
  proof (induction v)
    case (Cons c v)
    then have "c \<noteq> CHR ''+''" "c \<noteq> CHR ''%''" using unreserved_not [of c] by auto
    then show ?case using Cons by simp
  qed simp
  moreover have "utf8_valid v" using u by (intro utf8_valid_ascii) (auto dest: unreserved_ascii)
  ultimately show ?thesis by (simp add: query_decode_def from_utf8_lossy_id)
qed

lemma parse_signed_query:
  assumes "valid_pairs ps" "\<forall>c \<in> set sig. url_unreserved c"
  shows "parse_pairs (encode_pairs ps @ (if encode_pairs ps = [] then [] else ''&'') @ SIGNATURE @ ''='' @ sig)
    = Some (ps @ [(SIGNATURE, sig)])"
proof -
  let ?last = "SIGNATURE @ ''='' @ sig" and ?q = "encode_pairs ps"
  have plain: "CHR ''&'' \<notin> set ?last"
    using assms(2) unreserved_not [of "CHR ''&''"] by (auto simp: SIGNATURE_def)
  have "parse_query_pair ?last = Some (SIGNATURE, sig)"
    using decode_unreserved [OF assms(2)] decode_unreserved [of SIGNATURE]
    by (simp add: parse_query_pair_def SIGNATURE_def url_unreserved_def byte_in_def split_once_append)
  moreover have "split_on CHR ''&'' (?q @ (if ?q = [] then [] else ''&'') @ ?last)
      = (if ?q = [] then [] else split_on CHR ''&'' ?q) @ [?last]"
    using plain by (simp add: split_on_append_many split_on_single)
  moreover have "filter (\<lambda>p. p \<noteq> []) (if ?q = [] then [] else split_on CHR ''&'' ?q) = map encode_pair ps"
    using split_encoded [of ps] by (cases "?q = []") simp_all
  moreover have "those (map (parse_query_pair \<circ> encode_pair) ps) = Some ps"
    using parse_encode_pairs [OF assms(1)] by (simp add: parse_pairs_def split_encoded)
  ultimately show ?thesis
    using those_append [of "map (parse_query_pair \<circ> encode_pair) ps" ps "[parse_query_pair ?last]" "[(SIGNATURE, sig)]"]
    by (simp add: parse_pairs_def SIGNATURE_def)
qed

lemma find_after: "\<forall>x \<in> set xs. \<not> P x \<Longrightarrow> find P (xs @ ys) = find P ys"
  by (induction xs) auto

lemma sign_attach_total:
  assumes "parse_pairs (snd (url_split url)) = Some ps"
  shows "\<exists>link. sign_attach cy ring url expires_at = Some link"
proof -
  have "valid_pairs (filter (\<lambda>(n, _). n \<noteq> SIGNATURE \<and> n \<noteq> EXPIRES) ps
      @ (case expires_at of Some e \<Rightarrow> [(EXPIRES, int_dec e)] | None \<Rightarrow> []))"
    using parse_pairs_valid [OF assms]
    by (auto simp: valid_pairs_def list_all_iff EXPIRES_def split: option.split)
  from parse_encode_pairs [OF this] show ?thesis using assms
    by (simp add: sign_attach_def case_prod_beta Let_def canonical_def)
qed

lemma signed_link_parts:
  assumes "b64_laws cy" "sign_attach cy ring url expires_at = Some link"
  obtains path ps canon where
    "url_split link = (path, encode_pairs ps @ (if encode_pairs ps = [] then [] else ''&'') @ SIGNATURE @ ''='' @ url_tag cy ring canon)"
    "path = fst (url_split url)" "valid_pairs ps" "list_all (\<lambda>(n, _). n \<noteq> SIGNATURE) ps"
    "map_option snd (find (\<lambda>(n, _). n = EXPIRES) ps) = map_option int_dec expires_at"
    "canonical path (encode_pairs ps) = Some canon"
    "parse_pairs (snd (url_split link)) = Some (ps @ [(SIGNATURE, url_tag cy ring canon)])"
proof -
  obtain path query where pq: "url_split url = (path, query)" by fastforce
  obtain ps0 where ps0: "parse_pairs query = Some ps0"
    using assms(2) pq by (auto simp: sign_attach_def Let_def split: Option.bind_splits)
  define ps where "ps = filter (\<lambda>(n, _). n \<noteq> SIGNATURE \<and> n \<noteq> EXPIRES) ps0
      @ (case expires_at of Some e \<Rightarrow> [(EXPIRES, int_dec e)] | None \<Rightarrow> [])"
  have vps: "valid_pairs ps"
    using parse_pairs_valid [OF ps0]
    by (auto simp: ps_def valid_pairs_def list_all_iff EXPIRES_def split: option.split)
  obtain canon where canon: "canonical path (encode_pairs ps) = Some canon"
    and link: "link = path @ ''?'' @ encode_pairs ps @ (if encode_pairs ps = [] then [] else ''&'') @ SIGNATURE @ ''='' @ url_tag cy ring canon"
    using assms(2) by (auto simp: sign_attach_def Let_def pq ps0 ps_def)
  have free: "CHR ''?'' \<notin> set path" using url_split_free [of url] by (simp add: pq)
  then have split: "url_split link = (path, encode_pairs ps @ (if encode_pairs ps = [] then [] else ''&'') @ SIGNATURE @ ''='' @ url_tag cy ring canon)"
    unfolding url_split_def link by (simp add: split_once_append)
  have "\<forall>c \<in> set (url_tag cy ring canon). url_unreserved c" using assms(1) by (auto simp: url_tag_def b64_laws_def)
  note parsed = parse_signed_query [OF vps this]
  show ?thesis
  proof (rule that [OF split _ vps _ _ canon])
    show "path = fst (url_split url)" by (simp add: pq)
    show "list_all (\<lambda>(n, _). n \<noteq> SIGNATURE) ps"
      by (auto simp: ps_def list_all_iff EXPIRES_def SIGNATURE_def split: option.splits)
    show "map_option snd (find (\<lambda>(n, _). n = EXPIRES) ps) = map_option int_dec expires_at"
      by (cases expires_at) (auto simp: ps_def find_after find_None_iff)
    show "parse_pairs (snd (url_split link)) = Some (ps @ [(SIGNATURE, url_tag cy ring canon)])"
      using parsed by (simp add: split)
  qed
qed

lemma signed_link_canonical:
  assumes "valid_pairs ps" "list_all (\<lambda>(n, _). n \<noteq> SIGNATURE) ps" "canonical path (encode_pairs ps) = Some canon"
    and "parse_pairs query = Some (ps @ [(SIGNATURE, sig)])"
  shows "canonical path query = Some canon" "query_value query SIGNATURE = Some (Some sig)" "signed_params query = Some ps"
    "query_value query EXPIRES = Some (map_option snd (find (\<lambda>(n, _). n = EXPIRES) ps))"
proof -
  have keep: "filter (\<lambda>(n, _). n \<noteq> SIGNATURE) ps = ps" using assms(2) by (simp add: list_all_iff filter_id_conv)
  show p: "signed_params query = Some ps" using assms(4) keep by (simp add: signed_params_def)
  have "signed_params (encode_pairs ps) = Some ps" using parse_encode_pairs [OF assms(1)] keep by (simp add: signed_params_def)
  then show "canonical path query = Some canon" using assms(3) p by (simp add: canonical_params)
  have "\<forall>x \<in> set ps. \<not> (case x of (n, _) \<Rightarrow> n = SIGNATURE)" using assms(2) by (auto simp: list_all_iff)
  then show "query_value query SIGNATURE = Some (Some sig)" using assms(4) by (simp add: query_value_def find_after)
  have "find (\<lambda>(n, _). n = EXPIRES) (ps @ [(SIGNATURE, sig)]) = find (\<lambda>(n, _). n = EXPIRES) ps"
    by (induction ps) (auto simp: SIGNATURE_def EXPIRES_def)
  then show "query_value query EXPIRES = Some (map_option snd (find (\<lambda>(n, _). n = EXPIRES) ps))"
    using assms(4) by (simp add: query_value_def)
qed

lemma signed_link_outcome:
  assumes "b64_laws cy" "plain_id (ring_current ring)" "ring \<noteq> []"
    and "sign_attach cy ring url expires_at = Some link" "\<forall>e. expires_at = Some e \<longrightarrow> in_i64 e"
  shows "url_verify cy ring now link =
    Some (case expires_at of
      Some e \<Rightarrow> if now > e then Inl (err_unauthorized ''This link has expired.'') else Inr ()
    | None \<Rightarrow> Inr ())"
proof -
  obtain path ps canon where parts:
    "url_split link = (path, encode_pairs ps @ (if encode_pairs ps = [] then [] else ''&'') @ SIGNATURE @ ''='' @ url_tag cy ring canon)"
    "valid_pairs ps" "list_all (\<lambda>(n, _). n \<noteq> SIGNATURE) ps"
    "map_option snd (find (\<lambda>(n, _). n = EXPIRES) ps) = map_option int_dec expires_at"
    "canonical path (encode_pairs ps) = Some canon"
    "parse_pairs (snd (url_split link)) = Some (ps @ [(SIGNATURE, url_tag cy ring canon)])"
    using signed_link_parts [OF assms(1,4)] by metis
  note c = signed_link_canonical [OF parts(2,3,5,6)]
  have "verify_tag cy ring canon (url_tag cy ring canon)" using verify_tag_current [OF assms(1-3)] by simp
  then show ?thesis using c parts(4) assms(5) unfolding url_verify_def
    by (cases expires_at) (simp_all add: parts(1) case_prod_beta)
qed

text \<open>
  C18. A signed link verifies until it expires: whatever the address and its parameters, the link the
  signer makes is accepted by a signer with the same key, without an expiry always, and with one
  at every instant up to it and at none after.\<close>

theorem signed_link_verifies:
  assumes "b64_laws cy" "plain_id (ring_current ring)" "ring \<noteq> []"
    and "sign_attach cy ring url expires_at = Some link" "\<forall>e. expires_at = Some e \<longrightarrow> in_i64 e"
  shows "url_verify cy ring now link =
    Some (case expires_at of
      Some e \<Rightarrow> if now > e then Inl (err_unauthorized ''This link has expired.'') else Inr ()
    | None \<Rightarrow> Inr ())"
  using assms by (rule signed_link_outcome)


section \<open>Examples\<close>

text \<open>A crypto with the laws: hexadecimal digits for base64, and a MAC one can read.\<close>

fun unhex :: "string \<Rightarrow> string option" where
  "unhex [] = Some []"
| "unhex (a # b # r) =
     (case (hex_value a, hex_value b) of
        (Some x, Some y) \<Rightarrow> map_option ((#) (char_of (16 * x + y))) (unhex r)
      | _ \<Rightarrow> None)"
| "unhex [a] = None"

definition plain_crypto :: crypto where
  "plain_crypto = \<lparr>cy_hmac = (\<lambda>k m. k @ m), cy_sha256 = id, cy_b64_encode = (\<lambda>s. concat (map hex_pair s)),
     cy_b64_decode = unhex, cy_url_encode = (\<lambda>s. concat (map hex_pair s)), cy_url_decode = unhex\<rparr>"

lemma hex_digit_value: "d < 16 \<Longrightarrow> hex_value (hex_digit d) = Some d"
  by (simp add: hex_value_def is_digit_def byte_in_def of_char_hex_digit Let_def)

lemma hex_digit_unreserved: "d < 16 \<Longrightarrow> url_unreserved (hex_digit d)"
  by (simp add: url_unreserved_def byte_in_def is_digit_def of_char_hex_digit)

lemma plain_crypto_laws: "b64_laws plain_crypto"
proof -
  have "unhex (concat (map hex_pair s)) = Some s" for s
  proof (induction s)
    case (Cons c s)
    have "char_of (16 * (of_char c div 16) + of_char c mod 16 :: nat) = c" by simp
    then show ?case using Cons by (simp add: hex_pair_def Let_def hex_digit_value of_char_div_16)
  qed simp
  moreover have "url_unreserved c" if "c \<in> set (hex_pair b)" for b c
    using that by (auto simp: hex_pair_def Let_def of_char_div_16 intro: hex_digit_unreserved)
  ultimately show ?thesis by (auto simp: b64_laws_def plain_crypto_def)
qed

definition demo_ring :: key_ring where
  "demo_ring = ring_new (key_from_bytes plain_crypto ''k'')"

definition demo_link :: string where
  "demo_link = (case sign_until plain_crypto demo_ring ''/verify?user=42'' 100 of Some l \<Rightarrow> l | None \<Rightarrow> [])"

lemma demo_ring_laws: "plain_id (ring_current demo_ring)" "demo_ring \<noteq> []"
  by (simp_all add: demo_ring_def ring_new_def ring_current_def fingerprints_plain)

lemma demo_link_signed: "sign_attach plain_crypto demo_ring ''/verify?user=42'' (Some 100) = Some demo_link"
proof -
  have "query_decode ''user'' = Some ''user''" "query_decode ''42'' = Some ''42''"
    by (rule decode_unreserved; simp add: url_unreserved_def byte_in_def is_digit_def)+
  then have "parse_pairs ''user=42'' = Some [(''user'', ''42'')]" by (simp add: parse_pairs_def parse_query_pair_def)
  then obtain link where "sign_attach plain_crypto demo_ring ''/verify?user=42'' (Some 100) = Some link"
    using sign_attach_total [of "''/verify?user=42''"] by (force simp: url_split_def)
  then show ?thesis by (simp add: demo_link_def sign_until_def)
qed

theorem signed_link_verifies_witness:
  "url_verify plain_crypto demo_ring 99 demo_link = Some (Inr ())
   \<and> url_verify plain_crypto demo_ring 101 demo_link = Some (Inl (err_unauthorized ''This link has expired.''))"
  using signed_link_verifies [OF plain_crypto_laws demo_ring_laws demo_link_signed]
  by (simp add: in_i64_small)

lemma demo_link_accepted: "url_verify plain_crypto demo_ring 99 demo_link = Some (Inr ())"
  using signed_link_outcome [OF plain_crypto_laws demo_ring_laws demo_link_signed] by (simp add: in_i64_small)

text \<open>The same link with a scheme and a host in front.\<close>

definition absolute_link :: string where "absolute_link = ''https://app.test'' @ demo_link"

lemma absolute_link_split:
  "url_split demo_link = (''/verify'', snd (url_split demo_link))"
  "url_split absolute_link = (''https://app.test/verify'', snd (url_split demo_link))"
proof -
  obtain q where q: "url_split demo_link = (''/verify'', q)" "q \<noteq> []"
    using signed_link_parts [OF plain_crypto_laws demo_link_signed] by (force simp: url_split_def SIGNATURE_def)
  then have d: "demo_link = ''/verify'' @ CHR ''?'' # q"
    by (auto simp: url_split_def dest: split_once_Some split: option.splits)
  show "url_split demo_link = (''/verify'', snd (url_split demo_link))"
    "url_split absolute_link = (''https://app.test/verify'', snd (url_split demo_link))"
    unfolding absolute_link_def d url_split_def by simp_all
qed

lemma verify_by_path:
  assumes "url_split u = (p, q)" "url_split u' = (p', q)" "path_of p = path_of p'"
  shows "url_verify cy ring now u = url_verify cy ring now u'"
  unfolding url_verify_def assms(1,2) canonical_def assms(3) Let_def prod.case by (rule refl)

lemma absolute_link_accepted: "url_verify plain_crypto demo_ring 99 absolute_link = Some (Inr ())"
  using verify_by_path [OF absolute_link_split(2,1)] demo_link_accepted by (simp add: path_of_def)


section \<open>Behaviour worth knowing\<close>

text \<open>
  A path that holds \<^verbatim>\<open>://\<close> is read as an absolute URL, so the signature of one path passes for
  another.
\<close>

lemma embedded_scheme_hides_path: "canonical ''/files/a://b/verify'' query = canonical ''/verify'' query"
  by (simp add: canonical_def path_of_def)

text \<open>A percent sign and a hexadecimal digit before a character of two bytes make the parser panic.\<close>

lemma verify_panics: "url_verify cy ring now (''/verify?a=%1'' @ [CHR 0xC3, CHR 0xA9]) = None"
  by (simp add: url_verify_def url_split_def query_value_def parse_pairs_def parse_query_pair_def query_decode_def cont_byte_def)

end
