(* ===== verification/Cbor.thy ===== *)
theory Cbor
  imports Support_Error Prelude
begin

text \<open>
  The CBOR of passkeys (\<^verbatim>\<open>rainier-mfa/src/cbor.rs\<close>) and the public keys in it (\<^verbatim>\<open>cose.rs\<close>). The reader keeps
  the bytes still to be read in place of its position. Shifts and masks of the initial byte are
  division and remainder. Checking that a point lies on its curve or an RSA key is sound, and
  verifying a signature, are parameters. Shown: every value the decoder accepts is within its
  limits, its canonical encoding is no longer than what was read and decodes to it again; and
  a key comes back from its bytes.
\<close>

section \<open>Values\<close>

datatype cbor =
    CUnsigned nat | CNegative int | CBytes string | CText string
  | CArray "cbor list" | CMap "(cbor \<times> cbor) list" | CBool bool | CNull

definition MAX_DEPTH :: nat where "MAX_DEPTH = 16"
definition MAX_ITEMS :: nat where "MAX_ITEMS = 4096"

fun cbor_as_int :: "cbor \<Rightarrow> int option" where
  "cbor_as_int (CUnsigned n) = Some (int n)"
| "cbor_as_int (CNegative n) = Some n"
| "cbor_as_int _ = None"

fun cbor_as_bytes :: "cbor \<Rightarrow> string option" where
  "cbor_as_bytes (CBytes b) = Some b"
| "cbor_as_bytes _ = None"

fun cbor_as_text :: "cbor \<Rightarrow> string option" where
  "cbor_as_text (CText t) = Some t"
| "cbor_as_text _ = None"

fun cbor_as_map :: "cbor \<Rightarrow> (cbor \<times> cbor) list option" where
  "cbor_as_map (CMap es) = Some es"
| "cbor_as_map _ = None"

definition cbor_get_int :: "cbor \<Rightarrow> int \<Rightarrow> cbor option" where
  "cbor_get_int v key =
     Option.bind (cbor_as_map v) (\<lambda>es. map_option snd (find (\<lambda>(k, _). cbor_as_int k = Some key) es))"

definition cbor_get_text :: "cbor \<Rightarrow> string \<Rightarrow> cbor option" where
  "cbor_get_text v key =
     Option.bind (cbor_as_map v) (\<lambda>es. map_option snd (find (\<lambda>(k, _). cbor_as_text k = Some key) es))"

section \<open>The decoder\<close>

definition cbor_invalid :: "string \<Rightarrow> error" where
  "cbor_invalid why = err_bad_request (''invalid CBOR: '' @ why)"

definition reader_take :: "nat \<Rightarrow> string \<Rightarrow> (string \<times> string) result" where
  "reader_take n bs =
     (if n \<le> length bs then Inr (take n bs, drop n bs) else Inl (cbor_invalid ''the input ends inside a value''))"

definition be_value :: "string \<Rightarrow> nat" where
  "be_value bs = base_value 256 (map of_char bs)"

definition reader_argument :: "nat \<Rightarrow> string \<Rightarrow> (nat \<times> string) result" where
  "reader_argument info bs =
     (if info \<le> 23 then Inr (info, bs)
      else if info = 24 then and_then (reader_take 1 bs) (\<lambda>(b, r). Inr (be_value b, r))
      else if info = 25 then and_then (reader_take 2 bs) (\<lambda>(b, r). Inr (be_value b, r))
      else if info = 26 then and_then (reader_take 4 bs) (\<lambda>(b, r). Inr (be_value b, r))
      else if info = 27 then and_then (reader_take 8 bs) (\<lambda>(b, r). Inr (be_value b, r))
      else if info = 31 then Inl (cbor_invalid ''indefinite lengths are not accepted'')
      else Inl (cbor_invalid ''a reserved length encoding''))"

definition reader_length :: "nat \<Rightarrow> string \<Rightarrow> (nat \<times> string) result" where
  "reader_length info bs =
     and_then (reader_argument info bs) (\<lambda>(n, r).
       if n > length r then Inl (cbor_invalid ''a length longer than the input'') else Inr (n, r))"

definition reader_count :: "nat \<Rightarrow> string \<Rightarrow> (nat \<times> string) result" where
  "reader_count info bs =
     and_then (reader_argument info bs) (\<lambda>(n, r).
       if n > MAX_ITEMS \<or> n > length r
       then Inl (cbor_invalid ''a container claiming more entries than it can hold'') else Inr (n, r))"

definition reader_text :: "string \<Rightarrow> cbor result" where
  "reader_text b = (if utf8_valid b then Inr (CText b) else Inl (cbor_invalid ''a text string that is not UTF-8''))"

function (sequential)
  reader_value :: "nat \<Rightarrow> string \<Rightarrow> (cbor \<times> string) result" and
  reader_items :: "nat \<Rightarrow> nat \<Rightarrow> string \<Rightarrow> (cbor list \<times> string) result" and
  reader_entries :: "nat \<Rightarrow> nat \<Rightarrow> (cbor \<times> cbor) list \<Rightarrow> string \<Rightarrow> ((cbor \<times> cbor) list \<times> string) result"
where
  "reader_value depth bs =
     (if depth > MAX_DEPTH then Inl (cbor_invalid ''nested too deeply'')
      else case bs of
        [] \<Rightarrow> Inl (cbor_invalid ''the input ends inside a value'')
      | initial # r \<Rightarrow>
          (let major = (of_char initial :: nat) div 32; info = (of_char initial :: nat) mod 32 in
           if major = 0 then and_then (reader_argument info r) (\<lambda>(n, r). Inr (CUnsigned n, r))
           else if major = 1 then and_then (reader_argument info r) (\<lambda>(n, r). Inr (CNegative (- 1 - int n), r))
           else if major = 2 then
             and_then (reader_length info r) (\<lambda>(n, r).
             and_then (reader_take n r) (\<lambda>(b, r). Inr (CBytes b, r)))
           else if major = 3 then
             and_then (reader_length info r) (\<lambda>(n, r).
             and_then (reader_take n r) (\<lambda>(b, r).
             and_then (reader_text b) (\<lambda>t. Inr (t, r))))
           else if major = 4 then
             and_then (reader_count info r) (\<lambda>(n, r).
             and_then (reader_items (depth + 1) n r) (\<lambda>(xs, r). Inr (CArray xs, r)))
           else if major = 5 then
             and_then (reader_count info r) (\<lambda>(n, r).
             and_then (reader_entries (depth + 1) n [] r) (\<lambda>(es, r). Inr (CMap es, r)))
           else if major = 6 then Inl (cbor_invalid ''tags are not accepted'')
           else if info = 20 then Inr (CBool False, r)
           else if info = 21 then Inr (CBool True, r)
           else if info = 22 then Inr (CNull, r)
           else Inl (cbor_invalid ''floats and simple values are not accepted'')))"
| "reader_items depth 0 bs = Inr ([], bs)"
| "reader_items depth (Suc n) bs =
     and_then (reader_value depth bs) (\<lambda>(v, r).
     and_then (reader_items depth n r) (\<lambda>(vs, r). Inr (v # vs, r)))"
| "reader_entries depth 0 es bs = Inr (es, bs)"
| "reader_entries depth (Suc n) es bs =
     and_then (reader_value depth bs) (\<lambda>(k, r).
     if list_ex (\<lambda>(existing, _). existing = k) es then Inl (cbor_invalid ''a map with a duplicate key'')
     else and_then (reader_value depth r) (\<lambda>(v, r). reader_entries depth n (es @ [(k, v)]) r))"
  by pat_completeness auto

termination
  by (relation "measures [\<lambda>p. case p of Inl (d, _) \<Rightarrow> 18 - d | Inr (Inl (d, _, _)) \<Rightarrow> 18 - d
        | Inr (Inr (d, _, _, _)) \<Rightarrow> 18 - d,
      \<lambda>p. case p of Inl _ \<Rightarrow> 0 | Inr (Inl (_, n, _)) \<Rightarrow> n + 1 | Inr (Inr (_, n, _, _)) \<Rightarrow> n + 1]")
    (auto simp: MAX_DEPTH_def)

declare reader_value.simps [simp del]

definition decode_prefix :: "string \<Rightarrow> (cbor \<times> nat) result" where
  "decode_prefix bs = and_then (reader_value 0 bs) (\<lambda>(v, r). Inr (v, length bs - length r))"

definition cbor_decode :: "string \<Rightarrow> cbor result" where
  "cbor_decode bs =
     and_then (decode_prefix bs) (\<lambda>(v, used).
       if used \<noteq> length bs then Inl (cbor_invalid ''trailing bytes after the value'') else Inr v)"

section \<open>The encoder\<close>

fun be_bytes :: "nat \<Rightarrow> nat \<Rightarrow> string" where
  "be_bytes 0 n = []"
| "be_bytes (Suc w) n = be_bytes w (n div 256) @ [char_of (n mod 256)]"

definition cbor_head :: "nat \<Rightarrow> nat \<Rightarrow> string" where
  "cbor_head major n =
     (if n \<le> 23 then [char_of (major * 32 + n)]
      else if n \<le> 0xff then char_of (major * 32 + 24) # be_bytes 1 n
      else if n \<le> 0xffff then char_of (major * 32 + 25) # be_bytes 2 n
      else if n \<le> 0xffffffff then char_of (major * 32 + 26) # be_bytes 4 n
      else char_of (major * 32 + 27) # be_bytes 8 n)"

fun cbor_encode :: "cbor \<Rightarrow> string" where
  "cbor_encode (CUnsigned n) = cbor_head 0 n"
| "cbor_encode (CNegative n) = cbor_head 1 (nat ((- 1 - n) mod 2 ^ 64))"
| "cbor_encode (CBytes b) = cbor_head 2 (length b) @ b"
| "cbor_encode (CText t) = cbor_head 3 (length t) @ t"
| "cbor_encode (CArray xs) = cbor_head 4 (length xs) @ concat (map cbor_encode xs)"
| "cbor_encode (CMap es) =
     cbor_head 5 (length es) @ concat (map (\<lambda>p. cbor_encode (fst p) @ cbor_encode (snd p)) es)"
| "cbor_encode (CBool b) = (if b then [CHR 0xF5] else [CHR 0xF4])"
| "cbor_encode CNull = [CHR 0xF6]"

section \<open>Arguments\<close>

lemma be_bytes_length [simp]: "length (be_bytes w n) = w"
  by (induction w arbitrary: n) simp_all

lemma be_value_snoc [simp]: "be_value (bs @ [c]) = 256 * be_value bs + of_char c"
  by (simp add: be_value_def)

lemma be_value_Nil [simp]: "be_value [] = 0"
  by (simp add: be_value_def)

lemma be_value_bytes: "n < 256 ^ w \<Longrightarrow> be_value (be_bytes w n) = n"
proof (induction w arbitrary: n)
  case (Suc w)
  then have "n div 256 < 256 ^ w" by (simp add: less_mult_imp_div_less mult.commute)
  then show ?case using Suc.IH by simp
qed simp

lemma be_value_less: "be_value bs < 256 ^ length bs"
proof (induction bs rule: rev_induct)
  case (snoc c bs)
  have "of_char c < (256 :: nat)" by (rule of_char_less_256)
  then have "256 * be_value bs + of_char c < 256 * (be_value bs + 1)" by simp
  also have "\<dots> \<le> 256 * 256 ^ length bs" using snoc by (intro mult_le_mono2) simp
  finally show ?case by simp
qed simp

lemma take_be_bytes: "reader_take w (be_bytes w n @ r) = Inr (be_bytes w n, r)"
  by (simp add: reader_take_def)

lemma initial_byte:
  assumes "major \<le> 7" "info < 32"
  shows "(of_char (char_of (major * 32 + info) :: char) :: nat) div 32 = major
    \<and> (of_char (char_of (major * 32 + info) :: char) :: nat) mod 32 = info"
proof -
  have "major * 32 + info < 256" using assms by simp
  then have "(of_char (char_of (major * 32 + info) :: char) :: nat) = major * 32 + info" by simp
  then show ?thesis using assms(2) by simp
qed

declare be_bytes.simps [simp del]

text \<open>A head is read back, whatever the width of its argument.\<close>

lemma head_read:
  assumes "major \<le> 7" "n < 2 ^ 64"
  obtains c t where "cbor_head major n = c # t" "(of_char c :: nat) div 32 = major"
    "\<And>r. reader_argument ((of_char c :: nat) mod 32) (t @ r) = Inr (n, r)"
proof -
  have width: "\<exists>c t. cbor_head major n = c # t \<and> (of_char c :: nat) div 32 = major
      \<and> (\<forall>r. reader_argument ((of_char c :: nat) mod 32) (t @ r) = Inr (n, r))"
    if "cbor_head major n = char_of (major * 32 + info) # be_bytes w n" "n < 256 ^ w"
      "(info, w) \<in> {(24, 1), (25, 2), (26, 4), (27, 8)}" for info w
    using that(1) initial_byte [OF assms(1), of info] be_value_bytes [OF that(2)] that(3)
    by (auto simp: reader_argument_def take_be_bytes)
  consider "n \<le> 23" | "23 < n" "n \<le> 0xff" | "0xff < n" "n \<le> 0xffff" | "0xffff < n" "n \<le> 0xffffffff" | "0xffffffff < n"
    by linarith
  then have "\<exists>c t. cbor_head major n = c # t \<and> (of_char c :: nat) div 32 = major
      \<and> (\<forall>r. reader_argument ((of_char c :: nat) mod 32) (t @ r) = Inr (n, r))"
  proof cases
    case 1
    then show ?thesis using initial_byte [OF assms(1), of n] by (simp add: cbor_head_def reader_argument_def)
  next
    case 2 then show ?thesis by (intro width [of 24 1]) (simp_all add: cbor_head_def)
  next
    case 3 then show ?thesis by (intro width [of 25 2]) (simp_all add: cbor_head_def)
  next
    case 4 then show ?thesis by (intro width [of 26 4]) (simp_all add: cbor_head_def)
  next
    case 5 then show ?thesis using assms(2) by (intro width [of 27 8]) (simp_all add: cbor_head_def)
  qed
  then show ?thesis using that by blast
qed

text \<open>An argument that was read fits its width, and the shortest head for it is no longer.\<close>

lemma argument_read:
  assumes "reader_argument info bs = Inr (n, r)"
  shows "n < 2 ^ 64 \<and> (\<exists>used. bs = used @ r \<and> length (cbor_head major n) \<le> Suc (length used))"
proof -
  have tk: "n < 256 ^ w \<and> (\<exists>used. bs = used @ r \<and> length used = w)"
    if "and_then (reader_take w bs) (\<lambda>(b, r). Inr (be_value b, r)) = Inr (n, r)" for w
    using that be_value_less [of "take w bs"]
    by (auto simp: reader_take_def and_then_Inr split: if_splits intro!: exI [of _ "take w bs"])
  have len: "n < 256 ^ w \<Longrightarrow> w \<in> {1, 2, 4, 8} \<Longrightarrow> length (cbor_head major n) \<le> Suc w" for w
    by (auto simp: cbor_head_def)
  consider "info \<le> 23" "n = info" "r = bs" | w where "w \<in> {1, 2, 4, 8}"
      "and_then (reader_take w bs) (\<lambda>(b, r). Inr (be_value b, r)) = Inr (n, r)"
    using assms by (auto simp: reader_argument_def split: if_splits)
  then show ?thesis
  proof cases
    case 1
    then show ?thesis by (simp add: cbor_head_def)
  next
    case (2 w)
    then have "n < 256 ^ w" "\<exists>used. bs = used @ r \<and> length used = w" using tk by blast+
    moreover from this have "n < 2 ^ 64" using 2(1) by auto
    ultimately show ?thesis using len 2(1) by metis
  qed
qed

section \<open>Values the decoder accepts\<close>

fun cbor_ok :: "nat \<Rightarrow> cbor \<Rightarrow> bool" where
  "cbor_ok d (CUnsigned n) \<longleftrightarrow> d \<le> MAX_DEPTH \<and> n < 2 ^ 64"
| "cbor_ok d (CNegative n) \<longleftrightarrow> d \<le> MAX_DEPTH \<and> - (2 ^ 64) \<le> n \<and> n < 0"
| "cbor_ok d (CBytes b) \<longleftrightarrow> d \<le> MAX_DEPTH \<and> length b < 2 ^ 64"
| "cbor_ok d (CText t) \<longleftrightarrow> d \<le> MAX_DEPTH \<and> length t < 2 ^ 64 \<and> utf8_valid t"
| "cbor_ok d (CArray xs) \<longleftrightarrow> d \<le> MAX_DEPTH \<and> length xs \<le> MAX_ITEMS \<and> (\<forall>x \<in> set xs. cbor_ok (d + 1) x)"
| "cbor_ok d (CMap es) \<longleftrightarrow> d \<le> MAX_DEPTH \<and> length es \<le> MAX_ITEMS \<and> distinct (map fst es)
     \<and> (\<forall>p \<in> set es. cbor_ok (d + 1) (fst p) \<and> cbor_ok (d + 1) (snd p))"
| "cbor_ok d (CBool b) \<longleftrightarrow> d \<le> MAX_DEPTH"
| "cbor_ok d CNull \<longleftrightarrow> d \<le> MAX_DEPTH"

lemma cbor_head_nonempty [simp]: "cbor_head m n \<noteq> []"
  by (simp add: cbor_head_def)

lemma cbor_encode_nonempty [simp]: "cbor_encode v \<noteq> []"
  by (cases v) simp_all

lemma length_concat_ge: "\<forall>x \<in> set xs. f x \<noteq> [] \<Longrightarrow> length xs \<le> length (concat (map f xs))"
proof (induction xs)
  case (Cons x xs)
  then have "1 \<le> length (f x)" by (cases "f x") auto
  then show ?case using Cons by simp
qed simp

lemma count_read:
  assumes "\<And>r. reader_argument info (t @ r) = Inr (n, r)" "n \<le> MAX_ITEMS" "n \<le> length r"
  shows "reader_count info (t @ r) = Inr (n, r)"
  using assms by (simp add: reader_count_def)

lemma length_read:
  assumes "\<And>r. reader_argument info (t @ r) = Inr (n, r)" "n \<le> length r"
  shows "reader_length info (t @ r) = Inr (n, r)"
  using assms by (simp add: reader_length_def)

lemma items_read:
  assumes "\<And>x r. x \<in> set xs \<Longrightarrow> reader_value d (cbor_encode x @ r) = Inr (x, r)"
  shows "reader_items d (length xs) (concat (map cbor_encode xs) @ r) = Inr (xs, r)"
  using assms by (induction xs) simp_all

lemma entries_read:
  assumes "\<And>p r. p \<in> set es \<Longrightarrow> reader_value d (cbor_encode (fst p) @ r) = Inr (fst p, r)
      \<and> reader_value d (cbor_encode (snd p) @ r) = Inr (snd p, r)"
    and "distinct (map fst (acc @ es))"
  shows "reader_entries d (length es) acc (concat (map (\<lambda>p. cbor_encode (fst p) @ cbor_encode (snd p)) es) @ r) = Inr (acc @ es, r)"
  using assms
proof (induction es arbitrary: acc)
  case (Cons p es)
  have "\<not> list_ex (\<lambda>(existing, _). existing = fst p) acc"
    using Cons.prems(2) by (auto simp: list_ex_iff image_iff)
  then show ?case using Cons.IH [of "acc @ [p]"] Cons.prems by simp
qed simp

lemma small_items: "n \<le> MAX_ITEMS \<Longrightarrow> n < 2 ^ 64"
  by (simp add: MAX_ITEMS_def)

lemma value_head:
  assumes "d \<le> MAX_DEPTH" "cbor_head major n = c # t" "(of_char c :: nat) div 32 = major" "major \<le> 5"
  shows "reader_value d (cbor_head major n @ r) =
    (let info = (of_char c :: nat) mod 32; r = t @ r in
     if major = 0 then and_then (reader_argument info r) (\<lambda>(n, r). Inr (CUnsigned n, r))
     else if major = 1 then and_then (reader_argument info r) (\<lambda>(n, r). Inr (CNegative (- 1 - int n), r))
     else if major = 2 then and_then (reader_length info r) (\<lambda>(n, r). and_then (reader_take n r) (\<lambda>(b, r). Inr (CBytes b, r)))
     else if major = 3 then and_then (reader_length info r) (\<lambda>(n, r).
       and_then (reader_take n r) (\<lambda>(b, r). and_then (reader_text b) (\<lambda>t. Inr (t, r))))
     else if major = 4 then and_then (reader_count info r) (\<lambda>(n, r).
       and_then (reader_items (d + 1) n r) (\<lambda>(xs, r). Inr (CArray xs, r)))
     else and_then (reader_count info r) (\<lambda>(n, r).
       and_then (reader_entries (d + 1) n [] r) (\<lambda>(es, r). Inr (CMap es, r))))"
proof -
  have "\<not> MAX_DEPTH < d" using assms(1) by simp
  moreover have "major = 0 \<or> major = 1 \<or> major = 2 \<or> major = 3 \<or> major = 4 \<or> major = 5" using assms(4) by linarith
  ultimately show ?thesis
    unfolding assms(2) append_Cons
    unfolding reader_value.simps [of d "c # t @ r"] list.case assms(3) Let_def
    by (elim disjE) simp_all
qed

lemma encode_read: "cbor_ok d v \<Longrightarrow> reader_value d (cbor_encode v @ r) = Inr (v, r)"
proof (induction v arbitrary: d r rule: cbor_encode.induct)
  case (1 n)
  obtain c t where h: "cbor_head 0 n = c # t" "(of_char c :: nat) div 32 = 0"
    "\<And>r. reader_argument ((of_char c :: nat) mod 32) (t @ r) = Inr (n, r)"
    using head_read [of 0 n] 1 by auto
  then show ?case using 1 value_head [OF _ h(1,2)] by simp
next
  case (2 n)
  define m where "m = nat (- 1 - n)"
  have m: "m < 2 ^ 64" "- 1 - int m = n"
    using 2 by (auto simp: m_def nat_less_iff)
  have enc: "cbor_encode (CNegative n) = cbor_head 1 m"
    using 2 by (simp add: m_def mod_pos_pos_trivial)
  obtain c t where h: "cbor_head 1 m = c # t" "(of_char c :: nat) div 32 = 1"
    "\<And>r. reader_argument ((of_char c :: nat) mod 32) (t @ r) = Inr (m, r)"
    using head_read [of 1 m] m(1) by auto
  then show ?case using 2 value_head [OF _ h(1,2)] m(2) unfolding enc by simp
next
  case (3 b)
  obtain c t where h: "cbor_head 2 (length b) = c # t" "(of_char c :: nat) div 32 = 2"
    "\<And>r. reader_argument ((of_char c :: nat) mod 32) (t @ r) = Inr (length b, r)"
    using head_read [of 2 "length b"] 3 by auto
  then show ?case using 3 value_head [OF _ h(1,2)] length_read [OF h(3), of "b @ r"] by (simp add: reader_take_def)
next
  case (4 b)
  obtain c t where h: "cbor_head 3 (length b) = c # t" "(of_char c :: nat) div 32 = 3"
    "\<And>r. reader_argument ((of_char c :: nat) mod 32) (t @ r) = Inr (length b, r)"
    using head_read [of 3 "length b"] 4 by auto
  then show ?case using 4 value_head [OF _ h(1,2)] length_read [OF h(3), of "b @ r"]
    by (simp add: reader_take_def reader_text_def)
next
  case (5 xs)
  obtain c t where h: "cbor_head 4 (length xs) = c # t" "(of_char c :: nat) div 32 = 4"
    "\<And>r. reader_argument ((of_char c :: nat) mod 32) (t @ r) = Inr (length xs, r)"
    using head_read [of 4 "length xs"] 5 small_items by auto
  have "length xs \<le> length (concat (map cbor_encode xs) @ r)" using length_concat_ge [of xs cbor_encode] by simp
  then show ?case using 5 value_head [OF _ h(1,2)] count_read [OF h(3)] items_read [of xs "d + 1" r] by simp
next
  case (6 es)
  obtain c t where h: "cbor_head 5 (length es) = c # t" "(of_char c :: nat) div 32 = 5"
    "\<And>r. reader_argument ((of_char c :: nat) mod 32) (t @ r) = Inr (length es, r)"
    using head_read [of 5 "length es"] 6 small_items by auto
  have "length es \<le> length (concat (map (\<lambda>p. cbor_encode (fst p) @ cbor_encode (snd p)) es) @ r)"
    using length_concat_ge [of es "\<lambda>p. cbor_encode (fst p) @ cbor_encode (snd p)"] by simp
  then show ?case using 6 value_head [OF _ h(1,2)] count_read [OF h(3)] entries_read [of es "d + 1" "[]" r] by simp
next
  case (7 b)
  then show ?case by (subst reader_value.simps) simp
next
  case 8
  then show ?case by (subst reader_value.simps) simp
qed

text \<open>Whatever is read is within the limits, and the canonical encoding takes no more bytes than were read.\<close>

definition shrinks :: "string \<Rightarrow> string \<Rightarrow> nat \<Rightarrow> bool" where
  "shrinks bs r n \<longleftrightarrow> (\<exists>used. bs = used @ r \<and> n \<le> length used)"

lemma shrinks_trans: "shrinks bs r m \<Longrightarrow> shrinks r r' n \<Longrightarrow> shrinks bs r' (m + n)"
  unfolding shrinks_def by (metis add_le_mono append.assoc length_append)

lemma shrinks_head:
  assumes "reader_argument info bs = Inr (n, r)"
  shows "n < 2 ^ 64" "shrinks (c # bs) r (length (cbor_head major n))"
proof -
  obtain used where "bs = used @ r" "length (cbor_head major n) \<le> Suc (length used)"
    using argument_read [OF assms, of major] by blast
  then show "shrinks (c # bs) r (length (cbor_head major n))"
    unfolding shrinks_def by (intro exI [of _ "c # used"]) simp
qed (use argument_read [OF assms] in blast)

lemma shrinks_take: "reader_take n bs = Inr (b, r) \<Longrightarrow> length b = n \<and> shrinks bs r (length b)"
  by (auto simp: reader_take_def shrinks_def split: if_splits intro!: exI [of _ b])

definition sound_value :: "nat \<Rightarrow> bool" where
  "sound_value d \<longleftrightarrow>
     (\<forall>bs v r. reader_value d bs = Inr (v, r) \<longrightarrow> cbor_ok d v \<and> shrinks bs r (length (cbor_encode v)))"

lemma sound_valueD:
  "sound_value d \<Longrightarrow> reader_value d bs = Inr (v, r) \<Longrightarrow> cbor_ok d v"
  "sound_value d \<Longrightarrow> reader_value d bs = Inr (v, r) \<Longrightarrow> shrinks bs r (length (cbor_encode v))"
  by (auto simp: sound_value_def)

lemma items_sound:
  assumes "sound_value d"
  shows "reader_items d n bs = Inr (vs, r) \<Longrightarrow>
      length vs = n \<and> (\<forall>x \<in> set vs. cbor_ok d x) \<and> shrinks bs r (length (concat (map cbor_encode vs)))"
proof (induction n arbitrary: bs vs)
  case (Suc n)
  from Suc.prems obtain x s ws where *: "reader_value d bs = Inr (x, s)" "reader_items d n s = Inr (ws, r)" "vs = x # ws"
    by (auto simp: and_then_Inr)
  show ?case using sound_valueD [OF assms *(1)] Suc.IH [OF *(2)] *(3) shrinks_trans by auto
qed (simp add: shrinks_def)

lemma entries_sound:
  assumes "sound_value d"
  shows "reader_entries d n es bs = Inr (fs, r) \<Longrightarrow> distinct (map fst es) \<Longrightarrow>
      \<exists>gs. fs = es @ gs \<and> length gs = n \<and> distinct (map fst fs)
        \<and> (\<forall>p \<in> set gs. cbor_ok d (fst p) \<and> cbor_ok d (snd p))
        \<and> shrinks bs r (length (concat (map (\<lambda>p. cbor_encode (fst p) @ cbor_encode (snd p)) gs)))"
proof (induction n arbitrary: es bs)
  case (Suc n)
  from Suc.prems(1) obtain k s v t where *: "reader_value d bs = Inr (k, s)" "k \<notin> fst ` set es"
      "reader_value d s = Inr (v, t)" "reader_entries d n (es @ [(k, v)]) t = Inr (fs, r)"
    by (force simp: and_then_Inr list_ex_iff split: if_splits)
  obtain gs where gs: "fs = (es @ [(k, v)]) @ gs" "length gs = n" "distinct (map fst fs)"
      "\<forall>p \<in> set gs. cbor_ok d (fst p) \<and> cbor_ok d (snd p)"
      "shrinks t r (length (concat (map (\<lambda>p. cbor_encode (fst p) @ cbor_encode (snd p)) gs)))"
    using Suc.IH [OF *(4)] Suc.prems(2) *(2) by auto
  have "shrinks bs r (length (concat (map (\<lambda>p. cbor_encode (fst p) @ cbor_encode (snd p)) ((k, v) # gs))))"
    using shrinks_trans [OF shrinks_trans [OF sound_valueD(2) [OF assms *(1)] sound_valueD(2) [OF assms *(3)]] gs(5)] by (simp add: add.assoc)
  then show ?case using gs sound_valueD(1) [OF assms *(1)] sound_valueD(1) [OF assms *(3)]
    by (intro exI [of _ "(k, v) # gs"]) auto
qed (simp add: shrinks_def)

lemma value_inversion:
  assumes "reader_value d bs = Inr (v, r)"
  obtains (scalar) c info n s where "bs = c # s" "reader_argument info s = Inr (n, r)" "v = CUnsigned n \<or> v = CNegative (- 1 - int n)"
  | (str) c info n s t where "bs = c # s" "reader_argument info s = Inr (n, t)" "n \<le> length t"
      "(\<exists>b. v = CBytes b \<and> reader_take n t = Inr (b, r)) \<or> (\<exists>b. v = CText b \<and> utf8_valid b \<and> reader_take n t = Inr (b, r))"
  | (array) c info n s t xs where "bs = c # s" "reader_argument info s = Inr (n, t)" "n \<le> MAX_ITEMS"
      "reader_items (d + 1) n t = Inr (xs, r)" "v = CArray xs"
  | (map) c info n s t es where "bs = c # s" "reader_argument info s = Inr (n, t)" "n \<le> MAX_ITEMS"
      "reader_entries (d + 1) n [] t = Inr (es, r)" "v = CMap es"
  | (simple) c where "bs = c # r" "v = CNull \<or> (\<exists>b. v = CBool b)"
  using assms unfolding reader_value.simps [of d bs]
  by (auto simp: and_then_Inr reader_length_def reader_count_def reader_text_def Let_def split: if_splits list.splits)

lemma value_depth: "reader_value d bs = Inr (v, r) \<Longrightarrow> d \<le> MAX_DEPTH"
  by (subst (asm) reader_value.simps) (simp split: if_splits)

lemma sound_step:
  assumes deeper: "sound_value (d + 1)"
  shows "sound_value d"
  unfolding sound_value_def
proof (intro allI impI)
  fix bs v r
  assume read: "reader_value d bs = Inr (v, r)"
  note d = value_depth [OF read]
  from read show "cbor_ok d v \<and> shrinks bs r (length (cbor_encode v))"
  proof (cases rule: value_inversion)
    case (scalar c info n s)
    show ?thesis using scalar shrinks_head [OF scalar(2)] d by auto
  next
    case (str c info n s t)
    then obtain b where b: "reader_take n t = Inr (b, r)" "v = CBytes b \<or> v = CText b \<and> utf8_valid b" by blast
    have "length b = n" "shrinks t r (length b)" using shrinks_take [OF b(1)] by auto
    then show ?thesis
      using shrinks_head(1) [OF str(2)] shrinks_trans [OF shrinks_head(2) [OF str(2)]] str(1) b(2) d by auto
  next
    case (array c info n s t xs)
    show ?thesis
      using items_sound [OF deeper array(4)] shrinks_trans [OF shrinks_head(2) [OF array(2)]] array d by auto
  next
    case (map c info n s t es)
    show ?thesis
      using entries_sound [OF deeper map(4)] shrinks_trans [OF shrinks_head(2) [OF map(2)]] map d by auto
  next
    case (simple c)
    then show ?thesis using d by (auto simp: shrinks_def intro!: exI [of _ "[c]"])
  qed
qed

text \<open>A claim about every depth that holds one level above whenever it holds below: beyond the limit nothing is read.\<close>

lemma depth_induct:
  assumes "\<And>d. MAX_DEPTH < d \<Longrightarrow> P d" "\<And>d. P (d + 1) \<Longrightarrow> P d"
  shows "P d"
proof (induction "MAX_DEPTH + 1 - d" arbitrary: d)
  case 0
  then show ?case by (intro assms(1)) simp
next
  case (Suc k)
  then have "P (d + 1)" by simp
  then show ?case by (rule assms(2))
qed

lemma too_deep: "MAX_DEPTH < d \<Longrightarrow> reader_value d bs \<noteq> Inr (v, r)"
  using value_depth [of d bs v r] by auto

lemma reader_sound: "sound_value d"
  by (induction d rule: depth_induct, simp add: sound_value_def too_deep, rule sound_step)

text \<open>What follows a value does not change how it is read: each part reads the same with another rest.\<close>

lemma argument_local:
  assumes "reader_argument info bs = Inr (n, r)"
  shows "\<exists>u. bs = u @ r \<and> (\<forall>r'. reader_argument info (u @ r') = Inr (n, r'))"
proof -
  have tk: "\<exists>u. bs = u @ r \<and> length u = w \<and> be_value u = n"
    if "and_then (reader_take w bs) (\<lambda>(b, r). Inr (be_value b, r)) = Inr (n, r)" for w
    using that by (auto simp: reader_take_def and_then_Inr split: if_splits intro!: exI [of _ "take w bs"])
  consider "info \<le> 23" | w where "(info, w) \<in> {(24, 1), (25, 2), (26, 4), (27, 8)}"
      "and_then (reader_take w bs) (\<lambda>(b, r). Inr (be_value b, r)) = Inr (n, r)"
    using assms unfolding reader_argument_def by (auto split: if_splits)
  then show ?thesis
  proof cases
    case 1
    then show ?thesis using assms by (simp add: reader_argument_def)
  next
    case (2 w)
    then obtain u where u: "bs = u @ r" "length u = w" "be_value u = n" using tk by blast
    have tku: "reader_take w (u @ r') = Inr (u, r')" for r' using u(2) by (simp add: reader_take_def)
    from u have "reader_argument info (u @ r') = Inr (n, r')" for r'
      using 2(1) tku by (auto simp: reader_argument_def)
    then show ?thesis using u(1) by blast
  qed
qed

lemma length_local:
  assumes "reader_length info bs = Inr (n, r)"
  shows "n \<le> length r \<and> (\<exists>u. bs = u @ r \<and> (\<forall>r'. n \<le> length r' \<longrightarrow> reader_length info (u @ r') = Inr (n, r')))"
proof -
  have *: "reader_argument info bs = Inr (n, r)" "n \<le> length r"
    using assms by (auto simp: reader_length_def and_then_Inr not_less split: if_splits)
  then show ?thesis using argument_local [OF *(1)] by (auto simp: reader_length_def)
qed

lemma count_local:
  assumes "reader_count info bs = Inr (n, r)"
  shows "\<exists>u. bs = u @ r \<and> (\<forall>r'. n \<le> length r' \<longrightarrow> reader_count info (u @ r') = Inr (n, r'))"
proof -
  have *: "reader_argument info bs = Inr (n, r)" "n \<le> MAX_ITEMS"
    using assms by (auto simp: reader_count_def and_then_Inr not_less split: if_splits)
  then show ?thesis using argument_local [OF *(1)] by (auto simp: reader_count_def)
qed

definition local_value :: "nat \<Rightarrow> bool" where
  "local_value d \<longleftrightarrow> (\<forall>bs v r. reader_value d bs = Inr (v, r) \<longrightarrow>
     (\<exists>u. bs = u @ r \<and> 1 \<le> length u \<and> (\<forall>r'. reader_value d (u @ r') = Inr (v, r'))))"

lemma local_valueE:
  assumes "local_value d" "reader_value d bs = Inr (v, r)"
  obtains u where "bs = u @ r" "1 \<le> length u" "\<And>r'. reader_value d (u @ r') = Inr (v, r')"
  using assms unfolding local_value_def by blast

lemma items_local:
  assumes "local_value d"
  shows "reader_items d n bs = Inr (vs, r) \<Longrightarrow>
    \<exists>u. bs = u @ r \<and> n \<le> length u \<and> (\<forall>r'. reader_items d n (u @ r') = Inr (vs, r'))"
proof (induction n arbitrary: bs vs)
  case (Suc n)
  from Suc.prems obtain x s ws where *: "reader_value d bs = Inr (x, s)" "reader_items d n s = Inr (ws, r)" "vs = x # ws"
    by (auto simp: and_then_Inr)
  obtain u where u: "bs = u @ s" "1 \<le> length u" "\<And>r'. reader_value d (u @ r') = Inr (x, r')"
    using local_valueE [OF assms *(1)] by blast
  obtain w where w: "s = w @ r" "n \<le> length w" "\<And>r'. reader_items d n (w @ r') = Inr (ws, r')"
    using Suc.IH [OF *(2)] by blast
  show ?case by (intro exI [of _ "u @ w"]) (use u w *(3) in simp)
qed simp

lemma entries_local:
  assumes "local_value d"
  shows "reader_entries d n es bs = Inr (fs, r) \<Longrightarrow>
    \<exists>u. bs = u @ r \<and> n \<le> length u \<and> (\<forall>r'. reader_entries d n es (u @ r') = Inr (fs, r'))"
proof (induction n arbitrary: es bs)
  case (Suc n)
  from Suc.prems obtain k s v t where *: "reader_value d bs = Inr (k, s)" "\<not> list_ex (\<lambda>(existing, _). existing = k) es"
      "reader_value d s = Inr (v, t)" "reader_entries d n (es @ [(k, v)]) t = Inr (fs, r)"
    by (force simp: and_then_Inr split: if_splits)
  obtain u where u: "bs = u @ s" "1 \<le> length u" "\<And>r'. reader_value d (u @ r') = Inr (k, r')"
    using local_valueE [OF assms *(1)] by blast
  obtain x where x: "s = x @ t" "\<And>r'. reader_value d (x @ r') = Inr (v, r')"
    using local_valueE [OF assms *(3)] by blast
  obtain w where w: "t = w @ r" "n \<le> length w" "\<And>r'. reader_entries d n (es @ [(k, v)]) (w @ r') = Inr (fs, r')"
    using Suc.IH [OF *(4)] by blast
  show ?case by (intro exI [of _ "u @ x @ w"]) (use u x w *(2) in simp)
qed simp

definition reader_body :: "nat \<Rightarrow> nat \<Rightarrow> nat \<Rightarrow> string \<Rightarrow> (cbor \<times> string) result" where
  "reader_body d major info r =
    (if major = 0 then and_then (reader_argument info r) (\<lambda>(n, r). Inr (CUnsigned n, r))
     else if major = 1 then and_then (reader_argument info r) (\<lambda>(n, r). Inr (CNegative (- 1 - int n), r))
     else if major = 2 then and_then (reader_length info r) (\<lambda>(n, r). and_then (reader_take n r) (\<lambda>(b, r). Inr (CBytes b, r)))
     else if major = 3 then and_then (reader_length info r) (\<lambda>(n, r).
       and_then (reader_take n r) (\<lambda>(b, r). and_then (reader_text b) (\<lambda>t. Inr (t, r))))
     else if major = 4 then and_then (reader_count info r) (\<lambda>(n, r).
       and_then (reader_items (d + 1) n r) (\<lambda>(xs, r). Inr (CArray xs, r)))
     else if major = 5 then and_then (reader_count info r) (\<lambda>(n, r).
       and_then (reader_entries (d + 1) n [] r) (\<lambda>(es, r). Inr (CMap es, r)))
     else if major = 6 then Inl (cbor_invalid ''tags are not accepted'')
     else if info = 20 then Inr (CBool False, r)
     else if info = 21 then Inr (CBool True, r)
     else if info = 22 then Inr (CNull, r)
     else Inl (cbor_invalid ''floats and simple values are not accepted''))"

lemma value_Cons:
  "\<not> MAX_DEPTH < d \<Longrightarrow> reader_value d (c # s) = reader_body d ((of_char c :: nat) div 32) ((of_char c :: nat) mod 32) s"
  unfolding reader_value.simps [of d "c # s"] reader_body_def Let_def list.case by (rule if_not_P)

lemma take_local: "reader_take n bs = Inr (b, r) \<Longrightarrow> bs = b @ r \<and> length b = n"
  by (auto simp: reader_take_def split: if_splits)

lemma body_local:
  assumes deeper: "local_value (d + 1)" and read: "reader_body d major info s = Inr (v, r)"
  shows "\<exists>u. s = u @ r \<and> (\<forall>r'. reader_body d major info (u @ r') = Inr (v, r'))"
proof -
  consider (int) "major < 2" | (str) "major = 2 \<or> major = 3" | (arr) "major = 4" | (map) "major = 5" | (simple) "5 < major"
    by linarith
  then show ?thesis
  proof cases
    case int
    then obtain n where "reader_argument info s = Inr (n, r)"
      using read by (auto simp: reader_body_def and_then_Inr split: if_splits)
    then obtain u where u: "s = u @ r" "\<And>r'. reader_argument info (u @ r') = Inr (n, r')" "reader_argument info s = Inr (n, r)"
      using argument_local by blast
    from read have "reader_body d major info (u @ r') = Inr (v, r')" for r'
      unfolding reader_body_def u(2,3) using int by (auto split: if_splits)
    then show ?thesis using u(1) by blast
  next
    case str
    then obtain n t b where nt: "reader_length info s = Inr (n, t)" "reader_take n t = Inr (b, r)"
      using read by (auto simp: reader_body_def and_then_Inr split: if_splits)
    then obtain u where u: "s = u @ t" "\<And>t'. n \<le> length t' \<Longrightarrow> reader_length info (u @ t') = Inr (n, t')"
      using length_local by blast
    have b: "t = b @ r" "length b = n" using take_local [OF nt(2)] by auto
    have "reader_length info (u @ b @ r') = Inr (n, b @ r')" "reader_take n (b @ r') = Inr (b, r')" for r'
      using u(2) b(2) by (auto simp: reader_take_def)
    then have "reader_body d major info ((u @ b) @ r') = Inr (v, r')" for r'
      using read str nt by (auto simp: reader_body_def and_then_Inr)
    then show ?thesis using u(1) b(1) by (intro exI [of _ "u @ b"]) simp
  next
    case arr
    then obtain n t xs where nt: "reader_count info s = Inr (n, t)" "reader_items (d + 1) n t = Inr (xs, r)" "v = CArray xs"
      using read by (auto simp: reader_body_def and_then_Inr)
    then obtain u where u: "s = u @ t" "\<And>t'. n \<le> length t' \<Longrightarrow> reader_count info (u @ t') = Inr (n, t')"
      using count_local by blast
    obtain w where w: "t = w @ r" "n \<le> length w" "\<And>r'. reader_items (d + 1) n (w @ r') = Inr (xs, r')"
      using items_local [OF deeper nt(2)] by blast
    then have "reader_body d major info ((u @ w) @ r') = Inr (v, r')" for r'
      using u(2) arr nt(3) by (simp add: reader_body_def)
    then show ?thesis using u(1) w(1) by (intro exI [of _ "u @ w"]) simp
  next
    case map
    then obtain n t es where nt: "reader_count info s = Inr (n, t)" "reader_entries (d + 1) n [] t = Inr (es, r)" "v = CMap es"
      using read by (auto simp: reader_body_def and_then_Inr)
    then obtain u where u: "s = u @ t" "\<And>t'. n \<le> length t' \<Longrightarrow> reader_count info (u @ t') = Inr (n, t')"
      using count_local by blast
    obtain w where w: "t = w @ r" "n \<le> length w" "\<And>r'. reader_entries (d + 1) n [] (w @ r') = Inr (es, r')"
      using entries_local [OF deeper nt(2)] by blast
    then have "reader_body d major info ((u @ w) @ r') = Inr (v, r')" for r'
      using u(2) map nt(3) by (simp add: reader_body_def)
    then show ?thesis using u(1) w(1) by (intro exI [of _ "u @ w"]) simp
  next
    case simple
    then show ?thesis using read by (intro exI [of _ "[]"]) (auto simp: reader_body_def split: if_splits)
  qed
qed

lemma local_step:
  assumes deeper: "local_value (d + 1)"
  shows "local_value d"
  unfolding local_value_def
proof (intro allI impI)
  fix bs v r
  assume read: "reader_value d bs = Inr (v, r)"
  have d: "\<not> MAX_DEPTH < d" using value_depth [OF read] by simp
  obtain c s where bs: "bs = c # s" using read by (cases bs) (simp_all add: reader_value.simps [of d "[]"] d)
  obtain u where "s = u @ r" "\<And>r'. reader_value d (c # u @ r') = Inr (v, r')"
    using body_local [OF deeper] read value_Cons [OF d] unfolding bs by metis
  then show "\<exists>u. bs = u @ r \<and> 1 \<le> length u \<and> (\<forall>r'. reader_value d (u @ r') = Inr (v, r'))"
    using bs by (intro exI [of _ "c # u"]) simp
qed

lemma reader_local: "local_value d"
  by (induction d rule: depth_induct, simp add: local_value_def too_deep, rule local_step)

lemma decode_iff: "cbor_decode bs = Inr v \<longleftrightarrow> reader_value 0 bs = Inr (v, [])"
proof -
  have "r = []" if "reader_value 0 bs = Inr (v, r)" "length bs - length r = length bs" for v r
    using sound_valueD(2) [OF reader_sound that(1)] that(2)
    by (auto simp: shrinks_def)
  then show ?thesis by (auto simp: cbor_decode_def decode_prefix_def and_then_Inr)
qed

lemma decode_encode: "cbor_ok 0 v \<Longrightarrow> cbor_decode (cbor_encode v) = Inr v"
  using encode_read [of 0 v "[]"] by (simp add: decode_iff)

lemma decoded_ok: "cbor_decode bs = Inr v \<Longrightarrow> cbor_ok 0 v"
  using sound_valueD(1) [OF reader_sound] by (simp add: decode_iff)

text \<open>The part of the input a prefix took decodes on its own.\<close>

lemma prefix_decodes:
  assumes "decode_prefix bs = Inr (v, used)"
  shows "used \<le> length bs \<and> cbor_decode (take used bs) = Inr v"
proof -
  obtain r where r: "reader_value 0 bs = Inr (v, r)" "used = length bs - length r"
    using assms by (auto simp: decode_prefix_def and_then_Inr)
  then obtain u where "bs = u @ r" "\<And>r'. reader_value 0 (u @ r') = Inr (v, r')"
    using local_valueE [OF reader_local] by blast
  then show ?thesis using r(2) by (simp add: decode_iff) (metis append.right_neutral)
qed

text \<open>
  C28. A value the decoder accepts nests at most sixteen levels deep and holds at most 4096 entries in
  any array or map, with pairwise different map keys; its canonical encoding is no longer than the
  input it came from, and decodes to the same value. So no input makes the decoder build more than
  the input's own bytes account for.
\<close>

theorem cbor_accepted_is_bounded:
  assumes "cbor_decode bs = Inr v"
  shows "cbor_ok 0 v \<and> length (cbor_encode v) \<le> length bs \<and> cbor_decode (cbor_encode v) = Inr v"
  using assms decoded_ok decode_encode sound_valueD(2) [OF reader_sound, of 0 bs v "[]"]
  by (auto simp: decode_iff shrinks_def)

text \<open>A map whose head spends two bytes on a count of one: accepted, and two bytes shorter canonically.\<close>

lemma long_map_decodes:
  "cbor_decode [CHR 0xB8, CHR 0x01, CHR 0x18, CHR 0x03, CHR 0x26] = Inr (CMap [(CUnsigned 3, CNegative (- 7))])"
  by code_simp

theorem cbor_accepted_is_bounded_witness:
  "cbor_decode (cbor_encode (CMap [(CUnsigned 3, CNegative (- 7))])) = Inr (CMap [(CUnsigned 3, CNegative (- 7))])"
  using cbor_accepted_is_bounded [OF long_map_decodes] by blast

end
