(* ===== verification/Cose.thy ===== *)
theory Cose
  imports Cbor
begin

text \<open>
  The public keys of passkeys, \<^verbatim>\<open>rainier-mfa/src/cose.rs\<close>. The packages that know the curves, RSA and
  SHA-256 are the parameters of the record \<open>key_crypto\<close>: whether bytes are a point of P-256 or of
  Ed25519, what an RSA key of a modulus and an exponent measures in bytes, whether a signature is
  well formed and whether it verifies. Shown: a key that was parsed is valid, and comes back from
  its canonical bytes.
\<close>

record key_crypto =
  kc_p256_point :: "string \<Rightarrow> bool"
  kc_p256_der :: "string \<Rightarrow> bool"
  kc_p256_verify :: "string \<Rightarrow> string \<Rightarrow> string \<Rightarrow> bool"
  kc_ed_point :: "string \<Rightarrow> bool"
  kc_ed_signature :: "string \<Rightarrow> bool"
  kc_ed_verify_strict :: "string \<Rightarrow> string \<Rightarrow> string \<Rightarrow> bool"
  kc_rsa_size :: "nat \<Rightarrow> nat \<Rightarrow> nat option"
  kc_rsa_verify :: "nat \<Rightarrow> nat \<Rightarrow> string \<Rightarrow> string \<Rightarrow> bool"
  kc_sha256 :: "string \<Rightarrow> string"

datatype cose_algorithm = Es256 | EdDsa | Rs256

definition ALL_ALGORITHMS :: "cose_algorithm list" where "ALL_ALGORITHMS = [Es256, EdDsa, Rs256]"

fun algorithm_id :: "cose_algorithm \<Rightarrow> int" where
  "algorithm_id Es256 = - 7"
| "algorithm_id EdDsa = - 8"
| "algorithm_id Rs256 = - 257"

definition algorithm_from_id :: "int \<Rightarrow> cose_algorithm option" where
  "algorithm_from_id i =
     (if i = - 7 then Some Es256 else if i = - 8 then Some EdDsa else if i = - 257 then Some Rs256 else None)"

datatype cose_key = KEs256 string string | KEd25519 string | KRs256 string string

definition key_invalid :: "string \<Rightarrow> error" where
  "key_invalid why = err_bad_request (''invalid passkey public key: '' @ why)"

definition sec1 :: "string \<Rightarrow> string \<Rightarrow> string" where
  "sec1 x y = CHR 0x04 # x @ y"

definition rsa_key :: "key_crypto \<Rightarrow> string \<Rightarrow> string \<Rightarrow> (nat \<times> nat) result" where
  "rsa_key kc n e =
     (case kc_rsa_size kc (be_value n) (be_value e) of
        None \<Rightarrow> Inl (key_invalid ''an RSA key that is not valid'')
      | Some bytes \<Rightarrow>
          if bytes * 8 < 2048 then Inl (key_invalid ''an RSA modulus shorter than 2048 bits'')
          else Inr (be_value n, be_value e))"

definition cose_fixed :: "string option \<Rightarrow> string \<Rightarrow> string result" where
  "cose_fixed bytes name =
     (case bytes of
        Some b \<Rightarrow> if length b = 32 then Inr b
                  else Inl (key_invalid (''a coordinate `'' @ name @ ''` that is not 32 bytes''))
      | None \<Rightarrow> Inl (key_invalid (''a coordinate `'' @ name @ ''` that is not 32 bytes'')))"

fun cose_validate :: "key_crypto \<Rightarrow> cose_key \<Rightarrow> unit result" where
  "cose_validate kc (KEs256 x y) =
     (if kc_p256_point kc (sec1 x y) then Inr () else Inl (key_invalid ''a P-256 point that is not on the curve''))"
| "cose_validate kc (KEd25519 x) =
     (if kc_ed_point kc x then Inr () else Inl (key_invalid ''an Ed25519 key that is not a valid point''))"
| "cose_validate kc (KRs256 n e) = and_then (rsa_key kc n e) (\<lambda>_. Inr ())"

fun key_algorithm :: "cose_key \<Rightarrow> cose_algorithm" where
  "key_algorithm (KEs256 _ _) = Es256"
| "key_algorithm (KEd25519 _) = EdDsa"
| "key_algorithm (KRs256 _ _) = Rs256"

definition required :: "'a option \<Rightarrow> error \<Rightarrow> 'a result" where
  "required x e = (case x of None \<Rightarrow> Inl e | Some a \<Rightarrow> Inr a)"

definition cose_from_value :: "key_crypto \<Rightarrow> cbor \<Rightarrow> cose_key result" where
  "cose_from_value kc v =
     (let int_at = (\<lambda>k. Option.bind (cbor_get_int v k) cbor_as_int);
          bytes_at = (\<lambda>k. Option.bind (cbor_get_int v k) cbor_as_bytes) in
      and_then (required (int_at 1) (key_invalid ''no key type'')) (\<lambda>kty.
      and_then (required (Option.bind (int_at 3) algorithm_from_id)
                  (key_invalid ''an algorithm other than ES256, EdDSA or RS256'')) (\<lambda>alg.
      and_then
        (if kty = 2 \<and> alg = Es256 then
           (if int_at (- 1) \<noteq> Some 1 then Inl (key_invalid ''an EC2 key on a curve other than P-256'')
            else and_then (cose_fixed (bytes_at (- 2)) ''x'') (\<lambda>x.
                 and_then (cose_fixed (bytes_at (- 3)) ''y'') (\<lambda>y. Inr (KEs256 x y))))
         else if kty = 1 \<and> alg = EdDsa then
           (if int_at (- 1) \<noteq> Some 6 then Inl (key_invalid ''an OKP key on a curve other than Ed25519'')
            else and_then (cose_fixed (bytes_at (- 2)) ''x'') (\<lambda>x. Inr (KEd25519 x)))
         else if kty = 3 \<and> alg = Rs256 then
           and_then (required (bytes_at (- 1)) (key_invalid ''an RSA key with no modulus'')) (\<lambda>n.
           and_then (required (bytes_at (- 2)) (key_invalid ''an RSA key with no exponent'')) (\<lambda>e. Inr (KRs256 n e)))
         else Inl (key_invalid ''a key type that does not match its algorithm''))
        (\<lambda>key. and_then (cose_validate kc key) (\<lambda>_. Inr key)))))"

definition cose_from_bytes :: "key_crypto \<Rightarrow> string \<Rightarrow> cose_key result" where
  "cose_from_bytes kc bytes = and_then (cbor_decode bytes) (cose_from_value kc)"

fun cose_entries :: "cose_key \<Rightarrow> (cbor \<times> cbor) list" where
  "cose_entries (KEs256 x y) =
     [(CUnsigned 1, CUnsigned 2), (CUnsigned 3, CNegative (- 7)), (CNegative (- 1), CUnsigned 1),
      (CNegative (- 2), CBytes x), (CNegative (- 3), CBytes y)]"
| "cose_entries (KEd25519 x) =
     [(CUnsigned 1, CUnsigned 1), (CUnsigned 3, CNegative (- 8)), (CNegative (- 1), CUnsigned 6),
      (CNegative (- 2), CBytes x)]"
| "cose_entries (KRs256 n e) =
     [(CUnsigned 1, CUnsigned 3), (CUnsigned 3, CNegative (- 257)), (CNegative (- 1), CBytes n),
      (CNegative (- 2), CBytes e)]"

definition cose_to_bytes :: "cose_key \<Rightarrow> string" where
  "cose_to_bytes key = cbor_encode (CMap (cose_entries key))"

definition signature_ok :: "key_crypto \<Rightarrow> cose_key \<Rightarrow> string \<Rightarrow> string \<Rightarrow> bool" where
  "signature_ok kc key msg sig =
     (case key of
        KEs256 x y \<Rightarrow> kc_p256_point kc (sec1 x y) \<and> kc_p256_der kc sig \<and> kc_p256_verify kc (sec1 x y) msg sig
      | KEd25519 x \<Rightarrow> kc_ed_point kc x \<and> kc_ed_signature kc sig \<and> kc_ed_verify_strict kc x msg sig
      | KRs256 n e \<Rightarrow>
          (case rsa_key kc n e of
             Inr (m, x) \<Rightarrow> kc_rsa_verify kc m x (kc_sha256 kc msg) sig
           | Inl _ \<Rightarrow> False))"

definition cose_verify :: "key_crypto \<Rightarrow> cose_key \<Rightarrow> string \<Rightarrow> string \<Rightarrow> unit result" where
  "cose_verify kc key msg sig =
     (if signature_ok kc key msg sig then Inr () else Inl (err_unauthorized ''The passkey signature did not verify.''))"

section \<open>Keys come back from their bytes\<close>

text \<open>A key within the format: coordinates of 32 bytes, and a modulus and an exponent of any length a byte string can have.\<close>

fun key_shape :: "cose_key \<Rightarrow> bool" where
  "key_shape (KEs256 x y) \<longleftrightarrow> length x = 32 \<and> length y = 32"
| "key_shape (KEd25519 x) \<longleftrightarrow> length x = 32"
| "key_shape (KRs256 n e) \<longleftrightarrow> length n < 2 ^ 64 \<and> length e < 2 ^ 64"

lemma required_Inr [simp]: "required x e = Inr a \<longleftrightarrow> x = Some a"
  by (cases x) (simp_all add: required_def)

lemma required_Some [simp]: "required (Some a) e = Inr a"
  by simp

lemma cose_fixed_Inr [simp]: "cose_fixed b name = Inr x \<longleftrightarrow> b = Some x \<and> length x = 32"
  by (auto simp: cose_fixed_def split: option.splits)

lemma bytes_within: "cbor_ok d v \<Longrightarrow> Option.bind (cbor_get_int v k) cbor_as_bytes = Some b \<Longrightarrow> length b < 2 ^ 64"
  by (cases v; force simp: cbor_get_int_def find_Some_iff bind_eq_Some_conv in_set_conv_nth
      elim!: cbor_as_bytes.elims)

lemma from_value_key:
  assumes "cose_from_value kc v = Inr key" "cbor_ok d v"
  shows "key_shape key \<and> cose_validate kc key = Inr ()"
  using assms bytes_within [OF assms(2)]
  by (auto simp: cose_from_value_def Let_def and_then_Inr split: if_splits)

lemma from_value_entries:
  assumes "key_shape key" "cose_validate kc key = Inr ()"
  shows "cose_from_value kc (CMap (cose_entries key)) = Inr key"
  using assms
  by (cases key) (simp_all add: cose_from_value_def cbor_get_int_def algorithm_from_id_def cose_fixed_def)

lemma entries_ok: "key_shape key \<Longrightarrow> cbor_ok 0 (CMap (cose_entries key))"
  by (cases key) (simp_all add: MAX_DEPTH_def MAX_ITEMS_def)

lemma from_to_bytes:
  assumes "key_shape key" "cose_validate kc key = Inr ()"
  shows "cose_from_bytes kc (cose_to_bytes key) = Inr key"
  using from_value_entries [OF assms] decode_encode [OF entries_ok [OF assms(1)]]
  by (simp add: cose_from_bytes_def cose_to_bytes_def)

lemma from_bytes_key:
  "cose_from_bytes kc bytes = Inr key \<Longrightarrow> key_shape key \<and> cose_validate kc key = Inr ()"
  unfolding cose_from_bytes_def and_then_Inr using from_value_key decoded_ok by blast

text \<open>
  A key that parses is valid: its point lies on its curve, or its RSA modulus fills at least 256
  bytes; and parsing its canonical bytes gives the same key, whatever encoding it came in.
\<close>

lemma cose_key_canonical:
  assumes "cose_from_bytes kc bytes = Inr key"
  shows "cose_validate kc key = Inr () \<and> cose_from_bytes kc (cose_to_bytes key) = Inr key"
  using from_bytes_key [OF assms] from_to_bytes by blast

end
