(* ===== verification/Webauthn.thy ===== *)
theory Webauthn
  imports Cose Hash_Map "HOL-Library.Word"
begin

unbundle bit_operations_syntax

text \<open>
  Passkey registration and sign-in, \<^verbatim>\<open>rainier-mfa/src/webauthn/mod.rs\<close>. A ceremony is two requests: the
  state of the first is an argument of the second, as are the answer of the browser and the
  clock. The packages for keys and signatures, base64url and the JSON parser are the parameters of
  \<open>wa_crypto\<close>; the random challenge is an argument. Durations count nanoseconds. Shown: a sign-in is
  verified exactly when every check of the reference reading holds; counters of a credential advance
  over any sequence of sign-ins; what a registration returns can be used to sign in.
\<close>

section \<open>Data\<close>

record wa_crypto =
  wc_keys :: key_crypto
  wc_b64url :: "string \<Rightarrow> string"
  wc_b64url_decode :: "string \<Rightarrow> string option"
  wc_json :: "string \<Rightarrow> json option"

abbreviation wa_sha256 :: "wa_crypto \<Rightarrow> string \<Rightarrow> string" where
  "wa_sha256 wc \<equiv> kc_sha256 (wc_keys wc)"

definition FLAG_UP :: "8 word" where "FLAG_UP = 0x01"
definition FLAG_UV :: "8 word" where "FLAG_UV = 0x04"
definition FLAG_BE :: "8 word" where "FLAG_BE = 0x08"
definition FLAG_BS :: "8 word" where "FLAG_BS = 0x10"
definition FLAG_AT :: "8 word" where "FLAG_AT = 0x40"
definition FLAG_ED :: "8 word" where "FLAG_ED = 0x80"

definition MAX_CREDENTIAL_ID :: nat where "MAX_CREDENTIAL_ID = 1023"

datatype user_verification = UvRequired | UvPreferred | UvDiscouraged

fun uv_name :: "user_verification \<Rightarrow> string" where
  "uv_name UvRequired = ''required''"
| "uv_name UvPreferred = ''preferred''"
| "uv_name UvDiscouraged = ''discouraged''"

datatype attestation_policy = AttLenient | AttStrict

record passkey_user =
  pu_handle :: string
  pu_name :: string
  pu_display_name :: string

record passkey_credential =
  pk_id :: string
  pk_public_key :: string
  pk_sign_count :: nat
  pk_user_handle :: string
  pk_transports :: "string list"
  pk_backup_eligible :: bool
  pk_backed_up :: bool
  pk_aaguid :: string
  pk_attestation :: string

record registration_state =
  rgs_challenge :: string
  rgs_user_handle :: string
  rgs_user_verification :: user_verification
  rgs_expires_at :: nat

record authentication_state =
  aus_challenge :: string
  aus_allowed :: "string list"
  aus_user_verification :: user_verification
  aus_expires_at :: nat

record registration_response =
  gr_id :: string
  gr_raw_id :: string
  gr_kind :: string
  gr_client_data_json :: string
  gr_attestation_object :: string
  gr_transports :: "string list"

record authentication_response =
  an_id :: string
  an_raw_id :: string
  an_kind :: string
  an_client_data_json :: string
  an_authenticator_data :: string
  an_signature :: string
  an_user_handle :: "string option"

record verified_assertion =
  vas_credential_id :: string
  vas_sign_count :: nat
  vas_user_verified :: bool
  vas_backup_eligible :: bool
  vas_backed_up :: bool

record relying_party =
  rely_id :: string
  rely_name :: string
  rely_origins :: "string list"
  rely_user_verification :: user_verification
  rely_allow_cross_origin :: bool
  rely_timeout :: nat
  rely_attestation :: attestation_policy
  rely_algorithms :: "cose_algorithm list"

record attested_credential =
  atc_aaguid :: string
  atc_id :: string
  atc_public_key :: string
  atc_key :: cose_key

record authenticator_data =
  atd_rp_id_hash :: string
  atd_flags :: "8 word"
  atd_sign_count :: nat
  atd_attested :: "attested_credential option"

section \<open>Errors, texts and identifiers\<close>

definition passkey_malformed :: "string \<Rightarrow> error" where
  "passkey_malformed why = err_bad_request (''invalid passkey response: '' @ why)"

definition passkey_refused :: "string \<Rightarrow> error" where
  "passkey_refused why = err_unauthorized (''passkey refused: '' @ why)"

definition wa_decode :: "wa_crypto \<Rightarrow> string \<Rightarrow> string \<Rightarrow> string result" where
  "wa_decode wc text field =
     required (wc_b64url_decode wc
         (map (\<lambda>c. if c = CHR ''+'' then CHR ''-'' else if c = CHR ''/'' then CHR ''_'' else c) (trim_end_char CHR ''='' text)))
       (err_bad_request (''`'' @ field @ ''` is not base64url''))"

definition decode_base64url :: "wa_crypto \<Rightarrow> string \<Rightarrow> string result" where
  "decode_base64url wc text = wa_decode wc text ''value''"

definition check_live :: "nat \<Rightarrow> nat \<Rightarrow> unit result" where
  "check_live now expires_at =
     (if now > expires_at then Inl (passkey_refused (''the passkey challenge has expired '' @ EM_DASH @ '' start again'')) else Inr ())"

definition same_ids :: "wa_crypto \<Rightarrow> string \<Rightarrow> string \<Rightarrow> string \<Rightarrow> string result" where
  "same_ids wc ty i raw_id =
     (if ty \<noteq> ''public-key'' then Inl (passkey_malformed ''a credential that is not `public-key`'')
      else and_then (wa_decode wc raw_id ''rawId'') (\<lambda>raw.
           and_then (wa_decode wc i ''id'') (\<lambda>d.
           if d \<noteq> raw then Inl (passkey_malformed ''`id` and `rawId` disagree'') else Inr raw)))"

section \<open>Credentials\<close>

definition from_parts :: "wa_crypto \<Rightarrow> string \<Rightarrow> string \<Rightarrow> nat \<Rightarrow> string \<Rightarrow> passkey_credential result" where
  "from_parts wc i public_key count handle =
     (if i = [] \<or> length i > MAX_CREDENTIAL_ID
      then Inl (err_bad_request ''a passkey credential id must be 1 to 1023 bytes'')
      else and_then (cose_from_bytes (wc_keys wc) public_key) (\<lambda>_.
        Inr \<lparr>pk_id = i, pk_public_key = public_key, pk_sign_count = count, pk_user_handle = handle,
             pk_transports = [], pk_backup_eligible = False, pk_backed_up = False,
             pk_aaguid = replicate 16 (CHR 0x00), pk_attestation = ''none''\<rparr>))"

definition with_transports :: "passkey_credential \<Rightarrow> string list \<Rightarrow> passkey_credential" where
  "with_transports c ts = c\<lparr>pk_transports := ts\<rparr>"

definition with_backup :: "passkey_credential \<Rightarrow> bool \<Rightarrow> bool \<Rightarrow> passkey_credential" where
  "with_backup c eligible backed = c\<lparr>pk_backup_eligible := eligible, pk_backed_up := backed\<rparr>"

definition with_aaguid :: "passkey_credential \<Rightarrow> string \<Rightarrow> passkey_credential" where
  "with_aaguid c a = c\<lparr>pk_aaguid := a\<rparr>"

definition with_attestation :: "passkey_credential \<Rightarrow> string \<Rightarrow> passkey_credential" where
  "with_attestation c a = c\<lparr>pk_attestation := a\<rparr>"

definition id_base64url :: "wa_crypto \<Rightarrow> passkey_credential \<Rightarrow> string" where
  "id_base64url wc c = wc_b64url wc (pk_id c)"

definition credential_key :: "wa_crypto \<Rightarrow> passkey_credential \<Rightarrow> cose_key result" where
  "credential_key wc c = cose_from_bytes (wc_keys wc) (pk_public_key c)"

definition credential_descriptor :: "wa_crypto \<Rightarrow> passkey_credential \<Rightarrow> json" where
  "credential_descriptor wc c = JObject
     ([(''type'', JString ''public-key''), (''id'', JString (id_base64url wc c))]
      @ (if pk_transports c = [] then [] else [(''transports'', JArray (map JString (pk_transports c)))]))"

definition response_credential_id :: "wa_crypto \<Rightarrow> authentication_response \<Rightarrow> string result" where
  "response_credential_id wc r = wa_decode wc (an_raw_id r) ''rawId''"

definition response_user_handle :: "wa_crypto \<Rightarrow> authentication_response \<Rightarrow> string option result" where
  "response_user_handle wc r =
     (case an_user_handle r of
        None \<Rightarrow> Inr None
      | Some handle \<Rightarrow>
          if handle = [] then Inr None
          else and_then (wa_decode wc handle ''userHandle'') (\<lambda>h. Inr (Some h)))"

definition apply_to :: "verified_assertion \<Rightarrow> passkey_credential \<Rightarrow> passkey_credential" where
  "apply_to va c = c\<lparr>pk_sign_count := vas_sign_count va, pk_backup_eligible := vas_backup_eligible va,
     pk_backed_up := vas_backed_up va\<rparr>"

section \<open>The relying party\<close>

definition relying_party_new :: "string \<Rightarrow> string \<Rightarrow> relying_party" where
  "relying_party_new i name =
     \<lparr>rely_id = i, rely_name = name, rely_origins = [''https://'' @ i], rely_user_verification = UvRequired,
      rely_allow_cross_origin = False, rely_timeout = 300 * 10 ^ 9, rely_attestation = AttLenient,
      rely_algorithms = ALL_ALGORITHMS\<rparr>"

definition with_origins :: "relying_party \<Rightarrow> string list \<Rightarrow> relying_party" where
  "with_origins rp origs = rp\<lparr>rely_origins := origs\<rparr>"

definition with_origin :: "relying_party \<Rightarrow> string \<Rightarrow> relying_party" where
  "with_origin rp orig = (if orig \<in> set (rely_origins rp) then rp else rp\<lparr>rely_origins := rely_origins rp @ [orig]\<rparr>)"

definition with_user_verification :: "relying_party \<Rightarrow> user_verification \<Rightarrow> relying_party" where
  "with_user_verification rp uv = rp\<lparr>rely_user_verification := uv\<rparr>"

definition with_cross_origin :: "relying_party \<Rightarrow> bool \<Rightarrow> relying_party" where
  "with_cross_origin rp allow = rp\<lparr>rely_allow_cross_origin := allow\<rparr>"

definition with_ceremony_timeout :: "relying_party \<Rightarrow> nat \<Rightarrow> relying_party" where
  "with_ceremony_timeout rp t = rp\<lparr>rely_timeout := t\<rparr>"

definition with_attestation_policy :: "relying_party \<Rightarrow> attestation_policy \<Rightarrow> relying_party" where
  "with_attestation_policy rp p = rp\<lparr>rely_attestation := p\<rparr>"

definition timeout_millis :: "relying_party \<Rightarrow> json" where
  "timeout_millis rp = JNumber (nat_dec ((rely_timeout rp div 10 ^ 6) mod 2 ^ 64))"

definition ceremony_expiry :: "nat \<Rightarrow> relying_party \<Rightarrow> nat" where
  "ceremony_expiry now rp = (now + rely_timeout rp div 10 ^ 9) mod 2 ^ 64"

definition start_registration ::
  "wa_crypto \<Rightarrow> relying_party \<Rightarrow> nat \<Rightarrow> string \<Rightarrow> passkey_user \<Rightarrow> passkey_credential list \<Rightarrow> json \<times> registration_state"
where
  "start_registration wc rp now challenge user existing =
     (JObject
       [(''rp'', JObject [(''id'', JString (rely_id rp)), (''name'', JString (rely_name rp))]),
        (''user'', JObject [(''id'', JString (wc_b64url wc (pu_handle user))), (''name'', JString (pu_name user)),
           (''displayName'', JString (pu_display_name user))]),
        (''challenge'', JString (wc_b64url wc challenge)),
        (''pubKeyCredParams'', JArray (map (\<lambda>a. JObject [(''type'', JString ''public-key''),
           (''alg'', JNumber (int_dec (algorithm_id a)))]) (rely_algorithms rp))),
        (''timeout'', timeout_millis rp),
        (''excludeCredentials'', JArray (map (credential_descriptor wc) existing)),
        (''authenticatorSelection'', JObject [(''residentKey'', JString ''preferred''), (''requireResidentKey'', JBool False),
           (''userVerification'', JString (uv_name (rely_user_verification rp)))]),
        (''attestation'', JString ''none'')],
      \<lparr>rgs_challenge = challenge, rgs_user_handle = pu_handle user,
       rgs_user_verification = rely_user_verification rp, rgs_expires_at = ceremony_expiry now rp\<rparr>)"

definition start_authentication ::
  "wa_crypto \<Rightarrow> relying_party \<Rightarrow> nat \<Rightarrow> string \<Rightarrow> passkey_credential list \<Rightarrow> json \<times> authentication_state"
where
  "start_authentication wc rp now challenge allow =
     (JObject
       [(''challenge'', JString (wc_b64url wc challenge)), (''rpId'', JString (rely_id rp)),
        (''timeout'', timeout_millis rp),
        (''allowCredentials'', JArray (map (credential_descriptor wc) allow)),
        (''userVerification'', JString (uv_name (rely_user_verification rp)))],
      \<lparr>aus_challenge = challenge, aus_allowed = map (id_base64url wc) allow,
       aus_user_verification = rely_user_verification rp, aus_expires_at = ceremony_expiry now rp\<rparr>)"

section \<open>The shared checks\<close>

definition data_at :: "json \<Rightarrow> string \<Rightarrow> json" where
  "data_at v key = (case v of JObject m \<Rightarrow> (case hm_get key m of Some x \<Rightarrow> x | None \<Rightarrow> JNull) | _ \<Rightarrow> JNull)"

definition data_str :: "json \<Rightarrow> string option" where
  "data_str v = (case v of JString s \<Rightarrow> Some s | _ \<Rightarrow> None)"

definition check_client_data :: "wa_crypto \<Rightarrow> relying_party \<Rightarrow> string \<Rightarrow> string \<Rightarrow> string \<Rightarrow> unit result" where
  "check_client_data wc rp bytes ty challenge =
     and_then (required (wc_json wc bytes) (passkey_malformed ''client data that is not JSON'')) (\<lambda>data.
     if data_str (data_at data ''type'') \<noteq> Some ty then Inl (passkey_refused (''client data that is not `'' @ ty @ ''`''))
     else
       and_then (and_then (required (data_str (data_at data ''challenge'')) (passkey_malformed ''client data with no challenge''))
                  (\<lambda>text. wa_decode wc text ''challenge'')) (\<lambda>echoed.
       if echoed \<noteq> challenge then Inl (passkey_refused ''the challenge does not match'')
       else
         (let origin = (case data_str (data_at data ''origin'') of Some s \<Rightarrow> s | None \<Rightarrow> []) in
          if origin \<notin> set (rely_origins rp) then Inl (passkey_refused (''the origin `'' @ origin @ ''` is not allowed''))
          else if data_at data ''crossOrigin'' = JBool True \<and> \<not> rely_allow_cross_origin rp
          then Inl (passkey_refused ''a cross-origin ceremony'')
          else Inr ())))"

definition check_auth_data :: "wa_crypto \<Rightarrow> relying_party \<Rightarrow> authenticator_data \<Rightarrow> user_verification \<Rightarrow> unit result" where
  "check_auth_data wc rp d uv =
     (if atd_rp_id_hash d \<noteq> wa_sha256 wc (rely_id rp) then Inl (passkey_refused ''the passkey is for a different site'')
      else if atd_flags d AND FLAG_UP = 0 then Inl (passkey_refused ''the user was not present'')
      else if uv = UvRequired \<and> atd_flags d AND FLAG_UV = 0 then Inl (passkey_refused ''the user was not verified'')
      else if atd_flags d AND FLAG_BS \<noteq> 0 \<and> atd_flags d AND FLAG_BE = 0
      then Inl (passkey_malformed ''backed up but not backup-eligible'')
      else Inr ())"

definition parse_attested :: "wa_crypto \<Rightarrow> string \<Rightarrow> (attested_credential \<times> string) result" where
  "parse_attested wc rest =
     (if length rest < 18 then Inl (passkey_malformed ''attested credential data is truncated'')
      else
        (let id_len = be_value (take 2 (drop 16 rest)) in
         if id_len = 0 \<or> id_len > MAX_CREDENTIAL_ID \<or> length rest < 18 + id_len
         then Inl (passkey_malformed ''a credential id of an impossible length'')
         else
           (let body = drop (18 + id_len) rest in
            and_then (decode_prefix body) (\<lambda>(v, used).
            and_then (cose_from_value (wc_keys wc) v) (\<lambda>key.
            Inr (\<lparr>atc_aaguid = take 16 rest, atc_id = take id_len (drop 18 rest), atc_public_key = take used body, atc_key = key\<rparr>,
                 drop used body))))))"

definition parse_auth_data :: "wa_crypto \<Rightarrow> string \<Rightarrow> authenticator_data result" where
  "parse_auth_data wc bytes =
     (if length bytes < 37 then Inl (passkey_malformed ''authenticator data shorter than 37 bytes'')
      else
        (let flags = (word_of_nat (of_char (bytes ! 32)) :: 8 word); rest = drop 37 bytes in
         and_then (if flags AND FLAG_AT \<noteq> 0 then and_then (parse_attested wc rest) (\<lambda>(a, r). Inr (Some a, r)) else Inr (None, rest))
           (\<lambda>(attested, rest).
         and_then
           (if flags AND FLAG_ED \<noteq> 0 then
              and_then (cbor_decode rest) (\<lambda>v.
                case v of CMap _ \<Rightarrow> Inr () | _ \<Rightarrow> Inl (passkey_malformed ''extensions that are not a map''))
            else if rest \<noteq> [] then Inl (passkey_malformed ''trailing bytes in authenticator data'')
            else Inr ())
           (\<lambda>_. Inr \<lparr>atd_rp_id_hash = take 32 bytes, atd_flags = flags,
                     atd_sign_count = be_value (take 4 (drop 33 bytes)), atd_attested = attested\<rparr>))))"

section \<open>Registration\<close>

definition check_statement ::
  "wa_crypto \<Rightarrow> relying_party \<Rightarrow> string \<Rightarrow> cbor \<Rightarrow> string \<Rightarrow> string \<Rightarrow> cose_key \<Rightarrow> string result"
where
  "check_statement wc rp format statement auth_data client_hash key =
     (if format = ''none'' then
        (if (case cbor_as_map statement of Some es \<Rightarrow> es | None \<Rightarrow> []) \<noteq> []
         then Inl (passkey_refused ''a `none` attestation with a statement'') else Inr ''none'')
      else if format = ''packed'' \<and> cbor_get_text statement ''x5c'' = None then
        (if Option.bind (cbor_get_text statement ''alg'') cbor_as_int \<noteq> Some (algorithm_id (key_algorithm key))
         then Inl (passkey_refused ''a self-attestation whose algorithm is not the key's'')
         else
           and_then (required (Option.bind (cbor_get_text statement ''sig'') cbor_as_bytes)
                       (passkey_malformed ''a packed attestation with no signature'')) (\<lambda>signature.
           case cose_verify (wc_keys wc) key (auth_data @ client_hash) signature of
             Inl _ \<Rightarrow> Inl (passkey_refused ''the self-attestation signature did not verify'')
           | Inr _ \<Rightarrow> Inr ''packed''))
      else
        (case rely_attestation rp of
           AttLenient \<Rightarrow> Inr (''unverified:'' @ format)
         | AttStrict \<Rightarrow> Inl (passkey_refused (''`'' @ format @ ''` attestation is not accepted by this relying party''))))"

definition finish_registration ::
  "wa_crypto \<Rightarrow> relying_party \<Rightarrow> nat \<Rightarrow> registration_state \<Rightarrow> registration_response \<Rightarrow> passkey_credential result"
where
  "finish_registration wc rp now st r =
     and_then (check_live now (rgs_expires_at st)) (\<lambda>_.
     and_then (same_ids wc (gr_kind r) (gr_id r) (gr_raw_id r)) (\<lambda>raw_id.
     and_then (wa_decode wc (gr_client_data_json r) ''clientDataJSON'') (\<lambda>client_data.
     and_then (check_client_data wc rp client_data ''webauthn.create'' (rgs_challenge st)) (\<lambda>_.
     and_then (wa_decode wc (gr_attestation_object r) ''attestationObject'') (\<lambda>object.
     and_then (cbor_decode object) (\<lambda>attestation.
     and_then (required (Option.bind (cbor_get_text attestation ''fmt'') cbor_as_text)
                 (passkey_malformed ''an attestation object with no format'')) (\<lambda>format.
     and_then (required (Option.bind (cbor_get_text attestation ''attStmt'')
                 (\<lambda>s. if cbor_as_map s \<noteq> None then Some s else None))
                 (passkey_malformed ''an attestation object with no statement'')) (\<lambda>statement.
     and_then (required (Option.bind (cbor_get_text attestation ''authData'') cbor_as_bytes)
                 (passkey_malformed ''an attestation object with no authenticator data'')) (\<lambda>auth_bytes.
     and_then (parse_auth_data wc auth_bytes) (\<lambda>auth.
     and_then (check_auth_data wc rp auth (rgs_user_verification st)) (\<lambda>_.
     and_then (required (atd_attested auth) (passkey_malformed ''a registration with no attested credential'')) (\<lambda>attested.
     if key_algorithm (atc_key attested) \<notin> set (rely_algorithms rp)
     then Inl (passkey_refused ''the passkey uses an algorithm that was not offered'')
     else if atc_id attested \<noteq> raw_id
     then Inl (passkey_refused ''the credential id does not match the response's'')
     else
       and_then (check_statement wc rp format statement auth_bytes (wa_sha256 wc client_data) (atc_key attested)) (\<lambda>att.
       Inr \<lparr>pk_id = atc_id attested, pk_public_key = atc_public_key attested, pk_sign_count = atd_sign_count auth,
            pk_user_handle = rgs_user_handle st, pk_transports = gr_transports r,
            pk_backup_eligible = (atd_flags auth AND FLAG_BE \<noteq> 0), pk_backed_up = (atd_flags auth AND FLAG_BS \<noteq> 0),
            pk_aaguid = atc_aaguid attested, pk_attestation = att\<rparr>)))))))))))))"

section \<open>Sign-in\<close>

definition check_handle :: "wa_crypto \<Rightarrow> authentication_state \<Rightarrow> authentication_response \<Rightarrow> passkey_credential \<Rightarrow> unit result" where
  "check_handle wc st r c =
     and_then (response_user_handle wc r) (\<lambda>h.
       case h of
         Some handle \<Rightarrow>
           if handle \<noteq> pk_user_handle c then Inl (passkey_refused ''the passkey belongs to a different user'') else Inr ()
       | None \<Rightarrow>
           if aus_allowed st = [] then Inl (passkey_refused ''a discoverable sign-in returned no user handle'') else Inr ())"

definition finish_authentication ::
  "wa_crypto \<Rightarrow> relying_party \<Rightarrow> nat \<Rightarrow> authentication_state \<Rightarrow> authentication_response \<Rightarrow> passkey_credential
    \<Rightarrow> verified_assertion result"
where
  "finish_authentication wc rp now st r c =
     and_then (check_live now (aus_expires_at st)) (\<lambda>_.
     and_then (same_ids wc (an_kind r) (an_id r) (an_raw_id r)) (\<lambda>raw_id.
     if raw_id \<noteq> pk_id c then Inl (passkey_refused ''the response is not from this credential'')
     else if aus_allowed st \<noteq> [] \<and> id_base64url wc c \<notin> set (aus_allowed st)
     then Inl (passkey_refused ''this credential was not asked for'')
     else
       and_then (check_handle wc st r c) (\<lambda>_.
       and_then (wa_decode wc (an_client_data_json r) ''clientDataJSON'') (\<lambda>client_data.
       and_then (check_client_data wc rp client_data ''webauthn.get'' (aus_challenge st)) (\<lambda>_.
       and_then (wa_decode wc (an_authenticator_data r) ''authenticatorData'') (\<lambda>auth_bytes.
       and_then (parse_auth_data wc auth_bytes) (\<lambda>auth.
       and_then (check_auth_data wc rp auth (aus_user_verification st)) (\<lambda>_.
       and_then (wa_decode wc (an_signature r) ''signature'') (\<lambda>signature.
       and_then (credential_key wc c) (\<lambda>key.
       and_then (cose_verify (wc_keys wc) key (auth_bytes @ wa_sha256 wc client_data) signature) (\<lambda>_.
       if (atd_sign_count auth \<noteq> 0 \<or> pk_sign_count c \<noteq> 0) \<and> atd_sign_count auth \<le> pk_sign_count c
       then Inl (passkey_refused (''the passkey's signature counter did not advance '' @ EM_DASH @ '' it may have been cloned''))
       else Inr \<lparr>vas_credential_id = pk_id c, vas_sign_count = atd_sign_count auth,
                 vas_user_verified = (atd_flags auth AND FLAG_UV \<noteq> 0), vas_backup_eligible = (atd_flags auth AND FLAG_BE \<noteq> 0),
                 vas_backed_up = (atd_flags auth AND FLAG_BS \<noteq> 0)\<rparr>)))))))))))"


section \<open>Reading the bytes\<close>

lemma flag_byte:
  fixes c :: char
  defines "w \<equiv> (word_of_nat (of_char c) :: 8 word)"
  shows "w AND FLAG_UP = 0 \<longleftrightarrow> \<not> bit (of_char c :: nat) 0" "w AND FLAG_UV = 0 \<longleftrightarrow> \<not> bit (of_char c :: nat) 2"
    "w AND FLAG_BE = 0 \<longleftrightarrow> \<not> bit (of_char c :: nat) 3" "w AND FLAG_BS = 0 \<longleftrightarrow> \<not> bit (of_char c :: nat) 4"
proof -
  have "w AND 2 ^ k = 0 \<longleftrightarrow> \<not> bit (of_char c :: nat) k" if "k < 8" for k
    using that by (simp add: w_def and_exp_eq_0_iff_not_bit bit_of_nat_iff)
  from this [of 0] this [of 2] this [of 3] this [of 4]
  show "w AND FLAG_UP = 0 \<longleftrightarrow> \<not> bit (of_char c :: nat) 0" "w AND FLAG_UV = 0 \<longleftrightarrow> \<not> bit (of_char c :: nat) 2"
    "w AND FLAG_BE = 0 \<longleftrightarrow> \<not> bit (of_char c :: nat) 3" "w AND FLAG_BS = 0 \<longleftrightarrow> \<not> bit (of_char c :: nat) 4"
    by (simp_all add: FLAG_UP_def FLAG_UV_def FLAG_BE_def FLAG_BS_def)
qed

lemma parse_auth_data_fields:
  assumes "parse_auth_data wc bytes = Inr a"
  shows "37 \<le> length bytes" "atd_rp_id_hash a = take 32 bytes" "atd_flags a = word_of_nat (of_char (bytes ! 32))"
    "atd_sign_count a = be_value (take 4 (drop 33 bytes))" "atd_sign_count a < 2 ^ 32"
proof -
  show "37 \<le> length bytes" "atd_rp_id_hash a = take 32 bytes" "atd_flags a = word_of_nat (of_char (bytes ! 32))"
    "atd_sign_count a = be_value (take 4 (drop 33 bytes))"
    using assms by (auto simp: parse_auth_data_def Let_def and_then_Inr split: if_splits)
  then show "atd_sign_count a < 2 ^ 32" using be_value_less [of "take 4 (drop 33 bytes)"] by simp
qed

lemma parse_auth_data_attested:
  assumes "parse_auth_data wc bytes = Inr a" "atd_attested a = Some ac"
  shows "\<exists>rest. parse_attested wc (drop 37 bytes) = Inr (ac, rest)"
  using assms by (auto simp: parse_auth_data_def Let_def and_then_Inr split: if_splits)

text \<open>The bytes stored as the public key are those the key was read from, and read the same on their own.\<close>

lemma parse_attested_key:
  assumes "parse_attested wc bs = Inr (ac, rest)"
  shows "1 \<le> length (atc_id ac)" "length (atc_id ac) \<le> MAX_CREDENTIAL_ID" "length (atc_aaguid ac) = 16"
    "cose_from_bytes (wc_keys wc) (atc_public_key ac) = Inr (atc_key ac)"
proof -
  define n where "n = be_value (take 2 (drop 16 bs))"
  obtain v used where *: "18 + n \<le> length bs" "1 \<le> n" "n \<le> MAX_CREDENTIAL_ID" "decode_prefix (drop (18 + n) bs) = Inr (v, used)"
      "cose_from_value (wc_keys wc) v = Inr (atc_key ac)" "atc_public_key ac = take used (drop (18 + n) bs)"
      "atc_id ac = take n (drop 18 bs)" "atc_aaguid ac = take 16 bs"
    using assms unfolding parse_attested_def
    by (auto simp: Let_def and_then_Inr simp flip: n_def split: if_splits)
  then show "1 \<le> length (atc_id ac)" "length (atc_id ac) \<le> MAX_CREDENTIAL_ID" "length (atc_aaguid ac) = 16" by simp_all
  show "cose_from_bytes (wc_keys wc) (atc_public_key ac) = Inr (atc_key ac)"
    using prefix_decodes [OF *(4)] *(5,6) by (simp add: cose_from_bytes_def)
qed

section \<open>What a verified sign-in is\<close>

text \<open>The client data names the ceremony and its challenge, from an allowed origin that may frame it.\<close>

definition client_data_valid :: "wa_crypto \<Rightarrow> relying_party \<Rightarrow> string \<Rightarrow> string \<Rightarrow> string \<Rightarrow> bool" where
  "client_data_valid wc rp ty challenge bytes \<longleftrightarrow>
     (\<exists>data text. wc_json wc bytes = Some data
        \<and> data_at data ''type'' = JString ty
        \<and> data_at data ''challenge'' = JString text \<and> wa_decode wc text ''challenge'' = Inr challenge
        \<and> (case data_at data ''origin'' of JString s \<Rightarrow> s | _ \<Rightarrow> []) \<in> set (rely_origins rp)
        \<and> (data_at data ''crossOrigin'' = JBool True \<longrightarrow> rely_allow_cross_origin rp))"

text \<open>The authenticator answered for this site, with its user present, verified if asked for, and consistent backup flags.\<close>

definition presence_valid :: "wa_crypto \<Rightarrow> relying_party \<Rightarrow> user_verification \<Rightarrow> string \<Rightarrow> bool" where
  "presence_valid wc rp uv auth \<longleftrightarrow>
     (let flags = (of_char (auth ! 32) :: nat) in
      take 32 auth = wa_sha256 wc (rely_id rp) \<and> bit flags 0 \<and> (uv = UvRequired \<longrightarrow> bit flags 2)
      \<and> (bit flags 4 \<longrightarrow> bit flags 3))"

definition assertion_valid ::
  "wa_crypto \<Rightarrow> relying_party \<Rightarrow> nat \<Rightarrow> authentication_state \<Rightarrow> authentication_response \<Rightarrow> passkey_credential
    \<Rightarrow> verified_assertion \<Rightarrow> bool"
where
  "assertion_valid wc rp now st r c va \<longleftrightarrow>
     now \<le> aus_expires_at st \<and> an_kind r = ''public-key''
     \<and> wa_decode wc (an_raw_id r) ''rawId'' = Inr (pk_id c) \<and> wa_decode wc (an_id r) ''id'' = Inr (pk_id c)
     \<and> (aus_allowed st = [] \<or> wc_b64url wc (pk_id c) \<in> set (aus_allowed st))
     \<and> (response_user_handle wc r = Inr (Some (pk_user_handle c)) \<or> response_user_handle wc r = Inr None \<and> aus_allowed st \<noteq> [])
     \<and> (\<exists>client auth sig a key.
          wa_decode wc (an_client_data_json r) ''clientDataJSON'' = Inr client
          \<and> wa_decode wc (an_authenticator_data r) ''authenticatorData'' = Inr auth
          \<and> wa_decode wc (an_signature r) ''signature'' = Inr sig
          \<and> client_data_valid wc rp ''webauthn.get'' (aus_challenge st) client
          \<and> parse_auth_data wc auth = Inr a \<and> presence_valid wc rp (aus_user_verification st) auth
          \<and> cose_from_bytes (wc_keys wc) (pk_public_key c) = Inr key
          \<and> signature_ok (wc_keys wc) key (auth @ wa_sha256 wc client) sig
          \<and> (let n = be_value (take 4 (drop 33 auth)); flags = (of_char (auth ! 32) :: nat) in
             (pk_sign_count c < n \<or> n = 0 \<and> pk_sign_count c = 0)
             \<and> va = \<lparr>vas_credential_id = pk_id c, vas_sign_count = n, vas_user_verified = bit flags 2,
                     vas_backup_eligible = bit flags 3, vas_backed_up = bit flags 4\<rparr>))"

lemma check_client_data_iff: "check_client_data wc rp bytes ty challenge = Inr () \<longleftrightarrow> client_data_valid wc rp ty challenge bytes"
proof -
  have data_str: "data_str v = Some t \<longleftrightarrow> v = JString t" for v t by (cases v) (simp_all add: data_str_def)
  have orig: "(case data_str v of Some s \<Rightarrow> s | None \<Rightarrow> []) = (case v of JString s \<Rightarrow> s | _ \<Rightarrow> [])" for v
    by (cases v) (simp_all add: data_str_def)
  show ?thesis
    unfolding check_client_data_def client_data_valid_def orig
    by (auto simp: and_then_Inr Let_def data_str split: if_splits)
qed

lemma check_auth_data_iff:
  assumes "parse_auth_data wc auth = Inr a"
  shows "check_auth_data wc rp a uv = Inr () \<longleftrightarrow> presence_valid wc rp uv auth"
  unfolding check_auth_data_def presence_valid_def Let_def parse_auth_data_fields(2,3) [OF assms] flag_byte
  by auto

lemma check_handle_iff:
  "check_handle wc st r c = Inr () \<longleftrightarrow>
     response_user_handle wc r = Inr (Some (pk_user_handle c)) \<or> response_user_handle wc r = Inr None \<and> aus_allowed st \<noteq> []"
  by (auto simp: check_handle_def and_then_Inr split: option.splits if_splits)

lemma same_ids_iff:
  "same_ids wc ty i raw = Inr x \<longleftrightarrow> ty = ''public-key'' \<and> wa_decode wc raw ''rawId'' = Inr x \<and> wa_decode wc i ''id'' = Inr x"
  by (auto simp: same_ids_def and_then_Inr split: if_splits)

lemma cose_verify_iff: "cose_verify kc key msg sig = Inr () \<longleftrightarrow> signature_ok kc key msg sig"
  by (simp add: cose_verify_def)

lemma check_live_iff: "check_live now t = Inr () \<longleftrightarrow> now \<le> t"
  by (simp add: check_live_def)

lemmas check_iffs = check_client_data_iff check_handle_iff same_ids_iff cose_verify_iff check_live_iff

lemma parsed_assertion:
  assumes "parse_auth_data wc auth = Inr a"
  shows "(if (atd_sign_count a \<noteq> 0 \<or> m \<noteq> 0) \<and> atd_sign_count a \<le> m then Inl e
      else Inr \<lparr>vas_credential_id = i, vas_sign_count = atd_sign_count a, vas_user_verified = (atd_flags a AND FLAG_UV \<noteq> 0),
        vas_backup_eligible = (atd_flags a AND FLAG_BE \<noteq> 0), vas_backed_up = (atd_flags a AND FLAG_BS \<noteq> 0)\<rparr>) = Inr va
    \<longleftrightarrow> (let n = be_value (take 4 (drop 33 auth)); flags = (of_char (auth ! 32) :: nat) in
        (m < n \<or> n = 0 \<and> m = 0)
        \<and> va = \<lparr>vas_credential_id = i, vas_sign_count = n, vas_user_verified = bit flags 2,
                vas_backup_eligible = bit flags 3, vas_backed_up = bit flags 4\<rparr>)"
  unfolding parse_auth_data_fields(3,4) [OF assms] Let_def flag_byte by auto

lemma refuse_Inr: "(if P then Inl e else (X :: 'a result)) = Inr b \<longleftrightarrow> \<not> P \<and> X = Inr b"
  by simp

lemma ex_unit: "(\<exists>x :: unit. P x) \<longleftrightarrow> P ()"
  by (metis old.unit.exhaust)

text \<open>
  C15. A sign-in is verified if and only if, before the challenge expired, the response names the
  stored credential twice over and the credential is one the challenge was issued for; the user
  handle is the credential's, and may be missing only if the challenge named credentials; the
  client data is of a sign-in, echoes the challenge, and comes from an allowed origin, framed only
  where that is allowed; the authenticator data is well formed, for this site, with the user
  present, and verified where required; the stored key's signature covers exactly these two; and
  the counter moved forward or both are zero. The result reports the counter and flags of the bytes that were signed.
\<close>

theorem sign_in_exact:
  "finish_authentication wc rp now st r c = Inr va \<longleftrightarrow> assertion_valid wc rp now st r c va"
  unfolding finish_authentication_def and_then_Inr ex_unit check_iffs refuse_Inr [of "_ \<noteq> pk_id c"]
    refuse_Inr [of "aus_allowed st \<noteq> [] \<and> _"] assertion_valid_def id_base64url_def credential_key_def
  by (simp only: check_auth_data_iff parsed_assertion not_not simp_thms ex_simps cong: conj_cong) blast
section \<open>Counters over a sequence of sign-ins\<close>

text \<open>The sign-ins of one stored credential: each verified one is applied to it, a refused one leaves it as it is.\<close>

fun sign_ins ::
  "wa_crypto \<Rightarrow> relying_party \<Rightarrow> (nat \<times> authentication_state \<times> authentication_response) list \<Rightarrow> passkey_credential
    \<Rightarrow> nat list \<times> passkey_credential"
where
  "sign_ins wc rp [] c = ([], c)"
| "sign_ins wc rp ((now, st, r) # rest) c =
     (case finish_authentication wc rp now st r c of
        Inl _ \<Rightarrow> sign_ins wc rp rest c
      | Inr va \<Rightarrow> (let (counts, c') = sign_ins wc rp rest (apply_to va c) in (vas_sign_count va # counts, c')))"

definition counters_advance :: "nat \<Rightarrow> nat list \<Rightarrow> bool" where
  "counters_advance m counts \<longleftrightarrow>
     (\<exists>k inc. counts = replicate k 0 @ inc \<and> sorted_wrt (<) (m # inc) \<and> (0 < k \<longrightarrow> m = 0))"

lemma finish_counter:
  "finish_authentication wc rp now st r c = Inr va \<Longrightarrow>
     pk_sign_count c < vas_sign_count va \<or> vas_sign_count va = 0 \<and> pk_sign_count c = 0"
  by (auto simp: finish_authentication_def and_then_Inr split: if_splits)

lemma counters_advance_Cons:
  assumes "counters_advance n counts" "m < n \<or> n = 0 \<and> m = 0"
  shows "counters_advance m (n # counts)"
proof -
  obtain k inc where *: "counts = replicate k 0 @ inc" "sorted_wrt (<) (n # inc)" "0 < k \<longrightarrow> n = 0"
    using assms(1) by (auto simp: counters_advance_def)
  show ?thesis
  proof (cases "n = 0")
    case True
    then show ?thesis unfolding counters_advance_def using * assms(2) by (intro exI [of _ "Suc k"] exI [of _ inc]) auto
  next
    case False
    then show ?thesis unfolding counters_advance_def using * assms(2)
      by (intro exI [of _ 0] exI [of _ "n # inc"]) (auto intro: less_trans)
  qed
qed

lemma counters_distinct: "counters_advance m counts \<Longrightarrow> distinct (filter (\<lambda>n. n \<noteq> 0) counts)"
  by (auto simp: counters_advance_def strict_sorted_iff)

text \<open>
  C16. Over any sequence of answers to sign-in challenges, genuine or not, the accepted counters are
  zeros followed by a strictly increasing list above the stored one; zeros occur only if the stored
  counter was zero. So no assertion with a counter is accepted twice, and a cloned key is
  noticed. The stored credential keeps its id, key and user, and holds the last accepted counter.
\<close>

theorem passkey_counters_advance:
  "(case sign_ins wc rp answers c of (counts, c') \<Rightarrow>
      counters_advance (pk_sign_count c) counts
      \<and> distinct (filter (\<lambda>n. n \<noteq> 0) counts)
      \<and> pk_sign_count c' = last (pk_sign_count c # counts)
      \<and> pk_id c' = pk_id c \<and> pk_public_key c' = pk_public_key c \<and> pk_user_handle c' = pk_user_handle c)"
proof -
  have "case sign_ins wc rp answers c of (counts, c') \<Rightarrow>
      counters_advance (pk_sign_count c) counts \<and> pk_sign_count c' = last (pk_sign_count c # counts)
      \<and> pk_id c' = pk_id c \<and> pk_public_key c' = pk_public_key c \<and> pk_user_handle c' = pk_user_handle c"
  proof (induction wc rp answers c rule: sign_ins.induct)
    case (1 wc rp c)
    then show ?case by (simp add: counters_advance_def)
  next
    case (2 wc rp now st r rest c)
    show ?case
    proof (cases "finish_authentication wc rp now st r c")
      case (Inl e)
      then show ?thesis using "2.IH"(1) by simp
    next
      case (Inr va)
      then show ?thesis
        using "2.IH"(2) [OF Inr] counters_advance_Cons [OF _ finish_counter [OF Inr]]
        by (auto simp: apply_to_def split: prod.splits)
    qed
  qed
  then show ?thesis using counters_distinct by (auto split: prod.splits)
qed

section \<open>Registered credentials\<close>

definition attestation_recorded :: "attestation_policy \<Rightarrow> string \<Rightarrow> bool" where
  "attestation_recorded policy att \<longleftrightarrow>
     att = ''none'' \<or> att = ''packed'' \<or> policy = AttLenient \<and> prefix ''unverified:'' att"

lemma check_statement_recorded:
  "check_statement wc rp format statement auth hash key = Inr att \<Longrightarrow> attestation_recorded (rely_attestation rp) att"
  by (auto simp: check_statement_def attestation_recorded_def and_then_Inr cose_verify_def
      split: if_splits attestation_policy.splits)

lemma registration_parts:
  assumes "finish_registration wc rp now st r = Inr c"
  obtains bytes auth ac where "parse_auth_data wc bytes = Inr auth" "atd_attested auth = Some ac"
    "check_auth_data wc rp auth (rgs_user_verification st) = Inr ()" "key_algorithm (atc_key ac) \<in> set (rely_algorithms rp)"
    "now \<le> rgs_expires_at st" "attestation_recorded (rely_attestation rp) (pk_attestation c)"
    "pk_id c = atc_id ac" "pk_public_key c = atc_public_key ac" "pk_sign_count c = atd_sign_count auth"
    "pk_user_handle c = rgs_user_handle st" "pk_backup_eligible c = (atd_flags auth AND FLAG_BE \<noteq> 0)"
    "pk_backed_up c = (atd_flags auth AND FLAG_BS \<noteq> 0)" "pk_aaguid c = atc_aaguid ac"
    "wa_decode wc (gr_raw_id r) ''rawId'' = Inr (pk_id c)"
proof -
  obtain bytes auth ac format statement hash att raw where *: "parse_auth_data wc bytes = Inr auth" "atd_attested auth = Some ac"
      "check_auth_data wc rp auth (rgs_user_verification st) = Inr ()" "key_algorithm (atc_key ac) \<in> set (rely_algorithms rp)"
      "now \<le> rgs_expires_at st" "wa_decode wc (gr_raw_id r) ''rawId'' = Inr raw" "atc_id ac = raw"
      "check_statement wc rp format statement bytes hash (atc_key ac) = Inr att"
      "\<lparr>pk_id = atc_id ac, pk_public_key = atc_public_key ac, pk_sign_count = atd_sign_count auth,
            pk_user_handle = rgs_user_handle st, pk_transports = gr_transports r,
            pk_backup_eligible = (atd_flags auth AND FLAG_BE \<noteq> 0), pk_backed_up = (atd_flags auth AND FLAG_BS \<noteq> 0),
            pk_aaguid = atc_aaguid ac, pk_attestation = att\<rparr> = c"
    using assms unfolding finish_registration_def and_then_Inr ex_unit check_iffs refuse_Inr required_Inr sum.inject not_not
    by (elim exE conjE) blast
  show ?thesis
    by (rule that [OF *(1-5)]) (use *(6,7) check_statement_recorded [OF *(8)] in \<open>simp_all flip: *(9)\<close>)
qed

text \<open>
  C27. A credential that registration returns was made for the challenge's user before it expired; its
  stored public key parses, to a valid key of an algorithm that was offered, so it can sign in;
  its id is 1 to 1023 bytes, the one the response names, its counter is a 32-bit number and its AAGUID is 16
  bytes; it is backed up only if it is eligible; and the attestation it records is none,
  packed, or, under the lenient policy alone, marked as unverified.
\<close>

theorem registered_credential_usable:
  assumes "finish_registration wc rp now st r = Inr c"
  shows "now \<le> rgs_expires_at st \<and> pk_user_handle c = rgs_user_handle st
    \<and> (\<exists>key. credential_key wc c = Inr key \<and> cose_validate (wc_keys wc) key = Inr ()
         \<and> key_algorithm key \<in> set (rely_algorithms rp))
    \<and> 1 \<le> length (pk_id c) \<and> length (pk_id c) \<le> 1023 \<and> wa_decode wc (gr_raw_id r) ''rawId'' = Inr (pk_id c)
    \<and> pk_sign_count c < 2 ^ 32 \<and> length (pk_aaguid c) = 16
    \<and> (pk_backed_up c \<longrightarrow> pk_backup_eligible c)
    \<and> attestation_recorded (rely_attestation rp) (pk_attestation c)"
  using assms
proof (rule registration_parts)
  fix bytes auth ac
  assume parsed: "parse_auth_data wc bytes = Inr auth" "atd_attested auth = Some ac"
    and checked: "check_auth_data wc rp auth (rgs_user_verification st) = Inr ()"
    and offered: "key_algorithm (atc_key ac) \<in> set (rely_algorithms rp)"
    and live: "now \<le> rgs_expires_at st" and att: "attestation_recorded (rely_attestation rp) (pk_attestation c)"
    and fields: "pk_id c = atc_id ac" "pk_public_key c = atc_public_key ac" "pk_sign_count c = atd_sign_count auth"
      "pk_user_handle c = rgs_user_handle st" "pk_backup_eligible c = (atd_flags auth AND FLAG_BE \<noteq> 0)"
      "pk_backed_up c = (atd_flags auth AND FLAG_BS \<noteq> 0)" "pk_aaguid c = atc_aaguid ac"
    and raw: "wa_decode wc (gr_raw_id r) ''rawId'' = Inr (pk_id c)"
  obtain rest where "parse_attested wc (drop 37 bytes) = Inr (ac, rest)"
    using parse_auth_data_attested [OF parsed] by blast
  note key = parse_attested_key [OF this]
  have "credential_key wc c = Inr (atc_key ac)" using key(4) fields(2) by (simp add: credential_key_def)
  moreover have "cose_validate (wc_keys wc) (atc_key ac) = Inr ()" using cose_key_canonical [OF key(4)] by simp
  moreover have "pk_backed_up c \<longrightarrow> pk_backup_eligible c"
    using checked fields(5,6) by (auto simp: check_auth_data_def split: if_splits)
  ultimately show ?thesis
    using live att fields raw offered key(1-3) parse_auth_data_fields(5) [OF parsed(1)] MAX_CREDENTIAL_ID_def by auto
qed

text \<open>A registration with an Ed25519 key, every byte of the site's hash an h, over base64url that is the identity.\<close>

definition demo_wa :: wa_crypto where
  "demo_wa = \<lparr>wc_keys = \<lparr>kc_p256_point = (\<lambda>_. True), kc_p256_der = (\<lambda>_. True), kc_p256_verify = (\<lambda>_ _ _. False),
      kc_ed_point = (\<lambda>_. True), kc_ed_signature = (\<lambda>_. True), kc_ed_verify_strict = (\<lambda>_ m s. m = s),
      kc_rsa_size = (\<lambda>_ _. None), kc_rsa_verify = (\<lambda>_ _ _ _. False), kc_sha256 = (\<lambda>_. replicate 32 CHR ''h'')\<rparr>,
     wc_b64url = (\<lambda>s. s), wc_b64url_decode = Some,
     wc_json = (\<lambda>s. Some (JObject [(''type'', JString s), (''challenge'', JString ''c''), (''origin'', JString ''https://a.test'')]))\<rparr>"

definition demo_auth_data :: string where
  "demo_auth_data = replicate 32 CHR ''h'' @ [CHR 0x45] @ be_bytes 4 7 @ replicate 16 (CHR 0x00)
     @ be_bytes 2 1 @ ''i'' @ cose_to_bytes (KEd25519 (replicate 32 CHR ''k''))"

definition demo_registration :: registration_response where
  "demo_registration = \<lparr>gr_id = ''i'', gr_raw_id = ''i'', gr_kind = ''public-key'', gr_client_data_json = ''webauthn.create'',
     gr_attestation_object = cbor_encode (CMap [(CText ''fmt'', CText ''none''), (CText ''attStmt'', CMap []),
       (CText ''authData'', CBytes demo_auth_data)]), gr_transports = []\<rparr>"

definition demo_registering :: registration_state where
  "demo_registering = \<lparr>rgs_challenge = ''c'', rgs_user_handle = ''u'', rgs_user_verification = UvRequired, rgs_expires_at = 400\<rparr>"

definition demo_party :: relying_party where
  "demo_party = \<lparr>rely_id = ''a.test'', rely_name = ''A'', rely_origins = [''https://a.test''], rely_user_verification = UvRequired,
     rely_allow_cross_origin = False, rely_timeout = 0, rely_attestation = AttLenient, rely_algorithms = ALL_ALGORITHMS\<rparr>"

definition demo_passkey :: passkey_credential where
  "demo_passkey = \<lparr>pk_id = ''i'', pk_public_key = cose_to_bytes (KEd25519 (replicate 32 CHR ''k'')), pk_sign_count = 7,
     pk_user_handle = ''u'', pk_transports = [], pk_backup_eligible = False, pk_backed_up = False,
     pk_aaguid = replicate 16 (CHR 0x00), pk_attestation = ''none''\<rparr>"

lemma demo_registers:
  "finish_registration demo_wa demo_party 200 demo_registering demo_registration = Inr demo_passkey"
  by code_simp

theorem registered_credential_usable_witness:
  "\<exists>key. credential_key demo_wa demo_passkey = Inr key \<and> key_algorithm key \<in> set ALL_ALGORITHMS"
  using registered_credential_usable [OF demo_registers] by (auto simp: demo_party_def)

end
