(* ===== verification/Spec2Isabelle.thy ===== *)
theory Spec2Isabelle
  imports Rate_Limit Totp Recovery Php_Serialize Schedule Url Trust_Proxies Csrf Queue_Manager Database_Queue Oauth_Grants Validation Auth Challenge Session_Stores Signed_Url Webauthn
begin

text \<open>
  A verification of the core of Rainier, a web framework in Rust (the crates under
  \<^verbatim>\<open>src/crates\<close>). The parts of the program that carry its own logic are translated into HOL, one
  theory per component, and their properties are proved.

  \<^bold>\<open>How the parts interact.\<close> A request enters the router, which finds the first declared route
  that matches and runs the route's pipeline: middleware wrapped around a handler. Middleware
  corrects the client's address behind proxies, throttles, loads and saves the session and refuses
  forged requests. Throttling counts in a rate limit store, which lives in the process or in a
  cache; locks and one-server tasks of the scheduler live in a cache too. A handler hands work to
  the queue manager, which claims a lock for a job that must be queued once and pushes the job on a
  queue; workers take jobs from queues in the process or in a database, run them, settle them and
  announce what happened as events. Guards say who a request comes from, by its session or by an
  access token of the OAuth server; validation decides what of its input an action sees. Every operation that can fail gives a framework error, which is
  rendered as a response.

  \<^bold>\<open>Foundations.\<close>
  \<^item> \<open>Prelude\<close>: text as bytes, and what the code uses of Rust's standard library (decimal text,
    trimming, splitting, UTF-8, bounded integers). \<open>Hash_Map\<close>: \<^verbatim>\<open>HashMap\<close> as an association list with
    distinct keys. \<open>Ip_Addr\<close>: the parser and display form of \<^verbatim>\<open>std::net::IpAddr\<close>. \<open>Percent\<close>: the laws of
    the \<^verbatim>\<open>percent_encoding\<close> package, with an encoder that has them.
  \<^item> \<open>Support_Error\<close> (\<^verbatim>\<open>rainier-support/src/error.rs\<close>): kinds, statuses, contexts; results are the
    sum type with the error on the left.

  \<^bold>\<open>Requests.\<close>
  \<^item> \<open>Http\<close>, \<open>Request_Input\<close>, \<open>Cookie\<close> (\<^verbatim>\<open>rainier-http\<close>: \<^verbatim>\<open>request.rs\<close>, \<^verbatim>\<open>response.rs\<close>, \<^verbatim>\<open>input.rs\<close>,
    \<^verbatim>\<open>upload.rs\<close>, \<^verbatim>\<open>cookie.rs\<close>): headers, response builders, input trees with bracket notation,
    multipart bodies, cookies. Shown: what a form names is found under its dotted name; the merged
    view of the inputs agrees with the accessor on every scalar it holds; cookies come back as they
    were set.
  \<^item> \<open>Pipeline\<close>, \<open>Route\<close>, \<open>Router\<close>, \<open>Url\<close> (\<^verbatim>\<open>rainier-middleware/src/pipeline.rs\<close>, \<^verbatim>\<open>stack.rs\<close>;
    \<^verbatim>\<open>rainier-routing/src/route.rs\<close>, \<^verbatim>\<open>router.rs\<close>, \<^verbatim>\<open>url.rs\<close>): a middleware is a function of the
    request, the continuation and the state. Shown: pipelines nest; dispatch takes the first match
    and otherwise answers 405, the fallback or 404; groups compose outermost first and keep the
    invariant that a route's segments are compiled from its normal-form URI; compiling is exact; and,
    in this theory, a generated URL is dispatched to the route it names with the given values.
  \<^item> \<open>Trust_Proxies\<close> (\<^verbatim>\<open>rainier-middleware/src/proxy.rs\<close>): a network is a bit prefix, and a client
    cannot choose the address it is credited with.
  \<^item> \<open>Session\<close>, \<open>Start_Session\<close>, \<open>Csrf\<close> (\<^verbatim>\<open>rainier-session\<close>: \<^verbatim>\<open>session.rs\<close>, \<^verbatim>\<open>store.rs\<close>,
    \<^verbatim>\<open>middleware.rs\<close>, \<^verbatim>\<open>csrf.rs\<close>): the bag of a request, the contract of a store as the locale
    \<open>server_store\<close> with the in-process store as its instance, loading and saving, forgery
    protection. Shown: flashed values live one request; sessions survive their request and ids given
    up on login die; an outage of the store is ridden out; a forged request does not reach the
    handler; the wildcard loop terminates and is the reference matcher.

  \<^item> \<open>Session_Stores\<close> (\<^verbatim>\<open>rainier-session\<close>: \<^verbatim>\<open>cache.rs\<close>, \<^verbatim>\<open>database.rs\<close>, \<^verbatim>\<open>cookie.rs\<close>): sessions in a cache and in a table
    are further instances of \<open>server_store\<close>, the first through the locale \<open>session_cache\<close>; sessions in the cookie
    are sealed and bounded in size.
  \<^item> \<open>Validation\<close> (\<^verbatim>\<open>rainier-validation\<close>): rules, wildcards, form requests. Shown: validation accepts exactly
    what the reference reading of the rules does, and an action sees exactly the declared keys.

  \<^bold>\<open>Identity.\<close>
  \<^item> \<open>Auth\<close>, \<open>Challenge\<close> (\<^verbatim>\<open>rainier-auth\<close>): users, abilities, session and token guards, the middlewares over
    them, password confirmation, impersonation, gates and one-time challenges. Shown: behind the
    middlewares the handler runs exactly for whom it should; logging in and out and impersonating refine an
    abstract view of a session; guesses at a challenge are bounded.
  \<^item> \<open>Signed_Url\<close> (\<^verbatim>\<open>rainier-crypt\<close>: \<^verbatim>\<open>key.rs\<close>, \<^verbatim>\<open>signer.rs\<close>, \<^verbatim>\<open>url.rs\<close>): key rings, tags and links. Shown: a signed link
    verifies until it expires, and one that was altered and verifies exhibits a collision of the MAC.
  \<^item> \<open>Cbor\<close>, \<open>Cose\<close>, \<open>Webauthn\<close> (\<^verbatim>\<open>rainier-mfa\<close>: \<^verbatim>\<open>cbor.rs\<close>, \<^verbatim>\<open>cose.rs\<close>, \<^verbatim>\<open>webauthn/mod.rs\<close>): passkeys. Shown: a decoded value is
    bounded by its input and stable under canonical encoding; keys come back from their bytes; a
    sign-in is verified exactly when each check of the reference reading holds; counters advance; a
    registered credential is well formed and its key parses.
  \<^item> \<open>Oauth_Error\<close>, \<open>Oauth_Scope\<close>, \<open>Oauth_Store\<close>, \<open>Oauth_Server\<close>, \<open>Oauth_Flow\<close>, \<open>Oauth_Grants\<close> (\<^verbatim>\<open>rainier-oauth-server\<close>): errors,
    scopes, the stores, the server's endpoints and grants, and runs of them. Signing and verifying
    access tokens (\<^verbatim>\<open>jwt.rs\<close>) is a parameter. Shown: a code is exchanged under exact conditions and
    once, refresh tokens rotate, revoked tokens stay out, browsers are sent to registered addresses
    only, and tokens carry no scope that was not granted.

  \<^bold>\<open>Caches and limits.\<close>
  \<^item> \<open>Cache_Port\<close>, \<open>Memory_Cache\<close>, \<open>Prefixed_Cache\<close>, \<open>Cache_Lock\<close> (\<^verbatim>\<open>rainier-cache\<close>): the port as a record of
    operations with its contract as a locale, the in-process cache as an instance, prefixes that
    isolate, and locks with leases that exclude each other and are waited for in bounded time.
  \<^item> \<open>Rate_Limit\<close> (\<^verbatim>\<open>rainier-middleware/src/rate_limit.rs\<close>, \<^verbatim>\<open>builtin.rs\<close>, \<^verbatim>\<open>rainier-cache/src/rate_limit.rs\<close>):
    throttling enforces its limit over any store with the contract of the locale, which both the
    in-process store and the counters in a cache have.

  \<^bold>\<open>Events and queues.\<close>
  \<^item> \<open>Events\<close> (\<^verbatim>\<open>rainier-events\<close>): the dispatcher with priorities and wildcards. Shown: which listeners
    an event reaches, in which order, and how each way of dispatching treats a failing listener.
  \<^item> \<open>Queue_Job\<close>, \<open>Queue_Port\<close>, \<open>Worker\<close>, \<open>Queue_Manager\<close>, \<open>Database_Queue\<close> (\<^verbatim>\<open>rainier-queue\<close>: \<^verbatim>\<open>job.rs\<close>,
    \<^verbatim>\<open>queue.rs\<close>, \<^verbatim>\<open>driver.rs\<close>, \<^verbatim>\<open>worker.rs\<close>, \<^verbatim>\<open>manager.rs\<close>, \<^verbatim>\<open>database.rs\<close>): the port of a queue as a record of
    operations with its contract as the locale \<open>job_queue\<close>, which the in-process queue and the queue in
    a database have; the worker's loop one turn at a time, with what the outside decides as input.
    Shown: a run of a queue neither loses nor duplicates a job; the loop keeps its limits; a job is
    settled as its handler ended, panics and timeouts included; a failing job is given up after the
    attempts it was granted; a unique job is queued once; a row is claimed by one worker only.

  \<^bold>\<open>Second factors, formats, schedules.\<close>
  \<^item> \<open>Base32\<close>, \<open>Totp\<close>, \<open>Recovery\<close> (\<^verbatim>\<open>rainier-mfa\<close>): round trip of the encoding, exactness of the
    verification window and no replay, single use of recovery codes. HMAC and SHA-256 are parameters.
  \<^item> \<open>Php_Serialize\<close> (\<^verbatim>\<open>rainier-compat/src/php/serialize.rs\<close>): the reader inverts the writer, and any
    input gives an error or a bounded, stable value.
  \<^item> \<open>Cron\<close>, \<open>Schedule\<close> (\<^verbatim>\<open>rainier-scheduler\<close>): the meaning of an expression, the next firing minute,
    one server per minute, and a pass that accounts for every due task.

  \<^bold>\<open>Conventions.\<close> Structures are records, enumerations datatypes, mutable objects are passed and
  returned; awaiting a future is calling the function, and a shared object behind a lock is the
  state it protects, so each operation is one atomic step. Instants are integers and the clock,
  random bytes and third-party packages are arguments, with what is relied on as named hypotheses.
  Loops are structural recursion or recursion with a measure; the scan of the wildcard matcher is
  a partial function whose result is proved to exist, the parser of PHP payloads is bounded by the
  nesting limit of the code, the search of the cron expression by the four years the code searches,
  and waiting for a lock carries fuel, one attempt for each polling interval of the waiting time
  being shown to be enough. Log lines and telemetry
  spans are left out throughout: nothing decides on them.

  \<^bold>\<open>Not modelled.\<close> Drivers that talk to a network service, a database or the file system (their
  ports are modelled where a component relies on them), procedural macros and code generation,
  start-up wiring, HTML and template rendering, streaming bodies and serde deserialisation, and the
  service container, whose promises are about Rust types. AEAD encryption and access tokens as JWTs
  are the work of third-party packages; the query builder and the object mapper build statements
  for \<^verbatim>\<open>sea_query\<close> and decide little beside it; account flows combine the guards, challenges,
  links and passkeys modelled here with mail and tables of the application; the configuration
  repository and the console are read at start-up. Of \<^verbatim>\<open>rainier-routing\<close> the resource routes are left out,
  which are tables of declarations over the inflection of \<^verbatim>\<open>rainier-support\<close>; of \<^verbatim>\<open>rainier-middleware\<close>
  compression, timeouts and the method override, which act on streams, timers and raw bodies;
  of \<^verbatim>\<open>rainier-compat\<close> everything but the serialisation format, since it decrypts what another
  framework wrote. \<^verbatim>\<open>rainier-features\<close> computes cargo features for a build.
\<close>

section \<open>Named URLs reach their routes\<close>

text \<open>
  C3. The URL of a named route leads to that route. In a router that compiled, take a named
  route whose pattern has no wildcard, and values for all of its parameters that are not empty
  and that its constraints allow. The URL generator made from the router gives a URL for the
  name; whatever the values hold, a request for the path of that URL that no earlier route
  takes is served by this route's pipeline, with exactly the given values as its parameters,
  and the query of the URL decodes to exactly the values left over.
\<close>

theorem named_url_reaches_its_route:
  assumes laws: "percent_laws enc dec"
    and router: "router_compile pick c rt = Inr cd" "router_ok rt"
    and cr: "cd_routes cd = xs @ cr # ys" "rt_name (cr_route cr) = Some n"
    and pattern: "no_wildcard (rt_segments (cr_route cr))" "distinct (param_names (cr_route cr))"
      "static_ok (rt_segments (cr_route cr))"
    and given: "\<forall>p \<in> set (param_names (cr_route cr)). value_ok (cr_route cr) (hm_of params) p"
      "\<forall>(k, v) \<in> set params. utf8_valid k \<and> utf8_valid v"
  shows "\<exists>url. url_route enc (from_routes (compiled_named_routes cd)) n params = Inr url
    \<and> (\<forall>rq s. rq_path rq = fst (split_url url) \<and> accepts (cr_route cr) (rq_method rq)
          \<and> (\<forall>x \<in> set xs. \<not> takes dec rq x) \<longrightarrow>
        (\<exists>m. (\<forall>p. hm_get p m = (if p \<in> set (param_names (cr_route cr)) then hm_get p (hm_of params) else None))
          \<and> dispatch dec valid cd rq s = pipeline_run (cr_pipeline cr)
              (rq\<lparr>rq_params := m, rq_matched := Some \<lparr>mr_name = Some n, mr_uri = rt_uri (cr_route cr),
                 mr_methods = rt_methods (cr_route cr)\<rparr>\<rparr>) s))
    \<and> (\<forall>k. map_of (parse_query dec (snd (split_url url))) k
          = (if k \<in> set (param_names (cr_route cr)) then None else hm_get k (hm_of params)))"
proof -
  let ?r = "cr_route cr"
  have "?r \<in> set (r_routes rt)" by (simp flip: compiled_routes [OF router(1)] add: cr(1))
  then have seg: "rt_segments ?r = compile (rt_uri ?r)"
    using router(2) by (simp add: router_ok_def list_all_iff route_ok_def)
  have names: "param_names ?r = seg_names (compile (rt_uri ?r))"
    by (simp add: param_names_def seg_names_def seg)
  have uri: "hm_get n (ug_routes (from_routes (compiled_named_routes cd))) = Some (rt_uri ?r)"
    using cr by (intro compiled_url [OF router(1)]) simp_all
  obtain url m where url: "url_route enc (from_routes (compiled_named_routes cd)) n params = Inr url"
    and m: "match_path dec ?r (fst (split_url url)) = Some m"
      "\<forall>p. hm_get p m = (if p \<in> set (param_names ?r) then hm_get p (hm_of params) else None)"
    and q: "\<forall>k. map_of (parse_query dec (snd (split_url url))) k
          = (if k \<in> set (param_names ?r) then None else hm_get k (hm_of params))"
    using url_route_leads_back [OF laws uri seg, of params] pattern given
    unfolding seg names by blast
  have "dispatch dec valid cd rq s = serve dec cr rq s \<and> serve dec cr rq s = pipeline_run (cr_pipeline cr)
              (rq\<lparr>rq_params := m, rq_matched := Some \<lparr>mr_name = Some n, mr_uri = rt_uri ?r,
                 mr_methods = rt_methods ?r\<rparr>\<rparr>) s"
    if "rq_path rq = fst (split_url url)" "accepts ?r (rq_method rq)" "\<forall>x \<in> set xs. \<not> takes dec rq x" for rq s
    using dispatch_reaches [OF cr(1) that(3), of m] that m(1) by (simp add: serve_def cr(2))
  then show ?thesis using url m(2) q by metis
qed

definition blog :: "(unit, nat) router" where
  "blog = router_get ''/posts/{post}'' (\<lambda>rq s. (s, response_new 200))
     (where_slug ''slug'' \<circ> route_named ''posts.show'') router_new"

definition blog_cr :: "(unit, nat) compiled_route" where
  "blog_cr = (let r = hd (r_routes blog) in
     \<lparr>cr_route = r, cr_pipeline = \<lparr>rp_stages = [], rp_destination = rt_handler r\<rparr>\<rparr>)"

theorem named_url_reaches_its_route_witness:
  "\<exists>url. url_route pct_encode (from_routes [(''posts.show'', ''/posts/{post}'')]) ''posts.show''
       [(''post'', ''a/b''), (''q'', ''x&admin=1'')] = Inr url
   \<and> (\<forall>k. map_of (parse_query pct_decode (snd (split_url url))) k = (if k = ''q'' then Some ''x&admin=1'' else None))"
proof -
  let ?params = "[(''post'', ''a/b''), (''q'', ''x&admin=1'')]"
  let ?cd = "\<lparr>cd_routes = [blog_cr], cd_fallback = None\<rparr>"
  have r: "rt_segments (cr_route blog_cr) = [Static ''posts'', Param ''post'']"
    "rt_name (cr_route blog_cr) = Some ''posts.show''" "rt_uri (cr_route blog_cr) = ''/posts/{post}''"
    "hm_get ''post'' (rt_constraints (cr_route blog_cr)) = None"
    by code_simp+
  have comp: "router_compile hd () blog = Inr ?cd"
    by (simp add: router_compile_def blog_def router_get_def add_erased_def router_new_def duplicated_Nil
        route_names_def map_filter_simps build_pipeline_def stack_resolve_def where_slug_def where_param_def
        route_named_def route_new_def stack_new_def Let_def blog_cr_def then_arc_def through_all_def
        pipeline_new_def)
  have ok: "router_ok blog"
    by (simp add: router_ok_def blog_def router_get_def add_erased_def router_new_def where_slug_def)
  have named: "compiled_named_routes ?cd = [(''posts.show'', ''/posts/{post}'')]"
    by (simp add: compiled_named_routes_def map_filter_simps r)
  have names: "param_names (cr_route blog_cr) = [''post'']" by (simp add: param_names_def r map_filter_simps)
  have get: "hm_get k (hm_of ?params)
      = (if k = ''post'' then Some ''a/b'' else if k = ''q'' then Some ''x&admin=1'' else None)" for k
    by (simp add: hm_get_hm_of)
  have "\<forall>p \<in> set (param_names (cr_route blog_cr)). value_ok (cr_route blog_cr) (hm_of ?params) p"
    by (simp add: names value_ok_def get route_allows_def r)
  moreover have "no_wildcard (rt_segments (cr_route blog_cr))" "static_ok (rt_segments (cr_route blog_cr))"
    by (simp_all add: r no_wildcard_def static_ok_def)
  moreover have "distinct (param_names (cr_route blog_cr))" "\<forall>(k, v) \<in> set ?params. utf8_valid k \<and> utf8_valid v"
    by (simp_all add: names)
  ultimately obtain url where "url_route pct_encode (from_routes (compiled_named_routes ?cd)) ''posts.show'' ?params = Inr url"
    "\<forall>k. map_of (parse_query pct_decode (snd (split_url url))) k
       = (if k \<in> set (param_names (cr_route blog_cr)) then None else hm_get k (hm_of ?params))"
    using named_url_reaches_its_route [OF pct_laws comp ok, of "[]" blog_cr "[]" "''posts.show''" ?params] r(2)
    by (simp only: compiled_router.simps append_Nil simp_thms) blast
  then show ?thesis unfolding named names by (auto simp: get)
qed

end
